(* ===== verification/Goq_Prelude.thy ===== *)
theory Goq_Prelude
  imports Main "HOL-Library.Word" "HOL-Library.AList" "HOL-Library.Multiset"
    "HOL-Library.List_Lexorder" "HOL-Library.Char_ord" "HOL-Library.Sublist"
    "HOL-Library.Product_Lexorder"
begin

text \<open>
  The part of Go and of its standard library that the program uses, and the generic
  lemmas the components share.

  \<^item> \<^emph>\<open>Integers.\<close> \<open>uint8\<close> and \<open>uint32\<close> are words. \<open>int64\<close> (and with it \<open>time.Duration\<close>,
    in nanoseconds) is \<open>int\<close>, with \<open>wrap64\<close> written wherever an operation can overflow.
  \<^item> \<^emph>\<open>Time.\<close> A \<open>time.Time\<close> is the instant it denotes, in nanoseconds since the Unix epoch;
    \<open>UTC()\<close> only changes the location used for printing, so it is the identity here. The
    zero \<open>time.Time\<close> is the first of January of year 1.
  \<^item> \<^emph>\<open>Floats.\<close> \<open>fl64\<close> rounds an integer to the nearest \<open>float64\<close> (53 bit significand,
    ties to even).
  \<^item> \<^emph>\<open>Strings.\<close> A Go string is its list of bytes. \<open>strings.TrimSpace\<close> removes the UTF-8
    encodings of the Unicode white space; \<open>strings.ToLower\<close> is exact on the runes whose lower
    case is ASCII, which is all its callers can see (each compares the result with ASCII text).
  \<^item> \<^emph>\<open>Maps.\<close> A Go map is an association list with distinct keys; the order of the list is the
    order in which a \<open>range\<close> loop happens to visit it.
\<close>

named_theorems domain_simps \<open>unfolding rules of the operations of the domain model\<close>
named_theorems inv_intros \<open>preservation of the well-formedness invariants\<close>

section \<open>Machine integers\<close>

type_synonym uint8 = "8 word"
type_synonym uint32 = "32 word"
type_synonym duration = int
type_synonym time = int

definition wrap64 :: "int \<Rightarrow> int" where
  "wrap64 x = (x + 2 ^ 63) mod 2 ^ 64 - 2 ^ 63"

lemma wrap64_range: "- (2 ^ 63) \<le> wrap64 x" "wrap64 x < 2 ^ 63"
  by (simp_all add: wrap64_def)

lemma wrap64_id [simp]:
  assumes "- (2 ^ 63) \<le> x" and "x < 2 ^ 63"
  shows "wrap64 x = x"
  using assms by (simp add: wrap64_def mod_pos_pos_trivial)

lemma word_one_le_iff: "(1 :: 'a :: len word) \<le> w \<longleftrightarrow> w \<noteq> 0"
  by (simp add: word_le_nat_alt Suc_le_eq unat_gt_0)

text \<open>\<open>time.Time.Sub\<close> saturates instead of wrapping.\<close>

definition sat64 :: "int \<Rightarrow> int" where
  "sat64 x = max (- (2 ^ 63)) (min (2 ^ 63 - 1) x)"

definition nanosecond :: duration where "nanosecond = 1"
definition millisecond :: duration where "millisecond = 1000000"
definition second :: duration where "second = 1000000000"
definition minute :: duration where "minute = 60 * second"
definition hour :: duration where "hour = 60 * minute"

lemmas duration_units = nanosecond_def millisecond_def second_def minute_def hour_def

definition zero_time :: time where
  "zero_time = - 62135596800 * 1000000000"

definition time_IsZero :: "time \<Rightarrow> bool" where
  "time_IsZero t \<longleftrightarrow> t = zero_time"

section \<open>Rounding to float64\<close>

fun bit_length :: "nat \<Rightarrow> nat" where
  "bit_length n = (if n = 0 then 0 else Suc (bit_length (n div 2)))"

declare bit_length.simps [simp del]

lemma bit_length_0 [simp]: "bit_length 0 = 0"
  by (simp add: bit_length.simps)

lemma less_two_power_bit_length: "n < 2 ^ bit_length n"
proof (induction n rule: bit_length.induct)
  case (1 n)
  show ?case
  proof (cases "n = 0")
    case False
    with 1 have "n div 2 < 2 ^ bit_length (n div 2)" by simp
    then have "n < 2 * 2 ^ bit_length (n div 2)" by linarith
    with False show ?thesis by (simp add: bit_length.simps [of n])
  qed simp
qed

lemma bit_length_le_iff: "bit_length n \<le> k \<longleftrightarrow> n < 2 ^ k"
proof (induction n arbitrary: k rule: bit_length.induct)
  case (1 n)
  show ?case
  proof (cases "n = 0")
    case False
    show ?thesis
    proof (cases k)
      case 0
      with False show ?thesis by (simp add: bit_length.simps [of n])
    next
      case (Suc l)
      with False "1.IH" [OF False, of l] show ?thesis
        by (auto simp: bit_length.simps [of n])
    qed
  qed simp
qed

lemma bit_length_mono: "m \<le> n \<Longrightarrow> bit_length m \<le> bit_length n"
  by (meson bit_length_le_iff le_less_trans less_two_power_bit_length)

lemma two_power_bit_length_le:
  assumes "0 < n"
  shows "2 ^ (bit_length n - 1) \<le> n"
proof (rule ccontr)
  assume "\<not> ?thesis"
  then have "bit_length n \<le> bit_length n - 1"
    by (simp add: bit_length_le_iff)
  with assms show False by (simp add: bit_length.simps [of n])
qed

definition round_half_even :: "nat \<Rightarrow> nat \<Rightarrow> nat" where
  "round_half_even m d =
     (let q = m div d; r = m mod d
      in if 2 * r < d \<or> (2 * r = d \<and> even q) then q else q + 1)"

lemma round_half_even_exact [simp]: "0 < d \<Longrightarrow> round_half_even (q * d) d = q"
  by (simp add: round_half_even_def)

lemma round_half_even_mono:
  assumes "m \<le> n" and "0 < d"
  shows "round_half_even m d \<le> round_half_even n d"
proof (cases "m div d = n div d")
  case True
  with assms(1) have "m mod d \<le> n mod d"
    by (metis add_le_cancel_left mult_div_mod_eq)
  with True show ?thesis by (auto simp: round_half_even_def Let_def)
next
  case False
  with assms(1) have "m div d + 1 \<le> n div d"
    by (metis Suc_eq_plus1 Suc_leI div_le_mono le_neq_implies_less)
  then show ?thesis by (auto simp: round_half_even_def Let_def)
qed

definition flN :: "nat \<Rightarrow> nat" where
  "flN m = (let k = bit_length m - 53 in round_half_even m (2 ^ k) * 2 ^ k)"

definition fl64 :: "int \<Rightarrow> int" where
  "fl64 n = (if n < 0 then - int (flN (nat (- n))) else int (flN (nat n)))"

lemma flN_exact:
  assumes "q < 2 ^ 53"
  shows "flN (q * 2 ^ k) = q * 2 ^ k"
proof -
  let ?K = "bit_length (q * 2 ^ k) - 53"
  from assms have "q * 2 ^ k < 2 ^ 53 * 2 ^ k" by simp
  then have "q * 2 ^ k < 2 ^ (53 + k)" by (simp only: power_add)
  then have "bit_length (q * 2 ^ k) \<le> 53 + k" by (simp only: bit_length_le_iff)
  then have K: "?K \<le> k" by simp
  then have "q * 2 ^ k = (q * 2 ^ (k - ?K)) * 2 ^ ?K"
    by (simp add: mult.assoc flip: power_add)
  then show ?thesis
    by (metis flN_def round_half_even_exact zero_less_numeral zero_less_power)
qed

lemma flN_bounds:
  assumes "0 < m"
  shows "2 ^ (bit_length m - 1) \<le> flN m" and "flN m \<le> 2 ^ bit_length m"
proof -
  let ?b = "bit_length m" and ?k = "bit_length m - 53"
  have b: "0 < ?b" using assms by (simp add: bit_length.simps [of m])
  have kb: "?k \<le> ?b - 1" "?k \<le> ?b" by auto
  have lo: "(2::nat) ^ (?b - 1) = 2 ^ (?b - 1 - ?k) * 2 ^ ?k"
    using kb(1) by (simp flip: power_add)
  have hi: "(2::nat) ^ ?b = 2 ^ (?b - ?k) * 2 ^ ?k"
    using kb(2) by (simp flip: power_add)
  have "round_half_even (2 ^ (?b - 1 - ?k) * 2 ^ ?k) (2 ^ ?k) \<le> round_half_even m (2 ^ ?k)"
    using two_power_bit_length_le [OF assms] unfolding lo by (intro round_half_even_mono) auto
  then show "2 ^ (?b - 1) \<le> flN m"
    unfolding lo by (simp add: flN_def Let_def)
  have "round_half_even m (2 ^ ?k) \<le> round_half_even (2 ^ (?b - ?k) * 2 ^ ?k) (2 ^ ?k)"
    using less_two_power_bit_length [of m] unfolding hi by (intro round_half_even_mono) auto
  then show "flN m \<le> 2 ^ ?b"
    unfolding hi by (simp add: flN_def Let_def)
qed

lemma flN_mono:
  assumes "m \<le> n"
  shows "flN m \<le> flN n"
proof (cases "m = 0 \<or> bit_length m - 53 = bit_length n - 53")
  case True
  then show ?thesis
  proof
    assume "m = 0"
    then show ?thesis by (simp add: flN_def round_half_even_def)
  next
    assume "bit_length m - 53 = bit_length n - 53"
    with assms show ?thesis by (simp add: flN_def Let_def round_half_even_mono)
  qed
next
  case False
  have "bit_length m \<le> bit_length n" using assms by (rule bit_length_mono)
  with False have lt: "bit_length m \<le> bit_length n - 1" by auto
  have "flN m \<le> 2 ^ bit_length m" using False by (intro flN_bounds(2)) simp
  also have "\<dots> \<le> 2 ^ (bit_length n - 1)" using lt by simp
  also have "\<dots> \<le> flN n" using False assms by (intro flN_bounds(1)) simp
  finally show ?thesis .
qed

lemma fl64_nonneg: "0 \<le> n \<Longrightarrow> 0 \<le> fl64 n"
  by (simp add: fl64_def)

lemma fl64_mono: "0 \<le> m \<Longrightarrow> m \<le> n \<Longrightarrow> fl64 m \<le> fl64 n"
  by (simp add: fl64_def flN_mono nat_mono)

lemma fl64_exact:
  assumes "0 \<le> q" and "q < 2 ^ 53"
  shows "fl64 (q * 2 ^ k) = q * 2 ^ k"
proof -
  have "nat q < 2 ^ 53" using assms by (simp add: nat_less_iff)
  moreover have "nat (q * 2 ^ k) = nat q * 2 ^ k"
    using assms(1) by (simp add: nat_mult_distrib nat_power_eq)
  moreover have "\<not> q * 2 ^ k < 0" using assms(1) by (simp add: not_less)
  ultimately show ?thesis
    using assms(1) flN_exact [of "nat q" k] unfolding fl64_def by simp
qed

lemma fl64_small [simp]: "0 \<le> q \<Longrightarrow> q < 2 ^ 53 \<Longrightarrow> fl64 q = q"
  using fl64_exact [of q 0] by simp

lemma fl64_two_power: "fl64 (2 ^ k) = 2 ^ k"
  using fl64_exact [of 1 k] by simp


section \<open>Strings\<close>

abbreviation byte :: "char \<Rightarrow> nat" where
  "byte c \<equiv> of_char c"

text \<open>The UTF-8 encodings of the runes for which \<open>unicode.IsSpace\<close> holds.\<close>

definition space_runes :: "string list" where
  "space_runes =
     [[CHR 0x09], [CHR 0x0A], [CHR 0x0B], [CHR 0x0C], [CHR 0x0D], [CHR 0x20],
      [CHR 0xC2, CHR 0x85], [CHR 0xC2, CHR 0xA0], [CHR 0xE1, CHR 0x9A, CHR 0x80]] @
     map (\<lambda>b. [CHR 0xE2, CHR 0x80, char_of b])
       [0x80, 0x81, 0x82, 0x83, 0x84, 0x85, 0x86, 0x87, 0x88, 0x89, 0x8A :: nat] @
     [[CHR 0xE2, CHR 0x80, CHR 0xA8], [CHR 0xE2, CHR 0x80, CHR 0xA9],
      [CHR 0xE2, CHR 0x80, CHR 0xAF], [CHR 0xE2, CHR 0x81, CHR 0x9F],
      [CHR 0xE3, CHR 0x80, CHR 0x80]]"

definition starts_with :: "string \<Rightarrow> string \<Rightarrow> bool" where
  "starts_with q s \<longleftrightarrow> q \<noteq> [] \<and> take (length q) s = q"

function strip_prefixes :: "string list \<Rightarrow> string \<Rightarrow> string" where
  "strip_prefixes qs s =
     (case find (\<lambda>q. starts_with q s) qs of
        None \<Rightarrow> s
      | Some q \<Rightarrow> strip_prefixes qs (drop (length q) s))"
  by pat_completeness auto
termination
proof (relation "measure (\<lambda>(qs, s). length s)", goal_cases)
  case (2 qs s q)
  then have "starts_with q s" by (auto simp: find_Some_iff)
  then have "q \<noteq> []" "length q \<le> length s"
    unfolding starts_with_def by (auto simp: min_def dest!: arg_cong [where f = length] split: if_splits)
  then show ?case by (cases s) auto
qed simp

declare strip_prefixes.simps [simp del]

definition TrimSpace :: "string \<Rightarrow> string" where
  "TrimSpace s =
     rev (strip_prefixes (map rev space_runes) (rev (strip_prefixes space_runes s)))"

lemma strip_prefixes_none:
  "q \<in> set qs \<Longrightarrow> \<not> starts_with q (strip_prefixes qs s)"
proof (induction qs s rule: strip_prefixes.induct)
  case (1 qs s)
  show ?case
  proof (cases "find (\<lambda>q. starts_with q s) qs")
    case None
    then have "strip_prefixes qs s = s" by (simp add: strip_prefixes.simps [of qs s])
    with None "1.prems" show ?thesis by (auto simp: find_None_iff)
  next
    case (Some q')
    with "1.IH" "1.prems" show ?thesis by (simp add: strip_prefixes.simps [of qs s])
  qed
qed

lemma strip_prefixes_id:
  assumes "\<And>q. q \<in> set qs \<Longrightarrow> \<not> starts_with q s"
  shows "strip_prefixes qs s = s"
proof -
  have "find (\<lambda>q. starts_with q s) qs = None" using assms by (auto simp: find_None_iff)
  then show ?thesis by (simp add: strip_prefixes.simps [of qs s])
qed

lemma strip_prefixes_suffix: "\<exists>p. s = p @ strip_prefixes qs s"
proof (induction qs s rule: strip_prefixes.induct)
  case (1 qs s)
  show ?case
  proof (cases "find (\<lambda>q. starts_with q s) qs")
    case None
    then show ?thesis by (simp add: strip_prefixes.simps [of qs s])
  next
    case (Some q)
    with "1.IH" obtain p where "drop (length q) s = p @ strip_prefixes qs (drop (length q) s)"
      by blast
    with Some have "s = (take (length q) s @ p) @ strip_prefixes qs s"
      by (metis append.assoc append_take_drop_id option.simps(5) strip_prefixes.simps)
    then show ?thesis by blast
  qed
qed

lemma starts_with_append: "starts_with q s \<Longrightarrow> starts_with q (s @ t)"
  by (auto simp: starts_with_def min_def dest: arg_cong [where f = length] split: if_splits)

lemma TrimSpace_idem [simp]: "TrimSpace (TrimSpace s) = TrimSpace s"
proof -
  define l where "l = strip_prefixes space_runes s"
  define r where "r = strip_prefixes (map rev space_runes) (rev l)"
  have T: "TrimSpace s = rev r" by (simp add: TrimSpace_def l_def r_def)
  obtain p where "rev l = p @ r" unfolding r_def using strip_prefixes_suffix by blast
  then have "l = rev r @ rev p" by (metis rev_append rev_rev_ident)
  then have "strip_prefixes space_runes (rev r) = rev r"
    using strip_prefixes_none [of _ space_runes s] starts_with_append [of _ "rev r" "rev p"]
    by (intro strip_prefixes_id) (auto simp: l_def)
  moreover have "strip_prefixes (map rev space_runes) r = r"
    unfolding r_def by (intro strip_prefixes_id strip_prefixes_none)
  ultimately show ?thesis unfolding T by (simp add: TrimSpace_def)
qed

text \<open>A string without a byte that can start or end a white space rune is not changed.\<close>

definition space_free :: "char \<Rightarrow> bool" where
  "space_free c \<longleftrightarrow> 33 \<le> byte c \<and> byte c < 128"

lemma space_runes_free: "q \<in> set space_runes \<Longrightarrow> q \<noteq> [] \<and> \<not> space_free (hd q) \<and> \<not> space_free (last q)"
  by (auto simp: space_runes_def space_free_def)

lemma starts_with_hd: "starts_with q s \<Longrightarrow> s \<noteq> [] \<and> hd q = hd s"
  by (cases s; cases q) (auto simp: starts_with_def)

lemma TrimSpace_id: "list_all space_free s \<Longrightarrow> TrimSpace s = s"
proof -
  assume s: "list_all space_free s"
  have "strip_prefixes space_runes s = s"
  proof (rule strip_prefixes_id)
    fix q assume "q \<in> set space_runes"
    then show "\<not> starts_with q s"
      using s space_runes_free [of q] starts_with_hd [of q s] by (cases s) auto
  qed
  moreover have "strip_prefixes (map rev space_runes) (rev s) = rev s"
  proof (rule strip_prefixes_id)
    fix q assume "q \<in> set (map rev space_runes)"
    then show "\<not> starts_with q (rev s)"
      using s space_runes_free [of "rev q"] starts_with_hd [of q "rev s"]
      by (cases s rule: rev_cases) (auto simp: hd_rev last_rev)
  qed
  ultimately show ?thesis by (simp add: TrimSpace_def)
qed

text \<open>
  Besides the ASCII capitals, two runes have an ASCII lower case: U+0130 (\<open>i\<close>) and the Kelvin
  sign U+212A (\<open>k\<close>). The other bytes are kept; a rune outside ASCII stays outside ASCII.
\<close>

definition lower_byte :: "char \<Rightarrow> char" where
  "lower_byte c = (if 65 \<le> byte c \<and> byte c \<le> 90 then char_of (byte c + 32) else c)"

function ToLower :: "string \<Rightarrow> string" where
  "ToLower s =
     (case s of
        [] \<Rightarrow> []
      | c # cs \<Rightarrow>
          if starts_with [CHR 0xC4, CHR 0xB0] s then CHR ''i'' # ToLower (drop 2 s)
          else if starts_with [CHR 0xE2, CHR 0x84, CHR 0xAA] s then CHR ''k'' # ToLower (drop 3 s)
          else lower_byte c # ToLower cs)"
  by pat_completeness auto
termination by (relation "measure length") auto

declare ToLower.simps [simp del]

definition lower_stable :: "char \<Rightarrow> bool" where
  "lower_stable c \<longleftrightarrow> byte c < 128 \<and> \<not> (65 \<le> byte c \<and> byte c \<le> 90)"

lemma ToLower_id: "list_all lower_stable s \<Longrightarrow> ToLower s = s"
proof (induction s)
  case Nil
  then show ?case by (simp add: ToLower.simps)
next
  case (Cons c s)
  then have "\<not> starts_with [CHR 0xC4, CHR 0xB0] (c # s)"
    "\<not> starts_with [CHR 0xE2, CHR 0x84, CHR 0xAA] (c # s)"
    by (auto simp: starts_with_def lower_stable_def)
  moreover have "lower_byte c = c"
    using Cons.prems unfolding lower_byte_def lower_stable_def by auto
  ultimately show ?case using Cons by (simp add: ToLower.simps [of "c # s"])
qed

definition ContainsAny :: "string \<Rightarrow> string \<Rightarrow> bool" where
  "ContainsAny s chars \<longleftrightarrow> list_ex (\<lambda>c. c \<in> set chars) s"

definition is_digit :: "char \<Rightarrow> bool" where
  "is_digit c \<longleftrightarrow> 48 \<le> byte c \<and> byte c \<le> 57"

definition is_lower :: "char \<Rightarrow> bool" where
  "is_lower c \<longleftrightarrow> 97 \<le> byte c \<and> byte c \<le> 122"

definition is_upper :: "char \<Rightarrow> bool" where
  "is_upper c \<longleftrightarrow> 65 \<le> byte c \<and> byte c \<le> 90"

text \<open>The regular expression \<open>^[h][t]{0,n}$\<close> for two character classes.\<close>

definition matches_name :: "(char \<Rightarrow> bool) \<Rightarrow> (char \<Rightarrow> bool) \<Rightarrow> nat \<Rightarrow> string \<Rightarrow> bool" where
  "matches_name h t n s =
     (case s of [] \<Rightarrow> False | c # cs \<Rightarrow> h c \<and> list_all t cs \<and> length cs \<le> n)"

lemma matches_name_all:
  "matches_name h t n s \<Longrightarrow> (\<And>c. h c \<Longrightarrow> P c) \<Longrightarrow> (\<And>c. t c \<Longrightarrow> P c) \<Longrightarrow> list_all P s"
  by (auto simp: matches_name_def list_all_iff split: list.splits)

lemma matches_name_length: "matches_name h t n s \<Longrightarrow> s \<noteq> [] \<and> length s \<le> Suc n"
  by (auto simp: matches_name_def split: list.splits)

text \<open>Decimal rendering of a natural number, as \<open>%d\<close> and \<open>strconv.FormatUint\<close> do.\<close>

fun show_nat :: "nat \<Rightarrow> string" where
  "show_nat n =
     (if n < 10 then [char_of (48 + n)] else show_nat (n div 10) @ [char_of (48 + n mod 10)])"

declare show_nat.simps [simp del]

lemma show_nat_nonempty [simp]: "show_nat n \<noteq> []"
  by (simp add: show_nat.simps [of n])

section \<open>Maps as association lists\<close>

text \<open>
  \<open>AList.update\<close> and \<open>AList.delete\<close> are Go's map assignment and \<open>delete\<close>; \<open>map_of\<close> is the
  lookup. The lemmas below are the ones the proofs about stores use.
\<close>

abbreviation keys_distinct :: "('k \<times> 'v) list \<Rightarrow> bool" where
  "keys_distinct m \<equiv> distinct (map fst m)"

lemma keys_distinct_update [inv_intros]: "keys_distinct m \<Longrightarrow> keys_distinct (AList.update k v m)"
  by (rule distinct_update)

lemma keys_distinct_delete [inv_intros]: "keys_distinct m \<Longrightarrow> keys_distinct (AList.delete k m)"
  by (rule distinct_delete)

lemma set_update_iff:
  "keys_distinct m \<Longrightarrow>
     (k', v') \<in> set (AList.update k v m) \<longleftrightarrow> (if k' = k then v' = v else (k', v') \<in> set m)"
  using map_of_eq_Some_iff [OF distinct_update [of m k v], of k' v'] map_of_eq_Some_iff [of m k' v']
  by (auto simp: update_conv')

lemma map_of_map_snd:
  "map_of (map (\<lambda>(k, v). (k, f k v)) m) k = map_option (f k) (map_of m k)"
  by (induction m) auto

section \<open>Sorting\<close>

text \<open>
  \<open>sort.SliceStable\<close> with a comparison function, as insertion sort. When the comparison is that of
  a key in a linear order, the result is the library's \<open>sort_key\<close>.
\<close>

fun insert_by :: "('a \<Rightarrow> 'a \<Rightarrow> bool) \<Rightarrow> 'a \<Rightarrow> 'a list \<Rightarrow> 'a list" where
  "insert_by lt x [] = [x]"
| "insert_by lt x (y # ys) = (if lt y x then y # insert_by lt x ys else x # y # ys)"

definition SliceStable :: "('a \<Rightarrow> 'a \<Rightarrow> bool) \<Rightarrow> 'a list \<Rightarrow> 'a list" where
  "SliceStable lt xs = foldr (insert_by lt) xs []"

lemma insert_by_key:
  fixes key :: "'a \<Rightarrow> 'k :: linorder"
  assumes "\<And>a b. lt a b \<longleftrightarrow> key a < key b"
  shows "insert_by lt x ys = insort_key key x ys"
  by (induction ys) (auto simp: assms)

lemma SliceStable_key:
  fixes key :: "'a \<Rightarrow> 'k :: linorder"
  assumes "\<And>a b. lt a b \<longleftrightarrow> key a < key b"
  shows "SliceStable lt xs = sort_key key xs"
proof -
  have "insert_by lt = insort_key key" by (intro ext insert_by_key assms)
  then show ?thesis by (simp add: SliceStable_def sort_key_def)
qed

text \<open>The loop \<open>for _, x := range xs { if seen[x] { continue }; ... }\<close> that keeps first occurrences.\<close>

fun keep_first :: "'a set \<Rightarrow> 'a list \<Rightarrow> 'a list" where
  "keep_first seen [] = []"
| "keep_first seen (x # xs) =
     (if x \<in> seen then keep_first seen xs else x # keep_first (insert x seen) xs)"

lemma set_keep_first: "set (keep_first seen xs) = set xs - seen"
  by (induction xs arbitrary: seen) auto

lemma distinct_keep_first: "distinct (keep_first seen xs)"
  by (induction xs arbitrary: seen) (auto simp: set_keep_first)

lemma keep_first_append:
  "keep_first seen (xs @ ys) = keep_first seen xs @ keep_first (seen \<union> set xs) ys"
  by (induction xs arbitrary: seen) (auto simp: insert_absorb)

lemma keep_first_replicate:
  "keep_first seen (replicate n x) = (if n = 0 \<or> x \<in> seen then [] else [x])"
  by (induction n arbitrary: seen) auto

text \<open>Expanding every entry at least once and keeping first occurrences gives the entries back.\<close>

lemma keep_first_expand:
  assumes "distinct (map f xs)" and "\<And>x. x \<in> set xs \<Longrightarrow> 0 < w x" and "f ` set xs \<inter> seen = {}"
  shows "keep_first seen (concat (map (\<lambda>x. replicate (w x) (f x)) xs)) = map f xs"
  using assms
proof (induction xs arbitrary: seen)
  case (Cons x xs)
  have "keep_first (seen \<union> set (replicate (w x) (f x))) (concat (map (\<lambda>x. replicate (w x) (f x)) xs))
      = map f xs"
    using Cons.prems by (intro Cons.IH) auto
  with Cons.prems show ?case by (auto simp: keep_first_append keep_first_replicate)
qed simp

end
