(* ===== verification/App_Errors.thy ===== *)
theory App_Errors
  imports Goq_Prelude
begin

text \<open>
  The error type that crosses the layers (\<open>src/pkg/common/errors/errors.go\<close>), the error codes of
  the two aggregates, and the mapping to HTTP statuses
  (\<open>src/pkg/api/middleware/error_handler.go\<close>).

  A Go \<open>error\<close> is a \<open>go_error\<close>: an \<open>*AppError\<close> with its optional cause, or an error of another
  package, of which the code uses the text and what it unwraps to. A function that returns a
  value or an error has a result in \<open>go_error + 'a\<close>, the error on the left.
\<close>

datatype Kind =
  KindInternal | KindInvalidArgument | KindNotFound | KindConflict | KindUnavailable

definition Kind_String :: "Kind \<Rightarrow> string" where
  "Kind_String k =
     (case k of
        KindInvalidArgument \<Rightarrow> ''invalid_argument''
      | KindNotFound \<Rightarrow> ''not_found''
      | KindConflict \<Rightarrow> ''conflict''
      | KindUnavailable \<Rightarrow> ''unavailable''
      | KindInternal \<Rightarrow> ''internal'')"

datatype go_error =
    AppError Kind string string "go_error option"
  | ForeignError string "go_error option"

type_synonym 'a result = "go_error + 'a"

primrec Error_string :: "go_error \<Rightarrow> string" where
  "Error_string (AppError k code msg c) =
     (case map_option Error_string c of
        Some text \<Rightarrow> code @ '': '' @ msg @ '': '' @ text
      | None \<Rightarrow> code @ '': '' @ msg)"
| "Error_string (ForeignError text c) = text"

primrec Unwrap :: "go_error \<Rightarrow> go_error option" where
  "Unwrap (AppError k code msg c) = c"
| "Unwrap (ForeignError text c) = c"

definition New :: "Kind \<Rightarrow> string \<Rightarrow> string \<Rightarrow> go_error" where
  "New k code msg = AppError k code msg None"

definition Wrap :: "Kind \<Rightarrow> string \<Rightarrow> string \<Rightarrow> go_error option \<Rightarrow> go_error" where
  "Wrap k code msg c = AppError k code msg c"

definition Invalid :: "string \<Rightarrow> string \<Rightarrow> go_error" where
  "Invalid code msg = New KindInvalidArgument code msg"

definition NotFound :: "string \<Rightarrow> string \<Rightarrow> go_error" where
  "NotFound code msg = New KindNotFound code msg"

definition Conflict :: "string \<Rightarrow> string \<Rightarrow> go_error" where
  "Conflict code msg = New KindConflict code msg"

definition Internal :: "string \<Rightarrow> string \<Rightarrow> go_error option \<Rightarrow> go_error" where
  "Internal code msg c = Wrap KindInternal code msg c"

lemmas error_defs = New_def Wrap_def Invalid_def NotFound_def Conflict_def Internal_def

text \<open>
  \<open>errors.As\<close> walks the chain of wrapped errors and returns the first \<open>*AppError\<close>, here as its
  kind, code and message.
\<close>

fun errors_As :: "go_error \<Rightarrow> (Kind \<times> string \<times> string) option" where
  "errors_As (AppError k code msg c) = Some (k, code, msg)"
| "errors_As (ForeignError text None) = None"
| "errors_As (ForeignError text (Some e)) = errors_As e"

definition KindOf :: "go_error \<Rightarrow> Kind" where
  "KindOf e = (case errors_As e of Some (k, code, msg) \<Rightarrow> k | None \<Rightarrow> KindInternal)"

lemma KindOf_constructors [simp]:
  "KindOf (Invalid c m) = KindInvalidArgument" "KindOf (NotFound c m) = KindNotFound"
  "KindOf (Conflict c m) = KindConflict" "KindOf (Internal c m e) = KindInternal"
  "KindOf (New k c m) = k" "KindOf (AppError k c m ce) = k"
  by (simp_all add: KindOf_def error_defs)

section \<open>Error codes\<close>

abbreviation "EInvalidJobID \<equiv> ''invalid_job_id''"
abbreviation "EInvalidTaskType \<equiv> ''invalid_task_type''"
abbreviation "EInvalidQueueName \<equiv> ''invalid_queue_name''"
abbreviation "EInvalidPriority \<equiv> ''invalid_priority''"
abbreviation "EInvalidJobState \<equiv> ''invalid_job_state''"
abbreviation "EInvalidPayload \<equiv> ''invalid_payload''"
abbreviation "EInvalidRetryPolicy \<equiv> ''invalid_retry_policy''"
abbreviation "EInvalidTimeout \<equiv> ''invalid_timeout''"
abbreviation "EInvalidScheduleTime \<equiv> ''invalid_schedule_time''"
abbreviation "EInvalidIdempotencyKey \<equiv> ''invalid_idempotency_key''"
abbreviation "EIllegalStateTransition \<equiv> ''illegal_state_transition''"
abbreviation "EJobNotFound \<equiv> ''job_not_found''"
abbreviation "EDuplicateJob \<equiv> ''duplicate_job''"
abbreviation "EJobNotRetryable \<equiv> ''job_not_retryable''"
abbreviation "EHandlerNotFound \<equiv> ''handler_not_found''"
abbreviation "EJobTimeout \<equiv> ''job_timeout''"
abbreviation "EHandlerPanic \<equiv> ''handler_panic''"
abbreviation "EInvalidQueueWeight \<equiv> ''invalid_queue_weight''"
abbreviation "EQueueNotFound \<equiv> ''queue_not_found''"

text \<open>A run-time panic of Go, as a slice out of range raises it; it is kept apart from error values.\<close>

definition go_panic :: "string \<Rightarrow> go_error" where
  "go_panic msg = ForeignError (''panic: runtime error: '' @ msg) None"

section \<open>Sequencing of fallible calls\<close>

text \<open>
  \<open>andThen r f\<close> is the Go idiom \<open>x, err := r; if err != nil { return err }\<close> followed by \<open>f x\<close>;
  \<open>andThenS\<close> is the same for calls that also change the state.
\<close>

definition andThen :: "'a result \<Rightarrow> ('a \<Rightarrow> 'b result) \<Rightarrow> 'b result" where
  "andThen r f = (case r of Inl e \<Rightarrow> Inl e | Inr x \<Rightarrow> f x)"

lemma andThen_simps [simp]: "andThen (Inl e) f = Inl e" "andThen (Inr x) f = f x"
  by (simp_all add: andThen_def)

lemma andThen_eq_Inr:
  "andThen r f = Inr y \<longleftrightarrow> (\<exists>x. r = Inr x \<and> f x = Inr y)"
  by (cases r) auto

lemma andThen_eq_Inl:
  "andThen r f = Inl e \<longleftrightarrow> r = Inl e \<or> (\<exists>x. r = Inr x \<and> f x = Inl e)"
  by (cases r) auto

text \<open>A chain of checks that each return an error, read from a successful result.\<close>

lemma check_eq_Inr [simp]: "(if c then Inl e else r) = Inr x \<longleftrightarrow> \<not> c \<and> r = Inr x"
  by simp

type_synonym ('s, 'a) call = "'s \<Rightarrow> 's \<times> 'a result"

definition andThenS :: "('s, 'a) call \<Rightarrow> ('a \<Rightarrow> ('s, 'b) call) \<Rightarrow> ('s, 'b) call" where
  "andThenS m f s =
     (case m s of (s', Inl e) \<Rightarrow> (s', Inl e) | (s', Inr x) \<Rightarrow> f x s')"

definition returnS :: "'a \<Rightarrow> ('s, 'a) call" where
  "returnS x s = (s, Inr x)"

definition failS :: "go_error \<Rightarrow> ('s, 'a) call" where
  "failS e s = (s, Inl e)"

definition liftS :: "'a result \<Rightarrow> ('s, 'a) call" where
  "liftS r s = (s, r)"

lemma andThenS_simps:
  "m s = (s', Inl e) \<Longrightarrow> andThenS m f s = (s', Inl e)"
  "m s = (s', Inr x) \<Longrightarrow> andThenS m f s = f x s'"
  by (simp_all add: andThenS_def)

lemma andThenS_eq_Inr:
  "andThenS m f s = (s', Inr y) \<longleftrightarrow> (\<exists>t x. m s = (t, Inr x) \<and> f x t = (s', Inr y))"
  by (auto simp: andThenS_def split: prod.splits sum.splits)

lemma andThenS_eq_Inl:
  "andThenS m f s = (s', Inl e) \<longleftrightarrow>
     m s = (s', Inl e) \<or> (\<exists>t x. m s = (t, Inr x) \<and> f x t = (s', Inl e))"
  by (auto simp: andThenS_def split: prod.splits sum.splits)

lemma stateless_simps [simp]:
  "returnS x s = (s, Inr x)" "failS e s = (s, Inl e)" "liftS r s = (s, r)"
  by (simp_all add: returnS_def failS_def liftS_def)

lemma andThenS_liftS [simp]:
  "andThenS (liftS (Inr x)) f s = f x s" "andThenS (liftS (Inl e)) f s = (s, Inl e)"
  by (simp_all add: andThenS_def)

section \<open>HTTP statuses\<close>

record ErrorRes =
  er_Code :: string
  er_Message :: string

definition statusFor :: "Kind \<Rightarrow> int" where
  "statusFor k =
     (case k of
        KindInvalidArgument \<Rightarrow> 400
      | KindNotFound \<Rightarrow> 404
      | KindConflict \<Rightarrow> 409
      | KindUnavailable \<Rightarrow> 503
      | KindInternal \<Rightarrow> 500)"

text \<open>What \<open>ErrorHandler\<close> writes when the handler recorded errors: the last one decides.\<close>

definition ErrorHandler :: "go_error list \<Rightarrow> (int \<times> ErrorRes) option" where
  "ErrorHandler errs =
     (if errs = [] then None
      else case errors_As (last errs) of
             None \<Rightarrow> Some (500, \<lparr>er_Code = ''internal_error'',
                                 er_Message = ''an unexpected error occurred''\<rparr>)
           | Some (k, code, msg) \<Rightarrow> Some (statusFor k, \<lparr>er_Code = code, er_Message = msg\<rparr>))"

text \<open>
  The text of a wrapped cause never reaches the client: the response of an error is the response
  of the same error with any other cause.
\<close>

lemma ErrorHandler_hides_cause:
  "ErrorHandler (errs @ [AppError k code msg c]) = ErrorHandler (errs' @ [AppError k code msg c'])"
  by (simp add: ErrorHandler_def)

lemma ErrorHandler_foreign_opaque:
  "ErrorHandler (errs @ [ForeignError text None]) =
     Some (500, \<lparr>er_Code = ''internal_error'', er_Message = ''an unexpected error occurred''\<rparr>)"
  by (simp add: ErrorHandler_def)

end
