(* ===== verification/Value_Objects.thy ===== *)
theory Value_Objects
  imports App_Errors
begin

text \<open>
  The value objects of the job aggregate (\<open>src/pkg/domain/job_aggregate/value_objects\<close>): the
  validated string types, the priority and the job state with its lifecycle graph. Each smart
  constructor is shown to produce only normal forms and to accept them again unchanged, which is
  what lets the storage layer rebuild a job through the same constructors.
\<close>

type_synonym JobID = string
type_synonym QueueName = string
type_synonym TaskType = string
type_synonym IdempotencyKey = string
type_synonym Priority = uint8

section \<open>Identifiers\<close>

definition maxJobIDLength :: nat where "maxJobIDLength = 64"

definition NewJobID :: "string \<Rightarrow> JobID result" where
  "NewJobID raw =
     (let trimmed = TrimSpace raw
      in if trimmed = '''' then Inl (Invalid EInvalidJobID ''job id must not be empty'')
         else if length trimmed > maxJobIDLength
           then Inl (Invalid EInvalidJobID ''job id must not exceed 64 characters'')
         else if ContainsAny trimmed [CHR '' '', CHR 0x09, CHR 0x0A, CHR ''{'', CHR ''}'', CHR '':'']
           then Inl (Invalid EInvalidJobID ''job id must not contain whitespace or reserved characters'')
         else Inr trimmed)"

definition IsZero :: "string \<Rightarrow> bool" where
  "IsZero s \<longleftrightarrow> s = ''''"

definition maxIdempotencyKeyLength :: nat where "maxIdempotencyKeyLength = 128"

definition NewIdempotencyKey :: "string \<Rightarrow> IdempotencyKey result" where
  "NewIdempotencyKey raw =
     (let trimmed = TrimSpace raw
      in if trimmed = '''' then Inr ''''
         else if length trimmed > maxIdempotencyKeyLength
           then Inl (Invalid EInvalidIdempotencyKey ''idempotency key must not exceed 128 characters'')
         else if ContainsAny trimmed [CHR '' '', CHR 0x09, CHR 0x0A]
           then Inl (Invalid EInvalidIdempotencyKey ''idempotency key must not contain whitespace'')
         else Inr trimmed)"

definition DefaultQueueName :: QueueName where "DefaultQueueName = ''default''"

definition queue_head :: "char \<Rightarrow> bool" where
  "queue_head c \<longleftrightarrow> is_lower c \<or> is_digit c"

definition queue_tail :: "char \<Rightarrow> bool" where
  "queue_tail c \<longleftrightarrow> is_lower c \<or> is_digit c \<or> c \<in> {CHR ''_'', CHR ''.'', CHR ''-''}"

definition queueNamePattern :: "string \<Rightarrow> bool" where
  "queueNamePattern s = matches_name queue_head queue_tail 62 s"

definition NewQueueName :: "string \<Rightarrow> QueueName result" where
  "NewQueueName raw =
     (let trimmed = ToLower (TrimSpace raw)
      in if trimmed = '''' then Inr DefaultQueueName
         else if \<not> queueNamePattern trimmed
           then Inl (Invalid EInvalidQueueName ''queue name must match ^[a-z0-9][a-z0-9_.-]{0,62}$'')
         else Inr trimmed)"

definition task_head :: "char \<Rightarrow> bool" where
  "task_head c \<longleftrightarrow> is_lower c \<or> is_upper c \<or> is_digit c"

definition task_tail :: "char \<Rightarrow> bool" where
  "task_tail c \<longleftrightarrow>
     is_lower c \<or> is_upper c \<or> is_digit c \<or> c \<in> {CHR ''_'', CHR ''.'', CHR '':'', CHR ''-''}"

definition taskTypePattern :: "string \<Rightarrow> bool" where
  "taskTypePattern s = matches_name task_head task_tail 126 s"

definition NewTaskType :: "string \<Rightarrow> TaskType result" where
  "NewTaskType raw =
     (let trimmed = TrimSpace raw
      in if trimmed = '''' then Inl (Invalid EInvalidTaskType ''task type must not be empty'')
         else if \<not> taskTypePattern trimmed
           then Inl (Invalid EInvalidTaskType
                  ''task type must match ^[a-zA-Z0-9][a-zA-Z0-9_.:-]{0,126}$'')
         else Inr trimmed)"

section \<open>Priority\<close>

definition PriorityLow :: Priority where "PriorityLow = 1"
definition PriorityNormal :: Priority where "PriorityNormal = 5"
definition PriorityHigh :: Priority where "PriorityHigh = 8"
definition PriorityCritical :: Priority where "PriorityCritical = 10"
definition MinPriority :: Priority where "MinPriority = 1"
definition MaxPriority :: Priority where "MaxPriority = 10"

lemmas priority_levels =
  PriorityLow_def PriorityNormal_def PriorityHigh_def PriorityCritical_def
  MinPriority_def MaxPriority_def

definition NewPriority :: "uint8 \<Rightarrow> Priority result" where
  "NewPriority level =
     (if level = 0 then Inr PriorityNormal
      else if level < MinPriority \<or> level > MaxPriority
        then Inl (Invalid EInvalidPriority
               (''priority must be between '' @ show_nat (unat MinPriority) @
                '' and '' @ show_nat (unat MaxPriority)))
      else Inr level)"

definition ParsePriority :: "string \<Rightarrow> Priority result" where
  "ParsePriority name =
     (let n = ToLower (TrimSpace name)
      in if n = '''' then Inr PriorityNormal
         else if n = ''low'' then Inr PriorityLow
         else if n = ''normal'' \<or> n = ''default'' then Inr PriorityNormal
         else if n = ''high'' then Inr PriorityHigh
         else if n = ''critical'' then Inr PriorityCritical
         else Inl (Invalid EInvalidPriority ''priority must be one of low, normal, high, critical''))"

definition Priority_String :: "Priority \<Rightarrow> string" where
  "Priority_String p =
     (if p = PriorityLow then ''low''
      else if p = PriorityNormal then ''normal''
      else if p = PriorityHigh then ''high''
      else if p = PriorityCritical then ''critical''
      else CHR ''p'' # show_nat (unat p))"

section \<open>Job state\<close>

datatype JobState =
  StateScheduled | StatePending | StateActive | StateRetrying | StateCompleted | StateDead

definition JobState_String :: "JobState \<Rightarrow> string" where
  "JobState_String s =
     (case s of
        StateScheduled \<Rightarrow> ''scheduled'' | StatePending \<Rightarrow> ''pending'' | StateActive \<Rightarrow> ''active''
      | StateRetrying \<Rightarrow> ''retrying'' | StateCompleted \<Rightarrow> ''completed'' | StateDead \<Rightarrow> ''dead'')"

text \<open>The keys of the inner map of \<open>allowedTransitions\<close>, per state.\<close>

definition allowedTransitions :: "JobState \<Rightarrow> JobState list" where
  "allowedTransitions s =
     (case s of
        StateScheduled \<Rightarrow> [StatePending, StateDead]
      | StatePending \<Rightarrow> [StateActive, StateDead]
      | StateActive \<Rightarrow> [StateCompleted, StateRetrying, StateDead, StatePending]
      | StateRetrying \<Rightarrow> [StatePending, StateDead]
      | StateDead \<Rightarrow> [StatePending]
      | StateCompleted \<Rightarrow> [])"

definition AllStates :: "JobState list" where
  "AllStates =
     [StateScheduled, StatePending, StateActive, StateRetrying, StateCompleted, StateDead]"

definition NewJobState :: "string \<Rightarrow> JobState result" where
  "NewJobState raw =
     (case find (\<lambda>s. JobState_String s = raw) AllStates of
        Some s \<Rightarrow> Inr s
      | None \<Rightarrow> Inl (Invalid EInvalidJobState (''unknown job state: '' @ raw)))"

definition IsTerminal :: "JobState \<Rightarrow> bool" where
  "IsTerminal s \<longleftrightarrow> s = StateCompleted \<or> s = StateDead"

definition CanTransitionTo :: "JobState \<Rightarrow> JobState \<Rightarrow> bool" where
  "CanTransitionTo s nxt \<longleftrightarrow> nxt \<in> set (allowedTransitions s)"

lemma CanTransitionTo_iff:
  "CanTransitionTo s StatePending \<longleftrightarrow> s \<in> {StateScheduled, StateActive, StateRetrying, StateDead}"
  "CanTransitionTo s StateActive \<longleftrightarrow> s = StatePending"
  "CanTransitionTo s StateCompleted \<longleftrightarrow> s = StateActive"
  "CanTransitionTo s StateRetrying \<longleftrightarrow> s = StateActive"
  "CanTransitionTo s StateDead \<longleftrightarrow> s \<notin> {StateCompleted, StateDead}"
  "CanTransitionTo s StateScheduled \<longleftrightarrow> False"
  by (cases s; simp add: CanTransitionTo_def allowedTransitions_def)+

section \<open>Normal forms\<close>

lemma queue_chars: "queue_head c \<or> queue_tail c \<Longrightarrow> space_free c \<and> lower_stable c"
  by (auto simp: queue_head_def queue_tail_def is_lower_def is_digit_def space_free_def lower_stable_def)

lemma task_chars: "task_head c \<or> task_tail c \<Longrightarrow> space_free c"
  by (auto simp: task_head_def task_tail_def is_lower_def is_upper_def is_digit_def space_free_def)

lemma queueNamePattern_stable:
  assumes "queueNamePattern s"
  shows "ToLower (TrimSpace s) = s"
proof -
  have "list_all space_free s" "list_all lower_stable s"
    using assms queue_chars unfolding queueNamePattern_def by (blast intro: matches_name_all)+
  then show ?thesis by (simp add: TrimSpace_id ToLower_id)
qed

lemma taskTypePattern_stable:
  assumes "taskTypePattern s"
  shows "TrimSpace s = s"
proof -
  have "list_all space_free s"
    using assms task_chars unfolding taskTypePattern_def by (blast intro: matches_name_all)
  then show ?thesis by (rule TrimSpace_id)
qed

lemma DefaultQueueName_matches: "queueNamePattern DefaultQueueName"
  by (simp add: queueNamePattern_def DefaultQueueName_def matches_name_def queue_head_def
      queue_tail_def is_lower_def is_digit_def)

lemma NewQueueName_pattern: "NewQueueName raw = Inr q \<Longrightarrow> queueNamePattern q"
  by (auto simp: NewQueueName_def Let_def DefaultQueueName_matches split: if_splits)

lemma pattern_NewQueueName: "queueNamePattern q \<Longrightarrow> NewQueueName q = Inr q"
  using matches_name_length [of queue_head queue_tail 62 q]
  by (auto simp: NewQueueName_def Let_def queueNamePattern_stable queueNamePattern_def)

lemma NewTaskType_pattern: "NewTaskType raw = Inr t \<Longrightarrow> taskTypePattern t"
  by (auto simp: NewTaskType_def Let_def split: if_splits)

lemma pattern_NewTaskType: "taskTypePattern t \<Longrightarrow> NewTaskType t = Inr t"
  using matches_name_length [of task_head task_tail 126 t]
  by (auto simp: NewTaskType_def Let_def taskTypePattern_stable taskTypePattern_def)

lemma NewJobID_idem: "NewJobID raw = Inr i \<Longrightarrow> NewJobID i = Inr i \<and> i \<noteq> '''' \<and> length i \<le> 64"
  by (auto simp: NewJobID_def Let_def maxJobIDLength_def split: if_splits)

lemma NewIdempotencyKey_idem: "NewIdempotencyKey raw = Inr k \<Longrightarrow> NewIdempotencyKey k = Inr k"
  by (auto simp: NewIdempotencyKey_def Let_def split: if_splits) (simp add: TrimSpace_id)

lemma NewPriority_range: "NewPriority level = Inr p \<Longrightarrow> 1 \<le> p \<and> p \<le> 10"
  by (auto simp: NewPriority_def priority_levels not_less word_one_le_iff split: if_splits)

lemma NewPriority_idem: "1 \<le> p \<Longrightarrow> p \<le> 10 \<Longrightarrow> NewPriority p = Inr p"
  by (auto simp: NewPriority_def priority_levels not_less)

lemma ParsePriority_range: "ParsePriority name = Inr p \<Longrightarrow> 1 \<le> p \<and> p \<le> 10"
  by (auto simp: ParsePriority_def Let_def priority_levels split: if_splits)

lemma NewJobState_String: "NewJobState (JobState_String s) = Inr s"
  by (cases s) (simp_all add: NewJobState_def AllStates_def JobState_String_def)

lemma NewJobState_inv: "NewJobState raw = Inr s \<Longrightarrow> JobState_String s = raw"
  by (auto simp: NewJobState_def find_Some_iff split: option.splits)

section \<open>Properties\<close>

text \<open>
  Identifiers and names are canonical once accepted: the constructor applied to its own result
  returns it unchanged, everything else is rejected as an invalid argument. Accepted job
  identifiers have 1 to 64 characters and contain no blank, colon or brace, which the storage keys
  use as separators; accepted queue names and task types match their patterns; accepted
  idempotency keys are empty or free of blanks.
\<close>

theorem names_canonical:
  "(case NewJobID raw of
      Inl e \<Rightarrow> KindOf e = KindInvalidArgument
    | Inr i \<Rightarrow> NewJobID i = Inr i \<and> 1 \<le> length i \<and> length i \<le> 64 \<and>
        set i \<inter> {CHR '' '', CHR '':'', CHR ''{'', CHR ''}''} = {}) \<and>
   (case NewQueueName raw of
      Inl e \<Rightarrow> KindOf e = KindInvalidArgument
    | Inr q \<Rightarrow> NewQueueName q = Inr q \<and> queueNamePattern q) \<and>
   (case NewTaskType raw of
      Inl e \<Rightarrow> KindOf e = KindInvalidArgument
    | Inr t \<Rightarrow> NewTaskType t = Inr t \<and> taskTypePattern t) \<and>
   (case NewIdempotencyKey raw of
      Inl e \<Rightarrow> KindOf e = KindInvalidArgument
    | Inr k \<Rightarrow> NewIdempotencyKey k = Inr k \<and> length k \<le> 128 \<and> CHR '' '' \<notin> set k)"
proof -
  have "case NewJobID raw of Inl e \<Rightarrow> KindOf e = KindInvalidArgument
    | Inr i \<Rightarrow> NewJobID i = Inr i \<and> 1 \<le> length i \<and> length i \<le> 64 \<and>
        set i \<inter> {CHR '' '', CHR '':'', CHR ''{'', CHR ''}''} = {}"
  proof (cases "NewJobID raw")
    case (Inr i)
    moreover from Inr have "set i \<inter> {CHR '' '', CHR '':'', CHR ''{'', CHR ''}''} = {}"
      by (auto simp: NewJobID_def Let_def ContainsAny_def list_ex_iff split: if_splits)
    ultimately show ?thesis using NewJobID_idem [OF Inr] by (simp add: Suc_le_eq)
  qed (auto simp: NewJobID_def Let_def split: if_splits)
  moreover have "case NewQueueName raw of Inl e \<Rightarrow> KindOf e = KindInvalidArgument
    | Inr q \<Rightarrow> NewQueueName q = Inr q \<and> queueNamePattern q"
  proof (cases "NewQueueName raw")
    case (Inr q)
    then show ?thesis using NewQueueName_pattern [OF Inr] pattern_NewQueueName [of q] by simp
  qed (auto simp: NewQueueName_def Let_def split: if_splits)
  moreover have "case NewTaskType raw of Inl e \<Rightarrow> KindOf e = KindInvalidArgument
    | Inr t \<Rightarrow> NewTaskType t = Inr t \<and> taskTypePattern t"
  proof (cases "NewTaskType raw")
    case (Inr t)
    then show ?thesis using NewTaskType_pattern [OF Inr] pattern_NewTaskType [of t] by simp
  qed (auto simp: NewTaskType_def Let_def split: if_splits)
  moreover have "case NewIdempotencyKey raw of Inl e \<Rightarrow> KindOf e = KindInvalidArgument
    | Inr k \<Rightarrow> NewIdempotencyKey k = Inr k \<and> length k \<le> 128 \<and> CHR '' '' \<notin> set k"
  proof (cases "NewIdempotencyKey raw")
    case (Inr k)
    then have "k = '''' \<or> length k \<le> maxIdempotencyKeyLength \<and>
        \<not> ContainsAny k [CHR '' '', CHR 0x09, CHR 0x0A]"
      by (cases "TrimSpace raw = ''''") (auto simp: NewIdempotencyKey_def Let_def not_less)
    then have "length k \<le> 128 \<and> CHR '' '' \<notin> set k"
      by (auto simp: ContainsAny_def list_ex_iff maxIdempotencyKeyLength_def)
    with Inr show ?thesis using NewIdempotencyKey_idem [OF Inr] by simp
  qed (auto simp: NewIdempotencyKey_def Let_def split: if_splits)
  ultimately show ?thesis by blast
qed

text \<open>
  The textual forms read back: a state name parses to exactly the state that prints it, and
  no other text parses; a priority name that parses prints as a name that parses to the same level.
\<close>

theorem enum_round_trips:
  "(NewJobState raw = Inr s \<longleftrightarrow> raw = JobState_String s) \<and>
   (case ParsePriority name of
      Inl e \<Rightarrow> KindOf e = KindInvalidArgument
    | Inr p \<Rightarrow> ParsePriority (Priority_String p) = Inr p \<and> NewPriority p = Inr p)"
proof -
  have *: "ToLower (TrimSpace n) = n" if "n \<in> {''low'', ''normal'', ''high'', ''critical''}" for n
    using that by (auto simp: TrimSpace_id ToLower_id space_free_def lower_stable_def)
  have "ParsePriority (Priority_String p) = Inr p \<and> NewPriority p = Inr p"
    if "p \<in> {PriorityLow, PriorityNormal, PriorityHigh, PriorityCritical}" for p
    using that by (auto simp: ParsePriority_def Priority_String_def * Let_def priority_levels NewPriority_def)
  then have "case ParsePriority name of Inl e \<Rightarrow> KindOf e = KindInvalidArgument
    | Inr p \<Rightarrow> ParsePriority (Priority_String p) = Inr p \<and> NewPriority p = Inr p"
    by (auto simp: ParsePriority_def [of name] Let_def)
  then show ?thesis using NewJobState_String NewJobState_inv by auto
qed

end
