(* ===== verification/Retry_Policy.thy ===== *)
theory Retry_Policy
  imports Value_Objects
begin

text \<open>
  Backoff strategies and the retry policy (\<open>src/pkg/domain/job_aggregate/backoff.go\<close> and
  \<open>retry_policy.go\<close>). The interface \<open>BackoffStrategy\<close> is the locale \<open>backoff_strategy\<close>, interpreted
  on the three strategies of the code.

  The exponential strategy computes in \<open>float64\<close> and draws a random number. \<open>rand.Float64\<close> returns
  \<open>k / 2 ^ 53\<close> for an integer \<open>k < 2 ^ 53\<close>; \<open>k\<close> is an argument of the model. Every intermediate
  value of the computation is an integer multiple of \<open>2 ^ (-53)\<close>, so the model computes with the
  integers at that scale and rounds each operation with \<open>fl64\<close> (which is invariant under scaling
  by powers of two), multiplication and addition separately.
\<close>

section \<open>Strategies\<close>

datatype BackoffStrategy = ExponentialBackoff | LinearBackoff | ConstantBackoff

definition BackoffExponential :: string where "BackoffExponential = ''exponential''"
definition BackoffLinear :: string where "BackoffLinear = ''linear''"
definition BackoffConstant :: string where "BackoffConstant = ''constant''"

lemmas backoff_names = BackoffExponential_def BackoffLinear_def BackoffConstant_def

primrec Strategy_Name :: "BackoffStrategy \<Rightarrow> string" where
  "Strategy_Name ExponentialBackoff = BackoffExponential"
| "Strategy_Name LinearBackoff = BackoffLinear"
| "Strategy_Name ConstantBackoff = BackoffConstant"

definition NewBackoffStrategy :: "string \<Rightarrow> BackoffStrategy result" where
  "NewBackoffStrategy name =
     (let n = ToLower (TrimSpace name)
      in if n = '''' \<or> n = BackoffExponential then Inr ExponentialBackoff
         else if n = BackoffLinear then Inr LinearBackoff
         else if n = BackoffConstant then Inr ConstantBackoff
         else Inl (Invalid EInvalidRetryPolicy
                ''backoff strategy must be one of exponential, linear, constant''))"

definition clampDelay :: "duration \<Rightarrow> duration \<Rightarrow> duration" where
  "clampDelay d maxDelay =
     (if d < 0 then 0 else if maxDelay > 0 \<and> d > maxDelay then maxDelay else d)"

text \<open>Conversion of a \<open>float64\<close> to \<open>int64\<close>; out of range it is the most negative number (amd64).\<close>

definition float_to_int64 :: "int \<Rightarrow> int" where
  "float_to_int64 x = (if - (2 ^ 63) \<le> x \<and> x < 2 ^ 63 then x else - (2 ^ 63))"

definition Exponential_Delay :: "nat \<Rightarrow> uint32 \<Rightarrow> duration \<Rightarrow> duration \<Rightarrow> duration" where
  "Exponential_Delay k attempt base maxDelay =
     (let attempt = (if attempt = 0 then 1 else attempt);
          exponent = min (unat (attempt - 1)) 32;
          scaled = fl64 (fl64 base * 2 ^ exponent);
          scaled = (if scaled > fl64 maxDelay then fl64 maxDelay else scaled)
      in if scaled \<le> fl64 base then clampDelay base maxDelay
         else let product = fl64 (int k * fl64 (scaled - fl64 base));
                  jittered = fl64 (fl64 base * 2 ^ 53 + product)
              in clampDelay (float_to_int64 (jittered div 2 ^ 53)) maxDelay)"

definition Linear_Delay :: "uint32 \<Rightarrow> duration \<Rightarrow> duration \<Rightarrow> duration" where
  "Linear_Delay attempt base maxDelay =
     (let attempt = (if attempt = 0 then 1 else attempt)
      in clampDelay (wrap64 (int (unat attempt) * base)) maxDelay)"

definition Constant_Delay :: "uint32 \<Rightarrow> duration \<Rightarrow> duration \<Rightarrow> duration" where
  "Constant_Delay attempt base maxDelay = clampDelay base maxDelay"

primrec Delay :: "BackoffStrategy \<Rightarrow> nat \<Rightarrow> uint32 \<Rightarrow> duration \<Rightarrow> duration \<Rightarrow> duration" where
  "Delay ExponentialBackoff k = Exponential_Delay k"
| "Delay LinearBackoff k = Linear_Delay"
| "Delay ConstantBackoff k = Constant_Delay"

section \<open>The policy\<close>

record RetryPolicy =
  rp_maxRetries :: uint32
  rp_baseDelay :: duration
  rp_maxDelay :: duration
  rp_strategy :: "BackoffStrategy option"

definition DefaultMaxRetries :: uint32 where "DefaultMaxRetries = 5"
definition DefaultBaseDelay :: duration where "DefaultBaseDelay = 1 * second"
definition DefaultMaxDelay :: duration where "DefaultMaxDelay = 5 * minute"
definition MaxAllowedRetries :: uint32 where "MaxAllowedRetries = 100"
definition MaxAllowedBaseDelay :: duration where "MaxAllowedBaseDelay = 1 * hour"

lemmas policy_limits =
  DefaultMaxRetries_def DefaultBaseDelay_def DefaultMaxDelay_def MaxAllowedRetries_def
  MaxAllowedBaseDelay_def duration_units

definition NewRetryPolicy ::
  "uint32 \<Rightarrow> duration \<Rightarrow> duration \<Rightarrow> string \<Rightarrow> RetryPolicy result" where
  "NewRetryPolicy maxRetries baseDelay maxDelay strategyName =
     (if maxRetries > MaxAllowedRetries
        then Inl (Invalid EInvalidRetryPolicy ''max retries must not exceed 100'')
      else if baseDelay < 0 \<or> baseDelay > MaxAllowedBaseDelay
        then Inl (Invalid EInvalidRetryPolicy ''base delay must be between 0 and 1h'')
      else let baseDelay = (if baseDelay = 0 then DefaultBaseDelay else baseDelay);
               maxDelay = (if maxDelay = 0 then DefaultMaxDelay else maxDelay)
           in if maxDelay < baseDelay
                then Inl (Invalid EInvalidRetryPolicy
                       ''max delay must be greater than or equal to base delay'')
              else andThen (NewBackoffStrategy strategyName) (\<lambda>strategy.
                Inr \<lparr>rp_maxRetries = maxRetries, rp_baseDelay = baseDelay,
                     rp_maxDelay = maxDelay, rp_strategy = Some strategy\<rparr>))"

definition DefaultRetryPolicy :: RetryPolicy where
  "DefaultRetryPolicy =
     \<lparr>rp_maxRetries = DefaultMaxRetries, rp_baseDelay = DefaultBaseDelay,
      rp_maxDelay = DefaultMaxDelay, rp_strategy = Some ExponentialBackoff\<rparr>"

definition StrategyName :: "RetryPolicy \<Rightarrow> string" where
  "StrategyName p =
     (case rp_strategy p of None \<Rightarrow> BackoffExponential | Some s \<Rightarrow> Strategy_Name s)"

definition AllowsRetry :: "RetryPolicy \<Rightarrow> uint32 \<Rightarrow> bool" where
  "AllowsRetry p attemptsMade \<longleftrightarrow> attemptsMade \<le> rp_maxRetries p"

definition NextDelay :: "nat \<Rightarrow> RetryPolicy \<Rightarrow> uint32 \<Rightarrow> duration" where
  "NextDelay k p attempt =
     (let strategy = (case rp_strategy p of None \<Rightarrow> ExponentialBackoff | Some s \<Rightarrow> s)
      in Delay strategy k attempt (rp_baseDelay p) (rp_maxDelay p))"

section \<open>The contract of a strategy\<close>

text \<open>
  What \<open>RetryPolicy\<close> relies on: a delay always lies in \<open>[0, maxDelay]\<close>, and for the attempt
  numbers and delays a validated policy can produce it never drops below the base delay, with one
  exception: \<open>NewRetryPolicy\<close> puts no upper limit on the maximum delay, and beyond \<open>2 ^ 62\<close> nanoseconds
  (146 years) the conversion of the jittered delay to \<open>int64\<close> may overflow, which ends in a delay of zero.
\<close>

locale backoff_strategy =
  fixes delay :: "nat \<Rightarrow> uint32 \<Rightarrow> duration \<Rightarrow> duration \<Rightarrow> duration"
  assumes clamped: "0 < maxDelay \<Longrightarrow> 0 \<le> delay k n base maxDelay \<and> delay k n base maxDelay \<le> maxDelay"
    and floor: "k < 2 ^ 53 \<Longrightarrow> n \<le> MaxAllowedRetries \<Longrightarrow> 0 < base \<Longrightarrow> base \<le> MaxAllowedBaseDelay
      \<Longrightarrow> base \<le> maxDelay \<Longrightarrow> base \<le> delay k n base maxDelay \<or> delay k n base maxDelay = 0 \<and> 2 ^ 62 < maxDelay"
begin

lemma delay_window:
  assumes "k < 2 ^ 53" "n \<le> MaxAllowedRetries" "0 < base" "base \<le> MaxAllowedBaseDelay"
    "base \<le> maxDelay"
  shows "delay k n base maxDelay \<in> {base..maxDelay} \<or> delay k n base maxDelay = 0 \<and> 2 ^ 62 < maxDelay"
  using floor [OF assms] clamped [of maxDelay k n base] assms(3,5) by auto

end

lemma clampDelay_range:
  "0 < maxDelay \<Longrightarrow> 0 \<le> clampDelay d maxDelay \<and> clampDelay d maxDelay \<le> maxDelay"
  by (simp add: clampDelay_def)

lemma clampDelay_ge: "0 \<le> lo \<Longrightarrow> lo \<le> d \<Longrightarrow> lo \<le> maxDelay \<Longrightarrow> lo \<le> clampDelay d maxDelay"
  by (simp add: clampDelay_def)

lemma clampDelay_le: "0 \<le> d \<Longrightarrow> clampDelay d maxDelay \<le> d"
  by (simp add: clampDelay_def)

text \<open>
  The jittered value is at least the base whatever the scaled delay, leaves room in an \<open>int64\<close> while
  the scaled delay is at most \<open>2 ^ 62\<close>, and lies below the scaled delay where the subtraction is exact,
  rounding included.
\<close>

lemma jitter_floor:
  assumes "0 < base" and "base < 2 ^ 53" and "base < scaled"
  shows "base \<le> fl64 (base * 2 ^ 53 + fl64 (int k * fl64 (scaled - base))) div 2 ^ 53"
proof -
  let ?p = "fl64 (int k * fl64 (scaled - base))"
  have "0 \<le> ?p" using assms(3) by (simp add: fl64_nonneg)
  then have "fl64 (base * 2 ^ 53) \<le> fl64 (base * 2 ^ 53 + ?p)"
    using assms(1) by (intro fl64_mono) simp_all
  then have "base * 2 ^ 53 \<le> fl64 (base * 2 ^ 53 + ?p)"
    using assms fl64_exact [of base 53] by simp
  then have "base * 2 ^ 53 div 2 ^ 53 \<le> fl64 (base * 2 ^ 53 + ?p) div 2 ^ 53"
    by (intro zdiv_mono1) simp_all
  then show ?thesis by simp
qed

lemma jitter_int64:
  assumes "k < 2 ^ 53" and "0 < base" and "base < 2 ^ 53" and "base < scaled" and "scaled \<le> 2 ^ 62"
  shows "fl64 (base * 2 ^ 53 + fl64 (int k * fl64 (scaled - base))) div 2 ^ 53 < 2 ^ 63"
proof -
  let ?d = "fl64 (scaled - base)" and ?p = "fl64 (int k * fl64 (scaled - base))"
  have d0: "0 \<le> ?d" using assms(4) by (simp add: fl64_nonneg)
  have "?d \<le> fl64 (2 ^ 62)" using assms by (intro fl64_mono) simp_all
  then have "int k * ?d \<le> 2 ^ 53 * 2 ^ 62"
    using assms(1) d0 unfolding fl64_two_power by (intro mult_mono) simp_all
  then have "?p \<le> fl64 (2 ^ (53 + 62))" using d0 unfolding power_add by (intro fl64_mono) simp_all
  then have "base * 2 ^ 53 + ?p \<le> 3 * 2 ^ 114" using assms(3) unfolding fl64_two_power by simp
  then have "fl64 (base * 2 ^ 53 + ?p) \<le> fl64 (3 * 2 ^ 114)"
    using assms(2) d0 by (intro fl64_mono) (simp_all add: fl64_nonneg)
  also have "\<dots> = 3 * 2 ^ 114" by (rule fl64_exact) simp_all
  finally have "fl64 (base * 2 ^ 53 + ?p) div 2 ^ 53 \<le> 3 * 2 ^ 114 div 2 ^ 53"
    by (intro zdiv_mono1) simp_all
  also have "\<dots> < 2 ^ 63" by simp
  finally show ?thesis .
qed

lemma jitter_window:
  assumes "k < 2 ^ 53" and "0 < base" and "base < scaled" and "scaled < 2 ^ 53"
  defines "j \<equiv> fl64 (base * 2 ^ 53 + fl64 (int k * fl64 (scaled - base))) div 2 ^ 53"
  shows "base \<le> j" and "j \<le> scaled"
proof -
  let ?p = "fl64 (int k * fl64 (scaled - base))"
  show "base \<le> j" unfolding j_def using assms(2-4) by (intro jitter_floor) simp_all
  have d: "fl64 (scaled - base) = scaled - base" using assms(2-4) by simp
  have "0 \<le> ?p" using assms(3) by (simp add: d fl64_nonneg)
  have "int k * (scaled - base) \<le> (scaled - base) * 2 ^ 53"
    using assms(1,3) unfolding mult.commute [of "int k"] by (intro mult_left_mono) simp_all
  then have "?p \<le> fl64 ((scaled - base) * 2 ^ 53)"
    unfolding d using assms(3) by (intro fl64_mono) simp_all
  also have "\<dots> = (scaled - base) * 2 ^ 53" using assms(2-4) by (intro fl64_exact) simp_all
  finally have "base * 2 ^ 53 + ?p \<le> scaled * 2 ^ 53" by (simp add: algebra_simps)
  then have "fl64 (base * 2 ^ 53 + ?p) \<le> fl64 (scaled * 2 ^ 53)"
    using assms(2) \<open>0 \<le> ?p\<close> by (intro fl64_mono) simp_all
  also have "\<dots> = scaled * 2 ^ 53" using assms(2-4) by (intro fl64_exact) simp_all
  finally have "j \<le> scaled * 2 ^ 53 div 2 ^ 53" unfolding j_def by (intro zdiv_mono1) simp_all
  then show "j \<le> scaled" by simp
qed

lemma exponent_eq: "min (unat ((if n = 0 then 1 else n) - 1 :: uint32)) 32 = min (unat n - 1) 32"
  by (cases "n = 0") (simp_all add: unat_minus_one)

lemma Exponential_Delay_cases:
  fixes n :: uint32 and base maxDelay :: int
  assumes "0 < base" and "base \<le> maxDelay" and "maxDelay < 2 ^ 53"
  defines "s \<equiv> min (base * 2 ^ min (unat n - 1) 32) maxDelay"
  shows "Exponential_Delay k n base maxDelay =
    (if s \<le> base then base
     else clampDelay (float_to_int64
            (fl64 (base * 2 ^ 53 + fl64 (int k * fl64 (s - base))) div 2 ^ 53)) maxDelay)"
proof -
  have b: "fl64 base = base" and m: "fl64 maxDelay = maxDelay" using assms(1-3) by simp_all
  have "fl64 (base * 2 ^ min (unat n - 1) 32) = base * 2 ^ min (unat n - 1) 32"
    using assms(1-3) by (intro fl64_exact) simp_all
  then have "(if fl64 (base * 2 ^ min (unat n - 1) 32) > maxDelay then maxDelay
      else fl64 (base * 2 ^ min (unat n - 1) 32)) = s"
    by (simp add: s_def min_def)
  moreover have "clampDelay base maxDelay = base" using assms(1,2) by (simp add: clampDelay_def)
  ultimately show ?thesis
    unfolding Exponential_Delay_def Let_def exponent_eq b m by simp
qed

lemma Exponential_Delay_envelope:
  assumes k: "k < 2 ^ 53" and base: "0 < base" and le: "base \<le> maxDelay" and max: "maxDelay < 2 ^ 53"
  shows "base \<le> Exponential_Delay k n base maxDelay \<and>
    Exponential_Delay k n base maxDelay \<le> base * 2 ^ min (unat n - 1) 32"
proof -
  define s where "s = min (base * 2 ^ min (unat n - 1) 32) maxDelay"
  have s: "s \<le> base * 2 ^ min (unat n - 1) 32" "s \<le> maxDelay" by (simp_all add: s_def)
  have bs: "base \<le> base * 2 ^ min (unat n - 1) 32" using base by simp
  show ?thesis
  proof (cases "s \<le> base")
    case True
    with bs show ?thesis
      unfolding Exponential_Delay_cases [OF base le max, of k n] s_def [symmetric] by simp
  next
    case False
    define j where "j = fl64 (base * 2 ^ 53 + fl64 (int k * fl64 (s - base))) div 2 ^ 53"
    have w: "base \<le> j" "j \<le> s"
      unfolding j_def using jitter_window [OF k base, of s] False s(2) max by linarith+
    have "float_to_int64 j = j" using w s(2) max base unfolding float_to_int64_def by auto
    then have "Exponential_Delay k n base maxDelay = clampDelay j maxDelay"
      using False unfolding Exponential_Delay_cases [OF base le max, of k n] s_def [symmetric] j_def [symmetric]
      by (simp only: if_False)
    then show ?thesis
      using w s base le clampDelay_ge [of base j maxDelay] clampDelay_le [of j maxDelay] by auto
  qed
qed

lemma if_less_min: "(if (b :: int) < a then b else a) = min a b"
  by simp

text \<open>For any maximum: the base delay is a floor, unless the conversion overflows.\<close>

lemma Exponential_Delay_floor:
  assumes k: "k < 2 ^ 53" and base: "0 < base" "base < 2 ^ 53" and le: "base \<le> maxDelay"
  shows "base \<le> Exponential_Delay k n base maxDelay \<or>
    Exponential_Delay k n base maxDelay = 0 \<and> 2 ^ 62 < maxDelay"
proof -
  define s where "s = min (fl64 (base * 2 ^ min (unat n - 1) 32)) (fl64 maxDelay)"
  define j where "j = fl64 (base * 2 ^ 53 + fl64 (int k * fl64 (s - base))) div 2 ^ 53"
  have b: "fl64 base = base" using base by simp
  have capped: "(if fl64 maxDelay < fl64 (base * 2 ^ min (unat n - 1) 32) then fl64 maxDelay
      else fl64 (base * 2 ^ min (unat n - 1) 32)) = s"
    unfolding s_def by (rule if_less_min)
  have e: "Exponential_Delay k n base maxDelay =
      (if s \<le> base then clampDelay base maxDelay else clampDelay (float_to_int64 j) maxDelay)"
    unfolding Exponential_Delay_def Let_def exponent_eq b j_def capped by (rule refl)
  show ?thesis
  proof (cases "s \<le> base")
    case True
    then show ?thesis using base le unfolding e by (simp add: clampDelay_def)
  next
    case False
    then have floor: "base \<le> j" unfolding j_def using base by (intro jitter_floor) simp_all
    show ?thesis
    proof (cases "j < 2 ^ 63")
      case True
      then have "float_to_int64 j = j" using floor base unfolding float_to_int64_def by simp
      then show ?thesis using False floor base le clampDelay_ge [of base j maxDelay] unfolding e by simp
    next
      case over: False
      have "fl64 maxDelay \<le> 2 ^ 62" if "maxDelay \<le> 2 ^ 62"
        using fl64_mono [of maxDelay "2 ^ 62"] that base le unfolding fl64_two_power by simp
      then have "s \<le> 2 ^ 62" if "maxDelay \<le> 2 ^ 62" using that unfolding s_def by simp
      then have "2 ^ 62 < maxDelay"
        using over False jitter_int64 [OF k base, of s] unfolding j_def by (meson not_le)
      moreover have "float_to_int64 j = - (2 ^ 63)" using over by (simp add: float_to_int64_def)
      ultimately show ?thesis using False unfolding e by (simp add: clampDelay_def)
    qed
  qed
qed

lemma Linear_Delay_exact:
  assumes "n \<le> MaxAllowedRetries" and "0 < base" and "base \<le> MaxAllowedBaseDelay"
  shows "Linear_Delay n base maxDelay = clampDelay (max 1 (int (unat n)) * base) maxDelay"
proof -
  let ?n = "if n = 0 then 1 else n"
  have n: "int (unat n) \<le> 100" using assms(1) by (simp add: MaxAllowedRetries_def word_le_nat_alt del: of_nat_unat)
  have u: "int (unat ?n) = max 1 (int (unat n))"
    using unat_gt_0 [of n] by (cases "n = 0") (auto simp: max_def simp del: of_nat_unat)
  have "max 1 (int (unat n)) * base \<le> 100 * MaxAllowedBaseDelay"
    using n assms(2,3) by (intro mult_mono) auto
  moreover have "0 \<le> max 1 (int (unat n)) * base" using assms(2) by simp
  ultimately have "wrap64 (max 1 (int (unat n)) * base) = max 1 (int (unat n)) * base"
    by (intro wrap64_id) (simp_all add: policy_limits)
  then show ?thesis unfolding Linear_Delay_def Let_def u by simp
qed

interpretation exp_delay: backoff_strategy Exponential_Delay
proof
  show "0 < maxDelay \<Longrightarrow> 0 \<le> Exponential_Delay k n base maxDelay \<and>
      Exponential_Delay k n base maxDelay \<le> maxDelay" for maxDelay k n base
    by (simp add: Exponential_Delay_def Let_def clampDelay_range)
  show "base \<le> Exponential_Delay k n base maxDelay \<or>
      Exponential_Delay k n base maxDelay = 0 \<and> 2 ^ 62 < maxDelay"
    if "k < 2 ^ 53" "0 < base" "base \<le> MaxAllowedBaseDelay" "base \<le> maxDelay" for k n base maxDelay
    using that by (intro Exponential_Delay_floor) (simp_all add: policy_limits)
qed

interpretation lin_delay: backoff_strategy "\<lambda>k. Linear_Delay"
proof
  show "0 < maxDelay \<Longrightarrow> 0 \<le> Linear_Delay n base maxDelay \<and> Linear_Delay n base maxDelay \<le> maxDelay"
    for maxDelay n base
    by (simp add: Linear_Delay_def Let_def clampDelay_range)
  show "base \<le> Linear_Delay n base maxDelay \<or> Linear_Delay n base maxDelay = 0 \<and> 2 ^ 62 < maxDelay"
    if "n \<le> MaxAllowedRetries" "0 < base" "base \<le> MaxAllowedBaseDelay" "base \<le> maxDelay"
    for n base maxDelay
    using that Linear_Delay_exact [OF that(1-3), of maxDelay]
    by (intro disjI1) (auto intro!: clampDelay_ge simp: max_def)
qed

interpretation const_delay: backoff_strategy "\<lambda>k. Constant_Delay"
  by unfold_locales (auto simp: Constant_Delay_def clampDelay_def)

lemma Delay_strategy: "backoff_strategy (Delay s)"
proof (cases s)
  case ExponentialBackoff
  then have "Delay s = Exponential_Delay" by (simp add: fun_eq_iff)
  then show ?thesis by (simp add: exp_delay.backoff_strategy_axioms)
next
  case LinearBackoff
  then have "Delay s = (\<lambda>k. Linear_Delay)" by (simp add: fun_eq_iff)
  then show ?thesis by (simp add: lin_delay.backoff_strategy_axioms)
next
  case ConstantBackoff
  then have "Delay s = (\<lambda>k. Constant_Delay)" by (simp add: fun_eq_iff)
  then show ?thesis by (simp add: const_delay.backoff_strategy_axioms)
qed

section \<open>Valid policies\<close>

definition valid_policy :: "RetryPolicy \<Rightarrow> bool" where
  "valid_policy p \<longleftrightarrow>
     rp_maxRetries p \<le> MaxAllowedRetries \<and> 0 < rp_baseDelay p \<and>
     rp_baseDelay p \<le> MaxAllowedBaseDelay \<and> rp_baseDelay p \<le> rp_maxDelay p \<and>
     rp_strategy p \<noteq> None"

lemma NewRetryPolicy_valid: "NewRetryPolicy n b m name = Inr p \<Longrightarrow> valid_policy p"
  by (auto simp: NewRetryPolicy_def valid_policy_def Let_def andThen_eq_Inr not_less policy_limits
      split: if_splits)

lemma DefaultRetryPolicy_valid [simp]: "valid_policy DefaultRetryPolicy"
  by (simp add: valid_policy_def DefaultRetryPolicy_def policy_limits)

lemma NewBackoffStrategy_Name: "NewBackoffStrategy (Strategy_Name s) = Inr s"
proof (cases s)
  case ExponentialBackoff
  then show ?thesis by (simp add: NewBackoffStrategy_def backoff_names Let_def TrimSpace_id
      ToLower_id space_free_def lower_stable_def)
next
  case LinearBackoff
  then show ?thesis by (simp add: NewBackoffStrategy_def backoff_names Let_def TrimSpace_id
      ToLower_id space_free_def lower_stable_def)
next
  case ConstantBackoff
  then show ?thesis by (simp add: NewBackoffStrategy_def backoff_names Let_def TrimSpace_id
      ToLower_id space_free_def lower_stable_def)
qed

lemma valid_policy_rebuild:
  assumes "valid_policy p"
  shows "NewRetryPolicy (rp_maxRetries p) (rp_baseDelay p) (rp_maxDelay p) (StrategyName p) = Inr p"
  using assms by (cases p) (auto simp: valid_policy_def NewRetryPolicy_def StrategyName_def
      NewBackoffStrategy_Name not_less)

lemma NextDelay_window:
  assumes "valid_policy p" and "k < 2 ^ 53" and "n \<le> rp_maxRetries p"
  shows "NextDelay k p n \<in> {rp_baseDelay p..rp_maxDelay p} \<or>
    NextDelay k p n = 0 \<and> StrategyName p = ''exponential'' \<and> 2 ^ 62 < rp_maxDelay p"
proof -
  obtain s where s: "rp_strategy p = Some s" using assms(1) by (auto simp: valid_policy_def)
  have n: "n \<le> MaxAllowedRetries" using assms(1,3) by (auto simp: valid_policy_def)
  have b: "0 < rp_baseDelay p" "rp_baseDelay p \<le> MaxAllowedBaseDelay" "rp_baseDelay p \<le> rp_maxDelay p"
    using assms(1) by (auto simp: valid_policy_def)
  have "Delay s k n (rp_baseDelay p) (rp_maxDelay p) \<noteq> 0" if "s \<noteq> ExponentialBackoff"
    using that b Linear_Delay_exact [OF n b(1,2), of "rp_maxDelay p"]
      clampDelay_ge [of "rp_baseDelay p" "max 1 (int (unat n)) * rp_baseDelay p" "rp_maxDelay p"]
    by (cases s) (auto simp: Constant_Delay_def clampDelay_def mult_le_cancel_right1)
  then show ?thesis
    using backoff_strategy.delay_window [OF Delay_strategy assms(2) n b, of s]
    by (cases s) (auto simp: NextDelay_def StrategyName_def s backoff_names)
qed

text \<open>The exception is real: a policy that passes validation, and a retry without any delay.\<close>

lemma fl64_eval:
  assumes "2 ^ (b - 1) \<le> m" and "m < 2 ^ b" and "0 < b"
  shows "fl64 (int m) = int (round_half_even m (2 ^ (b - 53)) * 2 ^ (b - 53))"
proof -
  have "bit_length m \<le> b" using assms(2) by (simp add: bit_length_le_iff)
  moreover have "\<not> bit_length m \<le> b - 1" using assms(1) by (simp add: bit_length_le_iff)
  ultimately have "bit_length m = b" using assms(3) by simp
  then show ?thesis by (simp add: fl64_def flN_def Let_def)
qed

lemma unbounded_maximum_overflows:
  "\<exists>p. NewRetryPolicy 100 (5 * second) (2 ^ 63 - 1) '''' = Inr p \<and> NextDelay (2 ^ 53 - 1) p 40 = 0"
proof -
  have max: "fl64 9223372036854775807 = 9223372036854775808"
    using fl64_eval [of 63 9223372036854775807] by (simp add: round_half_even_def)
  have scaled: "fl64 (5000000000 * 2 ^ 32) = 5000000000 * 2 ^ 32" by (rule fl64_exact) simp_all
  have diff: "fl64 9223372031854775808 = 9223372031854776320"
    using fl64_eval [of 63 9223372031854775808] by (simp add: round_half_even_def)
  have product: "fl64 83076749691521241171096967840133120 = 83076749691521241171096962840133632"
    using fl64_eval [of 116 83076749691521241171096967840133120] by (simp add: round_half_even_def)
  have total: "fl64 83076749736557237444801922840133632 = 83076749736557242056487941267521536"
    using fl64_eval [of 116 83076749736557237444801922840133632] by (simp add: round_half_even_def)
  have "NewBackoffStrategy '''' = Inr ExponentialBackoff"
    by (simp add: NewBackoffStrategy_def TrimSpace_id ToLower_id)
  moreover have "Exponential_Delay (2 ^ 53 - 1) 40 5000000000 (2 ^ 63 - 1) = 0"
    using max scaled diff product total
    by (simp add: Exponential_Delay_def Let_def float_to_int64_def clampDelay_def)
  ultimately show ?thesis
    by (simp add: NewRetryPolicy_def policy_limits NextDelay_def)
qed

section \<open>Properties\<close>

text \<open>
  C30. The delay before a retry under a validated policy never falls below the base delay nor
  exceeds the maximum delay, whatever the jitter, for every maximum delay up to \<open>2 ^ 62\<close> nanoseconds
  (146 years; the API admits a day). Above it, which \<open>NewRetryPolicy\<close> does not reject, the exponential
  strategy can overflow the conversion to \<open>int64\<close>, and then the delay is zero; nothing else can happen.
  The exponential strategy stays below the base delay doubled at each attempt, rounding of the
  floating-point computation included, for maximum delays below \<open>2 ^ 53\<close> nanoseconds (104 days); the
  linear one is exactly the attempt number times the base delay up to the maximum, without overflow; the
  constant one is the base delay.
\<close>

theorem retry_delay_window:
  assumes "NewRetryPolicy maxRetries base maxd name = Inr p"
    and "k < 2 ^ 53" and "AllowsRetry p n" and "1 \<le> n"
  shows "(NextDelay k p n \<in> {rp_baseDelay p..rp_maxDelay p} \<or>
     NextDelay k p n = 0 \<and> StrategyName p = ''exponential'' \<and> 2 ^ 62 < rp_maxDelay p) \<and>
    (StrategyName p = ''exponential'' \<longrightarrow> rp_maxDelay p < 2 ^ 53 \<longrightarrow>
       NextDelay k p n \<le> rp_baseDelay p * 2 ^ min (unat n - 1) 32) \<and>
    (StrategyName p = ''linear'' \<longrightarrow>
       NextDelay k p n = min (int (unat n) * rp_baseDelay p) (rp_maxDelay p)) \<and>
    (StrategyName p = ''constant'' \<longrightarrow> NextDelay k p n = rp_baseDelay p)"
proof -
  have v: "valid_policy p" using NewRetryPolicy_valid [OF assms(1)] .
  then obtain s where s: "rp_strategy p = Some s" by (auto simp: valid_policy_def)
  have n: "n \<le> rp_maxRetries p" "n \<le> MaxAllowedRetries" "1 \<le> unat n"
    using assms(3,4) v by (auto simp: AllowsRetry_def valid_policy_def word_le_nat_alt)
  have b: "0 < rp_baseDelay p" "rp_baseDelay p \<le> MaxAllowedBaseDelay" "rp_baseDelay p \<le> rp_maxDelay p"
    using v by (auto simp: valid_policy_def)
  have names: "StrategyName p = Strategy_Name s" "NextDelay k p n = Delay s k n (rp_baseDelay p) (rp_maxDelay p)"
    by (simp_all add: StrategyName_def NextDelay_def s)
  have "max 1 (int (unat n)) = int (unat n)" using n(3) by (simp del: of_nat_unat)
  moreover have "\<not> int (unat n) * rp_baseDelay p < 0" using b(1) by (simp add: not_less)
  ultimately have "(Strategy_Name s = ''exponential'' \<longrightarrow> rp_maxDelay p < 2 ^ 53 \<longrightarrow>
       Delay s k n (rp_baseDelay p) (rp_maxDelay p) \<le> rp_baseDelay p * 2 ^ min (unat n - 1) 32) \<and>
    (Strategy_Name s = ''linear'' \<longrightarrow> Delay s k n (rp_baseDelay p) (rp_maxDelay p) =
       min (int (unat n) * rp_baseDelay p) (rp_maxDelay p)) \<and>
    (Strategy_Name s = ''constant'' \<longrightarrow> Delay s k n (rp_baseDelay p) (rp_maxDelay p) = rp_baseDelay p)"
    using Exponential_Delay_envelope [OF assms(2) b(1,3), of n]
      Linear_Delay_exact [OF n(2) b(1,2), of "rp_maxDelay p"] b
    by (cases s) (auto simp: backoff_names clampDelay_def Constant_Delay_def min_def simp del: of_nat_unat)
  then show ?thesis using NextDelay_window [OF v assms(2) n(1)] unfolding names by blast
qed

theorem retry_delay_window_witness:
  "NextDelay 12345 DefaultRetryPolicy 3 \<in> {second..5 * minute} \<and>
   NextDelay 12345 DefaultRetryPolicy 3 \<le> 4 * second"
proof -
  have "NewRetryPolicy 5 0 0 '''' = Inr DefaultRetryPolicy"
    by (simp add: NewRetryPolicy_def NewBackoffStrategy_def policy_limits DefaultRetryPolicy_def
        TrimSpace_id ToLower_id)
  from retry_delay_window [OF this, of 12345 3] show ?thesis
    by (simp add: policy_limits DefaultRetryPolicy_def AllowsRetry_def StrategyName_def backoff_names)
qed

text \<open>
  \<open>NewRetryPolicy\<close> rejects bad parameters as invalid arguments, and a policy it accepts satisfies
  every limit and is reproduced exactly when it is rebuilt from its own fields and the name of its
  strategy, which is how a stored policy is read back.
\<close>

theorem retry_policy_round_trip:
  "(case NewRetryPolicy maxRetries base maxd name of
      Inl e \<Rightarrow> KindOf e = KindInvalidArgument \<and>
        (maxRetries > 100 \<or> base < 0 \<or> base > hour \<or> maxd \<noteq> 0 \<and> maxd < base \<or>
         maxd = 0 \<and> base > 5 * minute \<or> maxd \<noteq> 0 \<and> base = 0 \<and> maxd < second \<or>
         (\<exists>e'. NewBackoffStrategy name = Inl e'))
    | Inr p \<Rightarrow> valid_policy p \<and> rp_maxRetries p = maxRetries \<and>
        (base \<noteq> 0 \<longrightarrow> rp_baseDelay p = base) \<and> (maxd \<noteq> 0 \<longrightarrow> rp_maxDelay p = maxd) \<and>
        NewRetryPolicy (rp_maxRetries p) (rp_baseDelay p) (rp_maxDelay p) (StrategyName p) = Inr p)"
proof (cases "NewRetryPolicy maxRetries base maxd name")
  case (Inl e)
  have "KindOf e = KindInvalidArgument" using Inl
    by (auto simp: NewRetryPolicy_def Let_def andThen_eq_Inl NewBackoffStrategy_def split: if_splits)
  moreover have "maxRetries > 100 \<or> base < 0 \<or> base > hour \<or> maxd \<noteq> 0 \<and> maxd < base \<or>
         maxd = 0 \<and> base > 5 * minute \<or> maxd \<noteq> 0 \<and> base = 0 \<and> maxd < second \<or>
         (\<exists>e'. NewBackoffStrategy name = Inl e')"
    using Inl by (auto simp: NewRetryPolicy_def Let_def andThen_eq_Inl policy_limits split: if_splits)
  ultimately show ?thesis using Inl by simp
next
  case (Inr p)
  have "rp_maxRetries p = maxRetries" "base \<noteq> 0 \<longrightarrow> rp_baseDelay p = base" "maxd \<noteq> 0 \<longrightarrow> rp_maxDelay p = maxd"
    using Inr by (auto simp: NewRetryPolicy_def Let_def andThen_eq_Inr split: if_splits)
  with Inr NewRetryPolicy_valid [OF Inr] valid_policy_rebuild [of p] show ?thesis by simp
qed

theorem retry_policy_round_trip_witness:
  "case NewRetryPolicy 3 second minute ''linear'' of Inl e \<Rightarrow> False | Inr p \<Rightarrow> valid_policy p"
proof -
  have "NewBackoffStrategy ''linear'' = Inr LinearBackoff"
    using NewBackoffStrategy_Name [of LinearBackoff] by (simp add: backoff_names)
  then show ?thesis
    using retry_policy_round_trip [where maxRetries = 3 and base = second and maxd = minute and name = "''linear''"]
    by (auto simp: duration_units split: sum.splits)
qed

end
