(* ===== verification/Job_Aggregate.thy ===== *)
theory Job_Aggregate
  imports Retry_Policy
begin

text \<open>
  The job aggregate (\<open>src/pkg/domain/job_aggregate/job.go\<close>). A method that changes the job takes
  the job and returns the changed job or an error; on an error the Go code has not touched the
  job. Methods that read the clock take the instant as their argument, as the code does.

  After the operations come: the well-formedness invariant \<open>job_ok\<close>, the step relation
  \<open>job_step\<close> of a job with its reachable states, those reached by the documented use (\<open>job_in_service\<close>), and the retry budget of a job that
  keeps failing.
\<close>

section \<open>Data\<close>

definition MaxPayloadBytes :: nat where "MaxPayloadBytes = 256 * 1024"
definition DefaultTimeout :: duration where "DefaultTimeout = 30 * second"
definition MaxTimeout :: duration where "MaxTimeout = 24 * hour"

record Attempt =
  a_Number :: uint32
  a_StartedAt :: time
  a_FinishedAt :: time
  a_Error :: string
  a_WorkerID :: string

definition Attempt_Duration :: "Attempt \<Rightarrow> duration" where
  "Attempt_Duration a =
     (if time_IsZero (a_FinishedAt a) \<or> time_IsZero (a_StartedAt a) then 0
      else sat64 (a_FinishedAt a - a_StartedAt a))"

record Job =
  j_id :: JobID
  j_queue :: QueueName
  j_taskType :: TaskType
  j_payload :: string
  j_priority :: Priority
  j_state :: JobState
  j_retryPolicy :: RetryPolicy
  j_idempotencyKey :: IdempotencyKey
  j_timeout :: duration
  j_attemptsMade :: uint32
  j_attempts :: "Attempt list"
  j_lastError :: string
  j_createdAt :: time
  j_processAt :: time
  j_completedAt :: "time option"
  j_diedAt :: "time option"
  j_leaseExpiry :: "time option"
  j_workerID :: string

record NewJobParams =
  p_ID :: JobID
  p_Queue :: QueueName
  p_TaskType :: TaskType
  p_Payload :: string
  p_Priority :: Priority
  p_RetryPolicy :: RetryPolicy
  p_IdempotencyKey :: IdempotencyKey
  p_Timeout :: duration
  p_ProcessAt :: time
  p_Now :: time

section \<open>Construction\<close>

definition NewJob :: "NewJobParams \<Rightarrow> Job result" where
  "NewJob p =
     (if IsZero (p_ID p) then Inl (Invalid EInvalidJobID ''job id is required'')
      else if p_TaskType p = '''' then Inl (Invalid EInvalidTaskType ''task type is required'')
      else let queue = (if p_Queue p = '''' then DefaultQueueName else p_Queue p)
      in if length (p_Payload p) > MaxPayloadBytes
        then Inl (Invalid EInvalidPayload ''payload must not exceed 256KiB'')
      else let priority = (if p_Priority p = 0 then PriorityNormal else p_Priority p);
               timeout = (if p_Timeout p = 0 then DefaultTimeout else p_Timeout p)
      in if timeout < 0 \<or> timeout > MaxTimeout
        then Inl (Invalid EInvalidTimeout ''timeout must be between 1ns and 24h'')
      else let now = p_Now p
      in if time_IsZero now
        then Inl (Invalid EInvalidScheduleTime ''creation time is required'')
      else let immediate = time_IsZero (p_ProcessAt p) \<or> \<not> p_ProcessAt p > now;
               processAt = (if immediate then now else p_ProcessAt p);
               state = (if immediate then StatePending else StateScheduled);
               policy = (if StrategyName (p_RetryPolicy p) = '''' then DefaultRetryPolicy
                         else p_RetryPolicy p)
      in Inr \<lparr>j_id = p_ID p, j_queue = queue, j_taskType = p_TaskType p, j_payload = p_Payload p,
              j_priority = priority, j_state = state, j_retryPolicy = policy,
              j_idempotencyKey = p_IdempotencyKey p, j_timeout = timeout, j_attemptsMade = 0,
              j_attempts = [], j_lastError = '''', j_createdAt = now, j_processAt = processAt,
              j_completedAt = None, j_diedAt = None, j_leaseExpiry = None, j_workerID = ''''\<rparr>)"

text \<open>
  \<open>Reconstitute\<close> copies its parameter struct, which has one field per field of \<open>Job\<close>, into a new
  job; \<open>Clone\<close> copies the job and the memory it owns. On values both are the identity.
\<close>

definition Reconstitute :: "Job \<Rightarrow> Job" where
  "Reconstitute p =
     \<lparr>j_id = j_id p, j_queue = j_queue p, j_taskType = j_taskType p, j_payload = j_payload p,
      j_priority = j_priority p, j_state = j_state p, j_retryPolicy = j_retryPolicy p,
      j_idempotencyKey = j_idempotencyKey p, j_timeout = j_timeout p,
      j_attemptsMade = j_attemptsMade p, j_attempts = j_attempts p, j_lastError = j_lastError p,
      j_createdAt = j_createdAt p, j_processAt = j_processAt p, j_completedAt = j_completedAt p,
      j_diedAt = j_diedAt p, j_leaseExpiry = j_leaseExpiry p, j_workerID = j_workerID p\<rparr>"

definition copyTimePtr :: "time option \<Rightarrow> time option" where
  "copyTimePtr t = (case t of None \<Rightarrow> None | Some x \<Rightarrow> Some x)"

definition Clone :: "Job \<Rightarrow> Job" where
  "Clone j =
     j\<lparr>j_payload := [] @ j_payload j, j_attempts := [] @ j_attempts j,
       j_completedAt := copyTimePtr (j_completedAt j), j_diedAt := copyTimePtr (j_diedAt j),
       j_leaseExpiry := copyTimePtr (j_leaseExpiry j)\<rparr>"

lemma Clone_id [simp]: "Clone j = j"
  by (simp add: Clone_def copyTimePtr_def split: option.splits)

section \<open>Transitions\<close>

definition guard :: "Job \<Rightarrow> JobState \<Rightarrow> unit result" where
  "guard j nxt =
     (if \<not> CanTransitionTo (j_state j) nxt
      then Inl (Invalid EIllegalStateTransition
             (''cannot transition from '' @ JobState_String (j_state j) @ '' to '' @ JobState_String nxt))
      else Inr ())"

definition closeCurrentAttempt :: "time \<Rightarrow> string \<Rightarrow> Job \<Rightarrow> Job" where
  "closeCurrentAttempt finishedAt errMessage j =
     (if j_attempts j = [] then j
      else let current = last (j_attempts j)
           in if \<not> time_IsZero (a_FinishedAt current) then j
              else j\<lparr>j_attempts := butlast (j_attempts j) @
                     [current\<lparr>a_FinishedAt := finishedAt, a_Error := errMessage\<rparr>]\<rparr>)"

definition RemainingRetries :: "Job \<Rightarrow> uint32" where
  "RemainingRetries j =
     (if j_attemptsMade j > rp_maxRetries (j_retryPolicy j) then 0
      else rp_maxRetries (j_retryPolicy j) - j_attemptsMade j)"

definition Promote :: "time \<Rightarrow> Job \<Rightarrow> Job result" where
  "Promote now j =
     andThen (guard j StatePending) (\<lambda>_.
       Inr (j\<lparr>j_state := StatePending, j_processAt := now, j_leaseExpiry := None\<rparr>))"

definition Lease :: "string \<Rightarrow> time \<Rightarrow> duration \<Rightarrow> Job \<Rightarrow> Job result" where
  "Lease workerID now grace j =
     andThen (guard j StateActive) (\<lambda>_.
       if workerID = ''''
       then Inl (Invalid EIllegalStateTransition ''worker id is required to lease a job'')
       else let expiry = now + wrap64 (j_timeout j + grace);
                n = j_attemptsMade j + 1
            in Inr (j\<lparr>j_state := StateActive, j_workerID := workerID,
                      j_leaseExpiry := Some expiry, j_attemptsMade := n,
                      j_attempts := j_attempts j @
                        [\<lparr>a_Number = n, a_StartedAt = now, a_FinishedAt = zero_time,
                          a_Error = '''', a_WorkerID = workerID\<rparr>]\<rparr>))"

definition Complete :: "time \<Rightarrow> Job \<Rightarrow> Job result" where
  "Complete now j =
     andThen (guard j StateCompleted) (\<lambda>_.
       Inr (closeCurrentAttempt now ''''
         (j\<lparr>j_state := StateCompleted, j_completedAt := Some now, j_leaseExpiry := None,
            j_lastError := ''''\<rparr>)))"

record FailureOutcome =
  fo_ShouldRetry :: bool
  fo_RetryAt :: time
  fo_Attempt :: uint32

definition Fail :: "nat \<Rightarrow> go_error option \<Rightarrow> time \<Rightarrow> Job \<Rightarrow> (Job \<times> FailureOutcome) result" where
  "Fail k cause now j =
     (if j_state j \<noteq> StateActive
      then Inl (Invalid EIllegalStateTransition
             (''only an active job can fail, current state: '' @ JobState_String (j_state j)))
      else let message = (case cause of None \<Rightarrow> '''' | Some e \<Rightarrow> Error_string e);
               j1 = (closeCurrentAttempt now message (j\<lparr>j_lastError := message\<rparr>))
                      \<lparr>j_leaseExpiry := None\<rparr>
           in if \<not> AllowsRetry (j_retryPolicy j1) (j_attemptsMade j1)
              then Inr (j1\<lparr>j_state := StateDead, j_diedAt := Some now\<rparr>,
                        \<lparr>fo_ShouldRetry = False, fo_RetryAt = zero_time,
                         fo_Attempt = j_attemptsMade j1\<rparr>)
              else let retryAt = now + NextDelay k (j_retryPolicy j1) (j_attemptsMade j1)
                   in Inr (j1\<lparr>j_state := StateRetrying, j_processAt := retryAt\<rparr>,
                           \<lparr>fo_ShouldRetry = True, fo_RetryAt = retryAt,
                            fo_Attempt = j_attemptsMade j1\<rparr>))"

definition Kill :: "string \<Rightarrow> time \<Rightarrow> Job \<Rightarrow> Job result" where
  "Kill reason now j =
     andThen (guard j StateDead) (\<lambda>_.
       let j1 = j\<lparr>j_state := StateDead, j_diedAt := Some now, j_leaseExpiry := None\<rparr>;
           j2 = (if reason \<noteq> '''' then j1\<lparr>j_lastError := reason\<rparr> else j1)
       in Inr (closeCurrentAttempt now (j_lastError j2) j2))"

definition Requeue :: "time \<Rightarrow> Job \<Rightarrow> Job result" where
  "Requeue now j =
     (if j_state j \<noteq> StateDead
      then Inl (Invalid EJobNotRetryable
             (''only a dead job can be requeued, current state: '' @ JobState_String (j_state j)))
      else Inr (j\<lparr>j_state := StatePending, j_processAt := now, j_attemptsMade := 0,
                  j_diedAt := None, j_leaseExpiry := None, j_workerID := ''''\<rparr>))"

definition leaseExpiredMessage :: string where
  "leaseExpiredMessage = ''lease expired: worker did not report completion''"

definition ReclaimExpiredLease :: "time \<Rightarrow> Job \<Rightarrow> Job result" where
  "ReclaimExpiredLease now j =
     (if j_state j \<noteq> StateActive
      then Inl (Invalid EIllegalStateTransition
             (''only an active job can be reclaimed, current state: '' @ JobState_String (j_state j)))
      else Inr ((closeCurrentAttempt now leaseExpiredMessage j)
             \<lparr>j_lastError := leaseExpiredMessage, j_state := StatePending, j_processAt := now,
              j_leaseExpiry := None, j_workerID := ''''\<rparr>))"

definition IsLeaseExpired :: "time \<Rightarrow> Job \<Rightarrow> bool" where
  "IsLeaseExpired now j =
     (if j_state j \<noteq> StateActive then False
      else case j_leaseExpiry j of None \<Rightarrow> False | Some expiry \<Rightarrow> now > expiry)"

definition IsDue :: "time \<Rightarrow> Job \<Rightarrow> bool" where
  "IsDue now j \<longleftrightarrow> \<not> j_processAt j > now"

lemmas job_ops =
  Promote_def Lease_def Complete_def Fail_def Kill_def Requeue_def ReclaimExpiredLease_def

section \<open>Frame lemmas\<close>

lemma guard_Inr [simp]: "guard j nxt = Inr u \<longleftrightarrow> CanTransitionTo (j_state j) nxt"
  by (simp add: guard_def)

lemma closeCurrentAttempt_select [simp]:
  "j_id (closeCurrentAttempt t m j) = j_id j"
  "j_queue (closeCurrentAttempt t m j) = j_queue j"
  "j_taskType (closeCurrentAttempt t m j) = j_taskType j"
  "j_payload (closeCurrentAttempt t m j) = j_payload j"
  "j_priority (closeCurrentAttempt t m j) = j_priority j"
  "j_state (closeCurrentAttempt t m j) = j_state j"
  "j_retryPolicy (closeCurrentAttempt t m j) = j_retryPolicy j"
  "j_idempotencyKey (closeCurrentAttempt t m j) = j_idempotencyKey j"
  "j_timeout (closeCurrentAttempt t m j) = j_timeout j"
  "j_attemptsMade (closeCurrentAttempt t m j) = j_attemptsMade j"
  "j_lastError (closeCurrentAttempt t m j) = j_lastError j"
  "j_createdAt (closeCurrentAttempt t m j) = j_createdAt j"
  "j_processAt (closeCurrentAttempt t m j) = j_processAt j"
  "j_completedAt (closeCurrentAttempt t m j) = j_completedAt j"
  "j_diedAt (closeCurrentAttempt t m j) = j_diedAt j"
  "j_leaseExpiry (closeCurrentAttempt t m j) = j_leaseExpiry j"
  "j_workerID (closeCurrentAttempt t m j) = j_workerID j"
  by (simp_all add: closeCurrentAttempt_def Let_def)

text \<open>The attempt trail after a close, as a function of the trail before it.\<close>

definition close_trail :: "time \<Rightarrow> string \<Rightarrow> Attempt list \<Rightarrow> Attempt list" where
  "close_trail t m as =
     (if as \<noteq> [] \<and> time_IsZero (a_FinishedAt (last as))
      then butlast as @ [(last as)\<lparr>a_FinishedAt := t, a_Error := m\<rparr>] else as)"

lemma closeCurrentAttempt_attempts [simp]:
  "j_attempts (closeCurrentAttempt t m j) = close_trail t m (j_attempts j)"
  by (simp add: closeCurrentAttempt_def close_trail_def Let_def)

lemma length_close_trail [simp]: "length (close_trail t m as) = length as"
  by (simp add: close_trail_def)

definition attempt_open :: "Attempt \<Rightarrow> bool" where
  "attempt_open a \<longleftrightarrow> time_IsZero (a_FinishedAt a)"

lemma close_trail_closed:
  assumes "list_all (\<lambda>a. \<not> attempt_open a) (butlast as)" and "\<not> time_IsZero t"
  shows "list_all (\<lambda>a. \<not> attempt_open a) (close_trail t m as)"
  using assms by (cases as rule: rev_cases) (auto simp: close_trail_def attempt_open_def)

lemma Strategy_Name_nonempty: "Strategy_Name s \<noteq> []"
  by (cases s) (simp_all add: backoff_names)

lemma StrategyName_nonempty [simp]: "StrategyName p \<noteq> ''''"
  using Strategy_Name_nonempty [of ExponentialBackoff]
  by (auto simp: StrategyName_def Strategy_Name_nonempty split: option.split)

text \<open>The identity of a job and the inputs it was created with never change.\<close>

definition same_identity :: "Job \<Rightarrow> Job \<Rightarrow> bool" where
  "same_identity j j' \<longleftrightarrow>
     j_id j' = j_id j \<and> j_queue j' = j_queue j \<and> j_taskType j' = j_taskType j \<and>
     j_payload j' = j_payload j \<and> j_priority j' = j_priority j \<and>
     j_retryPolicy j' = j_retryPolicy j \<and> j_idempotencyKey j' = j_idempotencyKey j \<and>
     j_timeout j' = j_timeout j \<and> j_createdAt j' = j_createdAt j"

lemma same_identity_ops:
  "Promote now j = Inr j' \<Longrightarrow> same_identity j j'"
  "Lease w now g j = Inr j' \<Longrightarrow> same_identity j j'"
  "Complete now j = Inr j' \<Longrightarrow> same_identity j j'"
  "Fail k c now j = Inr (j', out) \<Longrightarrow> same_identity j j'"
  "Kill r now j = Inr j' \<Longrightarrow> same_identity j j'"
  "Requeue now j = Inr j' \<Longrightarrow> same_identity j j'"
  "ReclaimExpiredLease now j = Inr j' \<Longrightarrow> same_identity j j'"
  by (auto simp: same_identity_def job_ops andThen_eq_Inr Let_def split: if_splits)

text \<open>When each method succeeds, and the state it leads to.\<close>

lemma op_states:
  "Promote now j = Inr j' \<Longrightarrow>
     j_state j \<in> {StateScheduled, StateActive, StateRetrying, StateDead} \<and> j_state j' = StatePending"
  "Lease w now g j = Inr j' \<Longrightarrow> j_state j = StatePending \<and> j_state j' = StateActive"
  "Complete now j = Inr j' \<Longrightarrow> j_state j = StateActive \<and> j_state j' = StateCompleted"
  "Fail k c now j = Inr (j', out) \<Longrightarrow>
     j_state j = StateActive \<and> j_state j' = (if fo_ShouldRetry out then StateRetrying else StateDead)"
  "Kill r now j = Inr j' \<Longrightarrow>
     j_state j \<notin> {StateCompleted, StateDead} \<and> j_state j' = StateDead"
  "Requeue now j = Inr j' \<Longrightarrow> j_state j = StateDead \<and> j_state j' = StatePending"
  "ReclaimExpiredLease now j = Inr j' \<Longrightarrow> j_state j = StateActive \<and> j_state j' = StatePending"
  by (auto simp: job_ops andThen_eq_Inr Let_def CanTransitionTo_iff split: if_splits)

section \<open>The invariant\<close>

text \<open>
  The part of the invariant about the inputs, and the part about the lifecycle: the optional
  stamps agree with the state, an active job has exactly one open attempt, which belongs to the
  worker that holds the lease, and a job that waits for a retry still has budget.
\<close>

definition inputs_ok :: "Job \<Rightarrow> bool" where
  "inputs_ok j \<longleftrightarrow>
     j_id j \<noteq> '''' \<and> j_taskType j \<noteq> '''' \<and> j_queue j \<noteq> '''' \<and>
     length (j_payload j) \<le> MaxPayloadBytes \<and> j_priority j \<noteq> 0 \<and>
     0 < j_timeout j \<and> j_timeout j \<le> MaxTimeout \<and> \<not> time_IsZero (j_createdAt j)"

definition trail_ok :: "Job \<Rightarrow> bool" where
  "trail_ok j \<longleftrightarrow>
     (if j_state j = StateActive
      then j_attempts j \<noteq> [] \<and> list_all (\<lambda>a. \<not> attempt_open a) (butlast (j_attempts j)) \<and>
           attempt_open (last (j_attempts j)) \<and>
           a_Number (last (j_attempts j)) = j_attemptsMade j \<and>
           a_WorkerID (last (j_attempts j)) = j_workerID j \<and> j_workerID j \<noteq> ''''
      else list_all (\<lambda>a. \<not> attempt_open a) (j_attempts j)) \<and>
     unat (j_attemptsMade j) \<le> length (j_attempts j)"

definition stamps_ok :: "Job \<Rightarrow> bool" where
  "stamps_ok j \<longleftrightarrow>
     (j_leaseExpiry j \<noteq> None \<longleftrightarrow> j_state j = StateActive) \<and>
     (j_completedAt j \<noteq> None \<longleftrightarrow> j_state j = StateCompleted) \<and>
     (j_diedAt j \<noteq> None \<longleftrightarrow> j_state j = StateDead) \<and>
     (j_state j = StateRetrying \<longrightarrow> AllowsRetry (j_retryPolicy j) (j_attemptsMade j))"

definition job_ok :: "Job \<Rightarrow> bool" where
  "job_ok j \<longleftrightarrow> inputs_ok j \<and> trail_ok j \<and> stamps_ok j"

lemma inputs_ok_same: "same_identity j j' \<Longrightarrow> inputs_ok j' = inputs_ok j"
  by (simp add: same_identity_def inputs_ok_def)

lemma trail_ok_butlast:
  "trail_ok j \<Longrightarrow> list_all (\<lambda>a. \<not> attempt_open a) (butlast (j_attempts j))"
  by (auto simp: trail_ok_def list_all_iff dest: in_set_butlastD split: if_splits)

lemma trail_ok_close:
  "trail_ok j \<Longrightarrow> \<not> time_IsZero t \<Longrightarrow>
     list_all (\<lambda>a. \<not> attempt_open a) (close_trail t m (j_attempts j))"
  by (rule close_trail_closed [OF trail_ok_butlast])

lemma NewJob_lifecycle:
  assumes "NewJob p = Inr j"
  shows "j_state j = (if time_IsZero (p_ProcessAt p) \<or> \<not> p_ProcessAt p > p_Now p
      then StatePending else StateScheduled)"
    and "j_processAt j = (if j_state j = StatePending then p_Now p else p_ProcessAt p)"
    and "j_attempts j = []" and "j_attemptsMade j = 0" and "j_leaseExpiry j = None"
    and "j_completedAt j = None" and "j_diedAt j = None" and "j_retryPolicy j = p_RetryPolicy p"
    and "j_createdAt j = p_Now p" and "j_id j = p_ID p"
    and "j_idempotencyKey j = p_IdempotencyKey p" and "j_taskType j = p_TaskType p"
  using assms by (simp_all add: NewJob_def Let_def) auto

lemma NewJob_ok:
  assumes "NewJob p = Inr j"
  shows "job_ok j"
proof -
  let ?t = "if p_Timeout p = 0 then DefaultTimeout else p_Timeout p"
  have j: "\<not> IsZero (p_ID p)" "p_TaskType p \<noteq> []" "length (p_Payload p) \<le> MaxPayloadBytes"
    "0 \<le> ?t" "?t \<le> MaxTimeout" "\<not> time_IsZero (p_Now p)"
    using assms by (simp_all add: NewJob_def Let_def not_less)
  have "0 < ?t" using j(4) by (auto simp: DefaultTimeout_def duration_units)
  moreover have "(if p_Queue p = [] then DefaultQueueName else p_Queue p) \<noteq> []"
    "(if p_Priority p = 0 then PriorityNormal else p_Priority p) \<noteq> 0"
    by (simp_all add: DefaultQueueName_def priority_levels)
  ultimately have "inputs_ok j"
    using assms j unfolding inputs_ok_def by (auto simp: NewJob_def Let_def IsZero_def)
  moreover have "trail_ok j" "stamps_ok j"
    unfolding trail_ok_def stamps_ok_def using NewJob_lifecycle [OF assms] by auto
  ultimately show ?thesis by (simp add: job_ok_def)
qed

lemma Promote_ok [inv_intros]:
  assumes "job_ok j" "j_state j \<in> {StateScheduled, StateRetrying}" "Promote now j = Inr j'"
  shows "job_ok j'"
  using assms inputs_ok_same [OF same_identity_ops(1) [OF assms(3)]]
  by (auto simp: job_ok_def trail_ok_def stamps_ok_def Promote_def andThen_eq_Inr)

lemma unat_Suc_le: "unat (n :: uint32) \<le> m \<Longrightarrow> unat (n + 1) \<le> Suc m"
  by (metis Suc_eq_plus1 Suc_le_mono le_trans mod_less_eq_dividend unat_1 unat_word_ariths(1))

lemma Lease_ok [inv_intros]:
  assumes "job_ok j" "Lease w now g j = Inr j'"
  shows "job_ok j'"
  using assms inputs_ok_same [OF same_identity_ops(2) [OF assms(2)]] op_states(2) [OF assms(2)]
  by (auto simp: job_ok_def trail_ok_def stamps_ok_def Lease_def andThen_eq_Inr Let_def
      attempt_open_def time_IsZero_def unat_Suc_le split: if_splits)

lemma Complete_ok [inv_intros]:
  assumes "job_ok j" "\<not> time_IsZero now" "Complete now j = Inr j'"
  shows "job_ok j'"
  using assms inputs_ok_same [OF same_identity_ops(3) [OF assms(3)]] op_states(3) [OF assms(3)]
    trail_ok_close [of j now]
  by (auto simp: job_ok_def stamps_ok_def Complete_def andThen_eq_Inr trail_ok_def)

lemma Fail_ok [inv_intros]:
  assumes "job_ok j" "\<not> time_IsZero now" "Fail k c now j = Inr (j', out)"
  shows "job_ok j'"
  using assms inputs_ok_same [OF same_identity_ops(4) [OF assms(3)]] trail_ok_close [of j now]
  by (auto simp: job_ok_def stamps_ok_def Fail_def Let_def trail_ok_def split: if_splits)

lemma Kill_ok [inv_intros]:
  assumes "job_ok j" "\<not> time_IsZero now" "Kill r now j = Inr j'"
  shows "job_ok j'"
  using assms inputs_ok_same [OF same_identity_ops(5) [OF assms(3)]] op_states(5) [OF assms(3)]
    trail_ok_close [of j now]
  by (auto simp: job_ok_def stamps_ok_def Kill_def Let_def andThen_eq_Inr trail_ok_def)

lemma Requeue_ok [inv_intros]:
  assumes "job_ok j" "Requeue now j = Inr j'"
  shows "job_ok j'"
  using assms inputs_ok_same [OF same_identity_ops(6) [OF assms(2)]]
  by (auto simp: job_ok_def stamps_ok_def Requeue_def trail_ok_def split: if_splits)

lemma Reclaim_ok [inv_intros]:
  assumes "job_ok j" "\<not> time_IsZero now" "ReclaimExpiredLease now j = Inr j'"
  shows "job_ok j'"
  using assms inputs_ok_same [OF same_identity_ops(7) [OF assms(3)]] trail_ok_close [of j now]
  by (auto simp: job_ok_def stamps_ok_def ReclaimExpiredLease_def trail_ok_def split: if_splits)

section \<open>Sequences of operations\<close>

text \<open>Any method that succeeds on the job, at any instant: one rule per method, without a condition of its callers.\<close>

inductive job_step :: "Job \<Rightarrow> Job \<Rightarrow> bool" where
  promote: "Promote now j = Inr j' \<Longrightarrow> job_step j j'"
| lease: "Lease w now g j = Inr j' \<Longrightarrow> job_step j j'"
| complete: "Complete now j = Inr j' \<Longrightarrow> job_step j j'"
| fail: "Fail k c now j = Inr (j', out) \<Longrightarrow> job_step j j'"
| kill: "Kill r now j = Inr j' \<Longrightarrow> job_step j j'"
| requeue: "Requeue now j = Inr j' \<Longrightarrow> job_step j j'"
| reclaim: "ReclaimExpiredLease now j = Inr j' \<Longrightarrow> job_step j j'"

inductive job_reachable :: "NewJobParams \<Rightarrow> Job \<Rightarrow> bool" for p where
  created: "NewJob p = Inr j \<Longrightarrow> job_reachable p j"
| stepped: "job_reachable p j \<Longrightarrow> job_step j j' \<Longrightarrow> job_reachable p j'"

text \<open>
  The documented use: the clock is past year one, promotion is called on scheduled or retrying jobs and reclaiming on
  active jobs whose lease has lapsed. \<open>Promote\<close> itself does not check this.
\<close>

inductive service_step :: "Job \<Rightarrow> Job \<Rightarrow> bool" where
  promote: "j_state j \<in> {StateScheduled, StateRetrying} \<Longrightarrow> Promote now j = Inr j' \<Longrightarrow> service_step j j'"
| lease: "Lease w now g j = Inr j' \<Longrightarrow> service_step j j'"
| complete: "\<not> time_IsZero now \<Longrightarrow> Complete now j = Inr j' \<Longrightarrow> service_step j j'"
| fail: "\<not> time_IsZero now \<Longrightarrow> Fail k c now j = Inr (j', out) \<Longrightarrow> service_step j j'"
| kill: "\<not> time_IsZero now \<Longrightarrow> Kill r now j = Inr j' \<Longrightarrow> service_step j j'"
| requeue: "Requeue now j = Inr j' \<Longrightarrow> service_step j j'"
| reclaim: "\<not> time_IsZero now \<Longrightarrow> IsLeaseExpired now j \<Longrightarrow> ReclaimExpiredLease now j = Inr j'
    \<Longrightarrow> service_step j j'"

inductive job_in_service :: "NewJobParams \<Rightarrow> Job \<Rightarrow> bool" for p where
  created: "NewJob p = Inr j \<Longrightarrow> job_in_service p j"
| stepped: "job_in_service p j \<Longrightarrow> service_step j j' \<Longrightarrow> job_in_service p j'"

lemma service_step_ok: "service_step j j' \<Longrightarrow> job_ok j \<Longrightarrow> job_ok j'"
  by (induction rule: service_step.induct) (blast intro: inv_intros)+

lemma job_in_service_ok: "job_in_service p j \<Longrightarrow> job_ok j"
  by (induction rule: job_in_service.induct) (auto intro: NewJob_ok service_step_ok)

text \<open>What every operation keeps, however it is used.\<close>

definition job_sound :: "Job \<Rightarrow> bool" where
  "job_sound j \<longleftrightarrow>
     inputs_ok j \<and>
     (j_leaseExpiry j \<noteq> None \<longleftrightarrow> j_state j = StateActive) \<and>
     (j_completedAt j \<noteq> None \<longleftrightarrow> j_state j = StateCompleted) \<and>
     (j_state j = StateDead \<longrightarrow> j_diedAt j \<noteq> None) \<and>
     (j_state j = StateRetrying \<longrightarrow> AllowsRetry (j_retryPolicy j) (j_attemptsMade j)) \<and>
     (j_state j = StateActive \<longrightarrow>
        j_attempts j \<noteq> [] \<and> attempt_open (last (j_attempts j)) \<and>
        a_Number (last (j_attempts j)) = j_attemptsMade j \<and>
        a_WorkerID (last (j_attempts j)) = j_workerID j \<and> j_workerID j \<noteq> '''') \<and>
     unat (j_attemptsMade j) \<le> length (j_attempts j)"

lemma job_ok_sound: "job_ok j \<Longrightarrow> job_sound j"
  by (auto simp: job_ok_def job_sound_def trail_ok_def stamps_ok_def)

lemma job_step_identity: "job_step j j' \<Longrightarrow> same_identity j j'"
  by (induction rule: job_step.induct) (blast intro: same_identity_ops)+

lemma job_step_legal: "job_step j j' \<Longrightarrow> CanTransitionTo (j_state j) (j_state j')"
  by (induction rule: job_step.induct)
     (auto dest!: op_states simp: CanTransitionTo_iff split: if_splits)

lemma job_step_sound:
  assumes "job_step j j'" "job_sound j"
  shows "job_sound j'"
proof -
  have i: "inputs_ok j'" using inputs_ok_same [OF job_step_identity [OF assms(1)]] assms(2) by (simp add: job_sound_def)
  note sound = assms(2) [unfolded job_sound_def]
  from assms(1) show ?thesis
  proof cases
    case (promote now)
    then show ?thesis using sound i op_states(1) [OF promote] by (auto simp: job_sound_def Promote_def andThen_eq_Inr)
  next
    case (lease w now g)
    then show ?thesis
      using sound i op_states(2) [OF lease]
      by (auto simp: job_sound_def Lease_def andThen_eq_Inr Let_def attempt_open_def time_IsZero_def unat_Suc_le split: if_splits)
  next
    case (complete now)
    then show ?thesis using sound i op_states(3) [OF complete] by (auto simp: job_sound_def Complete_def andThen_eq_Inr)
  next
    case (fail k c now out)
    then show ?thesis using sound i by (auto simp: job_sound_def Fail_def Let_def split: if_splits)
  next
    case (kill r now)
    then show ?thesis
      using sound i op_states(5) [OF kill] by (auto simp: job_sound_def Kill_def andThen_eq_Inr Let_def split: if_splits)
  next
    case (requeue now)
    then show ?thesis using sound i by (auto simp: job_sound_def Requeue_def split: if_splits)
  next
    case (reclaim now)
    then show ?thesis using sound i by (auto simp: job_sound_def ReclaimExpiredLease_def split: if_splits)
  qed
qed

section \<open>The retry budget\<close>

text \<open>
  A job that fails every time: each element is one execution, with its jitter, its error and its
  instant. A retrying job is promoted first.
\<close>

fun failing_run ::
  "string \<Rightarrow> duration \<Rightarrow> (nat \<times> go_error option \<times> time) list \<Rightarrow> Job \<Rightarrow> Job result" where
  "failing_run w g [] j = Inr j"
| "failing_run w g ((k, c, now) # es) j =
     andThen (if j_state j = StateRetrying then Promote now j else Inr j) (\<lambda>j1.
     andThen (Lease w now g j1) (\<lambda>j2.
     andThen (Fail k c now j2) (\<lambda>(j3, out). failing_run w g es j3)))"

text \<open>One execution: the counter goes up, and the policy decides.\<close>

lemma failing_run_step:
  assumes "j_state j \<in> {StatePending, StateRetrying}" and "w \<noteq> ''''"
  shows "\<exists>j'. failing_run w g ((k, c, now) # es) j = failing_run w g es j' \<and>
      j_attemptsMade j' = j_attemptsMade j + 1 \<and> j_retryPolicy j' = j_retryPolicy j \<and>
      j_state j' = (if j_attemptsMade j + 1 \<le> rp_maxRetries (j_retryPolicy j)
                    then StateRetrying else StateDead)"
  using assms
  by (auto simp: job_ops guard_def CanTransitionTo_iff Let_def AllowsRetry_def)

lemma failing_run_budget:
  assumes "j_state j \<in> {StatePending, StateRetrying}" and "w \<noteq> ''''"
    and "unat (j_attemptsMade j) + length es \<le> unat (rp_maxRetries (j_retryPolicy j))"
  shows "\<exists>j'. failing_run w g es j = Inr j' \<and> j_retryPolicy j' = j_retryPolicy j \<and>
      unat (j_attemptsMade j') = unat (j_attemptsMade j) + length es \<and>
      j_state j' \<in> {StatePending, StateRetrying}"
  using assms
proof (induction es arbitrary: j)
  case (Cons e es)
  obtain k c now where e: "e = (k, c, now)" by (cases e)
  obtain j1 where j1: "failing_run w g (e # es) j = failing_run w g es j1"
      "j_attemptsMade j1 = j_attemptsMade j + 1" "j_retryPolicy j1 = j_retryPolicy j"
      "j_state j1 = (if j_attemptsMade j + 1 \<le> rp_maxRetries (j_retryPolicy j)
                     then StateRetrying else StateDead)"
    using failing_run_step [OF Cons.prems(1,2)] unfolding e by blast
  have max_lt: "unat (rp_maxRetries (j_retryPolicy j)) < 2 ^ LENGTH(32)"
    by (rule unsigned_less)
  have "unat (j_attemptsMade j) + 1 < 2 ^ LENGTH(32)"
    using Cons.prems(3) max_lt by simp
  then have u: "unat (j_attemptsMade j + 1) = unat (j_attemptsMade j) + 1"
    by (simp add: unat_word_ariths)
  with Cons.prems(3) have "j_attemptsMade j + 1 \<le> rp_maxRetries (j_retryPolicy j)"
    by (simp add: word_le_nat_alt)
  with j1 u Cons.prems Cons.IH [of j1] show ?case by auto
qed auto

lemma failing_run_append:
  "failing_run w g (es @ fs) j = andThen (failing_run w g es j) (failing_run w g fs)"
  by (induction w g es j rule: failing_run.induct) (auto simp: andThen_def split: sum.splits)

lemma failing_run_trail:
  "failing_run w g es j = Inr j' \<Longrightarrow>
     length (j_attempts j') = length (j_attempts j) + length es \<and> j_retryPolicy j' = j_retryPolicy j"
proof (induction w g es j rule: failing_run.induct)
  case (2 w g k c now es j)
  then obtain j1 j2 j3 out where run: "failing_run w g es j3 = Inr j'"
      and ops: "(if j_state j = StateRetrying then Promote now j else Inr j) = Inr j1"
        "Lease w now g j1 = Inr j2" "Fail k c now j2 = Inr (j3, out)"
    by (auto simp: andThen_eq_Inr split: prod.splits)
  have "length (j_attempts j3) = Suc (length (j_attempts j))" "j_retryPolicy j3 = j_retryPolicy j"
    using ops by (auto simp: job_ops andThen_eq_Inr Let_def split: if_splits)
  with "2.IH" [OF run] show ?case by simp
qed simp

text \<open>A job whose budget is spent dies at the next failure, and a dead job cannot run.\<close>

lemma failing_run_exhausted:
  assumes j: "j_state j \<in> {StatePending, StateRetrying}" and w: "w \<noteq> ''''"
    and max: "rp_maxRetries (j_retryPolicy j) \<le> MaxAllowedRetries"
    and spent: "j_attemptsMade j = 0" "length es = unat (rp_maxRetries (j_retryPolicy j))"
  shows "\<exists>j1 j2. failing_run w g es j = Inr j1 \<and> j_state j1 \<in> {StatePending, StateRetrying} \<and>
    failing_run w g (es @ [e]) j = Inr j2 \<and> j_state j2 = StateDead \<and>
    unat (j_attemptsMade j2) = Suc (length es)"
proof -
  obtain j1 where j1: "failing_run w g es j = Inr j1" "j_retryPolicy j1 = j_retryPolicy j"
      "unat (j_attemptsMade j1) = length es" "j_state j1 \<in> {StatePending, StateRetrying}"
    using failing_run_budget [OF j w, of es g] spent by auto
  obtain k c now where e: "e = (k, c, now)" by (cases e)
  have "unat (rp_maxRetries (j_retryPolicy j)) \<le> 100"
    using max by (simp add: word_le_nat_alt MaxAllowedRetries_def)
  then have n: "unat (j_attemptsMade j1 + 1) = Suc (length es)"
    using j1(3) spent(2) by (simp add: unat_word_ariths)
  then have "\<not> j_attemptsMade j1 + 1 \<le> rp_maxRetries (j_retryPolicy j1)"
    using j1(2) spent(2) by (simp add: word_le_nat_alt)
  with failing_run_step [OF j1(4) w, of g k c now "[]"] n
  obtain j2 where "failing_run w g [e] j1 = Inr j2" "j_state j2 = StateDead"
      "unat (j_attemptsMade j2) = Suc (length es)"
    unfolding e by auto
  then show ?thesis using j1 by (auto simp: failing_run_append)
qed

lemma dead_cannot_run: "j_state j = StateDead \<Longrightarrow> \<exists>err. failing_run w g (e # es) j = Inl err"
  by (cases e) (auto simp: Lease_def guard_def CanTransitionTo_iff andThen_def)

lemma Requeue_simp:
  "j_state j = StateDead \<Longrightarrow> \<exists>j'. Requeue now j = Inr j' \<and> j_state j' = StatePending \<and>
     j_attemptsMade j' = 0 \<and> j_processAt j' = now \<and> j_retryPolicy j' = j_retryPolicy j \<and>
     j_attempts j' = j_attempts j"
  by (simp add: Requeue_def)

section \<open>Properties\<close>

text \<open>A concrete job for the witnesses: two executions are allowed.\<close>

definition sample_params :: NewJobParams where
  "sample_params =
     \<lparr>p_ID = ''job-1'', p_Queue = '''', p_TaskType = ''email:send'', p_Payload = ''{}'',
      p_Priority = 0, p_RetryPolicy = \<lparr>rp_maxRetries = 1, rp_baseDelay = second, rp_maxDelay = minute,
        rp_strategy = Some LinearBackoff\<rparr>, p_IdempotencyKey = '''', p_Timeout = 0,
      p_ProcessAt = zero_time, p_Now = 1000\<rparr>"

definition sample_job :: Job where
  "sample_job =
     \<lparr>j_id = ''job-1'', j_queue = DefaultQueueName, j_taskType = ''email:send'', j_payload = ''{}'',
      j_priority = PriorityNormal, j_state = StatePending,
      j_retryPolicy = p_RetryPolicy sample_params, j_idempotencyKey = '''', j_timeout = 30 * second,
      j_attemptsMade = 0, j_attempts = [], j_lastError = '''', j_createdAt = 1000,
      j_processAt = 1000, j_completedAt = None, j_diedAt = None, j_leaseExpiry = None,
      j_workerID = ''''\<rparr>"

definition sample_leased :: Job where
  "sample_leased = sample_job\<lparr>j_state := StateActive, j_workerID := ''w1'',
     j_leaseExpiry := Some (2000 + 60 * second), j_attemptsMade := 1,
     j_attempts := [\<lparr>a_Number = 1, a_StartedAt = 2000, a_FinishedAt = zero_time, a_Error = '''',
       a_WorkerID = ''w1''\<rparr>]\<rparr>"

lemma sample_created: "NewJob sample_params = Inr sample_job"
  by (simp add: NewJob_def sample_params_def sample_job_def IsZero_def MaxPayloadBytes_def
      DefaultTimeout_def MaxTimeout_def duration_units time_IsZero_def zero_time_def)

lemma sample_Lease: "Lease ''w1'' 2000 (30 * second) sample_job = Inr sample_leased"
  by (simp add: Lease_def guard_def CanTransitionTo_iff sample_job_def sample_leased_def Let_def
      duration_units wrap64_def)

lemma sample_in_service: "job_in_service sample_params sample_leased"
  using job_in_service.created [OF sample_created] job_in_service.stepped service_step.lease [OF sample_Lease] by blast

lemma sample_reachable: "job_reachable sample_params sample_leased"
  using job_reachable.created [OF sample_created] job_reachable.stepped job_step.lease [OF sample_Lease] by blast

text \<open>
  C1. Whatever sequence of methods is applied to a job since its creation, at whatever instants, its inputs satisfy
  the limits checked at creation and its identity is the one it was created with; it holds a lease exactly
  when it is active and a completion stamp exactly when completed; a dead job has a death stamp; an active job has an open
  attempt, the last of its trail, numbered by the attempt counter and owned by the worker that holds the
  lease; and a job that waits for a retry still has budget (\<open>job_sound\<close>). When \<open>Promote\<close> is only used as
  documented, on scheduled and retrying jobs, more holds (\<open>job_ok\<close>): the open attempt of an active job is the
  only one and no other job has any, and the death stamp belongs to dead jobs alone.
\<close>

theorem job_lifecycle_invariant:
  assumes "job_reachable p j"
  shows "job_sound j \<and> (job_in_service p j \<longrightarrow> job_ok j) \<and>
    j_id j = p_ID p \<and> j_taskType j = p_TaskType p \<and> j_payload j = p_Payload p \<and>
    j_idempotencyKey j = p_IdempotencyKey p \<and> j_createdAt j = p_Now p"
proof -
  have "job_sound j \<and> j_id j = p_ID p \<and> j_taskType j = p_TaskType p \<and> j_payload j = p_Payload p \<and>
    j_idempotencyKey j = p_IdempotencyKey p \<and> j_createdAt j = p_Now p"
    using assms
  proof (induction rule: job_reachable.induct)
    case (created j)
    then show ?case
      using job_ok_sound [OF NewJob_ok [OF created]] NewJob_lifecycle [OF created] by (auto simp: NewJob_def Let_def)
  next
    case (stepped j j')
    then show ?case
      using job_step_sound job_step_identity [OF stepped(2)] by (auto simp: same_identity_def)
  qed
  then show ?thesis using job_in_service_ok by blast
qed

theorem job_lifecycle_invariant_witness:
  "job_sound sample_leased \<and> job_ok sample_leased \<and> j_id sample_leased = ''job-1''"
  using job_lifecycle_invariant [OF sample_reachable] sample_in_service by (simp add: sample_params_def)

text \<open>
  C18. A job only ever moves along the transition table of \<open>job_state.go\<close>. Completed is final: no
  operation applies to a completed job, while every other job, a dead one included, can still be
  moved, so no job is stuck. A terminal job leaves its state by an operator's requeue, which keeps it well formed, or by
  \<open>Promote\<close>: that method is documented for scheduled and retrying jobs, but it accepts every dead job too, and leaves a
  pending job that carries a death stamp and its spent budget.
\<close>

theorem job_steps_follow_table:
  assumes "job_ok j"
  shows "(\<forall>j'. job_step j j' \<longrightarrow> CanTransitionTo (j_state j) (j_state j') \<and> job_sound j') \<and>
    ((\<exists>j'. job_step j j') \<longleftrightarrow> j_state j \<noteq> StateCompleted) \<and>
    (\<forall>j'. IsTerminal (j_state j) \<and> job_step j j' \<longrightarrow>
       j_state j = StateDead \<and> (\<exists>now. Requeue now j = Inr j' \<and> job_ok j' \<or> Promote now j = Inr j' \<and> \<not> job_ok j')) \<and>
    (j_state j = StateDead \<longrightarrow>
       (\<forall>now. \<exists>j'. Promote now j = Inr j' \<and> j_state j' = StatePending \<and> j_diedAt j' \<noteq> None \<and>
          j_attemptsMade j' = j_attemptsMade j))"
proof -
  have "\<exists>j'. job_step j j'" if "j_state j \<noteq> StateCompleted"
  proof (cases "j_state j = StateDead")
    case True
    then show ?thesis using job_step.requeue [of 0 j] by (auto simp: Requeue_def)
  next
    case False
    with that have "CanTransitionTo (j_state j) StateDead"
      by (cases "j_state j") (simp_all add: CanTransitionTo_iff)
    then show ?thesis using job_step.kill [of "''''" 0 j] by (auto simp: Kill_def guard_def Let_def)
  qed
  moreover have "j_state j \<noteq> StateCompleted" if "job_step j j'" for j'
    using job_step_legal [OF that] by (auto simp: CanTransitionTo_def allowedTransitions_def)
  moreover have dead: "\<exists>j'. Promote now j = Inr j' \<and> j_state j' = StatePending \<and> j_diedAt j' \<noteq> None \<and>
      j_attemptsMade j' = j_attemptsMade j" if "j_state j = StateDead" for now
    using assms that by (auto simp: Promote_def guard_def CanTransitionTo_iff job_ok_def stamps_ok_def)
  moreover have "j_state j = StateDead \<and> (\<exists>now. Requeue now j = Inr j' \<and> job_ok j' \<or> Promote now j = Inr j' \<and> \<not> job_ok j')"
    if "IsTerminal (j_state j)" "job_step j j'" for j'
    using that(2,1)
  proof cases
    case (promote now)
    then have "j_state j = StateDead" using that(1) op_states(1) [OF promote] by (auto simp: IsTerminal_def)
    moreover from this have "\<not> job_ok j'" using dead [of now] promote by (auto simp: job_ok_def stamps_ok_def)
    ultimately show ?thesis using promote by blast
  next
    case (requeue now)
    then show ?thesis using op_states(6) [OF requeue] Requeue_ok [OF assms requeue] by blast
  qed (use that(1) in \<open>auto simp: IsTerminal_def dest: op_states\<close>)
  ultimately show ?thesis using job_step_legal job_step_sound job_ok_sound [OF assms] by blast
qed

theorem job_steps_follow_table_witness:
  "(\<exists>j'. job_step sample_leased j') \<and> j_state sample_leased = StateActive"
  using job_steps_follow_table [OF job_in_service_ok [OF sample_in_service]]
  by (simp add: sample_leased_def sample_job_def)

text \<open>
  C6. The retry budget. A job created with a policy of \<open>n\<close> retries that fails every time is
  executed exactly \<open>n + 1\<close> times: after \<open>n\<close> failures it can still run, after one more it is dead
  with \<open>n + 1\<close> attempts in its trail, and it refuses to run again.
\<close>

theorem retry_budget:
  assumes created: "NewJob p = Inr j" "j_state j = StatePending" and w: "w \<noteq> ''''"
    and policy: "valid_policy (p_RetryPolicy p)"
    and len: "length es = unat (rp_maxRetries (p_RetryPolicy p))"
  shows "(\<exists>j1. failing_run w g es j = Inr j1 \<and> j_state j1 \<in> {StatePending, StateRetrying}) \<and>
    (\<exists>j2. failing_run w g (es @ [e]) j = Inr j2 \<and> j_state j2 = StateDead \<and>
       unat (j_attemptsMade j2) = Suc (length es) \<and> length (j_attempts j2) = Suc (length es)) \<and>
    (\<exists>err. failing_run w g (es @ e # e' # es') j = Inl err)"
proof -
  have j: "j_attemptsMade j = 0" "j_retryPolicy j = p_RetryPolicy p" "j_attempts j = []"
    using NewJob_lifecycle [OF created(1)] by auto
  obtain j1 j2 where run: "failing_run w g es j = Inr j1" "j_state j1 \<in> {StatePending, StateRetrying}"
      "failing_run w g (es @ [e]) j = Inr j2" "j_state j2 = StateDead"
      "unat (j_attemptsMade j2) = Suc (length es)"
    using failing_run_exhausted [of j w es g e] created(2) w policy len j
    by (auto simp: valid_policy_def)
  then show ?thesis
    using failing_run_trail [OF run(3)] dead_cannot_run [OF run(4), of w g e' es']
      failing_run_append [of w g "es @ [e]" "e' # es'" j] j(3) by auto
qed

theorem retry_budget_witness:
  "\<exists>j2. failing_run ''w1'' 0 [(0, None, 5), (0, None, 9)] sample_job = Inr j2 \<and>
     j_state j2 = StateDead \<and> length (j_attempts j2) = 2"
  using retry_budget [OF sample_created, of "''w1''" "[(0, None, 5)]" 0 "(0, None, 9)" "(0, None, 9)" "[]"]
  by (auto simp: sample_job_def sample_params_def valid_policy_def policy_limits)

text \<open>
  An operator's requeue gives a dead job its whole budget back: it keeps its trail, becomes
  pending at once, and if it then keeps failing it is executed \<open>n + 1\<close> more times before it dies
  again. Requeueing any other job is an error.
\<close>

theorem requeue_restores_budget:
  assumes w: "w \<noteq> ''''" and policy: "valid_policy (j_retryPolicy j)"
    and len: "length es = unat (rp_maxRetries (j_retryPolicy j))"
  shows "if j_state j = StateDead
    then \<exists>j0 j1 j2. Requeue now j = Inr j0 \<and> j_state j0 = StatePending \<and> j_processAt j0 = now \<and>
      j_attempts j0 = j_attempts j \<and>
      failing_run w g es j0 = Inr j1 \<and> j_state j1 \<in> {StatePending, StateRetrying} \<and>
      failing_run w g (es @ [e]) j0 = Inr j2 \<and> j_state j2 = StateDead \<and>
      length (j_attempts j2) = length (j_attempts j) + Suc (length es)
    else \<exists>m. Requeue now j = Inl (Invalid EJobNotRetryable m)"
proof (cases "j_state j = StateDead")
  case True
  then obtain j0 where j0: "Requeue now j = Inr j0" "j_state j0 = StatePending" "j_attemptsMade j0 = 0"
      "j_processAt j0 = now" "j_retryPolicy j0 = j_retryPolicy j" "j_attempts j0 = j_attempts j"
    using Requeue_simp by blast
  then obtain j1 j2 where run: "failing_run w g es j0 = Inr j1" "j_state j1 \<in> {StatePending, StateRetrying}"
      "failing_run w g (es @ [e]) j0 = Inr j2" "j_state j2 = StateDead"
    using failing_run_exhausted [of j0 w es g e] w policy len by (auto simp: valid_policy_def)
  have "length (j_attempts j2) = length (j_attempts j) + Suc (length es)"
    using failing_run_trail [OF run(3)] j0(6) by simp
  with True j0 run show ?thesis by auto
next
  case False
  then show ?thesis unfolding Requeue_def by auto
qed

theorem requeue_restores_budget_witness:
  "\<exists>j0. Requeue 7 (sample_leased\<lparr>j_state := StateDead\<rparr>) = Inr j0 \<and> j_state j0 = StatePending \<and>
     j_processAt j0 = 7"
proof -
  have "valid_policy (j_retryPolicy (sample_leased\<lparr>j_state := StateDead\<rparr>))"
    "length [(0 :: nat, None :: go_error option, 5 :: time)] =
       unat (rp_maxRetries (j_retryPolicy (sample_leased\<lparr>j_state := StateDead\<rparr>)))"
    "j_state (sample_leased\<lparr>j_state := StateDead\<rparr>) = StateDead"
    by (simp_all add: sample_leased_def sample_job_def sample_params_def valid_policy_def policy_limits)
  from requeue_restores_budget [OF _ this(1,2), of "''w1''" 7 0 "(0, None, 6)"] this(3)
  show ?thesis by (auto simp del: failing_run.simps)
qed

text \<open>
  C13. The decision \<open>Fail\<close> takes. For an active job under a validated policy it always succeeds, closes
  the open attempt with the error, drops the lease, and then either kills the job (exactly when
  the executions made exceed the retries allowed) or schedules a retry one delay of the policy after
  now. That instant lies between one base delay and one maximum delay after now, for every maximum
  delay up to \<open>2 ^ 62\<close> nanoseconds (146 years); beyond it, which validation does not exclude, an
  exponential delay that overflows \<open>int64\<close> makes the retry due at once. The outcome it returns is what
  it did to the job. A job that is not active cannot fail.
\<close>

theorem fail_decides:
  assumes "job_ok j" and "valid_policy (j_retryPolicy j)" and "k < 2 ^ 53"
  shows "if j_state j = StateActive
    then \<exists>j' out. Fail k cause now j = Inr (j', out) \<and>
      j_lastError j' = (case cause of None \<Rightarrow> '''' | Some e \<Rightarrow> Error_string e) \<and>
      a_FinishedAt (last (j_attempts j')) = now \<and> a_Error (last (j_attempts j')) = j_lastError j' \<and>
      j_leaseExpiry j' = None \<and> j_attemptsMade j' = j_attemptsMade j \<and>
      fo_Attempt out = j_attemptsMade j \<and>
      fo_ShouldRetry out = (j_attemptsMade j \<le> rp_maxRetries (j_retryPolicy j)) \<and>
      (if fo_ShouldRetry out
       then j_state j' = StateRetrying \<and> j_diedAt j' = None \<and> j_processAt j' = fo_RetryAt out \<and>
         fo_RetryAt out = now + NextDelay k (j_retryPolicy j) (j_attemptsMade j) \<and>
         (fo_RetryAt out \<in> {now + rp_baseDelay (j_retryPolicy j)..now + rp_maxDelay (j_retryPolicy j)} \<or>
          fo_RetryAt out = now \<and> StrategyName (j_retryPolicy j) = ''exponential'' \<and>
          2 ^ 62 < rp_maxDelay (j_retryPolicy j))
       else j_state j' = StateDead \<and> j_diedAt j' = Some now)
    else \<exists>m. Fail k cause now j = Inl (Invalid EIllegalStateTransition m)"
proof (cases "j_state j = StateActive")
  case True
  then have trail: "j_attempts j \<noteq> []" "time_IsZero (a_FinishedAt (last (j_attempts j)))" "j_diedAt j = None"
    using assms(1) by (auto simp: job_ok_def trail_ok_def attempt_open_def stamps_ok_def)
  have "NextDelay k (j_retryPolicy j) (j_attemptsMade j)
      \<in> {rp_baseDelay (j_retryPolicy j)..rp_maxDelay (j_retryPolicy j)} \<or>
    NextDelay k (j_retryPolicy j) (j_attemptsMade j) = 0 \<and>
      StrategyName (j_retryPolicy j) = ''exponential'' \<and> 2 ^ 62 < rp_maxDelay (j_retryPolicy j)"
    if "j_attemptsMade j \<le> rp_maxRetries (j_retryPolicy j)"
    using NextDelay_window [OF assms(2,3) that] .
  with True trail show ?thesis
    by (auto simp: Fail_def Let_def AllowsRetry_def close_trail_def)
next
  case False
  then show ?thesis unfolding Fail_def by auto
qed

theorem fail_decides_witness:
  "\<exists>j' out. Fail 0 None 3000 sample_leased = Inr (j', out) \<and> fo_ShouldRetry out \<and>
     fo_RetryAt out \<in> {3000 + second..3000 + minute}"
proof -
  have "valid_policy (j_retryPolicy sample_leased)"
    "j_state sample_leased = StateActive" "j_attemptsMade sample_leased \<le> rp_maxRetries (j_retryPolicy sample_leased)"
    "rp_baseDelay (j_retryPolicy sample_leased) = second" "rp_maxDelay (j_retryPolicy sample_leased) = minute"
    by (simp_all add: sample_leased_def sample_job_def sample_params_def valid_policy_def policy_limits)
  with fail_decides [OF job_in_service_ok [OF sample_in_service] this(1), of 0 None 3000]
  show ?thesis by (auto simp: duration_units)
qed

text \<open>
  A lease excludes everyone else until it lapses: leasing succeeds exactly on a pending job and
  a named worker; the leased job records the worker and one more attempt, nobody can lease it
  again, and it counts as lapsed exactly when the timeout plus the grace have passed.
\<close>

theorem lease_excludes:
  assumes "job_ok j" and "0 \<le> grace" and "grace \<le> MaxTimeout"
  shows "((\<exists>j'. Lease w now grace j = Inr j') \<longleftrightarrow> j_state j = StatePending \<and> w \<noteq> '''') \<and>
    (\<forall>j'. Lease w now grace j = Inr j' \<longrightarrow>
       j_workerID j' = w \<and> j_attemptsMade j' = j_attemptsMade j + 1 \<and>
       length (j_attempts j') = Suc (length (j_attempts j)) \<and>
       (\<forall>w' t g. \<exists>e. Lease w' t g j' = Inl e) \<and>
       (\<forall>t. IsLeaseExpired t j' \<longleftrightarrow> t > now + j_timeout j + grace))"
proof -
  have "wrap64 (j_timeout j + grace) = j_timeout j + grace"
    using assms by (intro wrap64_id) (auto simp: job_ok_def inputs_ok_def MaxTimeout_def duration_units)
  then show ?thesis
    by (auto simp: Lease_def guard_def CanTransitionTo_iff Let_def IsLeaseExpired_def split: if_splits)
qed

theorem lease_excludes_witness:
  "IsLeaseExpired (2001 + 60 * second) sample_leased \<and> \<not> IsLeaseExpired (2000 + 60 * second) sample_leased"
  using lease_excludes [OF NewJob_ok [OF sample_created], of "30 * second" "''w1''" 2000] sample_Lease
  by (auto simp: MaxTimeout_def duration_units sample_job_def)

text \<open>
  Recovery after a worker is lost: reclaiming an active job puts it back on the queue, due at once, with
  the abandoned attempt closed and marked as lost, the execution still counted against the budget, and
  no trace of the old lease; the job can then be leased by any worker. Any other job is refused.
\<close>

theorem reclaim_recovers:
  assumes "job_ok j" and "\<not> time_IsZero now" and "w \<noteq> ''''"
  shows "if j_state j = StateActive
    then \<exists>j'. ReclaimExpiredLease now j = Inr j' \<and> job_ok j' \<and> j_state j' = StatePending \<and>
      IsDue now j' \<and> j_attemptsMade j' = j_attemptsMade j \<and> j_workerID j' = '''' \<and>
      j_attempts j' = butlast (j_attempts j) @
        [(last (j_attempts j))\<lparr>a_FinishedAt := now, a_Error := leaseExpiredMessage\<rparr>] \<and>
      (\<exists>j''. Lease w t g j' = Inr j'' \<and> j_attemptsMade j'' = j_attemptsMade j + 1)
    else \<exists>m. ReclaimExpiredLease now j = Inl (Invalid EIllegalStateTransition m)"
proof (cases "j_state j = StateActive")
  case True
  let ?j = "(closeCurrentAttempt now leaseExpiredMessage j)
    \<lparr>j_lastError := leaseExpiredMessage, j_state := StatePending, j_processAt := now,
     j_leaseExpiry := None, j_workerID := ''''\<rparr>"
  have R: "ReclaimExpiredLease now j = Inr ?j" using True by (simp add: ReclaimExpiredLease_def)
  have trail: "j_attempts j \<noteq> []" "time_IsZero (a_FinishedAt (last (j_attempts j)))"
    using True assms(1) by (auto simp: job_ok_def trail_ok_def attempt_open_def)
  have "\<exists>j''. Lease w t g ?j = Inr j'' \<and> j_attemptsMade j'' = j_attemptsMade j + 1"
    using assms(3) by (simp add: Lease_def guard_def CanTransitionTo_iff Let_def)
  with True R trail Reclaim_ok [OF assms(1,2) R] show ?thesis
    by (auto simp: IsDue_def close_trail_def)
next
  case False
  then show ?thesis unfolding ReclaimExpiredLease_def by auto
qed

theorem reclaim_recovers_witness:
  "\<exists>j'. ReclaimExpiredLease 9000 sample_leased = Inr j' \<and> j_state j' = StatePending \<and>
     j_attemptsMade j' = 1"
  using reclaim_recovers [OF job_in_service_ok [OF sample_in_service], of 9000 "''w2''" 9001 0]
  by (auto simp: time_IsZero_def zero_time_def sample_leased_def)

text \<open>
  Creation. \<open>NewJob\<close> accepts exactly the parameters with an identifier, a task type, a payload of at
  most 256 KiB, a timeout of at most a day and a creation time, and rejects all others as invalid
  arguments. An accepted job is pending and due at once unless it asks for a later instant, in
  which case it is scheduled for that instant.
\<close>

theorem new_job_classifies:
  "(case NewJob p of
      Inl e \<Rightarrow> KindOf e = KindInvalidArgument \<and>
        (p_ID p = '''' \<or> p_TaskType p = '''' \<or> length (p_Payload p) > MaxPayloadBytes \<or>
         p_Timeout p < 0 \<or> p_Timeout p > MaxTimeout \<or> time_IsZero (p_Now p))
    | Inr j \<Rightarrow> job_ok j \<and> j_id j = p_ID p \<and> j_createdAt j = p_Now p \<and>
        (if \<not> time_IsZero (p_ProcessAt p) \<and> p_ProcessAt p > p_Now p
         then j_state j = StateScheduled \<and> j_processAt j = p_ProcessAt p
         else j_state j = StatePending \<and> j_processAt j = p_Now p))"
proof (cases "NewJob p")
  case (Inl e)
  have "\<not> DefaultTimeout < 0" "\<not> MaxTimeout < DefaultTimeout"
    by (simp_all add: DefaultTimeout_def MaxTimeout_def duration_units)
  with Inl show ?thesis by (auto simp: NewJob_def Let_def IsZero_def split: if_splits)
next
  case (Inr j)
  then show ?thesis using NewJob_ok [OF Inr] NewJob_lifecycle [OF Inr] by simp
qed

end
