(* ===== verification/Queue_Aggregate.thy ===== *)
theory Queue_Aggregate
  imports Value_Objects
begin

text \<open>
  The queue aggregate (\<open>src/pkg/domain/queue_aggregate\<close>): weights, queues, the statistics read
  model and the weighted polling order, and the removal of duplicates with which the broker and
  the pool read that order (\<open>dedupeQueues\<close> of \<open>job_broker.go\<close>, \<open>dedupe\<close> of \<open>pool.go\<close>).
\<close>

type_synonym Weight = uint8

definition MinWeight :: Weight where "MinWeight = 1"
definition MaxWeight :: Weight where "MaxWeight = 100"
definition DefaultWeight :: Weight where "DefaultWeight = 1"

lemmas weight_limits = MinWeight_def MaxWeight_def DefaultWeight_def

definition NewWeight :: "uint8 \<Rightarrow> Weight result" where
  "NewWeight raw =
     (if raw = 0 then Inr DefaultWeight
      else if raw < MinWeight \<or> raw > MaxWeight
        then Inl (Invalid EInvalidQueueWeight ''queue weight must be between 1 and 100'')
      else Inr raw)"

lemma NewWeight_range: "NewWeight raw = Inr w \<Longrightarrow> 1 \<le> w \<and> w \<le> 100"
  by (auto simp: NewWeight_def weight_limits not_less word_one_le_iff split: if_splits)

record Queue =
  q_name :: QueueName
  q_weight :: Weight
  q_paused :: bool

definition NewQueue :: "QueueName \<Rightarrow> Weight \<Rightarrow> Queue" where
  "NewQueue name weight =
     \<lparr>q_name = name, q_weight = (if weight = 0 then DefaultWeight else weight), q_paused = False\<rparr>"

definition Queue_Reconstitute :: "QueueName \<Rightarrow> Weight \<Rightarrow> bool \<Rightarrow> Queue" where
  "Queue_Reconstitute name weight paused = \<lparr>q_name = name, q_weight = weight, q_paused = paused\<rparr>"

definition Pause :: "Queue \<Rightarrow> Queue" where "Pause q = q\<lparr>q_paused := True\<rparr>"
definition Resume :: "Queue \<Rightarrow> Queue" where "Resume q = q\<lparr>q_paused := False\<rparr>"

section \<open>Statistics\<close>

record Stats =
  s_Queue :: QueueName
  s_Paused :: bool
  s_Weight :: Weight
  s_Pending :: int
  s_Active :: int
  s_Scheduled :: int
  s_Retrying :: int
  s_Completed :: int
  s_Dead :: int

definition Total :: "Stats \<Rightarrow> int" where
  "Total s = wrap64 (s_Pending s + s_Active s + s_Scheduled s + s_Retrying s + s_Completed s + s_Dead s)"

definition Backlog :: "Stats \<Rightarrow> int" where
  "Backlog s = wrap64 (s_Pending s + s_Active s + s_Scheduled s + s_Retrying s)"

definition SortStatsByName :: "Stats list \<Rightarrow> Stats list" where
  "SortStatsByName stats = SliceStable (\<lambda>a b. s_Queue a < s_Queue b) stats"

section \<open>The polling order\<close>

fun active_queues :: "Queue option list \<Rightarrow> Queue list" where
  "active_queues [] = []"
| "active_queues (q # qs) =
     (case q of
        Some q' \<Rightarrow> if \<not> q_paused q' then q' # active_queues qs else active_queues qs
      | None \<Rightarrow> active_queues qs)"

definition queue_before :: "Queue \<Rightarrow> Queue \<Rightarrow> bool" where
  "queue_before a b =
     (if q_weight a \<noteq> q_weight b then q_weight a > q_weight b else q_name a < q_name b)"

definition BuildDequeueOrder :: "Queue option list \<Rightarrow> QueueName list" where
  "BuildDequeueOrder queues =
     concat (map (\<lambda>q. replicate (unat (q_weight q)) (q_name q))
       (SliceStable queue_before (active_queues queues)))"

definition dedupeQueues :: "QueueName list \<Rightarrow> QueueName list" where
  "dedupeQueues order = keep_first {} order"

text \<open>The comparison is that of a key: heavier first, then by name.\<close>

definition queue_rank :: "Queue \<Rightarrow> nat \<times> string" where
  "queue_rank q = (255 - unat (q_weight q), q_name q)"

lemma queue_before_rank: "queue_before a b \<longleftrightarrow> queue_rank a < queue_rank b"
proof -
  have "unat (q_weight a) \<le> 255" "unat (q_weight b) \<le> 255"
    using unsigned_less [of "q_weight a", where ?'a = nat] unsigned_less [of "q_weight b", where ?'a = nat]
    by simp_all
  then show ?thesis
    by (auto simp: queue_before_def queue_rank_def word_less_nat_alt word_unat_eq_iff)
qed

lemma BuildDequeueOrder_sorted:
  "BuildDequeueOrder queues =
     concat (map (\<lambda>q. replicate (unat (q_weight q)) (q_name q))
       (sort_key queue_rank (active_queues queues)))"
  by (simp add: BuildDequeueOrder_def SliceStable_key [OF queue_before_rank])

lemma active_queues_set: "set (active_queues qs) = {q. Some q \<in> set qs \<and> \<not> q_paused q}"
  by (induction qs) (auto split: option.splits)

lemma set_BuildDequeueOrder:
  "n \<in> set (BuildDequeueOrder qs) \<longleftrightarrow>
     (\<exists>q. Some q \<in> set qs \<and> \<not> q_paused q \<and> q_weight q \<noteq> 0 \<and> q_name q = n)"
  by (auto simp: BuildDequeueOrder_sorted active_queues_set unat_gt_0)

lemma count_list_replicate: "count_list (replicate n x) y = (if x = y then n else 0)"
  by (induction n) auto

lemma count_list_concat_replicate:
  "count_list (concat (map (\<lambda>x. replicate (w x) (f x)) xs)) n = (\<Sum>x\<leftarrow>xs. if f x = n then w x else 0)"
  by (induction xs) (auto simp: count_list_append count_list_replicate)

text \<open>
  Read without duplicates, the order only depends on the ranking of the queues, not on how often
  each appears: it is the list of active queues, heaviest first.
\<close>

lemma dedupe_BuildDequeueOrder:
  assumes "distinct (map q_name (active_queues qs))"
    and "\<And>q. q \<in> set (active_queues qs) \<Longrightarrow> q_weight q \<noteq> 0"
  shows "dedupeQueues (BuildDequeueOrder qs) = map q_name (sort_key queue_rank (active_queues qs))"
  unfolding dedupeQueues_def BuildDequeueOrder_sorted
proof (rule keep_first_expand)
  have "mset (map q_name (sort_key queue_rank (active_queues qs))) = mset (map q_name (active_queues qs))"
    by simp
  with assms(1) show "distinct (map q_name (sort_key queue_rank (active_queues qs)))"
    by (metis mset_eq_imp_distinct_iff)
qed (use assms(2) unat_gt_0 in auto)

section \<open>Properties\<close>

text \<open>
  The polling order lists each queue that is not paused exactly as many times as its weight
  says, leaves out the paused ones, and lists heavier queues before lighter ones and equal ones by
  name; the order does not depend on the order in which the queues are given.
\<close>

theorem dequeue_order_weights:
  assumes "distinct (map q_name qs)"
  shows "count_list (BuildDequeueOrder (map Some qs)) n =
      (\<Sum>q\<leftarrow>qs. if q_name q = n \<and> \<not> q_paused q then unat (q_weight q) else 0) \<and>
    (\<exists>ordered. mset ordered = mset (filter (\<lambda>q. \<not> q_paused q) qs) \<and>
       sorted_wrt (\<lambda>a b. q_weight a > q_weight b \<or> q_weight a = q_weight b \<and> q_name a < q_name b) ordered \<and>
       BuildDequeueOrder (map Some qs) =
         concat (map (\<lambda>q. replicate (unat (q_weight q)) (q_name q)) ordered))"
proof -
  let ?act = "filter (\<lambda>q. \<not> q_paused q) qs"
  have act: "active_queues (map Some qs) = ?act" by (induction qs) auto
  let ?o = "sort_key queue_rank ?act"
  have order: "BuildDequeueOrder (map Some qs) =
      concat (map (\<lambda>q. replicate (unat (q_weight q)) (q_name q)) ?o)"
    by (simp add: BuildDequeueOrder_sorted act)
  have "count_list (BuildDequeueOrder (map Some qs)) n =
      (\<Sum>q\<leftarrow>?o. if q_name q = n then unat (q_weight q) else 0)"
    unfolding order by (rule count_list_concat_replicate)
  also have "\<dots> = (\<Sum>q\<leftarrow>?act. if q_name q = n then unat (q_weight q) else 0)"
    by (simp flip: sum_mset_sum_list)
  also have "\<dots> = (\<Sum>q\<leftarrow>qs. if q_name q = n \<and> \<not> q_paused q then unat (q_weight q) else 0)"
    by (induction qs) auto
  finally have count: "count_list (BuildDequeueOrder (map Some qs)) n =
      (\<Sum>q\<leftarrow>qs. if q_name q = n \<and> \<not> q_paused q then unat (q_weight q) else 0)" .
  have "distinct (map q_name ?act)" using assms by (simp add: distinct_map_filter)
  then have "distinct (map q_name ?o)" by (metis mset_eq_imp_distinct_iff mset_map mset_sort)
  then have "distinct (map queue_rank ?o)" by (auto simp: distinct_map inj_on_def queue_rank_def)
  moreover have "sorted (map queue_rank ?o)" by simp
  ultimately have "sorted_wrt (<) (map queue_rank ?o)" by (simp add: strict_sorted_iff)
  then have "sorted_wrt (\<lambda>a b. queue_rank a < queue_rank b) ?o" by (simp add: sorted_wrt_map)
  then have "sorted_wrt (\<lambda>a b. q_weight a > q_weight b \<or> q_weight a = q_weight b \<and> q_name a < q_name b) ?o"
    by (rule sorted_wrt_mono_rel [rotated]) (auto simp: queue_before_def simp flip: queue_before_rank split: if_splits)
  moreover have "mset ?o = mset ?act" by simp
  ultimately show ?thesis using count order by blast
qed

theorem dequeue_order_weights_witness:
  "count_list (BuildDequeueOrder (map Some [NewQueue ''low'' 1, NewQueue ''crit'' 6])) ''crit'' = 6"
  using dequeue_order_weights [of "[NewQueue ''low'' 1, NewQueue ''crit'' 6]" "''crit''"]
  by (simp add: NewQueue_def)

text \<open>
  What the store reads from that order: without duplicates it is the list of the queues that
  are not paused, heaviest first. The multiplicities therefore have no effect on which queue is
  tried first, and a heavier queue is always tried before a lighter one.
\<close>

theorem dedupe_is_strict_priority:
  assumes "distinct (map q_name qs)" and "\<forall>q \<in> set qs. q_weight q \<noteq> 0"
  shows "dedupeQueues (BuildDequeueOrder (map Some qs)) =
    map q_name (sort_key queue_rank (filter (\<lambda>q. \<not> q_paused q) qs))"
proof -
  have act: "active_queues (map Some qs) = filter (\<lambda>q. \<not> q_paused q) qs" by (induction qs) auto
  have "distinct (map q_name (active_queues (map Some qs)))"
    using assms(1) by (simp add: act distinct_map_filter)
  then show ?thesis using dedupe_BuildDequeueOrder [of "map Some qs"] assms(2) by (simp add: act)
qed

theorem dedupe_is_strict_priority_witness:
  "dedupeQueues (BuildDequeueOrder (map Some [NewQueue ''low'' 1, NewQueue ''crit'' 6])) = [''crit'', ''low'']"
  using dedupe_is_strict_priority [of "[NewQueue ''low'' 1, NewQueue ''crit'' 6]"]
  by (simp add: NewQueue_def queue_rank_def)

end
