(* ===== verification/Ports.thy ===== *)
theory Ports
  imports Job_Aggregate Queue_Aggregate
begin

text \<open>
  The persistence ports (\<open>src/pkg/domain/persistence\<close>). Each Go interface is a record of
  operations over a store of type \<open>'s\<close>; the services take these records as arguments, as the Go
  services hold interface values. What a service relies on is stated as locales over the
  documents a store holds: \<open>docs s i\<close> is the job stored under the identifier \<open>i\<close>, and \<open>held s k\<close>
  the identifier that holds the idempotency key \<open>k\<close>.

  A store may keep less than the aggregate (a representation in milliseconds, say): \<open>norm\<close> is
  what remains of a job once stored.
\<close>

record JobFilter =
  f_Queue :: QueueName
  f_State :: "JobState option"
  f_TaskType :: TaskType
  f_Offset :: int
  f_Limit :: int

record JobPage =
  pg_Jobs :: "Job list"
  pg_Total :: int

record 's IJobRepo =
  repo_Save :: "Job \<Rightarrow> ('s, unit) call"
  repo_FindByID :: "JobID \<Rightarrow> ('s, Job) call"
  repo_List :: "JobFilter \<Rightarrow> ('s, JobPage) call"
  repo_Delete :: "JobID \<Rightarrow> ('s, unit) call"
  repo_PurgeCompleted :: "QueueName \<Rightarrow> int \<Rightarrow> ('s, int) call"

record 's IJobBroker =
  broker_Enqueue :: "Job \<Rightarrow> ('s, unit) call"
  broker_Schedule :: "Job \<Rightarrow> ('s, unit) call"
  broker_Dequeue :: "QueueName list \<Rightarrow> string \<Rightarrow> duration \<Rightarrow> ('s, Job option) call"
  broker_Complete :: "Job \<Rightarrow> duration \<Rightarrow> ('s, unit) call"
  broker_Retry :: "Job \<Rightarrow> time \<Rightarrow> ('s, unit) call"
  broker_Kill :: "Job \<Rightarrow> ('s, unit) call"
  broker_Requeue :: "Job \<Rightarrow> ('s, unit) call"
  broker_PromoteDue :: "QueueName \<Rightarrow> time \<Rightarrow> int \<Rightarrow> ('s, int) call"
  broker_ReclaimExpired :: "QueueName \<Rightarrow> time \<Rightarrow> int \<Rightarrow> ('s, int) call"
  broker_ExtendLease :: "JobID \<Rightarrow> QueueName \<Rightarrow> time \<Rightarrow> ('s, unit) call"

record 's IQueueRepo =
  queues_Register :: "Queue \<Rightarrow> ('s, unit) call"
  queues_FindByName :: "QueueName \<Rightarrow> ('s, Queue) call"
  queues_ListAll :: "('s, Queue list) call"
  queues_SetPaused :: "QueueName \<Rightarrow> bool \<Rightarrow> ('s, unit) call"
  queues_Stats :: "QueueName \<Rightarrow> ('s, Stats) call"
  queues_StatsAll :: "('s, Stats list) call"

text \<open>\<open>Claim\<close> returns whether the key was free, and otherwise the identifier that holds it.\<close>

record 's IIdempotencyStore =
  idem_Claim :: "IdempotencyKey \<Rightarrow> JobID \<Rightarrow> duration \<Rightarrow> ('s, bool \<times> JobID) call"
  idem_Release :: "IdempotencyKey \<Rightarrow> ('s, unit) call"

section \<open>Contracts\<close>

text \<open>
  A write of a job document, as \<open>Save\<close> and the broker's \<open>Enqueue\<close>, \<open>Schedule\<close>, \<open>Complete\<close>, \<open>Retry\<close>,
  \<open>Kill\<close> and \<open>Requeue\<close> make it. A call that reports an error may have been carried out.
\<close>

locale document_view =
  fixes inv :: "'s \<Rightarrow> bool"
    and docs :: "'s \<Rightarrow> JobID \<Rightarrow> Job option"
    and held :: "'s \<Rightarrow> IdempotencyKey \<Rightarrow> JobID option"
    and norm :: "Job \<Rightarrow> Job"
  assumes norm_keeps: "j_id (norm j) = j_id j" "j_state (norm j) = j_state j"
      "j_queue (norm j) = j_queue j" "j_attemptsMade (norm j) = j_attemptsMade j"
      "j_workerID (norm j) = j_workerID j"
begin

definition writes_on :: "(Job \<Rightarrow> bool) \<Rightarrow> (Job \<Rightarrow> ('s, unit) call) \<Rightarrow> bool" where
  "writes_on fits op \<longleftrightarrow>
     (\<forall>s j s' r. inv s \<longrightarrow> fits j \<longrightarrow> op j s = (s', r) \<longrightarrow>
        inv s' \<and> held s' = held s \<and>
        (case r of
           Inr _ \<Rightarrow> docs s' = (docs s)(j_id j \<mapsto> norm j)
         | Inl _ \<Rightarrow> docs s' = docs s \<or> docs s' = (docs s)(j_id j \<mapsto> norm j)))"

abbreviation writes :: "(Job \<Rightarrow> ('s, unit) call) \<Rightarrow> bool" where
  "writes op \<equiv> writes_on job_ok op"

lemma writes_Inr:
  assumes "writes_on fits op" "inv s" "fits j" "op j s = (s', Inr u)"
  shows "inv s'" "docs s' = (docs s)(j_id j \<mapsto> norm j)" "held s' = held s"
  using assms unfolding writes_on_def by fastforce+

lemma writes_Inl:
  assumes "writes_on fits op" "inv s" "fits j" "op j s = (s', Inl e)"
  shows "inv s'" "held s' = held s" "i \<noteq> j_id j \<Longrightarrow> docs s' i = docs s i"
proof -
  have "inv s' \<and> held s' = held s \<and> (docs s' = docs s \<or> docs s' = (docs s)(j_id j \<mapsto> norm j))"
    using assms unfolding writes_on_def by fastforce
  then show "inv s'" "held s' = held s" "i \<noteq> j_id j \<Longrightarrow> docs s' i = docs s i" by auto
qed

end

text \<open>Reading a document by its identifier.\<close>

locale document_reader = document_view inv docs held norm
  for inv :: "'s \<Rightarrow> bool" and docs held norm +
  fixes find :: "JobID \<Rightarrow> ('s, Job) call"
  assumes find_ok: "inv s \<Longrightarrow> find i s = (s', Inr j) \<Longrightarrow> s' = s \<and> docs s i = Some j"
    and find_err: "inv s \<Longrightarrow> find i s = (s', Inl e) \<Longrightarrow>
      s' = s \<and> (docs s i = None \<or> KindOf e \<noteq> KindNotFound)"

text \<open>
  What the enqueuer needs of its broker, its repository and its idempotency store. \<open>fits\<close> says which
  jobs the store can represent; the identifiers it claims keys for are valid ones.
\<close>

locale enqueue_ports = document_reader inv docs held norm find
  for inv :: "'s \<Rightarrow> bool" and docs held norm find +
  fixes fits :: "Job \<Rightarrow> bool" and broker :: "'s IJobBroker" and idem :: "'s IIdempotencyStore"
  assumes enqueue_writes: "writes_on fits (broker_Enqueue broker)"
    and schedule_writes: "writes_on fits (broker_Schedule broker)"
    and claim_free: "inv s \<Longrightarrow> k \<noteq> '''' \<Longrightarrow> NewJobID i = Inr i \<Longrightarrow> idem_Claim idem k i ttl s = (s', Inr (True, x)) \<Longrightarrow>
      inv s' \<and> held s k = None \<and> held s' = (held s)(k \<mapsto> i) \<and> docs s' = docs s"
    and claim_taken: "inv s \<Longrightarrow> k \<noteq> '''' \<Longrightarrow> NewJobID i = Inr i \<Longrightarrow> idem_Claim idem k i ttl s = (s', Inr (False, x)) \<Longrightarrow>
      inv s' \<and> s' = s \<and> (x = '''' \<or> held s k = Some x)"
    and claim_err: "inv s \<Longrightarrow> k \<noteq> '''' \<Longrightarrow> NewJobID i = Inr i \<Longrightarrow> idem_Claim idem k i ttl s = (s', Inl e) \<Longrightarrow>
      inv s' \<and> docs s' = docs s"
    and release_ok: "inv s \<Longrightarrow> idem_Release idem k s = (s', Inr u) \<Longrightarrow>
      inv s' \<and> held s' = (held s)(k := None) \<and> docs s' = docs s"
    and release_err: "inv s \<Longrightarrow> idem_Release idem k s = (s', Inl e) \<Longrightarrow> inv s' \<and> docs s' = docs s"

text \<open>What the processor needs: it saves the lease and then records exactly one outcome.\<close>

locale outcome_ports = document_view inv docs held norm
  for inv :: "'s \<Rightarrow> bool" and docs held norm +
  fixes repo :: "'s IJobRepo" and broker :: "'s IJobBroker"
  assumes save_writes: "writes (repo_Save repo)"
    and complete_writes: "writes (\<lambda>j. broker_Complete broker j retain)"
    and retry_writes: "writes (\<lambda>j. broker_Retry broker j at)"
    and kill_writes: "writes (broker_Kill broker)"

text \<open>
  What the inspector needs: besides reading, it requeues and kills through the broker, deletes a
  document, and lists documents by a filter, each at most once.
\<close>

locale operator_ports = document_reader inv docs held norm "repo_FindByID repo"
  for inv :: "'s \<Rightarrow> bool" and docs held norm and repo :: "'s IJobRepo" +
  fixes broker :: "'s IJobBroker"
  assumes docs_ok: "inv s \<Longrightarrow> docs s i = Some j \<Longrightarrow> j_id j = i \<and> job_ok j"
    and requeue_writes: "writes (broker_Requeue broker)"
    and kill_writes: "writes (broker_Kill broker)"
    and delete_ok: "inv s \<Longrightarrow> repo_Delete repo i s = (s', Inr u) \<Longrightarrow>
      inv s' \<and> docs s i \<noteq> None \<and> docs s' = (docs s)(i := None)"
    and delete_err: "inv s \<Longrightarrow> repo_Delete repo i s = (s', Inl e) \<Longrightarrow> inv s' \<and> docs s' = docs s"
    and list_ok: "inv s \<Longrightarrow> repo_List repo f s = (s', Inr page) \<Longrightarrow>
      s' = s \<and> distinct (map j_id (pg_Jobs page)) \<and>
      (\<forall>j \<in> set (pg_Jobs page). docs s (j_id j) = Some j \<and>
         (f_Queue f \<noteq> '''' \<longrightarrow> j_queue j = f_Queue f) \<and> (\<forall>st. f_State f = Some st \<longrightarrow> j_state j = st))"
    and list_err: "inv s \<Longrightarrow> repo_List repo f s = (s', Inl e) \<Longrightarrow> inv s' \<and> docs s' = docs s"

text \<open>
  What the worker pool needs, at every reading of the clock: a job handed out was pending, is stored
  active under the name of the worker, and names that worker itself; a call that hands out nothing leaves the documents alone.
\<close>

locale worker_ports =
  fixes inv :: "'s \<Rightarrow> bool"
    and docs :: "'s \<Rightarrow> JobID \<Rightarrow> Job option"
    and held :: "'s \<Rightarrow> IdempotencyKey \<Rightarrow> JobID option"
    and norm :: "Job \<Rightarrow> Job"
    and repo :: "'s IJobRepo"
    and broker :: "time \<Rightarrow> 's IJobBroker"
  assumes outcome: "outcome_ports inv docs held norm repo (broker t)"
    and dequeue_some: "inv s \<Longrightarrow> \<not> time_IsZero t \<Longrightarrow>
      broker_Dequeue (broker t) order w lease s = (s', Inr (Some j)) \<Longrightarrow>
      inv s' \<and> job_ok j \<and> j_state j = StateActive \<and> j_workerID j = w \<and>
      (\<exists>before. docs s (j_id j) = Some before \<and> j_state before = StatePending) \<and>
      (\<exists>after. docs s' = (docs s)(j_id j \<mapsto> after) \<and> j_state after = StateActive \<and> j_workerID after = w)"
    and dequeue_none: "inv s \<Longrightarrow> \<not> time_IsZero t \<Longrightarrow>
      broker_Dequeue (broker t) order w lease s = (s', Inr None) \<Longrightarrow> inv s' \<and> docs s' = docs s"
    and dequeue_err: "inv s \<Longrightarrow> \<not> time_IsZero t \<Longrightarrow>
      broker_Dequeue (broker t) order w lease s = (s', Inl e) \<Longrightarrow> inv s' \<and> docs s' = docs s"

text \<open>What starting the pool needs besides: registering a queue touches no document.\<close>

locale pool_ports = worker_ports inv docs held norm repo broker
  for inv :: "'s \<Rightarrow> bool" and docs held norm repo broker +
  fixes queues :: "'s IQueueRepo"
  assumes register_keeps: "inv s \<Longrightarrow> q_weight q \<noteq> 0 \<Longrightarrow> queues_Register queues q s = (s', r) \<Longrightarrow>
    inv s' \<and> docs s' = docs s"

text \<open>
  What the scheduler needs of a periodic sweep. \<open>work\<close> counts the jobs of a queue that the sweep could
  move sooner or later, \<open>late t\<close> says that one of them should have been moved by the instant \<open>t\<close>.
  A sweep either moves as many jobs as its limit allows or leaves nothing late.
\<close>

locale sweep_port =
  fixes inv :: "'s \<Rightarrow> bool"
    and names :: "'s \<Rightarrow> QueueName set"
    and sweep :: "time \<Rightarrow> QueueName \<Rightarrow> int \<Rightarrow> ('s, int) call"
    and work :: "'s \<Rightarrow> QueueName \<Rightarrow> nat"
    and late :: "time \<Rightarrow> 's \<Rightarrow> QueueName \<Rightarrow> bool"
  assumes sweep_ok: "inv s \<Longrightarrow> 0 < limit \<Longrightarrow> \<not> time_IsZero t \<Longrightarrow> \<exists>s' n. sweep t q limit s = (s', Inr n) \<and> inv s' \<and>
      names s' = names s \<and> 0 \<le> n \<and> n \<le> limit \<and> int (work s' q) = int (work s q) - n \<and>
      (n = limit \<or> \<not> late t s' q) \<and>
      (\<forall>p. p \<noteq> q \<longrightarrow> work s' p = work s p) \<and> (\<forall>u p. late u s' p \<longrightarrow> late u s p)"
    and late_mono: "u \<le> t \<Longrightarrow> late u s q \<Longrightarrow> late t s q"
    and late_work: "inv s \<Longrightarrow> late t s q \<Longrightarrow> 0 < work s q"

end
