(* ===== verification/Fake_Store.thy ===== *)
theory Fake_Store
  imports Ports
begin

text \<open>
  The in-memory implementation of the four ports (\<open>src/pkg/domain/persistence/fake/fake.go\<close>).
  Every method of \<open>Store\<close> holds the mutex for its whole body, so each is one step on the store.

  The Go maps are association lists; a \<open>range\<close> loop visits the entries in the order of the list,
  which stands for the order Go happens to choose. Results that must not depend on that order are
  proved not to. Values handed out are clones, so the model has no aliasing to track. \<open>Dequeue\<close>
  reads \<open>time.Now()\<close>, which is its first argument here.
\<close>

record Store =
  st_jobs :: "(JobID \<times> Job) list"
  st_queues :: "(QueueName \<times> Queue) list"
  st_claims :: "(IdempotencyKey \<times> JobID) list"
  st_FailNext :: "go_error option"

definition NewStore :: Store where
  "NewStore = \<lparr>st_jobs = [], st_queues = [], st_claims = [], st_FailNext = None\<rparr>"

definition takeFailure :: "Store \<Rightarrow> Store \<times> go_error option" where
  "takeFailure s =
     (case st_FailNext s of
        Some e \<Rightarrow> (s\<lparr>st_FailNext := None\<rparr>, Some e)
      | None \<Rightarrow> (s, None))"

definition ensureQueue :: "QueueName \<Rightarrow> Store \<Rightarrow> Store" where
  "ensureQueue name s =
     (case map_of (st_queues s) name of
        None \<Rightarrow> s\<lparr>st_queues := AList.update name (NewQueue name DefaultWeight) (st_queues s)\<rparr>
      | Some _ \<Rightarrow> s)"

section \<open>Job documents\<close>

definition Save :: "Job \<Rightarrow> (Store, unit) call" where
  "Save job s =
     (case takeFailure s of
        (s1, Some e) \<Rightarrow> (s1, Inl e)
      | (s1, None) \<Rightarrow>
          (ensureQueue (j_queue job)
             (s1\<lparr>st_jobs := AList.update (j_id job) (Clone job) (st_jobs s1)\<rparr>), Inr ()))"

definition job_not_found :: "JobID \<Rightarrow> go_error" where
  "job_not_found i = NotFound EJobNotFound (''no job found with id '' @ i)"

definition FindByID :: "JobID \<Rightarrow> (Store, Job) call" where
  "FindByID i s =
     (case map_of (st_jobs s) i of
        None \<Rightarrow> (s, Inl (job_not_found i))
      | Some job \<Rightarrow> (s, Inr (Clone job)))"

definition filter_matches :: "JobFilter \<Rightarrow> Job \<Rightarrow> bool" where
  "filter_matches f job \<longleftrightarrow>
     \<not> (f_Queue f \<noteq> '''' \<and> j_queue job \<noteq> f_Queue f) \<and>
     \<not> (f_State f \<noteq> None \<and> Some (j_state job) \<noteq> f_State f) \<and>
     \<not> (f_TaskType f \<noteq> '''' \<and> j_taskType job \<noteq> f_TaskType f)"

definition newer_first :: "Job \<Rightarrow> Job \<Rightarrow> bool" where
  "newer_first a b =
     (if j_createdAt a = j_createdAt b then j_id a < j_id b else j_createdAt a > j_createdAt b)"

definition List_jobs :: "JobFilter \<Rightarrow> (Store, JobPage) call" where
  "List_jobs f s =
     (let matched = SliceStable newer_first
            (map Clone (filter (filter_matches f) (map snd (st_jobs s))));
          total = int (length matched);
          limit = (if f_Limit f \<le> 0 then 50 else f_Limit f)
      in if f_Offset f \<ge> total then (s, Inr \<lparr>pg_Jobs = [], pg_Total = total\<rparr>)
         else let sum = wrap64 (f_Offset f + limit);
                  end' = (if sum > total then total else sum)
              in if f_Offset f < 0 \<or> end' < f_Offset f
                 then (s, Inl (go_panic ''slice bounds out of range''))
                 else (s, Inr \<lparr>pg_Jobs = take (nat (end' - f_Offset f)) (drop (nat (f_Offset f)) matched),
                               pg_Total = total\<rparr>))"

definition Delete :: "JobID \<Rightarrow> (Store, unit) call" where
  "Delete i s =
     (case map_of (st_jobs s) i of
        None \<Rightarrow> (s, Inl (job_not_found i))
      | Some job \<Rightarrow>
          let s1 = s\<lparr>st_jobs := AList.delete i (st_jobs s)\<rparr>
          in (if \<not> IsZero (j_idempotencyKey job)
              then s1\<lparr>st_claims := AList.delete (j_idempotencyKey job) (st_claims s1)\<rparr> else s1, Inr ()))"

text \<open>
  The loop of the three sweeps: visit the entries until \<open>limit\<close> of them have moved (no limit when
  it is not positive). \<open>f\<close> says what happens to a job: left alone, deleted, or replaced.
\<close>

datatype move = Skip | Drop | Put Job

fun sweep_loop :: "(Job \<Rightarrow> move) \<Rightarrow> int \<Rightarrow> int \<Rightarrow> (JobID \<times> Job) list \<Rightarrow> int \<times> (JobID \<times> Job) list" where
  "sweep_loop f limit moved [] = (moved, [])"
| "sweep_loop f limit moved ((i, job) # rest) =
     (if limit > 0 \<and> moved \<ge> limit then (moved, (i, job) # rest)
      else case f job of
             Skip \<Rightarrow> let (n, rest') = sweep_loop f limit moved rest in (n, (i, job) # rest')
           | Drop \<Rightarrow> sweep_loop f limit (moved + 1) rest
           | Put job' \<Rightarrow> let (n, rest') = sweep_loop f limit (moved + 1) rest in (n, (i, job') # rest'))"

definition run_sweep :: "(Job \<Rightarrow> move) \<Rightarrow> int \<Rightarrow> (Store, int) call" where
  "run_sweep f limit s =
     (let (n, jobs') = sweep_loop f limit 0 (st_jobs s) in (s\<lparr>st_jobs := jobs'\<rparr>, Inr n))"

definition purge_body :: "QueueName \<Rightarrow> Job \<Rightarrow> move" where
  "purge_body queue job =
     (if j_queue job = queue \<and> j_state job = StateCompleted then Drop else Skip)"

definition PurgeCompleted :: "QueueName \<Rightarrow> int \<Rightarrow> (Store, int) call" where
  "PurgeCompleted queue limit s = run_sweep (purge_body queue) limit s"

section \<open>The broker\<close>

definition Enqueue :: "Job \<Rightarrow> (Store, unit) call" where "Enqueue job s = Save job s"
definition Schedule :: "Job \<Rightarrow> (Store, unit) call" where "Schedule job s = Save job s"

definition beats :: "Job \<Rightarrow> Job \<Rightarrow> bool" where
  "beats candidate current =
     (if j_priority candidate \<noteq> j_priority current then j_priority candidate > j_priority current
      else if j_processAt candidate \<noteq> j_processAt current
        then j_processAt candidate < j_processAt current
      else j_id candidate < j_id current)"

fun select_best :: "QueueName \<Rightarrow> (JobID \<times> Job) option \<Rightarrow> (JobID \<times> Job) list \<Rightarrow> (JobID \<times> Job) option" where
  "select_best queue best [] = best"
| "select_best queue best ((i, job) # rest) =
     (if j_queue job \<noteq> queue \<or> j_state job \<noteq> StatePending then select_best queue best rest
      else case best of
             None \<Rightarrow> select_best queue (Some (i, job)) rest
           | Some (bi, b) \<Rightarrow>
               if beats job b then select_best queue (Some (i, job)) rest
               else select_best queue best rest)"

fun dequeue_loop :: "time \<Rightarrow> string \<Rightarrow> duration \<Rightarrow> QueueName list \<Rightarrow> (Store, Job option) call" where
  "dequeue_loop now workerID leaseFor [] s = (s, Inr None)"
| "dequeue_loop now workerID leaseFor (queue # order) s =
     (if (case map_of (st_queues s) queue of Some q \<Rightarrow> q_paused q | None \<Rightarrow> False)
      then dequeue_loop now workerID leaseFor order s
      else case select_best queue None (st_jobs s) of
             None \<Rightarrow> dequeue_loop now workerID leaseFor order s
           | Some (i, best) \<Rightarrow>
               (case Lease workerID now leaseFor best of
                  Inl e \<Rightarrow> (s, Inl e)
                | Inr leased \<Rightarrow>
                    (s\<lparr>st_jobs := AList.update i leased (st_jobs s)\<rparr>, Inr (Some (Clone leased)))))"

definition Dequeue :: "time \<Rightarrow> QueueName list \<Rightarrow> string \<Rightarrow> duration \<Rightarrow> (Store, Job option) call" where
  "Dequeue now order workerID leaseFor s =
     (case takeFailure s of
        (s1, Some e) \<Rightarrow> (s1, Inl e)
      | (s1, None) \<Rightarrow> dequeue_loop now workerID leaseFor order s1)"

definition Complete_job :: "Job \<Rightarrow> duration \<Rightarrow> (Store, unit) call" where
  "Complete_job job retainFor s = Save job s"

definition Retry_job :: "Job \<Rightarrow> time \<Rightarrow> (Store, unit) call" where
  "Retry_job job retryAt s = Save job s"

definition Kill_job :: "Job \<Rightarrow> (Store, unit) call" where "Kill_job job s = Save job s"
definition Requeue_job :: "Job \<Rightarrow> (Store, unit) call" where "Requeue_job job s = Save job s"

definition promote_body :: "QueueName \<Rightarrow> time \<Rightarrow> Job \<Rightarrow> move" where
  "promote_body queue now job =
     (if j_queue job \<noteq> queue then Skip
      else if j_state job \<noteq> StateScheduled \<and> j_state job \<noteq> StateRetrying then Skip
      else if \<not> IsDue now job then Skip
      else case Promote now job of Inl e \<Rightarrow> Skip | Inr job' \<Rightarrow> Put job')"

definition PromoteDue :: "QueueName \<Rightarrow> time \<Rightarrow> int \<Rightarrow> (Store, int) call" where
  "PromoteDue queue now limit s = run_sweep (promote_body queue now) limit s"

definition reclaim_body :: "QueueName \<Rightarrow> time \<Rightarrow> Job \<Rightarrow> move" where
  "reclaim_body queue now job =
     (if j_queue job \<noteq> queue \<or> \<not> IsLeaseExpired now job then Skip
      else case ReclaimExpiredLease now job of Inl e \<Rightarrow> Skip | Inr job' \<Rightarrow> Put job')"

definition ReclaimExpired :: "QueueName \<Rightarrow> time \<Rightarrow> int \<Rightarrow> (Store, int) call" where
  "ReclaimExpired queue now limit s = run_sweep (reclaim_body queue now) limit s"

definition ExtendLease :: "JobID \<Rightarrow> QueueName \<Rightarrow> time \<Rightarrow> (Store, unit) call" where
  "ExtendLease i queue until s =
     (case map_of (st_jobs s) i of
        None \<Rightarrow> (s, Inl (Conflict ''lease_lost'' ''job is no longer active''))
      | Some _ \<Rightarrow> (s, Inr ()))"

section \<open>Queues\<close>

definition Register :: "Queue \<Rightarrow> (Store, unit) call" where
  "Register queue s =
     (let paused = (case map_of (st_queues s) (q_name queue) of
                      Some existing \<Rightarrow> q_paused existing | None \<Rightarrow> False)
      in (s\<lparr>st_queues := AList.update (q_name queue)
              (Queue_Reconstitute (q_name queue) (q_weight queue) paused) (st_queues s)\<rparr>, Inr ()))"

definition queue_not_found :: "QueueName \<Rightarrow> go_error" where
  "queue_not_found name = NotFound EQueueNotFound (''no queue named '' @ name)"

definition FindByName :: "QueueName \<Rightarrow> (Store, Queue) call" where
  "FindByName name s =
     (case map_of (st_queues s) name of
        None \<Rightarrow> (s, Inl (queue_not_found name))
      | Some queue \<Rightarrow> (s, Inr queue))"

definition ListAll :: "(Store, Queue list) call" where
  "ListAll s = (s, Inr (SliceStable (\<lambda>a b. q_name a < q_name b) (map snd (st_queues s))))"

definition SetPaused :: "QueueName \<Rightarrow> bool \<Rightarrow> (Store, unit) call" where
  "SetPaused name paused s =
     (case map_of (st_queues s) name of
        None \<Rightarrow> (s, Inl (queue_not_found name))
      | Some queue \<Rightarrow>
          (s\<lparr>st_queues := AList.update name (if paused then Pause queue else Resume queue)
               (st_queues s)\<rparr>, Inr ()))"

definition count_job :: "QueueName \<Rightarrow> Stats \<Rightarrow> Job \<Rightarrow> Stats" where
  "count_job name stats job =
     (if j_queue job \<noteq> name then stats
      else case j_state job of
             StatePending \<Rightarrow> stats\<lparr>s_Pending := s_Pending stats + 1\<rparr>
           | StateActive \<Rightarrow> stats\<lparr>s_Active := s_Active stats + 1\<rparr>
           | StateScheduled \<Rightarrow> stats\<lparr>s_Scheduled := s_Scheduled stats + 1\<rparr>
           | StateRetrying \<Rightarrow> stats\<lparr>s_Retrying := s_Retrying stats + 1\<rparr>
           | StateCompleted \<Rightarrow> stats\<lparr>s_Completed := s_Completed stats + 1\<rparr>
           | StateDead \<Rightarrow> stats\<lparr>s_Dead := s_Dead stats + 1\<rparr>)"

definition statsFor :: "Store \<Rightarrow> QueueName \<Rightarrow> Stats" where
  "statsFor s name =
     (let queue = map_of (st_queues s) name;
          stats = \<lparr>s_Queue = name,
                   s_Paused = (case queue of Some q \<Rightarrow> q_paused q | None \<Rightarrow> False),
                   s_Weight = (case queue of Some q \<Rightarrow> q_weight q | None \<Rightarrow> DefaultWeight),
                   s_Pending = 0, s_Active = 0, s_Scheduled = 0, s_Retrying = 0,
                   s_Completed = 0, s_Dead = 0\<rparr>
      in foldl (count_job name) stats (map snd (st_jobs s)))"

definition Stats_of :: "QueueName \<Rightarrow> (Store, Stats) call" where
  "Stats_of name s = (s, Inr (statsFor s name))"

definition StatsAll :: "(Store, Stats list) call" where
  "StatsAll s = (s, Inr (SortStatsByName (map (statsFor s) (map fst (st_queues s)))))"

section \<open>Idempotency claims\<close>

definition Claim :: "IdempotencyKey \<Rightarrow> JobID \<Rightarrow> duration \<Rightarrow> (Store, bool \<times> JobID) call" where
  "Claim key jobID ttl s =
     (if IsZero key then (s, Inr (True, ''''))
      else case map_of (st_claims s) key of
             Some existing \<Rightarrow> (s, Inr (False, existing))
           | None \<Rightarrow> (s\<lparr>st_claims := AList.update key jobID (st_claims s)\<rparr>, Inr (True, '''')))"

definition Release :: "IdempotencyKey \<Rightarrow> (Store, unit) call" where
  "Release key s = (s\<lparr>st_claims := AList.delete key (st_claims s)\<rparr>, Inr ())"

text \<open>The store as a value of the four interfaces.\<close>

definition fakeRepo :: "Store IJobRepo" where
  "fakeRepo = \<lparr>repo_Save = Save, repo_FindByID = FindByID, repo_List = List_jobs,
     repo_Delete = Delete, repo_PurgeCompleted = PurgeCompleted\<rparr>"

definition fakeBroker :: "time \<Rightarrow> Store IJobBroker" where
  "fakeBroker now = \<lparr>broker_Enqueue = Enqueue, broker_Schedule = Schedule,
     broker_Dequeue = Dequeue now, broker_Complete = Complete_job, broker_Retry = Retry_job,
     broker_Kill = Kill_job, broker_Requeue = Requeue_job, broker_PromoteDue = PromoteDue,
     broker_ReclaimExpired = ReclaimExpired, broker_ExtendLease = ExtendLease\<rparr>"

definition fakeQueues :: "Store IQueueRepo" where
  "fakeQueues = \<lparr>queues_Register = Register, queues_FindByName = FindByName,
     queues_ListAll = ListAll, queues_SetPaused = SetPaused, queues_Stats = Stats_of,
     queues_StatsAll = StatsAll\<rparr>"

definition fakeIdempotency :: "Store IIdempotencyStore" where
  "fakeIdempotency = \<lparr>idem_Claim = Claim, idem_Release = Release\<rparr>"

section \<open>The invariant of the store\<close>

abbreviation store_docs :: "Store \<Rightarrow> JobID \<Rightarrow> Job option" where
  "store_docs s \<equiv> map_of (st_jobs s)"

abbreviation store_held :: "Store \<Rightarrow> IdempotencyKey \<Rightarrow> JobID option" where
  "store_held s \<equiv> map_of (st_claims s)"

definition entries_ok :: "(JobID \<times> Job) list \<Rightarrow> bool" where
  "entries_ok es \<longleftrightarrow> keys_distinct es \<and> (\<forall>(i, j) \<in> set es. i = j_id j \<and> job_ok j)"

definition queues_ok :: "(QueueName \<times> Queue) list \<Rightarrow> bool" where
  "queues_ok qs \<longleftrightarrow> keys_distinct qs \<and> (\<forall>(n, q) \<in> set qs. n = q_name q \<and> q_weight q \<noteq> 0)"

definition store_ok :: "Store \<Rightarrow> bool" where
  "store_ok s \<longleftrightarrow>
     entries_ok (st_jobs s) \<and> queues_ok (st_queues s) \<and> keys_distinct (st_claims s) \<and>
     (\<forall>(i, j) \<in> set (st_jobs s). map_of (st_queues s) (j_queue j) \<noteq> None)"

lemma entries_ok_lookup: "entries_ok es \<Longrightarrow> map_of es i = Some j \<Longrightarrow> i = j_id j \<and> job_ok j"
  by (auto simp: entries_ok_def dest!: map_of_SomeD)

lemma entries_ok_update [inv_intros]:
  "entries_ok es \<Longrightarrow> job_ok j \<Longrightarrow> entries_ok (AList.update (j_id j) j es)"
  unfolding entries_ok_def by (auto simp: set_update_iff distinct_update split: if_splits)

lemma entries_ok_delete [inv_intros]: "entries_ok es \<Longrightarrow> entries_ok (AList.delete i es)"
  unfolding entries_ok_def using distinct_delete [of es i] by (auto simp: AList.delete_eq)

lemma queues_ok_update [inv_intros]:
  "queues_ok qs \<Longrightarrow> n = q_name q \<Longrightarrow> q_weight q \<noteq> 0 \<Longrightarrow> queues_ok (AList.update n q qs)"
  unfolding queues_ok_def by (auto simp: set_update_iff distinct_update split: if_splits)

lemma queues_ok_lookup: "queues_ok qs \<Longrightarrow> map_of qs n = Some q \<Longrightarrow> n = q_name q \<and> q_weight q \<noteq> 0"
  by (auto simp: queues_ok_def dest!: map_of_SomeD)

lemma NewStore_ok: "store_ok NewStore"
  by (simp add: NewStore_def store_ok_def entries_ok_def queues_ok_def)

lemma ensureQueue_select [simp]:
  "st_jobs (ensureQueue n s) = st_jobs s" "st_claims (ensureQueue n s) = st_claims s"
  "st_FailNext (ensureQueue n s) = st_FailNext s"
  by (simp_all add: ensureQueue_def split: option.splits)

lemma ensureQueue_queues:
  "map_of (st_queues (ensureQueue n s)) n \<noteq> None"
  "map_of (st_queues s) m \<noteq> None \<Longrightarrow> map_of (st_queues (ensureQueue n s)) m \<noteq> None"
  by (auto simp: ensureQueue_def update_conv' split: option.splits)

lemma ensureQueue_ok: "queues_ok (st_queues s) \<Longrightarrow> queues_ok (st_queues (ensureQueue n s))"
  by (auto simp: ensureQueue_def NewQueue_def weight_limits intro!: inv_intros split: option.splits)

lemma takeFailure_cases:
  obtains e where "takeFailure s = (s\<lparr>st_FailNext := None\<rparr>, Some e)"
  | "takeFailure s = (s, None)"
  by (cases "st_FailNext s") (auto simp: takeFailure_def)

lemma store_ok_FailNext [simp]: "store_ok (s\<lparr>st_FailNext := x\<rparr>) = store_ok s"
  by (simp add: store_ok_def)

lemma Save_cases:
  obtains (failed) e where "Save job s = (s\<lparr>st_FailNext := None\<rparr>, Inl e)"
  | (saved) s' where "Save job s = (s', Inr ())"
      "st_jobs s' = AList.update (j_id job) job (st_jobs s)" "st_claims s' = st_claims s"
      "s' = ensureQueue (j_queue job) (s\<lparr>st_jobs := AList.update (j_id job) job (st_jobs s)\<rparr>)"
  by (cases s rule: takeFailure_cases) (auto simp: Save_def)

lemma Save_ok [inv_intros]:
  assumes "store_ok s" "job_ok job" "Save job s = (s', r)"
  shows "store_ok s'"
proof (cases job s rule: Save_cases)
  case (failed e)
  with assms show ?thesis by auto
next
  case (saved s1)
  let ?s = "s\<lparr>st_jobs := AList.update (j_id job) job (st_jobs s)\<rparr>"
  have s': "s' = ensureQueue (j_queue job) ?s" using assms(3) saved(1,4) by simp
  have "map_of (st_queues s') (j_queue j) \<noteq> None" if "(i, j) \<in> set (st_jobs s')" for i j
    using that assms(1) ensureQueue_queues(1) [of "j_queue job" ?s] ensureQueue_queues(2) [of ?s]
    unfolding s' store_ok_def entries_ok_def by (auto simp: set_update_iff split: if_splits)
  then show ?thesis
    using assms(1,2) unfolding store_ok_def s' by (auto intro!: inv_intros ensureQueue_ok)
qed

text \<open>Replacing a stored job by a later version of itself.\<close>

lemma store_ok_replace:
  assumes "store_ok s" "map_of (st_jobs s) i = Some j" "job_ok j'" "same_identity j j'"
  shows "store_ok (s\<lparr>st_jobs := AList.update i j' (st_jobs s)\<rparr>)"
proof -
  have i: "i = j_id j'" using assms entries_ok_lookup [of "st_jobs s" i j]
    by (simp add: store_ok_def same_identity_def)
  have "map_of (st_queues s) (j_queue j') \<noteq> None"
    using assms(1,2,4) by (auto simp: store_ok_def same_identity_def dest!: map_of_SomeD)
  then show ?thesis
    using assms(1,3) entries_ok_update [of "st_jobs s" j'] unfolding store_ok_def i
    by (auto simp: set_update_iff entries_ok_def split: if_splits)
qed

section \<open>Choosing a job\<close>

definition dequeue_rank :: "Job \<Rightarrow> nat \<times> int \<times> string" where
  "dequeue_rank j = (255 - unat (j_priority j), j_processAt j, j_id j)"

lemma beats_rank: "beats a b \<longleftrightarrow> dequeue_rank a < dequeue_rank b"
proof -
  have "unat (j_priority a) < 2 ^ LENGTH(8)" "unat (j_priority b) < 2 ^ LENGTH(8)"
    by (rule unsigned_less)+
  then show ?thesis
    by (auto simp: beats_def dequeue_rank_def word_less_nat_alt word_unat_eq_iff)
qed

definition eligible :: "QueueName \<Rightarrow> Job \<Rightarrow> bool" where
  "eligible q j \<longleftrightarrow> j_queue j = q \<and> j_state j = StatePending"

definition queue_paused :: "Store \<Rightarrow> QueueName \<Rightarrow> bool" where
  "queue_paused s q = (case map_of (st_queues s) q of Some x \<Rightarrow> q_paused x | None \<Rightarrow> False)"

lemma select_best_None:
  "select_best q best es = None \<longleftrightarrow> best = None \<and> (\<forall>(i, j) \<in> set es. \<not> eligible q j)"
  by (induction q best es rule: select_best.induct)
     (auto simp: eligible_def split: option.splits)

lemma select_best_Cons:
  "select_best q best ((i, job) # es) =
     select_best q
       (if eligible q job \<and> (\<forall>bi b. best = Some (bi, b) \<longrightarrow> beats job b) then Some (i, job) else best) es"
  by (auto simp: eligible_def split: option.splits)

lemma select_best_Some:
  assumes "select_best q best es = Some (i, b)"
  shows "(best = Some (i, b) \<or> (i, b) \<in> set es \<and> eligible q b) \<and>
    (\<forall>(i', j) \<in> set es. eligible q j \<longrightarrow> dequeue_rank b \<le> dequeue_rank j) \<and>
    (\<forall>i' j. best = Some (i', j) \<longrightarrow> dequeue_rank b \<le> dequeue_rank j)"
  using assms
proof (induction es arbitrary: best)
  case (Cons e es)
  obtain i' job where e: "e = (i', job)" by (cases e)
  define best' where "best' =
    (if eligible q job \<and> (\<forall>bi b. best = Some (bi, b) \<longrightarrow> beats job b) then Some (i', job) else best)"
  have "select_best q best' es = Some (i, b)"
    using Cons.prems unfolding e select_best_Cons best'_def by simp
  from Cons.IH [OF this]
  have IH: "best' = Some (i, b) \<or> (i, b) \<in> set es \<and> eligible q b"
    "\<forall>(i', j) \<in> set es. eligible q j \<longrightarrow> dequeue_rank b \<le> dequeue_rank j"
    "\<forall>i' j. best' = Some (i', j) \<longrightarrow> dequeue_rank b \<le> dequeue_rank j" by auto
  have "best = Some (i, b) \<or> (i, b) \<in> set (e # es) \<and> eligible q b"
    using IH(1) unfolding best'_def e by (auto split: if_splits)
  moreover have "eligible q job \<longrightarrow> dequeue_rank b \<le> dequeue_rank job"
    using IH(3) unfolding best'_def beats_rank
    by (metis (no_types, lifting) linorder_not_less order_trans)
  moreover have "dequeue_rank b \<le> dequeue_rank j" if "best = Some (i', j)" for i' j
  proof (cases "best' = best")
    case True
    with that IH(3) show ?thesis by auto
  next
    case False
    then have "best' = Some (i', job) \<or> best' = Some (fst e, job)" "beats job j"
      using that unfolding best'_def e by (auto split: if_splits)
    then have "dequeue_rank b \<le> dequeue_rank job" "dequeue_rank job < dequeue_rank j"
      using IH(3) beats_rank by auto
    then show ?thesis by simp
  qed
  ultimately show ?case using IH(2) unfolding e by auto
qed simp

text \<open>The order in which the map is visited does not matter: ranks of distinct jobs differ.\<close>

lemma select_best_unique:
  assumes "entries_ok es" "entries_ok es'" "set es = set es'"
  shows "select_best q None es = select_best q None es'"
proof (cases "select_best q None es")
  case None
  then show ?thesis using assms(3) by (metis select_best_None)
next
  case (Some p)
  obtain i b where p: "p = (i, b)" by (cases p)
  obtain i' b' where p': "select_best q None es' = Some (i', b')"
    using Some assms(3) by (metis not_None_eq old.prod.exhaust select_best_None)
  note s = select_best_Some [OF Some [unfolded p]] and s' = select_best_Some [OF p']
  have "dequeue_rank b \<le> dequeue_rank b'" "dequeue_rank b' \<le> dequeue_rank b"
    using s s' assms(3) by blast+
  then have "j_id b = j_id b'" by (auto simp: dequeue_rank_def)
  moreover have "i = j_id b" "i' = j_id b'" "(i, b) \<in> set es" "(i', b') \<in> set es"
    using s s' assms unfolding entries_ok_def by auto
  ultimately show ?thesis
    using assms(1) Some p p' unfolding entries_ok_def by (metis map_of_is_SomeI option.inject)
qed

lemma dequeue_loop_None:
  "dequeue_loop now w l order s = (s', Inr None) \<Longrightarrow>
     s' = s \<and> (\<forall>q \<in> set order. queue_paused s q \<or> (\<forall>(i, j) \<in> set (st_jobs s). \<not> eligible q j))"
  by (induction now w l order s rule: dequeue_loop.induct)
     (auto simp: queue_paused_def select_best_None split: if_splits option.splits sum.splits)

lemma dequeue_loop_Inl:
  "dequeue_loop now w l order s = (s', Inl e) \<Longrightarrow> s' = s"
  by (induction now w l order s rule: dequeue_loop.induct)
     (auto split: if_splits option.splits sum.splits)

lemma dequeue_loop_skip:
  "queue_paused s q \<or> select_best q None (st_jobs s) = None \<Longrightarrow>
     dequeue_loop now w l (q # order) s = dequeue_loop now w l order s"
  by (auto simp: queue_paused_def split: option.splits)

lemma dequeue_loop_Some:
  assumes "dequeue_loop now w l order s = (s', Inr (Some j))"
  obtains pre q post i b where "order = pre @ q # post"
    "\<forall>p \<in> set pre. queue_paused s p \<or> (\<forall>(i, j) \<in> set (st_jobs s). \<not> eligible p j)"
    "\<not> queue_paused s q" "select_best q None (st_jobs s) = Some (i, b)"
    "Lease w now l b = Inr j" "s' = s\<lparr>st_jobs := AList.update i j (st_jobs s)\<rparr>"
  using assms
proof (induction order arbitrary: thesis)
  case (Cons q order)
  show ?case
  proof (cases "queue_paused s q \<or> select_best q None (st_jobs s) = None")
    case True
    have skip: "queue_paused s q \<or> (\<forall>(i, j) \<in> set (st_jobs s). \<not> eligible q j)"
      using True select_best_None [of q None "st_jobs s"] by blast
    have rest: "dequeue_loop now w l order s = (s', Inr (Some j))"
      using Cons.prems(2) dequeue_loop_skip [OF True] by metis
    show ?thesis
    proof (rule Cons.IH [OF _ rest])
      fix pre q' post i b
      assume "order = pre @ q' # post"
        "\<forall>p \<in> set pre. queue_paused s p \<or> (\<forall>(i, j) \<in> set (st_jobs s). \<not> eligible p j)"
        "\<not> queue_paused s q'" "select_best q' None (st_jobs s) = Some (i, b)"
        "Lease w now l b = Inr j" "s' = s\<lparr>st_jobs := AList.update i j (st_jobs s)\<rparr>"
      then show thesis using skip Cons.prems(1) [of "q # pre" q' post i b] by simp
    qed
  next
    case False
    then obtain i b where "select_best q None (st_jobs s) = Some (i, b)" by auto
    with False Cons.prems(2) show ?thesis
      by (intro Cons.prems(1) [of "[]" q order i b])
         (auto simp: queue_paused_def split: sum.splits option.splits)
  qed
qed simp

lemma Dequeue_cases:
  obtains (failed) e where "Dequeue now order w l s = (s\<lparr>st_FailNext := None\<rparr>, Inl e)"
  | (ran) "Dequeue now order w l s = dequeue_loop now w l order s"
  by (cases s rule: takeFailure_cases) (auto simp: Dequeue_def)

lemma Dequeue_ok [inv_intros]:
  assumes "store_ok s" "Dequeue now order w l s = (s', r)"
  shows "store_ok s'"
proof (cases now order w l s rule: Dequeue_cases)
  case (failed e)
  with assms show ?thesis by auto
next
  case ran
  consider e where "r = Inl e" | "r = Inr None" | j where "r = Inr (Some j)"
    by (metis not_Some_eq sum.exhaust)
  then show ?thesis
  proof cases
    case 1
    with ran assms show ?thesis using dequeue_loop_Inl by metis
  next
    case 2
    with ran assms show ?thesis using dequeue_loop_None by metis
  next
    case 3
    then obtain q i b where d: "select_best q None (st_jobs s) = Some (i, b)"
        "Lease w now l b = Inr j" "s' = s\<lparr>st_jobs := AList.update i j (st_jobs s)\<rparr>"
      using ran assms(2) by (metis dequeue_loop_Some)
    then have "(i, b) \<in> set (st_jobs s)" using select_best_Some by fastforce
    then have "map_of (st_jobs s) i = Some b" "job_ok b"
      using assms(1) unfolding store_ok_def entries_ok_def by (auto simp: map_of_is_SomeI)
    then show ?thesis
      using assms(1) d Lease_ok same_identity_ops(2) store_ok_replace by blast
  qed
qed

section \<open>Sweeps\<close>

text \<open>What a sweep does to one entry, and which entries it moves.\<close>

definition moves :: "(Job \<Rightarrow> move) \<Rightarrow> Job \<Rightarrow> bool" where
  "moves f j \<longleftrightarrow> f j \<noteq> Skip"

definition apply_move :: "(Job \<Rightarrow> move) \<Rightarrow> JobID \<times> Job \<Rightarrow> (JobID \<times> Job) list" where
  "apply_move f e = (case f (snd e) of Skip \<Rightarrow> [e] | Drop \<Rightarrow> [] | Put j \<Rightarrow> [(fst e, j)])"

lemma sweep_loop_split:
  assumes "sweep_loop f limit moved es = (n, es')"
  shows "\<exists>pre post. es = pre @ post \<and> es' = concat (map (apply_move f) pre) @ post \<and>
    n = moved + int (length (filter (\<lambda>e. moves f (snd e)) pre)) \<and>
    (post = [] \<or> 0 < limit \<and> limit \<le> n) \<and> (0 < limit \<and> moved \<le> limit \<longrightarrow> n \<le> limit)"
  using assms
proof (induction f limit moved es arbitrary: n es' rule: sweep_loop.induct)
  case (2 f limit moved i job rest)
  show ?case
  proof (cases "limit > 0 \<and> moved \<ge> limit")
    case True
    with "2.prems" show ?thesis by (intro exI [of _ "[]"] exI [of _ "(i, job) # rest"]) auto
  next
    case False
    define m where "m = (if moves f job then moved + 1 else moved)"
    obtain n' rest' where r: "sweep_loop f limit m rest = (n', rest')" by fastforce
    have step: "n = n'" "es' = apply_move f (i, job) @ rest'"
      using "2.prems" False r
      by (auto simp: apply_move_def moves_def m_def split: move.splits)
    have "\<exists>pre post. rest = pre @ post \<and> rest' = concat (map (apply_move f) pre) @ post \<and>
        n' = m + int (length (filter (\<lambda>e. moves f (snd e)) pre)) \<and>
        (post = [] \<or> 0 < limit \<and> limit \<le> n') \<and> (0 < limit \<and> m \<le> limit \<longrightarrow> n' \<le> limit)"
      using "2.IH" [OF False] r by (cases "f job") (auto simp: m_def moves_def)
    then obtain pre post where "rest = pre @ post" "rest' = concat (map (apply_move f) pre) @ post"
        "n' = m + int (length (filter (\<lambda>e. moves f (snd e)) pre))"
        "post = [] \<or> 0 < limit \<and> limit \<le> n'" "0 < limit \<and> m \<le> limit \<longrightarrow> n' \<le> limit" by blast
    with step False show ?thesis
      by (intro exI [of _ "(i, job) # pre"] exI [of _ post]) (auto simp: m_def)
  qed
qed simp

text \<open>A sweep that only replaces jobs by later versions of themselves keeps the store well formed.\<close>

definition lawful_move :: "(Job \<Rightarrow> move) \<Rightarrow> bool" where
  "lawful_move f \<longleftrightarrow> (\<forall>j j'. job_ok j \<longrightarrow> f j = Put j' \<longrightarrow> job_ok j' \<and> same_identity j j')"

lemma apply_move_entry:
  assumes "(i, j) \<in> set (apply_move f e)"
  shows "i = fst e \<and> (j = snd e \<or> f (snd e) = Put j)"
  using assms by (auto simp: apply_move_def split: move.splits)

lemma apply_move_fst: "x \<in> set (apply_move f e) \<Longrightarrow> fst x = fst e"
  by (auto simp: apply_move_def split: move.splits)

lemma keys_apply_move:
  assumes "keys_distinct (pre @ post)"
  shows "keys_distinct (concat (map (apply_move f) pre) @ post)"
  using assms
proof (induction pre)
  case (Cons e pre)
  have "fst ` set (concat (map (apply_move f) pre) @ post) \<subseteq> fst ` set (pre @ post)"
    by (auto dest!: apply_move_fst)
  moreover have "fst e \<notin> fst ` set (pre @ post)" using Cons.prems by auto
  ultimately have "fst e \<notin> fst ` set (concat (map (apply_move f) pre) @ post)" by blast
  with Cons show ?case by (auto simp: apply_move_def split: move.splits)
qed simp

lemma run_sweep_ok:
  assumes "store_ok s" "lawful_move f" "run_sweep f limit s = (s', r)"
  shows "store_ok s'"
proof -
  obtain n es' where sw: "sweep_loop f limit 0 (st_jobs s) = (n, es')" by fastforce
  then obtain pre post where es: "st_jobs s = pre @ post"
      "es' = concat (map (apply_move f) pre) @ post" using sweep_loop_split by blast
  have s': "s' = s\<lparr>st_jobs := es'\<rparr>" using assms(3) sw by (simp add: run_sweep_def)
  have "\<exists>j0. (i, j0) \<in> set (st_jobs s) \<and> (j = j0 \<or> f j0 = Put j)" if "(i, j) \<in> set es'" for i j
    using that apply_move_entry [of i j f] unfolding es by auto (metis prod.collapse)+
  moreover have "i = j_id j0 \<and> job_ok j0 \<and> map_of (st_queues s) (j_queue j0) \<noteq> None"
    if "(i, j0) \<in> set (st_jobs s)" for i j0
    using that assms(1) by (auto simp: store_ok_def entries_ok_def)
  ultimately have "i = j_id j \<and> job_ok j \<and> map_of (st_queues s) (j_queue j) \<noteq> None"
    if "(i, j) \<in> set es'" for i j
    using that assms(2) unfolding lawful_move_def same_identity_def by metis
  moreover have "keys_distinct es'"
    using assms(1) keys_apply_move [of pre post f] unfolding store_ok_def entries_ok_def es by simp
  ultimately show ?thesis
    using assms(1) unfolding s' store_ok_def entries_ok_def by auto
qed

lemma lawful_moves:
  "lawful_move (purge_body q)" "lawful_move (promote_body q now)"
  "\<not> time_IsZero now \<Longrightarrow> lawful_move (reclaim_body q now)"
  unfolding lawful_move_def purge_body_def promote_body_def reclaim_body_def
  by (auto split: if_splits sum.splits intro: Promote_ok Reclaim_ok same_identity_ops)

definition move_result :: "(Job \<Rightarrow> move) \<Rightarrow> Job \<Rightarrow> Job option" where
  "move_result f j = (case f j of Skip \<Rightarrow> Some j | Drop \<Rightarrow> None | Put j' \<Rightarrow> Some j')"

lemma map_of_apply_move:
  "keys_distinct pre \<Longrightarrow>
     map_of (concat (map (apply_move f) pre)) i = Option.bind (map_of pre i) (move_result f)"
proof (induction pre)
  case (Cons e pre)
  have none: "map_of pre (fst e) = None" using Cons.prems by (simp add: map_of_eq_None_iff)
  have none': "map_of (concat (map (apply_move f) pre)) (fst e) = None"
    using Cons.prems by (auto simp: map_of_eq_None_iff image_iff dest!: apply_move_fst)
  obtain k j where "e = (k, j)" by (cases e)
  with Cons none none' show ?case
    by (cases "f j") (auto simp: apply_move_def move_result_def map_add_def split: option.splits)
qed simp

lemma map_of_append_case:
  "map_of (pre @ post) i = (case map_of pre i of Some j \<Rightarrow> Some j | None \<Rightarrow> map_of post i)"
  by (simp add: map_add_def)

lemma map_of_swept:
  assumes "keys_distinct (pre @ post)"
  shows "map_of (concat (map (apply_move f) pre) @ post) i =
      (case map_of pre i of Some j \<Rightarrow> move_result f j | None \<Rightarrow> map_of post i)"
proof (cases "map_of pre i")
  case None
  then show ?thesis using assms by (simp add: map_add_def map_of_apply_move)
next
  case (Some j)
  then have "i \<in> fst ` set pre" by (metis map_of_eq_None_iff option.distinct(1))
  then have "i \<notin> fst ` set post" using assms by auto
  then have "map_of post i = None" by (simp add: map_of_eq_None_iff)
  with Some show ?thesis
    using assms by (simp add: map_add_def map_of_apply_move split: option.splits)
qed

text \<open>
  The effect of a sweep on the documents: a set \<open>M\<close> of movable jobs is moved, one by one; jobs that
  could be moved are left over only when the limit is reached.
\<close>

lemma run_sweep_docs:
  assumes "entries_ok (st_jobs s)" "run_sweep f limit s = (s', r)"
  obtains M where "r = Inr (int (card M))" "M \<subseteq> {i. \<exists>j. store_docs s i = Some j \<and> moves f j}"
    "store_docs s' = (\<lambda>i. if i \<in> M then Option.bind (store_docs s i) (move_result f) else store_docs s i)"
    "0 < limit \<Longrightarrow> int (card M) \<le> limit"
    "\<And>i j. store_docs s i = Some j \<Longrightarrow> moves f j \<Longrightarrow> i \<in> M \<or> 0 < limit \<and> int (card M) = limit"
    "finite M" "s' = s\<lparr>st_jobs := st_jobs s'\<rparr>"
proof -
  obtain n es' where sw: "sweep_loop f limit 0 (st_jobs s) = (n, es')" by fastforce
  from sweep_loop_split [OF sw] obtain pre post where es: "st_jobs s = pre @ post"
      "es' = concat (map (apply_move f) pre) @ post"
      "n = 0 + int (length (filter (\<lambda>e. moves f (snd e)) pre))"
      "post = [] \<or> 0 < limit \<and> limit \<le> n" "0 < limit \<and> 0 \<le> limit \<longrightarrow> n \<le> limit" by blast
  have s': "s' = s\<lparr>st_jobs := es'\<rparr>" and r: "r = Inr n" using assms(2) sw by (auto simp: run_sweep_def)
  define M where "M = fst ` set (filter (\<lambda>e. moves f (snd e)) pre)"
  have d: "keys_distinct (pre @ post)" using assms(1) es(1) by (simp add: entries_ok_def)
  then have dpre: "keys_distinct pre" by simp
  have "distinct (map fst (filter (\<lambda>e. moves f (snd e)) pre))" using dpre by (simp add: distinct_map_filter)
  then have "card (set (map fst (filter (\<lambda>e. moves f (snd e)) pre))) =
      length (map fst (filter (\<lambda>e. moves f (snd e)) pre))" by (rule distinct_card)
  then have card: "int (card M) = n" unfolding M_def es(3) by simp
  have inpre: "map_of pre i = Some j \<longleftrightarrow> (i, j) \<in> set pre" for i j using dpre by simp
  have M_iff: "i \<in> M \<longleftrightarrow> (\<exists>j. map_of pre i = Some j \<and> moves f j)" for i
    unfolding M_def inpre by force
  have docs: "store_docs s' i = (if i \<in> M then Option.bind (store_docs s i) (move_result f) else store_docs s i)" for i
    using map_of_swept [OF d, of f i] unfolding s' es(1,2)
    by (cases "map_of pre i") (auto simp: map_add_def M_iff moves_def move_result_def)
  show thesis
  proof (rule that [of M])
    show "M \<subseteq> {i. \<exists>j. store_docs s i = Some j \<and> moves f j}" by (auto simp: es(1) map_add_def M_iff)
    show "i \<in> M \<or> 0 < limit \<and> int (card M) = limit" if "store_docs s i = Some j" "moves f j" for i j
      using that es(4,5) unfolding es(1) map_of_append_case M_iff card
      by (cases "map_of pre i") auto
  qed (use docs r card es(5) s' in \<open>auto simp: M_def\<close>)
qed

section \<open>The remaining operations keep the invariant\<close>

lemma store_ok_jobs_subset:
  assumes "store_ok s" "entries_ok es" "set es \<subseteq> set (st_jobs s)"
  shows "store_ok (s\<lparr>st_jobs := es\<rparr>)"
  using assms by (auto simp: store_ok_def)

lemma store_ok_claims: "store_ok s \<Longrightarrow> keys_distinct cs \<Longrightarrow> store_ok (s\<lparr>st_claims := cs\<rparr>)"
  by (simp add: store_ok_def)

lemma store_ok_queue:
  assumes "store_ok s" "q_weight q \<noteq> 0"
  shows "store_ok (s\<lparr>st_queues := AList.update (q_name q) q (st_queues s)\<rparr>)"
  using assms queues_ok_update [of "st_queues s" "q_name q" q]
  by (auto simp: store_ok_def update_conv')

lemma Delete_ok [inv_intros]:
  assumes "store_ok s" "Delete i s = (s', r)"
  shows "store_ok s'"
proof (cases "map_of (st_jobs s) i")
  case (Some job)
  have "entries_ok (AList.delete i (st_jobs s))"
    using assms(1) by (intro entries_ok_delete) (simp add: store_ok_def)
  moreover have "set (AList.delete i (st_jobs s)) \<subseteq> set (st_jobs s)" by (auto simp: AList.delete_eq)
  ultimately have s1: "store_ok (s\<lparr>st_jobs := AList.delete i (st_jobs s)\<rparr>)"
    by (rule store_ok_jobs_subset [OF assms(1)])
  have "keys_distinct (AList.delete k (st_claims s))" for k
    using assms(1) distinct_delete [of "st_claims s" k] by (simp add: store_ok_def)
  with s1 Some assms(2) show ?thesis
    using store_ok_claims [OF s1] by (auto simp: Delete_def Let_def split: if_splits)
qed (use assms in \<open>auto simp: Delete_def\<close>)

lemma Claim_ok [inv_intros]: "store_ok s \<Longrightarrow> Claim k i ttl s = (s', r) \<Longrightarrow> store_ok s'"
  using distinct_update [of "st_claims s" k i]
  by (auto simp: Claim_def store_ok_def split: if_splits option.splits)

lemma Release_ok [inv_intros]: "store_ok s \<Longrightarrow> Release k s = (s', r) \<Longrightarrow> store_ok s'"
  using distinct_delete [of "st_claims s" k] by (auto simp: Release_def store_ok_def)

lemma Register_ok [inv_intros]:
  "store_ok s \<Longrightarrow> q_weight q \<noteq> 0 \<Longrightarrow> Register q s = (s', r) \<Longrightarrow> store_ok s'"
  using store_ok_queue [of s "Queue_Reconstitute (q_name q) (q_weight q) p" for p]
  by (auto simp: Register_def Let_def Queue_Reconstitute_def)

lemma SetPaused_ok [inv_intros]:
  assumes "store_ok s" "SetPaused n p s = (s', r)"
  shows "store_ok s'"
proof (cases "map_of (st_queues s) n")
  case (Some q)
  then have q: "n = q_name q" "q_weight q \<noteq> 0" using assms(1) queues_ok_lookup by (auto simp: store_ok_def)
  let ?q = "if p then Pause q else Resume q"
  have "q_name ?q = n" "q_weight ?q \<noteq> 0" using q by (auto simp: Pause_def Resume_def)
  with store_ok_queue [OF assms(1), of ?q] Some assms(2) show ?thesis by (simp add: SetPaused_def)
qed (use assms in \<open>auto simp: SetPaused_def\<close>)

section \<open>The store implements the ports\<close>

interpretation fake_view: document_view store_ok store_docs store_held "\<lambda>j. j"
  by unfold_locales simp_all

lemma Save_writes: "fake_view.writes Save"
  unfolding fake_view.writes_on_def
proof (intro allI impI)
  fix s j s' r
  assume *: "store_ok s" "job_ok j" "Save j s = (s', r)"
  then have "store_ok s'" by (rule Save_ok)
  moreover have "store_held s' = store_held s \<and>
      (case r of Inr _ \<Rightarrow> store_docs s' = (store_docs s)(j_id j \<mapsto> j)
       | Inl _ \<Rightarrow> store_docs s' = store_docs s \<or> store_docs s' = (store_docs s)(j_id j \<mapsto> j))"
  proof (cases j s rule: Save_cases)
    case (failed e)
    with *(3) show ?thesis by auto
  next
    case (saved s1)
    with *(3) show ?thesis by (auto simp: update_conv')
  qed
  ultimately show "store_ok s' \<and> store_held s' = store_held s \<and>
      (case r of Inr _ \<Rightarrow> store_docs s' = (store_docs s)(j_id j \<mapsto> j)
       | Inl _ \<Rightarrow> store_docs s' = store_docs s \<or> store_docs s' = (store_docs s)(j_id j \<mapsto> j))" by blast
qed

interpretation fake_enqueue: enqueue_ports store_ok store_docs store_held "\<lambda>j. j" FindByID job_ok
  "fakeBroker now" fakeIdempotency for now
proof unfold_locales
  show "fake_view.writes (broker_Enqueue (fakeBroker now))" "fake_view.writes (broker_Schedule (fakeBroker now))"
    using Save_writes by (simp_all add: fakeBroker_def Enqueue_def [abs_def] Schedule_def [abs_def])
next
  fix s s' k i ttl x
  assume "store_ok s" "idem_Claim fakeIdempotency k i ttl s = (s', Inr (True, x))" "k \<noteq> ''''"
  then show "store_ok s' \<and> store_held s k = None \<and> store_held s' = (store_held s)(k \<mapsto> i) \<and>
      store_docs s' = store_docs s"
    using Claim_ok [of s k i ttl s' "Inr (True, x)"]
    by (auto simp: fakeIdempotency_def Claim_def IsZero_def update_conv' split: option.splits)
next
  fix s s' k u
  assume "store_ok s" "idem_Release fakeIdempotency k s = (s', Inr u)"
  then show "store_ok s' \<and> store_held s' = (store_held s)(k := None) \<and> store_docs s' = store_docs s"
    using Release_ok [of s k s' "Inr u"] by (auto simp: fakeIdempotency_def Release_def delete_conv')
qed (auto simp: FindByID_def job_not_found_def fakeIdempotency_def Claim_def Release_def IsZero_def
    split: option.splits if_splits)

interpretation fake_outcome: outcome_ports store_ok store_docs store_held "\<lambda>j. j"
  fakeRepo "fakeBroker now" for now
  by unfold_locales
     (use Save_writes in \<open>simp_all add: fakeRepo_def fakeBroker_def Complete_job_def [abs_def]
        Retry_job_def [abs_def] Kill_job_def [abs_def]\<close>)

definition list_rank :: "Job \<Rightarrow> int \<times> string" where
  "list_rank j = (- j_createdAt j, j_id j)"

lemma newer_first_rank: "newer_first a b \<longleftrightarrow> list_rank a < list_rank b"
  by (auto simp: newer_first_def list_rank_def)

lemma List_jobs_eq:
  assumes "0 \<le> f_Offset f" and "f_Offset f + f_Limit f < 2 ^ 63" and "f_Offset f + 50 < 2 ^ 63"
  shows "List_jobs f s =
    (s, Inr (let matched = sort_key list_rank (filter (filter_matches f) (map snd (st_jobs s)));
                 limit = (if f_Limit f \<le> 0 then 50 else f_Limit f)
             in \<lparr>pg_Jobs = take (nat limit) (drop (nat (f_Offset f)) matched),
                 pg_Total = int (length matched)\<rparr>))"
proof -
  define matched where "matched = sort_key list_rank (filter (filter_matches f) (map snd (st_jobs s)))"
  define limit where "limit = (if f_Limit f \<le> 0 then 50 else f_Limit f)"
  have limit: "0 < limit" "wrap64 (f_Offset f + limit) = f_Offset f + limit"
    using assms by (auto simp: limit_def intro!: wrap64_id)
  have m: "SliceStable newer_first (map Clone (filter (filter_matches f) (map snd (st_jobs s)))) = matched"
    using SliceStable_key [of newer_first list_rank, OF newer_first_rank] by (simp add: matched_def map_idI)
  have *: "take (nat limit) (drop (nat (f_Offset f)) matched) =
      (if f_Offset f \<ge> int (length matched) then []
       else take (nat ((if f_Offset f + limit > int (length matched) then int (length matched)
                        else f_Offset f + limit) - f_Offset f)) (drop (nat (f_Offset f)) matched))"
    using assms(1) limit(1) by (auto intro!: take_all simp: nat_le_iff)
  show ?thesis
    unfolding List_jobs_def Let_def m matched_def [symmetric] limit_def [symmetric] limit(2) *
    using assms(1) limit(1) by auto
qed

lemma List_jobs_page:
  assumes "store_ok s" "List_jobs f s = (s', Inr page)"
  shows "s' = s \<and> distinct (map j_id (pg_Jobs page)) \<and>
    (\<forall>j \<in> set (pg_Jobs page). store_docs s (j_id j) = Some j \<and> filter_matches f j)"
proof -
  define js where "js = filter (filter_matches f) (map snd (st_jobs s))"
  have sorted: "SliceStable newer_first (map Clone js) = sort_key list_rank js"
    using SliceStable_key [of newer_first list_rank, OF newer_first_rank] by (simp add: map_idI)
  have es: "keys_distinct (st_jobs s)" "\<forall>(i, j) \<in> set (st_jobs s). i = j_id j"
    using assms(1) by (auto simp: store_ok_def entries_ok_def)
  then have ids: "map j_id (map snd (st_jobs s)) = map fst (st_jobs s)" by (auto intro!: map_cong)
  have d: "distinct (map j_id js)"
    using es(1) unfolding js_def ids [symmetric] by (rule distinct_map_filter)
  have mem: "store_docs s (j_id j) = Some j \<and> filter_matches f j" if "j \<in> set js" for j
    using that es by (auto simp: js_def)
  have slices: "\<exists>m n. [] = take m (drop n xs)" "\<exists>m n. drop k xs = take m (drop n xs)"
      "\<exists>m n. take l (drop k xs) = take m (drop n xs)" for k l and xs :: "Job list"
    by (rule exI [of _ 0], simp) (rule exI [of _ "length xs"], rule exI [of _ k], simp, blast)
  have "s' = s \<and> (\<exists>m n. pg_Jobs page = take m (drop n (sort_key list_rank js)))"
    using assms(2) unfolding List_jobs_def Let_def js_def [symmetric] sorted
    by (auto simp: slices split: if_splits)
  then obtain m n where P: "s' = s" "pg_Jobs page = take m (drop n (sort_key list_rank js))" by blast
  have "distinct (map j_id (sort_key list_rank js))"
    using d by (simp add: distinct_map inj_on_def)
  then have "distinct (map j_id (pg_Jobs page))"
    unfolding P(2) take_map [symmetric] drop_map [symmetric] by (intro distinct_take distinct_drop)
  moreover have "set (pg_Jobs page) \<subseteq> set js"
    unfolding P(2) by (auto dest!: in_set_takeD in_set_dropD)
  ultimately show ?thesis using P(1) mem by blast
qed

interpretation fake_operator: operator_ports store_ok store_docs store_held "\<lambda>j. j" fakeRepo
  "fakeBroker now" for now
proof unfold_locales
  show "fake_view.writes (broker_Requeue (fakeBroker now))" "fake_view.writes (broker_Kill (fakeBroker now))"
    using Save_writes by (simp_all add: fakeBroker_def Requeue_job_def [abs_def] Kill_job_def [abs_def])
next
  fix s s' i u
  assume "store_ok s" "repo_Delete fakeRepo i s = (s', Inr u)"
  then show "store_ok s' \<and> store_docs s i \<noteq> None \<and> store_docs s' = (store_docs s)(i := None)"
    using Delete_ok [of s i s' "Inr u"]
    by (auto simp: fakeRepo_def Delete_def delete_conv' Let_def split: option.splits if_splits)
next
  fix s s' f page
  assume "store_ok s" "repo_List fakeRepo f s = (s', Inr page)"
  then show "s' = s \<and> distinct (map j_id (pg_Jobs page)) \<and>
      (\<forall>j \<in> set (pg_Jobs page). store_docs s (j_id j) = Some j \<and>
         (f_Queue f \<noteq> '''' \<longrightarrow> j_queue j = f_Queue f) \<and> (\<forall>st. f_State f = Some st \<longrightarrow> j_state j = st))"
    using List_jobs_page [of s f s' page] by (auto simp: fakeRepo_def filter_matches_def)
next
  fix s i j
  assume "store_ok s" "store_docs s i = Some j"
  then show "j_id j = i \<and> job_ok j" using entries_ok_lookup by (auto simp: store_ok_def)
qed (auto simp: fakeRepo_def FindByID_def job_not_found_def Delete_def List_jobs_def Let_def
    split: option.splits if_splits)

section \<open>Properties\<close>

definition no_work :: "Store \<Rightarrow> QueueName \<Rightarrow> bool" where
  "no_work s q \<longleftrightarrow> queue_paused s q \<or> (\<forall>(i, j) \<in> set (st_jobs s). \<not> eligible q j)"

lemma docs_entries: "store_ok s \<Longrightarrow> store_docs s i = Some j \<longleftrightarrow> (i, j) \<in> set (st_jobs s)"
  by (simp add: store_ok_def entries_ok_def)

lemma Dequeue_Some:
  assumes "store_ok s" "Dequeue now order w l s = (s', Inr (Some j'))"
  obtains pre q post j where "order = pre @ q # post" "\<forall>p \<in> set pre. no_work s p"
    "\<not> queue_paused s q" "store_docs s (j_id j) = Some j" "eligible q j" "Lease w now l j = Inr j'"
    "\<And>i k. store_docs s i = Some k \<Longrightarrow> eligible q k \<Longrightarrow> dequeue_rank j \<le> dequeue_rank k"
    "s' = s\<lparr>st_jobs := AList.update (j_id j) j' (st_jobs s)\<rparr>"
proof (cases now order w l s rule: Dequeue_cases)
  case ran
  with assms(2) have "dequeue_loop now w l order s = (s', Inr (Some j'))" by simp
  then obtain pre q post i b where d: "order = pre @ q # post" "\<forall>p \<in> set pre. no_work s p"
      "\<not> queue_paused s q" "select_best q None (st_jobs s) = Some (i, b)"
      "Lease w now l b = Inr j'" "s' = s\<lparr>st_jobs := AList.update i j' (st_jobs s)\<rparr>"
    by (rule dequeue_loop_Some) (simp add: no_work_def)
  from select_best_Some [OF d(4)] have b: "(i, b) \<in> set (st_jobs s)" "eligible q b"
      "\<forall>(i', j) \<in> set (st_jobs s). eligible q j \<longrightarrow> dequeue_rank b \<le> dequeue_rank j" by auto
  then have "i = j_id b" using assms(1) by (auto simp: store_ok_def entries_ok_def)
  with b d that [of pre q post b] show thesis by (auto simp: docs_entries [OF assms(1)])
qed (use assms in auto)

lemma Lease_pending: "w \<noteq> '''' \<Longrightarrow> j_state j = StatePending \<Longrightarrow> \<exists>j'. Lease w now l j = Inr j'"
  by (simp add: Lease_def guard_def CanTransitionTo_iff Let_def)

lemma dequeue_loop_returns:
  "w \<noteq> '''' \<Longrightarrow> dequeue_loop now w l order s \<noteq> (s', Inl e)"
proof (induction order)
  case (Cons q order)
  show ?case
  proof (cases "queue_paused s q \<or> select_best q None (st_jobs s) = None")
    case True
    with Cons show ?thesis using dequeue_loop_skip [OF True] by metis
  next
    case False
    then obtain i b where b: "select_best q None (st_jobs s) = Some (i, b)" by auto
    then have "j_state b = StatePending" using select_best_Some [OF b] by (auto simp: eligible_def)
    then obtain j' where "Lease w now l b = Inr j'" using Lease_pending [OF Cons.prems] by blast
    with False b show ?thesis by (auto simp: queue_paused_def split: option.splits)
  qed
qed simp

text \<open>
  \<open>Dequeue\<close> hands out the right job. For a named worker and a store without an injected
  failure it never fails. It returns nothing, and changes nothing, exactly when every queue of the
  order is paused or has no pending job. Otherwise it takes the first queue of the order that is
  not paused and has pending jobs, and leases its best job: highest priority first, then the earliest
  due, then by identifier. Only that job changes.
\<close>

theorem dequeue_selects:
  assumes "store_ok s" and "st_FailNext s = None" and "w \<noteq> ''''"
  shows "case Dequeue now order w l s of
      (s', Inl e) \<Rightarrow> False
    | (s', Inr None) \<Rightarrow> s' = s \<and> (\<forall>q \<in> set order. no_work s q)
    | (s', Inr (Some j')) \<Rightarrow> store_ok s' \<and>
        (\<exists>pre q post j. order = pre @ q # post \<and> (\<forall>p \<in> set pre. no_work s p) \<and> \<not> queue_paused s q \<and>
           store_docs s (j_id j) = Some j \<and> eligible q j \<and> Lease w now l j = Inr j' \<and>
           (\<forall>i k. store_docs s i = Some k \<and> eligible q k \<longrightarrow> dequeue_rank j \<le> dequeue_rank k) \<and>
           store_docs s' = (store_docs s)(j_id j \<mapsto> j'))"
proof -
  obtain s' r where D: "Dequeue now order w l s = (s', r)" by fastforce
  have loop: "dequeue_loop now w l order s = (s', r)"
    using D assms(2) by (simp add: Dequeue_def takeFailure_def)
  consider e where "r = Inl e" | "r = Inr None" | j' where "r = Inr (Some j')"
    by (metis not_Some_eq sum.exhaust)
  then show ?thesis
  proof cases
    case 1
    with loop dequeue_loop_returns [OF assms(3)] show ?thesis by simp
  next
    case 2
    with loop dequeue_loop_None D show ?thesis by (auto simp: no_work_def)
  next
    case 3
    obtain pre q post j where d: "order = pre @ q # post" "\<forall>p \<in> set pre. no_work s p"
      "\<not> queue_paused s q" "store_docs s (j_id j) = Some j" "eligible q j" "Lease w now l j = Inr j'"
      "\<And>i k. store_docs s i = Some k \<Longrightarrow> eligible q k \<Longrightarrow> dequeue_rank j \<le> dequeue_rank k"
      "s' = s\<lparr>st_jobs := AList.update (j_id j) j' (st_jobs s)\<rparr>"
      by (rule Dequeue_Some [OF assms(1) D [unfolded 3]]) blast
    moreover have "store_ok s'" using Dequeue_ok [OF assms(1) D] .
    moreover have "store_docs s' = (store_docs s)(j_id j \<mapsto> j')" using d(8) by (simp add: update_conv')
    ultimately show ?thesis unfolding D 3 prod.case sum.case option.case by blast
  qed
qed

definition sample_store :: Store where
  "sample_store = fst (Save sample_job NewStore)"

lemma sample_store_ok: "store_ok sample_store" "st_FailNext sample_store = None"
  using Save_ok [OF NewStore_ok NewJob_ok [OF sample_created], of "fst (Save sample_job NewStore)"]
  by (auto simp: sample_store_def Save_def takeFailure_def NewStore_def)

lemma sample_store_jobs: "st_jobs sample_store = [(''job-1'', sample_job)]"
  by (simp add: sample_store_def Save_def takeFailure_def NewStore_def sample_job_def)

theorem dequeue_selects_witness:
  "\<exists>s' j'. Dequeue 2000 [''default''] ''w1'' 0 sample_store = (s', Inr (Some j')) \<and> store_ok s'"
proof -
  have "\<not> no_work sample_store ''default''"
    by (simp add: no_work_def queue_paused_def sample_store_jobs eligible_def sample_store_def Save_def
        takeFailure_def NewStore_def ensureQueue_def sample_job_def DefaultQueueName_def NewQueue_def)
  with dequeue_selects [OF sample_store_ok, of "''w1''" "[''default'']" 2000 0] show ?thesis
    by (auto split: prod.splits sum.splits option.splits)
qed

text \<open>A sequence of calls of \<open>Dequeue\<close> by any workers, with the jobs handed out.\<close>

fun dequeues :: "(time \<times> QueueName list \<times> string \<times> duration) list \<Rightarrow> Store \<Rightarrow> Store \<times> Job list" where
  "dequeues [] s = (s, [])"
| "dequeues ((now, order, w, l) # reqs) s =
     (let (s1, r) = Dequeue now order w l s; (s2, js) = dequeues reqs s1
      in (s2, case r of Inr (Some j) \<Rightarrow> j # js | _ \<Rightarrow> js))"

lemma Dequeue_frame:
  assumes "store_ok s" "Dequeue now order w l s = (s', r)"
    and "store_docs s i = Some j" "j_state j \<noteq> StatePending"
  shows "store_docs s' i = Some j \<and> (\<forall>j'. r = Inr (Some j') \<longrightarrow> j_id j' \<noteq> i)"
proof (cases "\<exists>j'. r = Inr (Some j')")
  case True
  then obtain j' where r: "r = Inr (Some j')" by blast
  obtain q k where k: "store_docs s (j_id k) = Some k" "eligible q k" "Lease w now l k = Inr j'"
      "s' = s\<lparr>st_jobs := AList.update (j_id k) j' (st_jobs s)\<rparr>"
    using Dequeue_Some [OF assms(1) assms(2) [unfolded r]] by metis
  then have "j_id j' = j_id k" using same_identity_ops(2) by (simp add: same_identity_def)
  with k assms(3,4) r show ?thesis by (auto simp: update_conv' eligible_def)
next
  case False
  then have "store_docs s' = store_docs s"
    using assms(2) dequeue_loop_None [of now w l order s s'] dequeue_loop_Inl [of now w l order s s']
    by (cases now order w l s rule: Dequeue_cases; cases r) auto
  with False assms(3) show ?thesis by simp
qed

lemma Dequeue_leases:
  assumes "store_ok s" "Dequeue now order w l s = (s', Inr (Some j'))"
  shows "store_docs s' (j_id j') = Some j' \<and> j_state j' = StateActive"
proof -
  obtain q k where k: "store_docs s (j_id k) = Some k" "Lease w now l k = Inr j'"
      "s' = s\<lparr>st_jobs := AList.update (j_id k) j' (st_jobs s)\<rparr>"
    using Dequeue_Some [OF assms] by metis
  then show ?thesis
    using same_identity_ops(2) [OF k(2)] op_states(2) [OF k(2)]
    by (auto simp: same_identity_def update_conv')
qed

lemma dequeues_frame:
  assumes "store_ok s" "dequeues reqs s = (s', js)" "store_docs s i = Some j" "j_state j \<noteq> StatePending"
  shows "store_docs s' i = Some j \<and> i \<notin> j_id ` set js"
  using assms
proof (induction reqs s arbitrary: s' js rule: dequeues.induct)
  case (2 now order w l reqs s)
  obtain s1 r where D: "Dequeue now order w l s = (s1, r)" by fastforce
  obtain s2 js1 where R: "dequeues reqs s1 = (s2, js1)" by fastforce
  have f: "store_docs s1 i = Some j" "\<And>j'. r = Inr (Some j') \<Longrightarrow> j_id j' \<noteq> i"
    using Dequeue_frame [OF "2.prems"(1) D "2.prems"(3,4)] by auto
  have IH: "store_docs s2 i = Some j \<and> i \<notin> j_id ` set js1"
    using "2.IH" [OF D [symmetric] refl Dequeue_ok [OF "2.prems"(1) D] R f(1) "2.prems"(4)] by simp
  have "js = (case r of Inr (Some j) \<Rightarrow> j # js1 | _ \<Rightarrow> js1)" "s' = s2"
    using "2.prems"(2) D R by auto
  with IH f(2) show ?case by (auto split: sum.splits option.splits)
qed simp

text \<open>
  No job is handed out twice. However many workers poll, in whatever order their calls take the
  store's lock, the jobs they receive are pairwise different, and each is stored as active with a
  lease.
\<close>

theorem dequeue_no_double_lease:
  assumes "store_ok s" and "dequeues reqs s = (s', js)"
  shows "distinct (map j_id js) \<and> store_ok s' \<and>
    (\<forall>j \<in> set js. store_docs s' (j_id j) = Some j \<and> j_state j = StateActive \<and> j_leaseExpiry j \<noteq> None)"
  using assms
proof (induction reqs s arbitrary: s' js rule: dequeues.induct)
  case (2 now order w l reqs s)
  obtain s1 r where D: "Dequeue now order w l s = (s1, r)" by fastforce
  obtain s2 js1 where R: "dequeues reqs s1 = (s2, js1)" by fastforce
  have ok1: "store_ok s1" using Dequeue_ok [OF "2.prems"(1) D] .
  have IH: "distinct (map j_id js1) \<and> store_ok s2 \<and>
      (\<forall>j \<in> set js1. store_docs s2 (j_id j) = Some j \<and> j_state j = StateActive \<and> j_leaseExpiry j \<noteq> None)"
    using "2.IH" [OF D [symmetric] refl ok1 R] by simp
  have eqs: "js = (case r of Inr (Some j) \<Rightarrow> j # js1 | _ \<Rightarrow> js1)" "s' = s2"
    using "2.prems"(2) D R by auto
  have "store_docs s2 (j_id j) = Some j \<and> j_id j \<notin> j_id ` set js1 \<and> j_state j = StateActive \<and>
      j_leaseExpiry j \<noteq> None" if "r = Inr (Some j)" for j
  proof -
    have a: "store_docs s1 (j_id j) = Some j" "j_state j = StateActive"
      using Dequeue_leases [OF "2.prems"(1) D [unfolded that]] by auto
    then have "job_ok j" using ok1 entries_ok_lookup by (auto simp: store_ok_def)
    with a dequeues_frame [OF ok1 R a(1)] show ?thesis by (auto simp: job_ok_def stamps_ok_def)
  qed
  with IH show ?case unfolding eqs by (auto split: sum.splits option.splits)
qed simp

theorem dequeue_no_double_lease_witness:
  "distinct (map j_id (snd (dequeues
     [(2000, [''default''], ''w1'', 0), (2000, [''default''], ''w2'', 0)] sample_store)))"
  using dequeue_no_double_lease [OF sample_store_ok(1) prod.collapse [symmetric]] by blast

lemma dequeue_loop_keep_first:
  "dequeue_loop now w l (keep_first seen order) s = dequeue_loop now w l order s"
  if "\<forall>q \<in> seen. queue_paused s q \<or> select_best q None (st_jobs s) = None"
  using that
proof (induction order arbitrary: seen)
  case (Cons q order)
  show ?case
  proof (cases "q \<in> seen")
    case True
    then show ?thesis using Cons dequeue_loop_skip [of s q now w l order] by auto
  next
    case False
    show ?thesis
    proof (cases "queue_paused s q \<or> select_best q None (st_jobs s) = None")
      case True
      then have "dequeue_loop now w l (keep_first (insert q seen) order) s = dequeue_loop now w l order s"
        using Cons by simp
      with \<open>q \<notin> seen\<close> show ?thesis using dequeue_loop_skip [OF True, of now w l] by (metis keep_first.simps(2))
    next
      case False
      with \<open>q \<notin> seen\<close> show ?thesis by (auto simp: queue_paused_def split: option.splits)
    qed
  qed
qed simp

text \<open>
  C38. Weighted polling is strict priority. Polling in the weighted order is the same as polling each queue once,
  heaviest first: whatever the weights, a lighter queue is served only when every heavier queue has
  nothing pending.
\<close>

theorem weights_are_strict_priority:
  assumes "distinct (map q_name qs)" and "\<forall>q \<in> set qs. q_weight q \<noteq> 0"
  shows "Dequeue now (BuildDequeueOrder (map Some qs)) w l s =
    Dequeue now (map q_name (sort_key queue_rank (filter (\<lambda>q. \<not> q_paused q) qs))) w l s"
proof -
  have act: "active_queues (map Some qs) = filter (\<lambda>q. \<not> q_paused q) qs" by (induction qs) auto
  have "distinct (map q_name (active_queues (map Some qs)))"
    using assms(1) by (simp add: act distinct_map_filter)
  then have "keep_first {} (BuildDequeueOrder (map Some qs)) =
      map q_name (sort_key queue_rank (filter (\<lambda>q. \<not> q_paused q) qs))"
    using dedupe_BuildDequeueOrder [of "map Some qs"] assms(2) by (simp add: act dedupeQueues_def)
  then show ?thesis
    using dequeue_loop_keep_first [of "{}" _ now w l "BuildDequeueOrder (map Some qs)"]
    by (cases s rule: takeFailure_cases) (simp_all add: Dequeue_def)
qed

theorem weights_are_strict_priority_witness:
  "Dequeue 5 (BuildDequeueOrder (map Some [NewQueue ''low'' 1, NewQueue ''crit'' 6])) ''w1'' 0 sample_store =
   Dequeue 5 [''crit'', ''low''] ''w1'' 0 sample_store"
  using weights_are_strict_priority [of "[NewQueue ''low'' 1, NewQueue ''crit'' 6]" 5 "''w1''" 0 sample_store]
  by (simp add: NewQueue_def queue_rank_def)

text \<open>
  \<open>Dequeue\<close> does not depend on the order in which the map of jobs happens to be iterated: two stores
  with the same entries hand out the same job.
\<close>

theorem dequeue_order_independent:
  assumes "store_ok s" and "store_ok t" and "set (st_jobs t) = set (st_jobs s)"
    and "st_queues t = st_queues s" and "st_FailNext t = st_FailNext s"
  shows "snd (Dequeue now order w l t) = snd (Dequeue now order w l s)"
proof -
  have sel: "select_best q None (st_jobs t) = select_best q None (st_jobs s)" for q
    using select_best_unique [of "st_jobs t" "st_jobs s" q] assms(1-3) by (simp add: store_ok_def)
  have "snd (dequeue_loop now w l order t) = snd (dequeue_loop now w l order s)"
    by (induction order) (auto simp: sel assms(4) split: option.splits sum.splits)
  then show ?thesis using assms(5) by (auto simp: Dequeue_def takeFailure_def split: option.splits)
qed

definition two_jobs :: Store where
  "two_jobs = fst (Save (sample_job\<lparr>j_id := ''job-0''\<rparr>) sample_store)"

lemma two_jobs_ok: "store_ok two_jobs" "store_ok (two_jobs\<lparr>st_jobs := rev (st_jobs two_jobs)\<rparr>)"
proof -
  have "job_ok (sample_job\<lparr>j_id := ''job-0''\<rparr>)"
    using NewJob_ok [OF sample_created]
    by (simp add: job_ok_def inputs_ok_def trail_ok_def stamps_ok_def)
  then show ok: "store_ok two_jobs"
    unfolding two_jobs_def using Save_ok [OF sample_store_ok(1) _ prod.collapse [symmetric]] by blast
  have "entries_ok (rev (st_jobs two_jobs))"
    using ok by (simp add: store_ok_def entries_ok_def rev_map [symmetric])
  then show "store_ok (two_jobs\<lparr>st_jobs := rev (st_jobs two_jobs)\<rparr>)"
    using store_ok_jobs_subset [OF ok] by simp
qed

theorem dequeue_order_independent_witness:
  "snd (Dequeue 5 [''default''] ''w1'' 0 (two_jobs\<lparr>st_jobs := rev (st_jobs two_jobs)\<rparr>)) =
   snd (Dequeue 5 [''default''] ''w1'' 0 two_jobs)"
  using dequeue_order_independent [OF two_jobs_ok] by simp

definition promotable :: "QueueName \<Rightarrow> time \<Rightarrow> Job \<Rightarrow> bool" where
  "promotable q now j \<longleftrightarrow>
     j_queue j = q \<and> j_state j \<in> {StateScheduled, StateRetrying} \<and> IsDue now j"

lemma promote_body_eq:
  "promote_body q now j =
     (if promotable q now j
      then Put (j\<lparr>j_state := StatePending, j_processAt := now, j_leaseExpiry := None\<rparr>) else Skip)"
  by (auto simp: promote_body_def promotable_def Promote_def guard_def CanTransitionTo_iff)

lemma run_sweep_returns:
  obtains s' n where "run_sweep f limit s = (s', Inr n)"
  by (cases "sweep_loop f limit 0 (st_jobs s)") (simp add: run_sweep_def)

text \<open>The shape shared by the sweeps that replace documents, and what the limit leaves behind.\<close>

lemma put_sweep:
  assumes "store_ok s" "lawful_move f" and f: "f = (\<lambda>j. if P j then Put (g j) else Skip)"
    and gone: "\<And>j. P j \<Longrightarrow> \<not> P (g j)"
  shows "\<exists>s' n M. run_sweep f limit s = (s', Inr n) \<and> store_ok s' \<and> finite M \<and> n = int (card M) \<and>
    store_docs s' = (\<lambda>i. if i \<in> M then map_option g (store_docs s i) else store_docs s i) \<and>
    (\<forall>i \<in> M. \<exists>j. store_docs s i = Some j \<and> P j) \<and> (limit > 0 \<longrightarrow> n \<le> limit) \<and>
    ((\<exists>i j. store_docs s' i = Some j \<and> P j) \<longrightarrow> limit > 0 \<and> n = limit)"
proof -
  obtain s' n where R: "run_sweep f limit s = (s', Inr n)" by (rule run_sweep_returns)
  have ok: "entries_ok (st_jobs s)" using assms(1) by (simp add: store_ok_def)
  obtain M where M: "Inr n = (Inr (int (card M)) :: int result)"
    "M \<subseteq> {i. \<exists>j. store_docs s i = Some j \<and> moves f j}"
    "store_docs s' = (\<lambda>i. if i \<in> M then Option.bind (store_docs s i) (move_result f) else store_docs s i)"
    "0 < limit \<Longrightarrow> int (card M) \<le> limit"
    "\<And>i j. store_docs s i = Some j \<Longrightarrow> moves f j \<Longrightarrow> i \<in> M \<or> 0 < limit \<and> int (card M) = limit"
    "finite M" "s' = s\<lparr>st_jobs := st_jobs s'\<rparr>"
    by (rule run_sweep_docs [OF ok R]) (rule that; simp)
  have mv: "moves f j \<longleftrightarrow> P j" for j by (simp add: moves_def f)
  have in_M: "\<exists>j. store_docs s i = Some j \<and> P j" if "i \<in> M" for i using M(2) that mv by auto
  have docs: "store_docs s' i = (if i \<in> M then map_option g (store_docs s i) else store_docs s i)" for i
    unfolding M(3) using in_M [of i] by (auto simp: move_result_def f)
  have "limit > 0 \<and> n = limit" if "store_docs s' i = Some j" "P j" for i j
    using that M(1) M(5) [of i j] mv docs [of i] in_M [of i] gone by (auto split: if_splits)
  moreover have "store_docs s' = (\<lambda>i. if i \<in> M then map_option g (store_docs s i) else store_docs s i)"
    using docs by (rule ext)
  moreover have "n = int (card M)" "limit > 0 \<longrightarrow> n \<le> limit" using M(1,4) by auto
  ultimately show ?thesis using run_sweep_ok [OF assms(1,2) R] R in_M M(6) by blast
qed

text \<open>
  Promotion. \<open>PromoteDue\<close> moves to pending, due now, exactly the jobs it counts, each of them a
  scheduled or retrying job of that queue whose time has come; every other document is unchanged.
  It respects the limit, and leaves a due job behind only when the limit is reached.
\<close>

theorem promote_due_sweep:
  assumes "store_ok s"
  shows "\<exists>s' n M. PromoteDue q now limit s = (s', Inr n) \<and> store_ok s' \<and> finite M \<and> n = int (card M) \<and>
    store_docs s' = (\<lambda>i. if i \<in> M
       then map_option (\<lambda>j. j\<lparr>j_state := StatePending, j_processAt := now, j_leaseExpiry := None\<rparr>) (store_docs s i)
       else store_docs s i) \<and>
    (\<forall>i \<in> M. \<exists>j. store_docs s i = Some j \<and> promotable q now j) \<and> (limit > 0 \<longrightarrow> n \<le> limit) \<and>
    ((\<exists>i j. store_docs s' i = Some j \<and> promotable q now j) \<longrightarrow> limit > 0 \<and> n = limit)"
  unfolding PromoteDue_def
  by (rule put_sweep [OF assms lawful_moves(2)])
     (simp_all add: promote_body_eq [abs_def] promotable_def)

theorem promote_due_sweep_witness:
  "\<exists>s' n. PromoteDue ''default'' 5 10 two_jobs = (s', Inr n) \<and> n \<le> 10 \<and> store_ok s'"
  using promote_due_sweep [OF two_jobs_ok(1), of "''default''" 5 10] by auto

text \<open>
  Recovery of lost jobs. \<open>ReclaimExpired\<close> returns to pending exactly the jobs it counts, each of
  them an active job of that queue whose lease has lapsed, and closes their open attempt; jobs
  whose lease is still running are not touched. A lapsed job is left behind only when the limit is
  reached.
\<close>

theorem reclaim_expired_sweep:
  assumes "store_ok s" and "\<not> time_IsZero now"
  shows "\<exists>s' n M. ReclaimExpired q now limit s = (s', Inr n) \<and> store_ok s' \<and> finite M \<and> n = int (card M) \<and>
    store_docs s' = (\<lambda>i. if i \<in> M
       then map_option (\<lambda>j. (closeCurrentAttempt now leaseExpiredMessage j)\<lparr>j_lastError := leaseExpiredMessage,
         j_state := StatePending, j_processAt := now, j_leaseExpiry := None, j_workerID := ''''\<rparr>) (store_docs s i)
       else store_docs s i) \<and>
    (\<forall>i \<in> M. \<exists>j. store_docs s i = Some j \<and> (j_queue j = q \<and> IsLeaseExpired now j)) \<and>
    (limit > 0 \<longrightarrow> n \<le> limit) \<and>
    ((\<exists>i j. store_docs s' i = Some j \<and> (j_queue j = q \<and> IsLeaseExpired now j)) \<longrightarrow> limit > 0 \<and> n = limit)"
  unfolding ReclaimExpired_def
  by (rule put_sweep [OF assms(1) lawful_moves(3) [OF assms(2)]])
     (auto simp: reclaim_body_def ReclaimExpiredLease_def IsLeaseExpired_def fun_eq_iff split: if_splits)

lemma leased_store_ok: "store_ok (fst (Save sample_leased sample_store))"
  using Save_ok [OF sample_store_ok(1) job_in_service_ok [OF sample_in_service] prod.collapse [symmetric]] .

theorem reclaim_expired_sweep_witness:
  "\<exists>s' n. ReclaimExpired ''default'' (hour) 0 (fst (Save sample_leased sample_store)) = (s', Inr n) \<and>
     (\<forall>i j. store_docs s' i = Some j \<longrightarrow> \<not> (j_queue j = ''default'' \<and> IsLeaseExpired hour j))"
proof -
  have "\<not> time_IsZero hour" by (simp add: time_IsZero_def zero_time_def duration_units)
  from reclaim_expired_sweep [OF leased_store_ok this, of "''default''" 0] show ?thesis by auto
qed

text \<open>
  Purging. \<open>PurgeCompleted\<close> deletes exactly the jobs it counts, each of them a completed job of
  that queue, keeps every other document, and leaves a completed job of the queue behind only when
  the limit is reached.
\<close>

theorem purge_completed_sweep:
  assumes "store_ok s"
  shows "\<exists>s' n M. PurgeCompleted q limit s = (s', Inr n) \<and> store_ok s' \<and> finite M \<and> n = int (card M) \<and>
    store_docs s' = (store_docs s) |` (- M) \<and>
    (\<forall>i \<in> M. \<exists>j. store_docs s i = Some j \<and> j_queue j = q \<and> j_state j = StateCompleted) \<and>
    (limit > 0 \<longrightarrow> n \<le> limit) \<and>
    ((\<exists>i j. store_docs s' i = Some j \<and> j_queue j = q \<and> j_state j = StateCompleted) \<longrightarrow> limit > 0 \<and> n = limit)"
proof -
  obtain s' n where R: "run_sweep (purge_body q) limit s = (s', Inr n)" by (rule run_sweep_returns)
  have ok: "entries_ok (st_jobs s)" using assms(1) by (simp add: store_ok_def)
  obtain M where M: "Inr n = (Inr (int (card M)) :: int result)"
    "M \<subseteq> {i. \<exists>j. store_docs s i = Some j \<and> moves (purge_body q) j}"
    "store_docs s' = (\<lambda>i. if i \<in> M then Option.bind (store_docs s i) (move_result (purge_body q)) else store_docs s i)"
    "0 < limit \<Longrightarrow> int (card M) \<le> limit"
    "\<And>i j. store_docs s i = Some j \<Longrightarrow> moves (purge_body q) j \<Longrightarrow> i \<in> M \<or> 0 < limit \<and> int (card M) = limit"
    "finite M" "s' = s\<lparr>st_jobs := st_jobs s'\<rparr>"
    by (rule run_sweep_docs [OF ok R]) (rule that; simp)
  have mv: "moves (purge_body q) j \<longleftrightarrow> j_queue j = q \<and> j_state j = StateCompleted" for j
    by (simp add: moves_def purge_body_def)
  have in_M: "\<exists>j. store_docs s i = Some j \<and> j_queue j = q \<and> j_state j = StateCompleted" if "i \<in> M" for i
    using M(2) that mv by auto
  have docs: "store_docs s' i = ((store_docs s) |` (- M)) i" for i
    unfolding M(3) using in_M [of i] by (auto simp: move_result_def purge_body_def restrict_map_def)
  have "limit > 0 \<and> n = limit" if "store_docs s' i = Some j" "j_queue j = q" "j_state j = StateCompleted" for i j
    using that M(1) M(5) [of i j] mv docs [of i] by (auto simp: restrict_map_def split: if_splits)
  moreover have "store_docs s' = (store_docs s) |` (- M)" using docs by (rule ext)
  moreover have "n = int (card M)" "limit > 0 \<longrightarrow> n \<le> limit" using M(1,4) by auto
  ultimately show ?thesis
    unfolding PurgeCompleted_def using run_sweep_ok [OF assms(1) lawful_moves(1) R] R in_M M(6) by blast
qed

theorem purge_completed_sweep_witness:
  "\<exists>s' n. PurgeCompleted ''default'' 3 two_jobs = (s', Inr n) \<and> n \<le> 3 \<and> store_ok s'"
  using purge_completed_sweep [OF two_jobs_ok(1), of "''default''" 3] by auto

section \<open>The store as a provider of work and of sweeps\<close>

lemma Dequeue_other:
  assumes "Dequeue now order w l s = (s', r)" "\<And>j. r \<noteq> Inr (Some j)"
  shows "st_jobs s' = st_jobs s"
proof (cases now order w l s rule: Dequeue_cases)
  case ran
  with assms show ?thesis
    by (cases r) (auto dest: dequeue_loop_Inl dequeue_loop_None)
qed (use assms in auto)

lemma Dequeue_hands_out:
  assumes "store_ok s" "Dequeue t order w l s = (s', Inr (Some j))"
  shows "job_ok j \<and> j_state j = StateActive \<and> j_workerID j = w \<and>
    (\<exists>b. store_docs s (j_id j) = Some b \<and> j_state b = StatePending) \<and>
    (\<exists>a. store_docs s' = (store_docs s)(j_id j \<mapsto> a) \<and> j_state a = StateActive \<and> j_workerID a = w)"
proof -
  obtain q k where k: "store_docs s (j_id k) = Some k" "eligible q k" "Lease w t l k = Inr j"
      "s' = s\<lparr>st_jobs := AList.update (j_id k) j (st_jobs s)\<rparr>"
    using Dequeue_Some [OF assms] by metis
  have "job_ok k" using k(1) assms(1) entries_ok_lookup by (auto simp: store_ok_def)
  moreover have "j_workerID j = w" using k(3) by (auto simp: Lease_def andThen_eq_Inr Let_def split: if_splits)
  ultimately show ?thesis
    using k same_identity_ops(2) [OF k(3)] op_states(2) [OF k(3)] Lease_ok [OF _ k(3)]
    by (auto simp: same_identity_def update_conv' eligible_def)
qed

interpretation fake_worker: worker_ports store_ok store_docs store_held "\<lambda>j. j" fakeRepo fakeBroker
  by unfold_locales
     (use fake_outcome.outcome_ports_axioms Dequeue_ok Dequeue_hands_out Dequeue_other in
      \<open>auto simp: fakeBroker_def\<close>)

interpretation fake_pool: pool_ports store_ok store_docs store_held "\<lambda>j. j" fakeRepo fakeBroker fakeQueues
  by unfold_locales (auto simp: fakeQueues_def Register_def Let_def intro: Register_ok)

text \<open>Counting the documents a sweep may move, and what one sweep does to the count.\<close>

definition count_docs :: "(Job \<Rightarrow> bool) \<Rightarrow> Store \<Rightarrow> nat" where
  "count_docs C s = card {i. \<exists>j. store_docs s i = Some j \<and> C j}"

definition some_doc :: "(Job \<Rightarrow> bool) \<Rightarrow> Store \<Rightarrow> bool" where
  "some_doc L s \<longleftrightarrow> (\<exists>i j. store_docs s i = Some j \<and> L j)"

lemma finite_docs: "finite {i. \<exists>j. store_docs s i = Some j \<and> C j}"
  by (rule finite_subset [OF _ finite_dom_map_of [of "st_jobs s"]]) (auto simp: dom_def)

lemma some_doc_count: "some_doc L s \<Longrightarrow> (\<And>j. L j \<Longrightarrow> C j) \<Longrightarrow> 0 < count_docs C s"
  unfolding some_doc_def count_docs_def card_gt_0_iff using finite_docs by blast

lemma run_sweep_work:
  assumes "store_ok s" "lawful_move f" "run_sweep f limit s = (s', r)" "0 < limit"
    and moves: "\<And>j. moves f j \<longleftrightarrow> L t q j" "\<And>u p j. L u p j \<Longrightarrow> C p j" "\<And>p j. C p j \<Longrightarrow> j_queue j = p"
    and after: "\<And>j j' p. moves f j \<Longrightarrow> move_result f j = Some j' \<Longrightarrow> \<not> C p j'"
  shows "\<exists>n. r = Inr n \<and> store_ok s' \<and> st_queues s' = st_queues s \<and> 0 \<le> n \<and> n \<le> limit \<and>
    int (count_docs (C q) s') = int (count_docs (C q) s) - n \<and> (n = limit \<or> \<not> some_doc (L t q) s') \<and>
    (\<forall>p. p \<noteq> q \<longrightarrow> count_docs (C p) s' = count_docs (C p) s) \<and>
    (\<forall>u p. some_doc (L u p) s' \<longrightarrow> some_doc (L u p) s)"
proof -
  have ok: "entries_ok (st_jobs s)" using assms(1) by (simp add: store_ok_def)
  obtain M where M: "r = Inr (int (card M))"
    "M \<subseteq> {i. \<exists>j. store_docs s i = Some j \<and> moves f j}"
    "store_docs s' = (\<lambda>i. if i \<in> M then Option.bind (store_docs s i) (move_result f) else store_docs s i)"
    "0 < limit \<Longrightarrow> int (card M) \<le> limit"
    "\<And>i j. store_docs s i = Some j \<Longrightarrow> moves f j \<Longrightarrow> i \<in> M \<or> 0 < limit \<and> int (card M) = limit"
    "finite M" "s' = s\<lparr>st_jobs := st_jobs s'\<rparr>"
    by (rule run_sweep_docs [OF ok assms(3)]) (rule that; simp)
  let ?S = "\<lambda>s p. {i. \<exists>j. store_docs s i = Some j \<and> C p j}"
  have in_M: "\<exists>j. store_docs s i = Some j \<and> L t q j" if "i \<in> M" for i using that M(2) moves(1) by blast
  have gone: "\<not> (\<exists>j. store_docs s' i = Some j \<and> C p j)" if "i \<in> M" for i p
    using in_M [OF that] that after moves(1) unfolding M(3) by (auto simp: bind_eq_Some_conv)
  have "?S s' q = ?S s q - M" using gone M(3) by auto
  moreover have "M \<subseteq> ?S s q" using in_M moves(2) by blast
  ultimately have cq: "int (count_docs (C q) s') = int (count_docs (C q) s) - int (card M)"
    using card_mono [OF finite_docs] M(6) unfolding count_docs_def by (simp add: card_Diff_subset of_nat_diff)
  have cp: "count_docs (C p) s' = count_docs (C p) s" if "p \<noteq> q" for p
  proof -
    have "i \<notin> ?S s p" if i: "i \<in> M" for i
    proof -
      obtain j where "store_docs s i = Some j" "j_queue j = q" using in_M [OF i] moves(2,3) by blast
      then show ?thesis using moves(3) \<open>p \<noteq> q\<close> by auto
    qed
    then have "?S s' p = ?S s p" using gone M(3) by auto
    then show ?thesis by (simp add: count_docs_def)
  qed
  have new: "some_doc (L u p) s" if "some_doc (L u p) s'" for u p
    using that gone M(3) moves(2) unfolding some_doc_def by (metis (no_types, lifting))
  have "int (card M) = limit \<or> \<not> some_doc (L t q) s'"
    using gone M(3,5) moves unfolding some_doc_def by (metis (no_types, lifting))
  moreover have "st_queues s' = st_queues s" using arg_cong [OF M(7), of st_queues] by simp
  ultimately show ?thesis
    using M(1,4) cq cp new assms(4) run_sweep_ok [OF assms(1-3)] by auto
qed


abbreviation store_names :: "Store \<Rightarrow> QueueName set" where
  "store_names s \<equiv> set (map fst (st_queues s))"

definition awaiting :: "JobState set \<Rightarrow> QueueName \<Rightarrow> Job \<Rightarrow> bool" where
  "awaiting sts q j \<longleftrightarrow> j_queue j = q \<and> j_state j \<in> sts"

definition lapsed :: "QueueName \<Rightarrow> time \<Rightarrow> Job \<Rightarrow> bool" where
  "lapsed q t j \<longleftrightarrow> j_queue j = q \<and> IsLeaseExpired t j"

lemma sweep_port_moves:
  assumes "\<And>t q. \<not> time_IsZero t \<Longrightarrow> lawful_move (f q t)"
    and "\<And>t q j. moves (f q t) j \<longleftrightarrow> L t q j" and "\<And>t q j. L t q j \<Longrightarrow> C q j" and "\<And>q j. C q j \<Longrightarrow> j_queue j = q"
    and "\<And>t q j j' p. moves (f q t) j \<Longrightarrow> move_result (f q t) j = Some j' \<Longrightarrow> \<not> C p j'"
    and mono: "\<And>u t q j. u \<le> t \<Longrightarrow> L u q j \<Longrightarrow> L t q j"
  shows "sweep_port store_ok store_names (\<lambda>t q. run_sweep (f q t)) (\<lambda>s q. count_docs (C q) s)
    (\<lambda>t s q. some_doc (L t q) s)"
proof (unfold_locales, goal_cases)
  case (1 s limit t q)
  obtain s' r where R: "run_sweep (f q t) limit s = (s', r)" by fastforce
  have "\<exists>n. r = Inr n \<and> store_ok s' \<and> st_queues s' = st_queues s \<and> 0 \<le> n \<and> n \<le> limit \<and>
    int (count_docs (C q) s') = int (count_docs (C q) s) - n \<and> (n = limit \<or> \<not> some_doc (L t q) s') \<and>
    (\<forall>p. p \<noteq> q \<longrightarrow> count_docs (C p) s' = count_docs (C p) s) \<and>
    (\<forall>u p. some_doc (L u p) s' \<longrightarrow> some_doc (L u p) s)"
    by (rule run_sweep_work [where L = L and C = C and t = t and q = q, OF 1(1) assms(1) [OF 1(3)] R 1(2) assms(2)])
       (erule assms(3) | erule assms(4) | erule (1) assms(5))+
  then obtain n where n: "r = Inr n" "st_queues s' = st_queues s" and rest: "store_ok s' \<and> 0 \<le> n \<and> n \<le> limit \<and>
    int (count_docs (C q) s') = int (count_docs (C q) s) - n \<and> (n = limit \<or> \<not> some_doc (L t q) s') \<and>
    (\<forall>p. p \<noteq> q \<longrightarrow> count_docs (C p) s' = count_docs (C p) s) \<and>
    (\<forall>u p. some_doc (L u p) s' \<longrightarrow> some_doc (L u p) s)" by blast
  show ?case by (rule exI [of _ s'], rule exI [of _ n]) (use rest in \<open>simp add: R n\<close>)
next
  case (2 u t s q)
  then show ?case using mono by (fastforce simp: some_doc_def)
next
  case (3 s t q)
  then show ?case by (auto intro: some_doc_count [of "L t q"] assms(3))
qed

lemma promote_body_moves:
  "moves (promote_body q t) j \<longleftrightarrow> promotable q t j"
  "move_result (promote_body q t) j = Some j' \<Longrightarrow> promotable q t j \<Longrightarrow> j_state j' = StatePending"
  by (auto simp: moves_def move_result_def promote_body_eq split: if_splits)

lemma reclaim_body_moves:
  "moves (reclaim_body q t) j \<longleftrightarrow> lapsed q t j"
  "move_result (reclaim_body q t) j = Some j' \<Longrightarrow> lapsed q t j \<Longrightarrow> j_state j' = StatePending"
  by (auto simp: moves_def move_result_def reclaim_body_def lapsed_def ReclaimExpiredLease_def IsLeaseExpired_def
      split: if_splits)

lemma purge_body_moves:
  "moves (purge_body q) j \<longleftrightarrow> awaiting {StateCompleted} q j"
  "move_result (purge_body q) j = Some j' \<Longrightarrow> \<not> awaiting {StateCompleted} q j"
  by (auto simp: moves_def move_result_def purge_body_def awaiting_def split: if_splits)

interpretation fake_promote: sweep_port store_ok store_names "\<lambda>t q. broker_PromoteDue (fakeBroker now) q t"
  "\<lambda>s q. count_docs (awaiting {StateScheduled, StateRetrying} q) s" "\<lambda>t s q. some_doc (promotable q t) s" for now
proof -
  have eq: "(\<lambda>t q. broker_PromoteDue (fakeBroker now) q t) = (\<lambda>t q. run_sweep (promote_body q t))"
    by (simp add: fakeBroker_def PromoteDue_def fun_eq_iff)
  show "sweep_port store_ok store_names (\<lambda>t q. broker_PromoteDue (fakeBroker now) q t)
      (\<lambda>s q. count_docs (awaiting {StateScheduled, StateRetrying} q) s) (\<lambda>t s q. some_doc (promotable q t) s)"
    unfolding eq by (rule sweep_port_moves [OF lawful_moves(2)])
      (auto simp: promote_body_moves(1) promotable_def awaiting_def IsDue_def dest: promote_body_moves(2))
qed

interpretation fake_reclaim: sweep_port store_ok store_names "\<lambda>t q. broker_ReclaimExpired (fakeBroker now) q t"
  "\<lambda>s q. count_docs (awaiting {StateActive} q) s" "\<lambda>t s q. some_doc (lapsed q t) s" for now
proof -
  have eq: "(\<lambda>t q. broker_ReclaimExpired (fakeBroker now) q t) = (\<lambda>t q. run_sweep (reclaim_body q t))"
    by (simp add: fakeBroker_def ReclaimExpired_def fun_eq_iff)
  show "sweep_port store_ok store_names (\<lambda>t q. broker_ReclaimExpired (fakeBroker now) q t)
      (\<lambda>s q. count_docs (awaiting {StateActive} q) s) (\<lambda>t s q. some_doc (lapsed q t) s)"
    unfolding eq by (rule sweep_port_moves [OF lawful_moves(3)])
      (auto simp: reclaim_body_moves(1) lapsed_def awaiting_def IsLeaseExpired_def split: option.splits if_splits
        dest: reclaim_body_moves(2) [unfolded lapsed_def IsLeaseExpired_def])
qed

interpretation fake_purge: sweep_port store_ok store_names "\<lambda>t. repo_PurgeCompleted fakeRepo"
  "\<lambda>s q. count_docs (awaiting {StateCompleted} q) s" "\<lambda>t s q. some_doc (awaiting {StateCompleted} q) s"
proof -
  have eq: "(\<lambda>t. repo_PurgeCompleted fakeRepo) = (\<lambda>t q. run_sweep (purge_body q))"
    by (simp add: fakeRepo_def PurgeCompleted_def fun_eq_iff)
  show "sweep_port store_ok store_names (\<lambda>t :: time. repo_PurgeCompleted fakeRepo)
      (\<lambda>s q. count_docs (awaiting {StateCompleted} q) s) (\<lambda>t s q. some_doc (awaiting {StateCompleted} q) s)"
    unfolding eq by (rule sweep_port_moves [OF lawful_moves(1)])
      (auto simp: purge_body_moves(1) awaiting_def dest: purge_body_moves(2))
qed

section \<open>Statistics, pausing and listing\<close>

definition count_state :: "QueueName \<Rightarrow> JobState \<Rightarrow> Job list \<Rightarrow> int" where
  "count_state q st js = int (length (filter (\<lambda>j. j_queue j = q \<and> j_state j = st) js))"

definition jobs_in :: "Store \<Rightarrow> QueueName \<Rightarrow> JobState \<Rightarrow> int" where
  "jobs_in s q st = int (card {i. \<exists>j. store_docs s i = Some j \<and> j_queue j = q \<and> j_state j = st})"

lemma foldl_count_job:
  "foldl (count_job q) stats js =
     stats\<lparr>s_Pending := s_Pending stats + count_state q StatePending js,
       s_Active := s_Active stats + count_state q StateActive js,
       s_Scheduled := s_Scheduled stats + count_state q StateScheduled js,
       s_Retrying := s_Retrying stats + count_state q StateRetrying js,
       s_Completed := s_Completed stats + count_state q StateCompleted js,
       s_Dead := s_Dead stats + count_state q StateDead js\<rparr>"
proof (induction js arbitrary: stats)
  case (Cons j js)
  then show ?case
    by (cases "j_queue j = q"; cases "j_state j") (simp_all add: count_job_def count_state_def)
qed (simp add: count_state_def)

lemma count_state_docs:
  assumes "store_ok s"
  shows "count_state q st (map snd (st_jobs s)) =
    jobs_in s q st"
proof -
  let ?P = "\<lambda>e. j_queue (snd e) = q \<and> j_state (snd e) = st"
  have "distinct (map fst (filter ?P (st_jobs s)))"
    using assms by (simp add: store_ok_def entries_ok_def distinct_map_filter)
  then have "length (filter ?P (st_jobs s)) = card (fst ` set (filter ?P (st_jobs s)))"
    using distinct_card [of "map fst (filter ?P (st_jobs s))"] by simp
  moreover have "fst ` set (filter ?P (st_jobs s)) =
      {i. \<exists>j. store_docs s i = Some j \<and> j_queue j = q \<and> j_state j = st}"
    by (force simp: docs_entries [OF assms])
  ultimately show ?thesis by (simp add: count_state_def jobs_in_def filter_map o_def)
qed

text \<open>
  The statistics of a queue count its stored jobs, state by state, and their total is the number of
  stored jobs of the queue; the counters of a queue that holds fewer than \<open>2^63\<close> jobs never wrap.
\<close>

theorem stats_count_jobs:
  assumes "store_ok s" and "length (st_jobs s) < 2 ^ 63"
  shows "\<exists>st. Stats_of q s = (s, Inr st) \<and> s_Queue st = q \<and> s_Paused st = queue_paused s q \<and>
    s_Pending st = jobs_in s q StatePending \<and>
    s_Active st = jobs_in s q StateActive \<and>
    s_Scheduled st = jobs_in s q StateScheduled \<and>
    s_Retrying st = jobs_in s q StateRetrying \<and>
    s_Completed st = jobs_in s q StateCompleted \<and>
    s_Dead st = jobs_in s q StateDead \<and>
    Total st = int (length (filter (\<lambda>(i, j). j_queue j = q) (st_jobs s)))"
proof -
  let ?js = "map snd (st_jobs s)"
  have sum: "int (length (filter (\<lambda>j. j_queue j = q) js)) =
      count_state q StatePending js + count_state q StateActive js + count_state q StateScheduled js +
      count_state q StateRetrying js + count_state q StateCompleted js + count_state q StateDead js" for js
  proof (induction js)
    case (Cons j js)
    then show ?case by (cases "j_queue j = q"; cases "j_state j") (simp_all add: count_state_def)
  qed (simp add: count_state_def)
  have len: "int (length (filter (\<lambda>j. j_queue j = q) ?js)) < 2 ^ 63"
    using le_less_trans [OF length_filter_le [of "\<lambda>j. j_queue j = q" ?js]] assms(2) by simp
  have wrap: "wrap64 (int (length (filter (\<lambda>j. j_queue j = q) ?js))) = int (length (filter (\<lambda>j. j_queue j = q) ?js))"
    using len by (intro wrap64_id) auto
  have "length (filter (\<lambda>(i, j). j_queue j = q) (st_jobs s)) = length (filter (\<lambda>j. j_queue j = q) ?js)"
    by (simp add: filter_map o_def case_prod_unfold)
  with wrap sum [of ?js] show ?thesis
    using count_state_docs [OF assms(1), of q]
    by (simp add: Stats_of_def statsFor_def foldl_count_job Total_def queue_paused_def Let_def)
qed

theorem stats_count_jobs_witness:
  "\<exists>st. Stats_of ''default'' sample_store = (sample_store, Inr st) \<and> Total st = 1"
  using stats_count_jobs [OF sample_store_ok(1), of "''default''"]
  by (auto simp: sample_store_jobs sample_job_def DefaultQueueName_def)

text \<open>
  Pausing holds. Once \<open>SetPaused\<close> has paused a queue, polling it hands out nothing, and a worker
  that registers the queue again when it starts does not undo the pause, whatever the weight it
  registers; resuming makes its pending jobs available again.
\<close>

theorem pause_holds:
  assumes "store_docs s i = Some j" "eligible n j" and "store_ok s" "st_FailNext s = None" "w \<noteq> ''''"
  shows "\<exists>s1 s2 s3. SetPaused n True s = (s1, Inr ()) \<and> Dequeue now [n] w l s1 = (s1, Inr None) \<and>
    Register (NewQueue n weight) s1 = (s2, Inr ()) \<and> Dequeue now [n] w l s2 = (s2, Inr None) \<and>
    SetPaused n False s2 = (s3, Inr ()) \<and> (\<exists>s4 j'. Dequeue now [n] w l s3 = (s4, Inr (Some j')))"
proof -
  have ij: "(i, j) \<in> set (st_jobs s)" using assms(1,3) docs_entries by blast
  then have "map_of (st_queues s) n \<noteq> None" using assms(2,3) by (auto simp: store_ok_def eligible_def)
  then obtain q where q: "map_of (st_queues s) n = Some q" by blast
  define s1 where "s1 = s\<lparr>st_queues := AList.update n (Pause q) (st_queues s)\<rparr>"
  define q2 where "q2 = Queue_Reconstitute n (if weight = 0 then DefaultWeight else weight) True"
  define s2 where "s2 = s1\<lparr>st_queues := AList.update n q2 (st_queues s1)\<rparr>"
  define s3 where "s3 = s2\<lparr>st_queues := AList.update n (Resume q2) (st_queues s2)\<rparr>"
  have none: "Dequeue now [n] w l t = (t, Inr None)" if "queue_paused t n" "st_FailNext t = None" for t
    using that dequeue_loop_skip [of t n now w l "[]"] by (simp add: Dequeue_def takeFailure_def)
  have p: "queue_paused s1 n" "queue_paused s2 n" "\<not> queue_paused s3 n"
    by (simp_all add: queue_paused_def s1_def s2_def s3_def q2_def update_conv' Pause_def Resume_def
        Queue_Reconstitute_def)
  have f: "st_FailNext s1 = None" "st_FailNext s2 = None" "st_FailNext s3 = None" "st_jobs s3 = st_jobs s"
    using assms(4) by (simp_all add: s1_def s2_def s3_def)
  have "select_best n None (st_jobs s3) \<noteq> None" using ij assms(2) f(4) by (auto simp: select_best_None)
  then obtain bi b where b: "select_best n None (st_jobs s3) = Some (bi, b)" by auto
  then have "j_state b = StatePending" using select_best_Some [OF b] by (auto simp: eligible_def)
  then obtain b' where "Lease w now l b = Inr b'" using Lease_pending [OF assms(5)] by blast
  then have "\<exists>s4 j'. Dequeue now [n] w l s3 = (s4, Inr (Some j'))"
    using b p(3) f(3) by (auto simp: Dequeue_def takeFailure_def queue_paused_def split: option.splits)
  moreover have "SetPaused n True s = (s1, Inr ())" using q by (simp add: SetPaused_def s1_def)
  moreover have "Register (NewQueue n weight) s1 = (s2, Inr ())"
    by (simp add: Register_def s1_def s2_def q2_def NewQueue_def update_conv' Pause_def Queue_Reconstitute_def)
  moreover have "SetPaused n False s2 = (s3, Inr ())" by (simp add: SetPaused_def s2_def s3_def update_conv')
  ultimately show ?thesis using none [OF p(1) f(1)] none [OF p(2) f(2)] by blast
qed

theorem pause_holds_witness:
  "\<exists>s1. SetPaused ''default'' True sample_store = (s1, Inr ()) \<and>
     Dequeue 7 [''default''] ''w1'' 0 s1 = (s1, Inr None)"
  using pause_holds [of sample_store "''job-1''" sample_job "''default''"] sample_store_ok
  by (fastforce simp: sample_store_jobs sample_job_def eligible_def DefaultQueueName_def)

text \<open>
  Listing. A page holds the jobs that match the filter, newest first and equal ones by
  identifier, from the offset on and at most the limit many (fifty when no limit is given), with the total number of matches.
  Consecutive pages are therefore consecutive slices of one list: they neither repeat nor miss a job.
\<close>

theorem list_pages:
  assumes "0 \<le> f_Offset f" and "f_Offset f + f_Limit f < 2 ^ 63" and "f_Offset f + 50 < 2 ^ 63"
  shows "List_jobs f s =
    (s, Inr (let matched = sort_key list_rank (filter (filter_matches f) (map snd (st_jobs s)));
                 limit = (if f_Limit f \<le> 0 then 50 else f_Limit f)
             in \<lparr>pg_Jobs = take (nat limit) (drop (nat (f_Offset f)) matched),
                 pg_Total = int (length matched)\<rparr>))"
  using assms by (rule List_jobs_eq)

theorem list_pages_witness:
  "\<exists>pg. List_jobs \<lparr>f_Queue = '''', f_State = None, f_TaskType = '''', f_Offset = 0, f_Limit = 10\<rparr> sample_store
      = (sample_store, Inr pg) \<and> pg_Total pg = 1"
  using list_pages [of "\<lparr>f_Queue = '''', f_State = None, f_TaskType = '''', f_Offset = 0, f_Limit = 10\<rparr>" sample_store]
  by (simp add: sample_store_jobs filter_matches_def Let_def)

text \<open>
  Documents round trip: a saved job is read back exactly, saving leaves all other documents and all
  claims alone, and a deleted job is gone together with the idempotency key it held, so the
  key can be used again.
\<close>

theorem save_find_delete:
  assumes "store_ok s" and "job_ok j" and "st_FailNext s = None"
  shows "\<exists>s1. Save j s = (s1, Inr ()) \<and> store_ok s1 \<and> FindByID (j_id j) s1 = (s1, Inr j) \<and>
    (\<forall>i. i \<noteq> j_id j \<longrightarrow> FindByID i s1 = (s1, snd (FindByID i s))) \<and> store_held s1 = store_held s \<and>
    (\<exists>s2. Delete (j_id j) s1 = (s2, Inr ()) \<and> store_ok s2 \<and>
       (\<exists>e. FindByID (j_id j) s2 = (s2, Inl e) \<and> KindOf e = KindNotFound) \<and>
       (\<forall>i. i \<noteq> j_id j \<longrightarrow> store_docs s2 i = store_docs s i) \<and>
       (\<forall>i ttl. snd (Claim (j_idempotencyKey j) i ttl s2) = Inr (True, '''')))"
proof -
  obtain s1 where S: "Save j s = (s1, Inr ())" using assms(3) by (simp add: Save_def takeFailure_def)
  have ok1: "store_ok s1" using Save_ok [OF assms(1,2) S] .
  have d1: "store_docs s1 = (store_docs s)(j_id j \<mapsto> j)" "store_held s1 = store_held s"
    using fake_view.writes_Inr [OF Save_writes assms(1,2) S] by auto
  obtain s2 where D: "Delete (j_id j) s1 = (s2, Inr ())" using d1 by (simp add: Delete_def Let_def)
  have ok2: "store_ok s2" using Delete_ok [OF ok1 D] .
  have d2: "store_docs s2 = (store_docs s1)(j_id j := None)"
    using D d1 by (auto simp: Delete_def Let_def delete_conv' split: if_splits)
  have "snd (Claim (j_idempotencyKey j) i ttl s2) = Inr (True, '''')" for i ttl
    using D d1 by (auto simp: Delete_def Let_def Claim_def delete_conv' split: if_splits)
  then show ?thesis using S ok1 d1 D ok2 d2 by (auto simp: FindByID_def job_not_found_def split: option.splits)
qed

theorem save_find_delete_witness:
  "\<exists>s1. Save sample_leased sample_store = (s1, Inr ()) \<and> FindByID ''job-1'' s1 = (s1, Inr sample_leased)"
  using save_find_delete [OF sample_store_ok(1) job_in_service_ok [OF sample_in_service] sample_store_ok(2)]
  by (auto simp: sample_leased_def sample_job_def)

end
