(* ===== verification/Go_Time.thy ===== *)
theory Go_Time
  imports Goq_Prelude
begin

text \<open>
  What the program uses of Go's \<open>time\<close> and \<open>fmt\<close> packages to print and read instants and durations:
  \<open>Format(time.RFC3339Nano)\<close> in UTC, \<open>time.Parse(time.RFC3339, _)\<close> with the leniencies of that
  parser (an hour of one digit, a comma before the fraction, offsets of up to 24:60), and
  \<open>Duration.String\<close>. An instant is a number of nanoseconds since the Unix epoch; the calendar is
  the proleptic Gregorian one.
\<close>

section \<open>Decimal digits\<close>

definition digit :: "nat \<Rightarrow> char" where
  "digit d = char_of (48 + d mod 10)"

definition digit_val :: "char \<Rightarrow> nat" where
  "digit_val c = of_char c - 48"

text \<open>Decimal digits of \<open>n\<close>, padded with zeros to at least \<open>w\<close> of them.\<close>

function pad :: "nat \<Rightarrow> nat \<Rightarrow> string" where
  "pad w n = (if w \<le> 1 \<and> n < 10 then [digit n] else pad (w - 1) (n div 10) @ [digit n])"
  by pat_completeness auto
termination by (relation "measure (\<lambda>(w, n). w + n)") auto

declare pad.simps [simp del]

definition digits_val :: "string \<Rightarrow> nat" where
  "digits_val ds = foldl (\<lambda>v c. 10 * v + digit_val c) 0 ds"

text \<open>The digits of a fraction of \<open>w\<close> digits, without trailing zeros and with the point.\<close>

definition fraction :: "nat \<Rightarrow> nat \<Rightarrow> string" where
  "fraction w n =
     (if n = 0 then '''' else CHR ''.'' # rev (dropWhile (\<lambda>c. c = CHR ''0'') (rev (pad w n))))"

section \<open>The calendar\<close>

definition isLeap :: "int \<Rightarrow> bool" where
  "isLeap y \<longleftrightarrow> y mod 4 = 0 \<and> (y mod 100 \<noteq> 0 \<or> y mod 400 = 0)"

definition daysBefore :: "int list" where
  "daysBefore = [0, 31, 59, 90, 120, 151, 181, 212, 243, 273, 304, 334, 365]"

definition daysIn :: "int \<Rightarrow> int \<Rightarrow> int" where
  "daysIn m y = (if m = 2 \<and> isLeap y then 29 else daysBefore ! nat m - daysBefore ! nat (m - 1))"

text \<open>Days from 1 January of year 1 to a date, and back.\<close>

definition days_of_date :: "int \<Rightarrow> int \<Rightarrow> int \<Rightarrow> int" where
  "days_of_date y m d =
     365 * (y - 1) + (y - 1) div 4 - (y - 1) div 100 + (y - 1) div 400 +
     daysBefore ! nat (m - 1) + (if isLeap y \<and> m > 2 then 1 else 0) + d - 1"

definition year_of_days :: "int \<Rightarrow> int \<times> int" where
  "year_of_days n =
     (let n400 = n div 146097; r = n mod 146097;
          c = min (r div 36524) 3; r = r - 36524 * c;
          q = r div 1461; r = r mod 1461;
          a = min (r div 365) 3
      in (400 * n400 + 100 * c + 4 * q + a + 1, r - 365 * a))"

fun month_search :: "int \<Rightarrow> int \<Rightarrow> int list \<Rightarrow> int \<times> int" where
  "month_search yday m (b # b' # bs) =
     (if yday < b' then (m, yday - b + 1) else month_search yday (m + 1) (b' # bs))"
| "month_search yday m bs = (m, yday)"

definition date_of_days :: "int \<Rightarrow> int \<times> int \<times> int" where
  "date_of_days n =
     (let (y, yday) = year_of_days n
      in if isLeap y \<and> yday = 59 then (y, 2, 29)
         else (y, month_search (if isLeap y \<and> yday > 59 then yday - 1 else yday) 1 daysBefore))"

section \<open>Printing and reading instants\<close>

definition day_ns :: int where "day_ns = 86400 * second"

definition pad_year :: "int \<Rightarrow> string" where
  "pad_year y = (if y < 0 then CHR ''-'' # pad 4 (nat (- y)) else pad 4 (nat y))"

definition Format_RFC3339Nano :: "time \<Rightarrow> string" where
  "Format_RFC3339Nano t =
     (let abs = t - zero_time; (y, m, d) = date_of_days (abs div day_ns); rest = abs mod day_ns
      in pad_year y @ ''-'' @ pad 2 (nat m) @ ''-'' @ pad 2 (nat d) @ ''T'' @
         pad 2 (nat (rest div hour)) @ '':'' @ pad 2 (nat (rest div minute mod 60)) @ '':'' @
         pad 2 (nat (rest div second mod 60)) @ fraction 9 (nat (rest mod second)) @ ''Z'')"

text \<open>The readers of the parser: each returns what it read and the rest of the text.\<close>

definition getnum :: "bool \<Rightarrow> string \<Rightarrow> (int \<times> string) option" where
  "getnum fixed s =
     (case s of
        c1 # c2 # rest \<Rightarrow>
          if \<not> is_digit c1 then None
          else if is_digit c2 then Some (int (10 * digit_val c1 + digit_val c2), rest)
          else if fixed then None else Some (int (digit_val c1), c2 # rest)
      | [c1] \<Rightarrow> if is_digit c1 \<and> \<not> fixed then Some (int (digit_val c1), []) else None
      | [] \<Rightarrow> None)"

definition get_year :: "string \<Rightarrow> (int \<times> string) option" where
  "get_year s =
     (if length s \<ge> 4 \<and> list_all is_digit (take 4 s)
      then Some (int (digits_val (take 4 s)), drop 4 s) else None)"

definition skip_char :: "char \<Rightarrow> string \<Rightarrow> string option" where
  "skip_char c s = (case s of c' # rest \<Rightarrow> if c' = c then Some rest else None | [] \<Rightarrow> None)"

definition get_fraction :: "string \<Rightarrow> int \<times> string" where
  "get_fraction s =
     (case s of
        p # d # rest \<Rightarrow>
          if (p = CHR ''.'' \<or> p = CHR '','') \<and> is_digit d
          then let ds = takeWhile is_digit (d # rest); used = take 9 ds
               in (int (digits_val used) * 10 ^ (9 - length used), dropWhile is_digit (d # rest))
          else (0, s)
      | _ \<Rightarrow> (0, s))"

definition get_zone :: "string \<Rightarrow> (int \<times> string) option" where
  "get_zone s =
     (case s of
        [] \<Rightarrow> None
      | sg # rest \<Rightarrow>
          if sg = CHR ''Z'' then Some (0, rest)
          else case rest of
            h1 # h2 # col # m1 # m2 # rest' \<Rightarrow>
              if col = CHR '':'' \<and> list_all is_digit [h1, h2, m1, m2] \<and> (sg = CHR ''+'' \<or> sg = CHR ''-'')
              then let hr = int (digits_val [h1, h2]); mm = int (digits_val [m1, m2])
                   in if hr > 24 \<or> mm > 60 then None
                      else Some ((if sg = CHR ''-'' then - 1 else 1) * (hr * 60 + mm) * 60, rest')
              else None
          | _ \<Rightarrow> None)"

definition Parse_RFC3339 :: "string \<Rightarrow> time option" where
  "Parse_RFC3339 s =
     Option.bind (get_year s) (\<lambda>(y, s). Option.bind (skip_char CHR ''-'' s) (\<lambda>s.
     Option.bind (getnum True s) (\<lambda>(mo, s). Option.bind (skip_char CHR ''-'' s) (\<lambda>s.
     Option.bind (getnum True s) (\<lambda>(d, s). Option.bind (skip_char CHR ''T'' s) (\<lambda>s.
     Option.bind (getnum False s) (\<lambda>(h, s). Option.bind (skip_char CHR '':'' s) (\<lambda>s.
     Option.bind (getnum True s) (\<lambda>(mi, s). Option.bind (skip_char CHR '':'' s) (\<lambda>s.
     Option.bind (getnum True s) (\<lambda>(se, s).
       let (ns, s) = get_fraction s
       in Option.bind (get_zone s) (\<lambda>(off, s).
            if mo < 1 \<or> 12 < mo \<or> 24 \<le> h \<or> 60 \<le> mi \<or> 60 \<le> se \<or> s \<noteq> '''' \<or> d < 1 \<or> d > daysIn mo y
            then None
            else Some (zero_time + days_of_date y mo d * day_ns + h * hour + mi * minute +
                       (se - off) * second + ns)))))))))))))"

section \<open>Durations\<close>

text \<open>\<open>Duration.String\<close>: the largest unit first, a fraction only on the seconds or the single unit.\<close>

definition Duration_String :: "duration \<Rightarrow> string" where
  "Duration_String d =
     (let u = nat \<bar>d\<bar>;
          text =
            (if u = 0 then ''0s''
             else if u < 1000 then pad 1 u @ ''ns''
             else if u < 1000000
               then pad 1 (u div 1000) @ fraction 3 (u mod 1000) @ [CHR 0xC2, CHR 0xB5, CHR ''s'']
             else if u < 1000000000 then pad 1 (u div 1000000) @ fraction 6 (u mod 1000000) @ ''ms''
             else let secs = u div 1000000000;
                      s = pad 1 (secs mod 60) @ fraction 9 (u mod 1000000000) @ ''s'';
                      ms = (if secs div 60 > 0 then pad 1 (secs div 60 mod 60) @ ''m'' else '''');
                      hs = (if secs div 3600 > 0 then pad 1 (secs div 3600) @ ''h'' else '''')
                  in hs @ ms @ s)
      in if d < 0 then CHR ''-'' # text else text)"

section \<open>Reading back\<close>

lemma digit_props [simp]: "digit_val (digit d) = d mod 10" "is_digit (digit d)"
  by (simp_all add: digit_val_def digit_def is_digit_def)

lemma digits_val_snoc [simp]: "digits_val (ds @ [c]) = 10 * digits_val ds + digit_val c"
  by (simp add: digits_val_def)

lemma digits_val_Nil [simp]: "digits_val [] = 0"
  by (simp add: digits_val_def)

lemma pad_props: "digits_val (pad w n) = n \<and> list_all is_digit (pad w n) \<and> pad w n \<noteq> []"
proof (induction w n rule: pad.induct)
  case (1 w n)
  show ?case
  proof (cases "w \<le> 1 \<and> n < 10")
    case True
    then show ?thesis by (subst (1 2 3) pad.simps) (simp add: digits_val_def)
  next
    case False
    with 1 show ?thesis by (subst (1 2 3) pad.simps) (auto simp: mult_div_mod_eq)
  qed
qed

lemma length_pad: "1 \<le> w \<Longrightarrow> n < 10 ^ w \<Longrightarrow> length (pad w n) = w"
proof (induction w n rule: pad.induct)
  case (1 w n)
  show ?case
  proof (cases "w \<le> 1")
    case True
    with "1.prems" have "w = 1" "n < 10" by auto
    then show ?thesis by (simp add: pad.simps)
  next
    case False
    then obtain v where w: "w = Suc v" "1 \<le> v" by (cases w) auto
    then have "n div 10 < 10 ^ v" using "1.prems"(2) by (intro less_mult_imp_div_less) (simp add: mult.commute)
    with w 1 show ?thesis by (subst pad.simps) simp
  qed
qed

lemma getnum_pad: "n < 100 \<Longrightarrow> getnum fixed (pad 2 n @ rest) = Some (int n, rest)"
  using less_mult_imp_div_less [of n 10 10]
  by (simp add: getnum_def pad.simps [of 2] pad.simps [of "Suc 0"] mult_div_mod_eq)

lemma get_year_pad: "n < 10000 \<Longrightarrow> get_year (pad 4 n @ rest) = Some (int n, rest)"
  using length_pad [of 4 n] pad_props [of 4 n] by (simp add: get_year_def)

lemma digits_val_append: "digits_val (xs @ ys) = digits_val xs * 10 ^ length ys + digits_val ys"
proof (induction ys rule: rev_induct)
  case (snoc y ys)
  then show ?case using digits_val_snoc [of "xs @ ys" y] by (simp add: algebra_simps)
qed simp

lemma digits_val_zeros: "list_all (\<lambda>c. c = CHR ''0'') ds \<Longrightarrow> digits_val ds = 0"
  by (induction ds rule: rev_induct) (auto simp: digit_val_def)

lemma fraction_read:
  assumes "n < 10 ^ 9"
  shows "get_fraction (fraction 9 n @ CHR ''Z'' # rest) = (int n, CHR ''Z'' # rest)"
proof (cases "n = 0")
  case True
  then show ?thesis by (simp add: fraction_def get_fraction_def is_digit_def split: list.splits)
next
  case False
  let ?p = "pad 9 n"
  define t where "t = rev (dropWhile (\<lambda>c. c = CHR ''0'') (rev ?p))"
  define z where "z = rev (takeWhile (\<lambda>c. c = CHR ''0'') (rev ?p))"
  have p: "?p = t @ z" unfolding t_def z_def by (metis rev_append rev_rev_ident takeWhile_dropWhile_id)
  have z: "list_all (\<lambda>c. c = CHR ''0'') z" unfolding z_def by (auto simp: list_all_iff dest: set_takeWhileD)
  have len: "length t + length z = 9" using length_pad [of 9 n] assms p by (metis length_append one_le_numeral)
  have dig: "list_all is_digit t" using pad_props [of 9 n] p by auto
  have val: "digits_val t * 10 ^ length z = n"
    using pad_props [of 9 n] digits_val_append [of t z] digits_val_zeros [OF z] p by simp
  then have "t \<noteq> []" using False by auto
  then obtain d ds where t: "t = d # ds" by (cases t) auto
  have dig': "is_digit d" "list_all is_digit ds" using dig t by auto
  have "takeWhile is_digit (t @ CHR ''Z'' # rest) = t" "dropWhile is_digit (t @ CHR ''Z'' # rest) = CHR ''Z'' # rest"
    using dig by (auto simp: takeWhile_append dropWhile_append list_all_iff is_digit_def)
  moreover have "10 ^ (9 - length t) = (10 :: int) ^ length z" using len by (metis diff_add_inverse)
  moreover have "int (digits_val t) * 10 ^ length z = int n" using val by (metis of_nat_mult of_nat_numeral of_nat_power)
  ultimately show ?thesis
    using False dig' len t unfolding fraction_def t_def [symmetric]
    by (simp add: get_fraction_def Let_def)
qed


section \<open>The calendar round trip\<close>

lemma year_of_days:
  assumes "year_of_days n = (y, yday)"
  shows "n = 365 * (y - 1) + (y - 1) div 4 - (y - 1) div 100 + (y - 1) div 400 + yday"
    and "0 \<le> yday" and "yday < (if isLeap y then 366 else 365)"
proof -
  define n400 where "n400 = n div 146097"
  define r where "r = n mod 146097"
  define c where "c = min (r div 36524) 3"
  define r1 where "r1 = r - 36524 * c"
  define q where "q = r1 div 1461"
  define r2 where "r2 = r1 mod 1461"
  define a where "a = min (r2 div 365) 3"
  have y: "y - 1 = 400 * n400 + 100 * c + 4 * q + a" and d: "yday = r2 - 365 * a"
    using assms unfolding year_of_days_def Let_def n400_def r_def c_def r1_def q_def r2_def a_def by auto
  have r: "n = 146097 * n400 + r" "0 \<le> r" "r < 146097" unfolding n400_def r_def by simp_all
  have c: "0 \<le> c" "c \<le> 3" "0 \<le> r1" "r1 \<le> 36524" "c < 3 \<Longrightarrow> r1 < 36524"
    using r(2,3) unfolding c_def r1_def by (auto simp: min_def)
  have q: "r1 = 1461 * q + r2" "0 \<le> r2" "r2 < 1461" "0 \<le> q" "q \<le> 24"
    using c(3,4) unfolding q_def r2_def by auto
  have q24: "r2 < 1460" if "q = 24" "c < 3" using c(5) q(1) that by simp
  have a: "0 \<le> a" "a \<le> 3" "0 \<le> yday" "yday \<le> 365" "a < 3 \<Longrightarrow> yday < 365"
    using q(2,3) d unfolding a_def by (auto simp: min_def)
  have d4: "(y - 1) div 4 = 100 * n400 + 25 * c + q" "(y - 1) div 100 = 4 * n400 + c" "(y - 1) div 400 = n400"
    unfolding y using a c q by auto
  show "n = 365 * (y - 1) + (y - 1) div 4 - (y - 1) div 100 + (y - 1) div 400 + yday"
    unfolding d4 unfolding y using r(1) q(1) d r1_def by simp
  show "0 \<le> yday" by fact
  show "yday < (if isLeap y then 366 else 365)"
  proof (cases "yday = 365")
    case True
    then have a3: "a = 3" using a by force
    then have r2: "r2 = 1460" using True d by simp
    have y': "y = 4 * (100 * n400 + 25 * c + q + 1)" using y a3 by simp
    have "isLeap y"
    proof (cases "q = 24")
      case True
      then have "y = 400 * (n400 + 1)" using q24 r2 c(2) y' by (cases "c = 3") auto
      with y' show ?thesis by (simp add: isLeap_def)
    next
      case False
      define e where "e = 4 * (q + 1)"
      have "y = e + 100 * (4 * n400 + c)" using y' by (simp add: e_def)
      then have "y mod 100 = e mod 100" by (simp only: mod_mult_self2)
      also have "\<dots> = e" using False q(4,5) by (simp add: e_def)
      finally show ?thesis using y' q(4) by (simp add: isLeap_def e_def)
    qed
    then show ?thesis using True by simp
  qed (use a(4) in auto)
qed


lemma month_search_range:
  assumes "0 \<le> yday" "yday < 365" "month_search yday 1 daysBefore = (m, d)"
  shows "1 \<le> m \<and> m \<le> 12 \<and> 1 \<le> d \<and> d \<le> daysBefore ! nat m - daysBefore ! nat (m - 1) \<and>
    daysBefore ! nat (m - 1) + d - 1 = yday \<and> (m \<le> 2 \<longleftrightarrow> yday < 59)"
  using assms by (auto simp: daysBefore_def split: if_splits)

lemma date_of_days:
  assumes "date_of_days n = (y, m, d)"
  shows "days_of_date y m d = n" and "1 \<le> m" and "m \<le> 12" and "1 \<le> d" and "d \<le> daysIn m y"
proof -
  obtain yday where Y: "year_of_days n = (y, yday)"
    using assms by (auto simp: date_of_days_def split: prod.splits if_splits)
  note n = year_of_days [OF Y]
  let ?yd = "if isLeap y \<and> yday > 59 then yday - 1 else yday"
  have "days_of_date y m d = n \<and> 1 \<le> m \<and> m \<le> 12 \<and> 1 \<le> d \<and> d \<le> daysIn m y"
  proof (cases "isLeap y \<and> yday = 59")
    case True
    with assms Y have "m = 2" "d = 29" by (auto simp: date_of_days_def)
    with True n show ?thesis by (simp add: days_of_date_def daysIn_def daysBefore_def)
  next
    case False
    with assms Y have s: "month_search ?yd 1 daysBefore = (m, d)" by (auto simp: date_of_days_def)
    have yd: "0 \<le> ?yd" "?yd < 365" using n(2,3) False by (auto split: if_splits)
    from month_search_range [OF yd s] have m: "1 \<le> m" "m \<le> 12" "1 \<le> d"
        "d \<le> daysBefore ! nat m - daysBefore ! nat (m - 1)"
        "daysBefore ! nat (m - 1) + d - 1 = ?yd" "m \<le> 2 \<longleftrightarrow> ?yd < 59" by auto
    have "d \<le> daysIn m y"
      using m(4) by (cases "m = 2") (auto simp: daysIn_def, simp add: daysBefore_def)
    moreover have "days_of_date y m d = n"
      unfolding days_of_date_def n(1) using m(5,6) False by (cases "isLeap y"; cases "yday > 59") simp_all
    ultimately show ?thesis using m by simp
  qed
  then show "days_of_date y m d = n" "1 \<le> m" "m \<le> 12" "1 \<le> d" "d \<le> daysIn m y" by auto
qed

lemma leap_days_bounds:
  fixes x :: int
  shows "24 * (x div 100) \<le> x div 4 - x div 100" "x div 4 - x div 100 \<le> 24 * (x div 100) + 24"
proof -
  define u v where "u = x div 100" and "v = x mod 100"
  have x: "x = 4 * (25 * u) + v" and v: "0 \<le> v" "v < 100" by (simp_all add: u_def v_def)
  have "x div 4 = 25 * u + v div 4" unfolding x by (simp only: div_mult_self4)
  moreover have "0 \<le> v div 4" "v div 4 \<le> 24" using v by auto
  ultimately show "24 * (x div 100) \<le> x div 4 - x div 100" "x div 4 - x div 100 \<le> 24 * (x div 100) + 24"
    unfolding u_def [symmetric] by linarith+
qed

lemma year_of_days_bounds:
  assumes "year_of_days n = (y, yday)"
  shows "0 \<le> n \<Longrightarrow> 1 \<le> y" and "n < 3652059 \<Longrightarrow> y \<le> 9999"
proof -
  define x where "x = y - 1"
  note n = year_of_days [OF assms, folded x_def] and b = leap_days_bounds [of x]
  have yday: "yday \<le> 365" using n(3) by (auto split: if_splits)
  show "1 \<le> y" if "0 \<le> n"
  proof (rule ccontr)
    assume "\<not> 1 \<le> y"
    then consider "x = - 1" | "x \<le> - 2" by (force simp: x_def)
    then show False
    proof cases
      case 2
      then have "x div 100 \<le> - 1" "x div 400 \<le> - 1" by auto
      with 2 n(1) b yday that show False by linarith
    qed (use n(1) yday that in auto)
  qed
  show "y \<le> 9999" if "n < 3652059"
  proof (rule ccontr)
    assume "\<not> y \<le> 9999"
    then consider "x = 9999" | "10000 \<le> x" by (force simp: x_def)
    then show False
    proof cases
      case 2
      then have "100 \<le> x div 100" "25 \<le> x div 400" by auto
      with 2 n(1,2) b that show False by linarith
    qed (use n(1,2) that in auto)
  qed
qed

lemma clock_sum:
  fixes r s m h mi se ns :: int
  assumes "r = s * second + ns" "s = 60 * m + se" "m = 60 * h + mi"
  shows "r = h * hour + mi * minute + se * second + ns"
  using assms by (simp add: duration_units)

lemma clock_fields:
  fixes r :: int
  assumes "0 \<le> r" "r < day_ns"
  obtains h mi se ns where "r div hour = int h" "r div minute mod 60 = int mi"
    "r div second mod 60 = int se" "r mod second = int ns"
    "r = int h * hour + int mi * minute + int se * second + int ns"
    "h < 24" "mi < 60" "se < 60" "ns < 10 ^ 9"
proof -
  define s where "s = r div second"
  define m where "m = s div 60"
  have "r div hour = r div (second * 60 * 60)" "r div minute = r div (second * 60)"
    by (simp_all add: duration_units)
  then have hm: "r div hour = m div 60" "r div minute = m"
    unfolding m_def s_def by (simp_all add: zdiv_zmult2_eq duration_units)
  have s: "0 \<le> s" "s < 86400" using assms by (auto simp: s_def day_ns_def duration_units)
  then have m: "0 \<le> m div 60" "m div 60 < 24" by (auto simp: m_def)
  have "r = s * second + r mod second" "s = 60 * m + s mod 60" "m = 60 * (m div 60) + m mod 60"
    by (simp_all only: s_def m_def mult_div_mod_eq div_mult_mod_eq)
  note sum = clock_sum [OF this]
  have nonneg: "0 \<le> m mod 60" "m mod 60 < 60" "0 \<le> s mod 60" "s mod 60 < 60" "0 \<le> r mod second" "r mod second < 10 ^ 9"
    by (simp_all add: duration_units)
  show thesis
  proof (rule that [of "nat (m div 60)" "nat (m mod 60)" "nat (s mod 60)" "nat (r mod second)"])
    show "r = int (nat (m div 60)) * hour + int (nat (m mod 60)) * minute + int (nat (s mod 60)) * second +
        int (nat (r mod second))" using sum m(1) nonneg(1,3,5) by simp
  qed (use m nonneg hm in \<open>simp_all add: s_def nat_less_iff\<close>)
qed

lemma Parse_fields:
  assumes "y < 10000" "mo < 100" "d < 100" "h < 100" "mi < 100" "se < 100" "ns < 10 ^ 9"
  shows "Parse_RFC3339 (pad 4 y @ CHR ''-'' # pad 2 mo @ CHR ''-'' # pad 2 d @ CHR ''T'' # pad 2 h @
      CHR '':'' # pad 2 mi @ CHR '':'' # pad 2 se @ fraction 9 ns @ ''Z'') =
    (if int mo < 1 \<or> 12 < int mo \<or> 24 \<le> int h \<or> 60 \<le> int mi \<or> 60 \<le> int se \<or> int d < 1 \<or>
        int d > daysIn (int mo) (int y) then None
     else Some (zero_time + days_of_date (int y) (int mo) (int d) * day_ns + int h * hour + int mi * minute +
       int se * second + int ns))"
  using assms fraction_read [OF assms(7), of "''''"]
  by (simp add: Parse_RFC3339_def get_year_pad getnum_pad skip_char_def get_zone_def)

section \<open>Round trip\<close>

text \<open>
  Instants survive the API: what is printed for an instant of the years 1 to 9999 is read back by
  the parser of \<open>run_at\<close> as the same instant, to the nanosecond.
\<close>

lemma rfc3339_round_trip:
  assumes "zero_time \<le> t" and "t < 253402300800 * second"
  shows "Parse_RFC3339 (Format_RFC3339Nano t) = Some t"
proof -
  define a where "a = t - zero_time"
  define r where "r = a mod day_ns"
  obtain y m d where D: "date_of_days (a div day_ns) = (y, m, d)" by (metis prod.exhaust)
  note dt = date_of_days [OF D]
  obtain yday where Y: "year_of_days (a div day_ns) = (y, yday)"
    using D by (auto simp: date_of_days_def split: prod.splits if_splits)
  have "0 \<le> a div day_ns" "a div day_ns < 3652059"
    using assms by (auto simp: a_def day_ns_def duration_units zero_time_def)
  then have y: "1 \<le> y" "y \<le> 9999" using year_of_days_bounds [OF Y] by auto
  have "daysIn m y \<le> 31"
    using dt(2,3) by (auto simp: daysIn_def daysBefore_def nth_Cons' split: if_splits)
  then have d: "d \<le> 31" using dt(5) by simp
  have r: "0 \<le> r" "r < day_ns" by (simp_all add: r_def day_ns_def duration_units)
  obtain h mi se ns where c: "r div hour = int h" "r div minute mod 60 = int mi"
      "r div second mod 60 = int se" "r mod second = int ns"
      "r = int h * hour + int mi * minute + int se * second + int ns"
      "h < 24" "mi < 60" "se < 60" "ns < 10 ^ 9"
    using clock_fields [OF r] .
  have fmt: "Format_RFC3339Nano t = pad 4 (nat y) @ CHR ''-'' # pad 2 (nat m) @ CHR ''-'' # pad 2 (nat d) @
      CHR ''T'' # pad 2 h @ CHR '':'' # pad 2 mi @ CHR '':'' # pad 2 se @ fraction 9 ns @ ''Z''"
    using D y(1) unfolding Format_RFC3339Nano_def Let_def a_def [symmetric] r_def [symmetric] c(1-4)
    by (simp add: pad_year_def)
  have t: "t = zero_time + days_of_date y m d * day_ns + r" unfolding dt(1) by (simp add: r_def a_def)
  have "nat y < 10000" "nat m < 100" "nat d < 100" "h < 100" "mi < 100" "se < 100"
    using dt(2,3,4) d y c(6-8) by auto
  note P = Parse_fields [OF this c(9)]
  have "Parse_RFC3339 (Format_RFC3339Nano t) = Some (zero_time + days_of_date y m d * day_ns +
      int h * hour + int mi * minute + int se * second + int ns)"
    unfolding fmt P using y(1) dt(2,3,4,5) c(6-8) by simp
  then show ?thesis using t c(5) by simp
qed

end
