(* ===== verification/Go_Text.thy ===== *)
theory Go_Text
  imports Goq_Prelude
begin

text \<open>
  The text codecs of Go's standard library that the Redis store and the hydrator call:
  \<open>strconv.FormatInt\<close>, \<open>FormatUint\<close>, \<open>ParseInt\<close> and \<open>ParseUint\<close> in base 10 and 64 bits,
  \<open>base64.StdEncoding\<close>, and \<open>utf8.DecodeRune\<close> and \<open>EncodeRune\<close>. A parser that reports an error is
  \<open>None\<close>; the text of the error is not part of the model. Each codec comes with its round trip.
\<close>

section \<open>strconv\<close>

definition FormatUint :: "nat \<Rightarrow> string" where
  "FormatUint n = show_nat n"

definition FormatInt :: "int \<Rightarrow> string" where
  "FormatInt i = (if i < 0 then CHR ''-'' # show_nat (nat (- i)) else show_nat (nat i))"

definition decimal_val :: "string \<Rightarrow> nat" where
  "decimal_val ds = foldl (\<lambda>v c. 10 * v + (byte c - 48)) 0 ds"

definition strconv_ParseUint :: "string \<Rightarrow> nat option" where
  "strconv_ParseUint s =
     (if s = '''' \<or> \<not> list_all is_digit s \<or> decimal_val s \<ge> 2 ^ 64 then None
      else Some (decimal_val s))"

definition strconv_ParseInt :: "string \<Rightarrow> int option" where
  "strconv_ParseInt s =
     (case s of
        [] \<Rightarrow> None
      | c # cs \<Rightarrow>
          let neg = (c = CHR ''-''); digits = (if c = CHR ''+'' \<or> c = CHR ''-'' then cs else s)
          in case strconv_ParseUint digits of
               None \<Rightarrow> None
             | Some un \<Rightarrow>
                 if \<not> neg \<and> un \<ge> 2 ^ 63 then None
                 else if neg \<and> un > 2 ^ 63 then None
                 else Some (if neg then - int un else int un))"

lemma decimal_val_snoc [simp]: "decimal_val (ds @ [c]) = 10 * decimal_val ds + (byte c - 48)"
  by (simp add: decimal_val_def)

lemma show_nat_digits: "list_all is_digit (show_nat n) \<and> decimal_val (show_nat n) = n \<and> show_nat n \<noteq> []"
proof (induction n rule: show_nat.induct)
  case (1 n)
  show ?case
  proof (cases "n < 10")
    case True
    then show ?thesis by (simp add: show_nat.simps [of n] decimal_val_def is_digit_def)
  next
    case False
    with 1 show ?thesis by (simp add: show_nat.simps [of n] is_digit_def)
  qed
qed

lemma show_nat_no_sign: "show_nat n = c # cs \<Longrightarrow> c \<noteq> CHR ''-'' \<and> c \<noteq> CHR ''+''"
  using show_nat_digits [of n] by (auto simp: is_digit_def)

lemma ParseUint_show [simp]: "n < 2 ^ 64 \<Longrightarrow> strconv_ParseUint (show_nat n) = Some n"
  using show_nat_digits [of n] by (auto simp: strconv_ParseUint_def)

lemma ParseUint_Format [simp]: "n < 2 ^ 64 \<Longrightarrow> strconv_ParseUint (FormatUint n) = Some n"
  by (simp add: FormatUint_def)

lemma ParseInt_Format [simp]:
  assumes "- (2 ^ 63) \<le> i" "i < 2 ^ 63"
  shows "strconv_ParseInt (FormatInt i) = Some i"
proof (cases "i < 0")
  case True
  with assms have "nat (- i) \<le> 2 ^ 63" by (simp add: nat_le_iff)
  then have "strconv_ParseUint (show_nat (nat (- i))) = Some (nat (- i))" by simp
  with True assms show ?thesis by (simp add: FormatInt_def strconv_ParseInt_def)
next
  case False
  with assms have n: "nat i < 2 ^ 63" by (simp add: nat_less_iff)
  obtain c cs where s: "show_nat (nat i) = c # cs" by (cases "show_nat (nat i)") auto
  have "strconv_ParseUint (c # cs) = Some (nat i)" using n ParseUint_show [of "nat i"] s by simp
  with False n s show_nat_no_sign [OF s] show ?thesis by (simp add: FormatInt_def strconv_ParseInt_def)
qed

lemma FormatInt_nonempty [simp]: "FormatInt i \<noteq> []" "FormatUint n \<noteq> []"
  by (simp_all add: FormatInt_def FormatUint_def)

section \<open>base64\<close>

definition b64_char :: "nat \<Rightarrow> char" where
  "b64_char v =
     (if v < 26 then char_of (65 + v) else if v < 52 then char_of (97 + (v - 26))
      else if v < 62 then char_of (48 + (v - 52)) else if v = 62 then CHR ''+'' else CHR ''/'')"

definition b64_val :: "char \<Rightarrow> nat option" where
  "b64_val c =
     (if is_upper c then Some (byte c - 65) else if is_lower c then Some (byte c - 97 + 26)
      else if is_digit c then Some (byte c - 48 + 52) else if c = CHR ''+'' then Some 62
      else if c = CHR ''/'' then Some 63 else None)"

fun EncodeToString :: "string \<Rightarrow> string" where
  "EncodeToString [] = []"
| "EncodeToString [a] =
     (let v = byte a * 2 ^ 16
      in [b64_char (v div 2 ^ 18), b64_char (v div 2 ^ 12 mod 64), CHR ''='', CHR ''=''])"
| "EncodeToString [a, b] =
     (let v = byte a * 2 ^ 16 + byte b * 2 ^ 8
      in [b64_char (v div 2 ^ 18), b64_char (v div 2 ^ 12 mod 64), b64_char (v div 2 ^ 6 mod 64), CHR ''=''])"
| "EncodeToString (a # b # c # rest) =
     (let v = byte a * 2 ^ 16 + byte b * 2 ^ 8 + byte c
      in [b64_char (v div 2 ^ 18), b64_char (v div 2 ^ 12 mod 64), b64_char (v div 2 ^ 6 mod 64),
          b64_char (v mod 64)] @ EncodeToString rest)"

text \<open>
  The decoder skips line breaks, wants complete groups of four, and takes padding only in the last
  group; the bits the padding leaves over are ignored.
\<close>

definition b64_bytes :: "nat \<Rightarrow> nat \<Rightarrow> nat \<Rightarrow> nat \<Rightarrow> string" where
  "b64_bytes p q r s =
     (let v = p * 2 ^ 18 + q * 2 ^ 12 + r * 2 ^ 6 + s
      in [char_of (v div 2 ^ 16), char_of (v div 2 ^ 8), char_of v])"

fun decode_groups :: "string \<Rightarrow> string option" where
  "decode_groups [] = Some []"
| "decode_groups (a # b # c # d # rest) =
     (case (b64_val a, b64_val b, b64_val c, b64_val d) of
        (Some p, Some q, Some r, Some s) \<Rightarrow> map_option (\<lambda>xs. b64_bytes p q r s @ xs) (decode_groups rest)
      | (Some p, Some q, Some r, None) \<Rightarrow>
          if d = CHR ''='' \<and> rest = [] then Some (take 2 (b64_bytes p q r 0)) else None
      | (Some p, Some q, None, _) \<Rightarrow>
          if c = CHR ''='' \<and> d = CHR ''='' \<and> rest = [] then Some (take 1 (b64_bytes p q 0 0)) else None
      | _ \<Rightarrow> None)"
| "decode_groups _ = None"

definition DecodeString :: "string \<Rightarrow> string option" where
  "DecodeString s = decode_groups (filter (\<lambda>c. c \<noteq> CHR 0x0A \<and> c \<noteq> CHR 0x0D) s)"

lemma b64_val_char [simp]: "v < 64 \<Longrightarrow> b64_val (b64_char v) = Some v"
  by (auto simp: b64_val_def b64_char_def is_upper_def is_lower_def is_digit_def)

lemma b64_val_pad [simp]: "b64_val CHR ''='' = None"
  by (simp add: b64_val_def is_upper_def is_lower_def is_digit_def)

lemma b64_char_no_break: "v < 64 \<Longrightarrow> b64_char v \<noteq> CHR 0x0A \<and> b64_char v \<noteq> CHR 0x0D"
proof
  assume v: "v < 64"
  have n: "b64_val CHR 0x0A = None" "b64_val CHR 0x0D = None"
    by (simp_all add: b64_val_def is_upper_def is_lower_def is_digit_def)
  show "b64_char v \<noteq> CHR 0x0A" using b64_val_char [OF v] n by force
  show "b64_char v \<noteq> CHR 0x0D" using b64_val_char [OF v] n by force
qed

lemma b64_bytes_of_value:
  "b64_bytes (v div 2 ^ 18) (v div 2 ^ 12 mod 64) (v div 2 ^ 6 mod 64) (v mod 64) =
    [char_of (v div 2 ^ 16), char_of (v div 2 ^ 8), char_of v]"
proof -
  have d: "v div 2 ^ 12 = v div 2 ^ 6 div 64" "v div 2 ^ 18 = v div 2 ^ 12 div 64"
    by (simp_all flip: div_mult2_eq)
  have "v = v div 2 ^ 6 * 64 + v mod 64" "v div 2 ^ 6 = v div 2 ^ 12 * 64 + v div 2 ^ 6 mod 64"
    "v div 2 ^ 12 = v div 2 ^ 18 * 64 + v div 2 ^ 12 mod 64"
    unfolding d by simp_all
  then have "v div 2 ^ 18 * 262144 + v div 2 ^ 12 mod 64 * 4096 + v div 2 ^ 6 mod 64 * 64 + v mod 64 = v"
    by linarith
  then have "v div 2 ^ 18 * 2 ^ 18 + v div 2 ^ 12 mod 64 * 2 ^ 12 + v div 2 ^ 6 mod 64 * 2 ^ 6 + v mod 64 = v"
    by simp
  then show ?thesis by (simp only: b64_bytes_def Let_def)
qed

lemma three_bytes:
  fixes a b c :: nat
  assumes "a < 256" "b < 256" "c < 256"
  shows "(a * 65536 + b * 256 + c) div 65536 = a"
    and "(a * 65536 + b * 256 + c) div 256 mod 256 = b"
    and "(a * 65536 + b * 256 + c) mod 256 = c"
proof -
  have lo: "b * 256 + c < 65536" using assms by simp
  then show "(a * 65536 + b * 256 + c) div 65536 = a" by (simp add: add.assoc)
  have e: "a * 65536 + b * 256 + c = (a * 256 + b) * 256 + c" by simp
  then have "(a * 65536 + b * 256 + c) div 256 = a * 256 + b" unfolding e using assms(3) by simp
  then show "(a * 65536 + b * 256 + c) div 256 mod 256 = b" using assms(2) by simp
  show "(a * 65536 + b * 256 + c) mod 256 = c" unfolding e mod_mult_self3 using assms(3) by (rule mod_less)
qed

lemma char_of_three_bytes:
  "char_of ((byte a * 65536 + byte b * 256 + byte c) div 65536) = a"
  "char_of ((byte a * 65536 + byte b * 256 + byte c) div 256) = b"
  "char_of (byte a * 65536 + byte b * 256 + byte c) = c"
  using three_bytes [of "byte a" "byte b" "byte c"] nat_of_char_less_256
  by (metis char_of_mod_256 char_of_char)+

lemma b64_top_less: "(byte a * 65536 + byte b * 256 + byte c) div 2 ^ 18 < 64"
proof -
  have "byte a < 256" "byte b < 256" "byte c < 256" by (rule nat_of_char_less_256)+
  then have "byte a * 65536 + byte b * 256 + byte c < 64 * 262144" by linarith
  then show ?thesis by (simp add: less_mult_imp_div_less)
qed

lemma decode_EncodeToString: "decode_groups (EncodeToString p) = Some p"
proof (induction p rule: EncodeToString.induct)
  case (2 a)
  let ?v = "byte a * 65536"
  have "?v div 2 ^ 18 < 64" using b64_top_less [of a "CHR 0x00" "CHR 0x00"] by simp
  moreover have "?v div 2 ^ 6 mod 64 = 0" "?v mod 64 = 0" by (simp_all add: mod_eq_0_iff_dvd)
  then have "b64_bytes (?v div 2 ^ 18) (?v div 2 ^ 12 mod 64) 0 0 = [a, CHR 0x00, CHR 0x00]"
    using b64_bytes_of_value [of ?v] char_of_three_bytes [of a "CHR 0x00" "CHR 0x00"] by simp
  ultimately show ?case by (simp add: Let_def)
next
  case (3 a b)
  let ?v = "byte a * 65536 + byte b * 256"
  have "?v div 2 ^ 18 < 64" using b64_top_less [of a b "CHR 0x00"] by simp
  moreover have "?v mod 64 = 0" by (simp add: mod_eq_0_iff_dvd)
  then have "b64_bytes (?v div 2 ^ 18) (?v div 2 ^ 12 mod 64) (?v div 2 ^ 6 mod 64) 0 = [a, b, CHR 0x00]"
    using b64_bytes_of_value [of ?v] char_of_three_bytes [of a b "CHR 0x00"] by simp
  ultimately show ?case by (simp add: Let_def)
next
  case (4 a b c rest)
  let ?v = "byte a * 65536 + byte b * 256 + byte c"
  have "?v div 2 ^ 18 < 64" using b64_top_less [of a b c] .
  moreover have "b64_bytes (?v div 2 ^ 18) (?v div 2 ^ 12 mod 64) (?v div 2 ^ 6 mod 64) (?v mod 64) = [a, b, c]"
    using b64_bytes_of_value [of ?v] char_of_three_bytes [of a b c] by simp
  ultimately show ?case using 4 by (simp add: Let_def)
qed simp_all

lemma EncodeToString_no_break:
  "list_all (\<lambda>c. c \<noteq> CHR 0x0A \<and> c \<noteq> CHR 0x0D) (EncodeToString p)"
proof (induction p rule: EncodeToString.induct)
  case (2 a)
  then show ?case using b64_top_less [of a "CHR 0x00" "CHR 0x00"] by (simp add: Let_def b64_char_no_break)
next
  case (3 a b)
  then show ?case using b64_top_less [of a b "CHR 0x00"] by (simp add: Let_def b64_char_no_break)
next
  case (4 a b c rest)
  then show ?case using b64_top_less [of a b c] by (simp add: Let_def b64_char_no_break)
qed simp

theorem base64_round_trip [simp]: "DecodeString (EncodeToString p) = Some p"
proof -
  have "filter (\<lambda>c. c \<noteq> CHR 0x0A \<and> c \<noteq> CHR 0x0D) (EncodeToString p) = EncodeToString p"
    using EncodeToString_no_break [of p] by (simp add: list_all_iff filter_id_conv)
  then show ?thesis unfolding DecodeString_def by (simp only: decode_EncodeToString)
qed

section \<open>UTF-8\<close>

definition RuneError :: nat where "RuneError = 0xFFFD"

definition cont_byte :: "nat \<Rightarrow> bool" where
  "cont_byte b \<longleftrightarrow> 0x80 \<le> b \<and> b \<le> 0xBF"

text \<open>The second byte is restricted so that no rune has two encodings and none is a surrogate.\<close>

definition second_byte :: "nat \<Rightarrow> nat \<Rightarrow> bool" where
  "second_byte b0 b1 \<longleftrightarrow>
     (if b0 = 0xE0 then 0xA0 \<le> b1 else if b0 = 0xF0 then 0x90 \<le> b1 else 0x80 \<le> b1) \<and>
     (if b0 = 0xED then b1 \<le> 0x9F else if b0 = 0xF4 then b1 \<le> 0x8F else b1 \<le> 0xBF)"

fun DecodeRune :: "string \<Rightarrow> nat \<times> nat" where
  "DecodeRune [] = (RuneError, 0)"
| "DecodeRune (c0 # s) =
     (let b0 = byte c0
      in if b0 < 0x80 then (b0, 1)
         else if 0xC2 \<le> b0 \<and> b0 \<le> 0xDF then
           (case s of
              c1 # _ \<Rightarrow>
                if cont_byte (byte c1) then ((b0 - 0xC0) * 64 + (byte c1 - 0x80), 2) else (RuneError, 1)
            | _ \<Rightarrow> (RuneError, 1))
         else if 0xE0 \<le> b0 \<and> b0 \<le> 0xEF then
           (case s of
              c1 # c2 # _ \<Rightarrow>
                if second_byte b0 (byte c1) \<and> cont_byte (byte c2)
                then ((b0 - 0xE0) * 4096 + (byte c1 - 0x80) * 64 + (byte c2 - 0x80), 3)
                else (RuneError, 1)
            | _ \<Rightarrow> (RuneError, 1))
         else if 0xF0 \<le> b0 \<and> b0 \<le> 0xF4 then
           (case s of
              c1 # c2 # c3 # _ \<Rightarrow>
                if second_byte b0 (byte c1) \<and> cont_byte (byte c2) \<and> cont_byte (byte c3)
                then ((b0 - 0xF0) * 262144 + (byte c1 - 0x80) * 4096 + (byte c2 - 0x80) * 64 +
                        (byte c3 - 0x80), 4)
                else (RuneError, 1)
            | _ \<Rightarrow> (RuneError, 1))
         else (RuneError, 1))"

definition EncodeRune :: "nat \<Rightarrow> string" where
  "EncodeRune r =
     (if r < 0x80 then [char_of r]
      else if r < 0x800 then [char_of (0xC0 + r div 64), char_of (0x80 + r mod 64)]
      else if (0xD800 \<le> r \<and> r \<le> 0xDFFF) \<or> 0x10FFFF < r then [CHR 0xEF, CHR 0xBF, CHR 0xBD]
      else if r < 0x10000
        then [char_of (0xE0 + r div 4096), char_of (0x80 + r div 64 mod 64), char_of (0x80 + r mod 64)]
      else [char_of (0xF0 + r div 262144), char_of (0x80 + r div 4096 mod 64),
            char_of (0x80 + r div 64 mod 64), char_of (0x80 + r mod 64)])"

text \<open>The digits of a rune in base 64.\<close>

lemma base64_digits:
  fixes h m l :: nat
  assumes "l < 64"
  shows "(h * 64 + l) div 64 = h" "(h * 64 + l) mod 64 = l"
    and "m < 64 \<Longrightarrow> (h * 4096 + m * 64 + l) div 4096 = h"
    and "(h * 4096 + m * 64 + l) div 64 = h * 64 + m" "(h * 4096 + m * 64 + l) mod 64 = l"
proof -
  have e: "h * 4096 + m * 64 + l = (h * 64 + m) * 64 + l" by simp
  show "(h * 64 + l) div 64 = h" using assms by simp
  show "(h * 64 + l) mod 64 = l" using assms by (metis mod_mult_self3 mod_less)
  show d: "(h * 4096 + m * 64 + l) div 64 = h * 64 + m" unfolding e using assms by simp
  show "(h * 4096 + m * 64 + l) mod 64 = l" unfolding e using assms by (metis mod_mult_self3 mod_less)
  have "(h * 4096 + m * 64 + l) div 64 div 64 = (h * 64 + m) div 64" unfolding d ..
  then show "m < 64 \<Longrightarrow> (h * 4096 + m * 64 + l) div 4096 = h"
    by (simp add: div_mult2_eq [symmetric])
qed

lemma EncodeRune_2:
  assumes "0xC2 \<le> b0" "b0 \<le> 0xDF" "cont_byte b1"
  shows "EncodeRune ((b0 - 0xC0) * 64 + (b1 - 0x80)) = [char_of b0, char_of b1]"
proof -
  obtain h l where b: "b0 = 0xC0 + h" "b1 = 0x80 + l"
    using assms by (auto simp: cont_byte_def le_iff_add)
  with assms have "2 \<le> h" "h < 32" "l < 64" by (auto simp: cont_byte_def)
  then have "0x80 \<le> h * 64 + l" "h * 64 + l < 0x800" by auto
  then show ?thesis
    using base64_digits(1,2) [OF \<open>l < 64\<close>, of h] unfolding b by (simp add: EncodeRune_def)
qed

lemma EncodeRune_3:
  assumes "0xE0 \<le> b0" "b0 \<le> 0xEF" "second_byte b0 b1" "cont_byte b2"
  shows "EncodeRune ((b0 - 0xE0) * 4096 + (b1 - 0x80) * 64 + (b2 - 0x80)) =
    [char_of b0, char_of b1, char_of b2]"
proof -
  have b1: "0x80 \<le> b1" "b1 \<le> 0xBF" using assms(3) by (auto simp: second_byte_def split: if_splits)
  then obtain h m l where b: "b0 = 0xE0 + h" "b1 = 0x80 + m" "b2 = 0x80 + l"
    using assms by (auto simp: cont_byte_def le_iff_add)
  have r: "h < 16" "m < 64" "l < 64" "h = 0 \<Longrightarrow> 32 \<le> m" "h = 13 \<Longrightarrow> m < 32"
    using assms b b1 by (auto simp: cont_byte_def second_byte_def split: if_splits)
  let ?r = "h * 4096 + m * 64 + l"
  have "0x800 \<le> ?r" using r(4) by (cases "h = 0") auto
  moreover have "?r < 0x10000" using r(1-3) by linarith
  moreover have "\<not> (0xD800 \<le> ?r \<and> ?r \<le> 0xDFFF)"
  proof (cases "h = 13")
    case True
    with r(5) r(3) have "m < 32" by simp
    then have "m * 64 + l < 2048" using r(3) by linarith
    with True show ?thesis by simp
  next
    case False
    then have "h \<le> 12 \<or> 14 \<le> h" by linarith
    then show ?thesis
    proof
      assume "h \<le> 12"
      then have "?r < 0xD800" using r(2,3) by linarith
      then show ?thesis by simp
    next
      assume "14 \<le> h"
      then have "0xDFFF < ?r" by linarith
      then show ?thesis by simp
    qed
  qed
  moreover have "?r div 4096 = h" "?r div 64 mod 64 = m" "?r mod 64 = l"
    using base64_digits [OF r(3)] base64_digits(2) [OF r(2)] r(2) by simp_all
  ultimately show ?thesis unfolding b by (auto simp: EncodeRune_def)
qed

lemma EncodeRune_4:
  assumes "0xF0 \<le> b0" "b0 \<le> 0xF4" "second_byte b0 b1" "cont_byte b2" "cont_byte b3"
  shows "EncodeRune ((b0 - 0xF0) * 262144 + (b1 - 0x80) * 4096 + (b2 - 0x80) * 64 + (b3 - 0x80)) =
    [char_of b0, char_of b1, char_of b2, char_of b3]"
proof -
  have b1: "0x80 \<le> b1" "b1 \<le> 0xBF" using assms(3) by (auto simp: second_byte_def split: if_splits)
  then obtain g h m l where b: "b0 = 0xF0 + g" "b1 = 0x80 + h" "b2 = 0x80 + m" "b3 = 0x80 + l"
    using assms by (auto simp: cont_byte_def le_iff_add)
  have r: "g \<le> 4" "h < 64" "m < 64" "l < 64" "g = 0 \<Longrightarrow> 16 \<le> h" "g = 4 \<Longrightarrow> h < 16"
    using assms b b1 by (auto simp: cont_byte_def second_byte_def split: if_splits)
  let ?r = "g * 262144 + h * 4096 + m * 64 + l"
  have lo: "0x10000 \<le> ?r" using r(5) by (cases "g = 0") auto
  have hi: "?r \<le> 0x10FFFF"
  proof (cases "g = 4")
    case True
    then show ?thesis using r(6) r(3,4) by simp
  next
    case False
    then have "g \<le> 3" using r(1) by simp
    then show ?thesis using r(2-4) by linarith
  qed
  have e: "?r = (g * 64 + h) * 4096 + m * 64 + l" by simp
  have d: "?r div 4096 = g * 64 + h" "?r div 64 mod 64 = m" "?r mod 64 = l"
    unfolding e base64_digits(3) [OF r(4) r(3)] base64_digits(4,5) [OF r(4)] base64_digits(2) [OF r(3)]
    by (rule refl)+
  have "?r div 262144 = ?r div 4096 div 64" by (simp add: div_mult2_eq [symmetric])
  then have "?r div 262144 = g" "?r div 4096 mod 64 = h"
    unfolding d(1) using base64_digits(1,2) [OF r(2), of g] by simp_all
  with lo hi d show ?thesis unfolding b by (simp add: EncodeRune_def)
qed

text \<open>What \<open>DecodeRune\<close> accepts is the encoding of the rune it returns, whatever follows.\<close>

definition rune_error :: "nat \<times> nat \<Rightarrow> bool" where
  "rune_error rn \<longleftrightarrow> rn = (RuneError, 1)"

lemma rune_error_pair [simp]: "rune_error (r, n) \<longleftrightarrow> r = RuneError \<and> n = 1"
  by (simp add: rune_error_def)

lemma DecodeRune_size:
  assumes "s \<noteq> []"
  shows "0 < snd (DecodeRune s)" "snd (DecodeRune s) \<le> length s"
  using assms by (cases s; auto simp: Let_def split: list.split)+

lemma DecodeRune_by_lead:
  "byte c0 < 0x80 \<Longrightarrow> DecodeRune (c0 # s) = (byte c0, 1)"
  "0xC2 \<le> byte c0 \<Longrightarrow> byte c0 \<le> 0xDF \<Longrightarrow> DecodeRune (c0 # s) =
     (case s of
        c1 # _ \<Rightarrow>
          if cont_byte (byte c1) then ((byte c0 - 0xC0) * 64 + (byte c1 - 0x80), 2) else (RuneError, 1)
      | _ \<Rightarrow> (RuneError, 1))"
  "0xE0 \<le> byte c0 \<Longrightarrow> byte c0 \<le> 0xEF \<Longrightarrow> DecodeRune (c0 # s) =
     (case s of
        c1 # c2 # _ \<Rightarrow>
          if second_byte (byte c0) (byte c1) \<and> cont_byte (byte c2)
          then ((byte c0 - 0xE0) * 4096 + (byte c1 - 0x80) * 64 + (byte c2 - 0x80), 3)
          else (RuneError, 1)
      | _ \<Rightarrow> (RuneError, 1))"
  "0xF0 \<le> byte c0 \<Longrightarrow> byte c0 \<le> 0xF4 \<Longrightarrow> DecodeRune (c0 # s) =
     (case s of
        c1 # c2 # c3 # _ \<Rightarrow>
          if second_byte (byte c0) (byte c1) \<and> cont_byte (byte c2) \<and> cont_byte (byte c3)
          then ((byte c0 - 0xF0) * 262144 + (byte c1 - 0x80) * 4096 + (byte c2 - 0x80) * 64 +
                  (byte c3 - 0x80), 4)
          else (RuneError, 1)
      | _ \<Rightarrow> (RuneError, 1))"
  by (simp_all add: Let_def)

lemma DecodeRune_bad_lead:
  assumes "\<not> byte c0 < 0x80" "\<not> (0xC2 \<le> byte c0 \<and> byte c0 \<le> 0xDF)"
    "\<not> (0xE0 \<le> byte c0 \<and> byte c0 \<le> 0xEF)" "\<not> (0xF0 \<le> byte c0 \<and> byte c0 \<le> 0xF4)"
  shows "rune_error (DecodeRune (c0 # s))"
  unfolding DecodeRune.simps Let_def rune_error_def if_not_P [OF assms(1)] if_not_P [OF assms(2)]
    if_not_P [OF assms(3)] if_not_P [OF assms(4)] ..

lemma DecodeRune_accepts:
  assumes "s \<noteq> []" "\<not> rune_error (DecodeRune s)"
  shows "EncodeRune (fst (DecodeRune s)) = take (snd (DecodeRune s)) s"
    and "DecodeRune (take (snd (DecodeRune s)) s @ t) = DecodeRune s"
proof -
  obtain c0 s' where s: "s = c0 # s'" using assms(1) by (cases s) auto
  consider (1) "byte c0 < 0x80" | (2) "0xC2 \<le> byte c0" "byte c0 \<le> 0xDF"
    | (3) "0xE0 \<le> byte c0" "byte c0 \<le> 0xEF" | (4) "0xF0 \<le> byte c0" "byte c0 \<le> 0xF4"
    using assms(2) DecodeRune_bad_lead unfolding s by blast
  then have "EncodeRune (fst (DecodeRune s)) = take (snd (DecodeRune s)) s \<and>
    DecodeRune (take (snd (DecodeRune s)) s @ t) = DecodeRune s"
  proof cases
    case 1
    then show ?thesis unfolding s by (simp add: EncodeRune_def)
  next
    case 2
    note D = DecodeRune_by_lead(2) [OF 2]
    from assms(2) obtain c1 u where "s' = c1 # u" "cont_byte (byte c1)"
      unfolding s D by (auto simp only: rune_error_def split: list.splits if_splits)
    with 2 show ?thesis
      unfolding s by (simp add: D EncodeRune_2 take_Cons' del: DecodeRune.simps)
  next
    case 3
    note D = DecodeRune_by_lead(3) [OF 3]
    from assms(2) obtain c1 c2 u where "s' = c1 # c2 # u" "second_byte (byte c0) (byte c1)" "cont_byte (byte c2)"
      unfolding s D by (auto simp only: rune_error_def split: list.splits if_splits)
    with 3 show ?thesis
      unfolding s by (simp add: D EncodeRune_3 take_Cons' del: DecodeRune.simps)
  next
    case 4
    note D = DecodeRune_by_lead(4) [OF 4]
    from assms(2) obtain c1 c2 c3 u where "s' = c1 # c2 # c3 # u" "second_byte (byte c0) (byte c1)"
      "cont_byte (byte c2)" "cont_byte (byte c3)"
      unfolding s D by (auto simp only: rune_error_def split: list.splits if_splits)
    with 4 show ?thesis
      unfolding s by (simp add: D EncodeRune_4 take_Cons' del: DecodeRune.simps)
  qed
  then show "EncodeRune (fst (DecodeRune s)) = take (snd (DecodeRune s)) s"
    "DecodeRune (take (snd (DecodeRune s)) s @ t) = DecodeRune s" by blast+
qed

text \<open>
  \<open>to_utf8 s\<close> is \<open>string([]rune(s))\<close>: every byte that is not part of a well-formed encoding is
  replaced by U+FFFD. \<open>utf8_Valid\<close> is \<open>utf8.ValidString\<close>.
\<close>

function to_utf8 :: "string \<Rightarrow> string" where
  "to_utf8 s =
     (if s = [] then []
      else EncodeRune (fst (DecodeRune s)) @ to_utf8 (drop (snd (DecodeRune s)) s))"
  by pat_completeness auto
termination
  by (relation "measure length") (use DecodeRune_size in auto)

declare to_utf8.simps [simp del]

function utf8_Valid :: "string \<Rightarrow> bool" where
  "utf8_Valid s \<longleftrightarrow>
     (if s = [] then True
      else \<not> rune_error (DecodeRune s) \<and> utf8_Valid (drop (snd (DecodeRune s)) s))"
  by pat_completeness auto
termination
  by (relation "measure length") (use DecodeRune_size in auto)

declare utf8_Valid.simps [simp del]

lemma to_utf8_Nil [simp]: "to_utf8 [] = []"
  by (simp add: to_utf8.simps)

lemma to_utf8_id: "utf8_Valid s \<Longrightarrow> to_utf8 s = s"
proof (induction s rule: utf8_Valid.induct)
  case (1 s)
  then show ?case
    using utf8_Valid.simps [of s] DecodeRune_accepts(1) [of s]
    by (cases "s = []") (auto simp: to_utf8.simps [of s])
qed

lemma utf8_Valid_ascii: "list_all (\<lambda>c. byte c < 128) s \<Longrightarrow> utf8_Valid s"
proof (induction s)
  case Nil
  then show ?case by (simp add: utf8_Valid.simps)
next
  case (Cons c s)
  then have "DecodeRune (c # s) = (byte c, 1)" "byte c \<noteq> RuneError" by (auto simp: RuneError_def)
  with Cons show ?case by (simp add: utf8_Valid.simps [of "c # s"] del: DecodeRune.simps)
qed

section \<open>Durations\<close>

text \<open>\<open>Duration.Milliseconds\<close> is an integer division, which Go truncates towards zero.\<close>

definition Milliseconds :: "duration \<Rightarrow> int" where
  "Milliseconds d = (if d < 0 then - (- d div 1000000) else d div 1000000)"

end
