(* ===== verification/Go_Json.thy ===== *)
theory Go_Json
  imports Go_Text
begin

text \<open>
  Go's \<open>encoding/json\<close>, as far as the program uses it. \<open>json\<close> is a parsed document, with numbers
  kept as their literal. \<open>render_json\<close> is the compact output of \<open>json.Marshal\<close> (strings escaped so
  that the text is also safe inside HTML, invalid UTF-8 replaced), \<open>parse_json\<close> the grammar that
  \<open>json.Unmarshal\<close> and \<open>json.Valid\<close> accept, with the nesting limit of the scanner.

  \<open>parse_render_json\<close> is the round trip: what is rendered parses back, every string in its
  well-formed UTF-8 version.
\<close>

declare DecodeRune.simps [simp del]

section \<open>Strings\<close>

definition quote :: char where "quote = CHR 0x22"
definition backslash :: char where "backslash = CHR 0x5C"

definition hex_char :: "nat \<Rightarrow> char" where
  "hex_char v = (if v < 10 then char_of (48 + v) else char_of (97 + (v - 10)))"

definition hex_val :: "char \<Rightarrow> nat option" where
  "hex_val c =
     (if is_digit c then Some (byte c - 48)
      else if 97 \<le> byte c \<and> byte c \<le> 102 then Some (byte c - 97 + 10)
      else if 65 \<le> byte c \<and> byte c \<le> 70 then Some (byte c - 65 + 10) else None)"

definition escape_ascii :: "char \<Rightarrow> string" where
  "escape_ascii c =
     (if c = quote \<or> c = backslash then [backslash, c]
      else if c = CHR 0x08 then [backslash, CHR ''b'']
      else if c = CHR 0x0C then [backslash, CHR ''f'']
      else if c = CHR 0x0A then [backslash, CHR ''n'']
      else if c = CHR 0x0D then [backslash, CHR ''r'']
      else if c = CHR 0x09 then [backslash, CHR ''t'']
      else if byte c < 0x20 \<or> c = CHR ''<'' \<or> c = CHR ''>'' \<or> c = CHR ''&''
        then [backslash, CHR ''u'', CHR ''0'', CHR ''0'', hex_char (byte c div 16), hex_char (byte c mod 16)]
      else [c])"

function escape :: "string \<Rightarrow> string" where
  "escape s =
     (case s of
        [] \<Rightarrow> []
      | c # cs \<Rightarrow>
          if byte c < 0x80 then escape_ascii c @ escape cs
          else let rn = DecodeRune s
               in if rune_error rn then [backslash, CHR ''u'', CHR ''f'', CHR ''f'', CHR ''f'', CHR ''d''] @ escape cs
                  else if fst rn = 0x2028 \<or> fst rn = 0x2029
                    then [backslash, CHR ''u'', CHR ''2'', CHR ''0'', CHR ''2'', hex_char (fst rn mod 16)] @
                         escape (drop (snd rn) s)
                  else take (snd rn) s @ escape (drop (snd rn) s))"
  by pat_completeness auto
termination
proof (relation "measure length", goal_cases)
  case (4 s c cs rn)
  then show ?case using DecodeRune_size [of s] by simp
next
  case (5 s c cs rn)
  then show ?case using DecodeRune_size [of s] by simp
qed simp_all

declare escape.simps [simp del]

definition json_quote :: "string \<Rightarrow> string" where
  "json_quote s = quote # escape s @ [quote]"

text \<open>
  The decoder of a string starts after the opening quote and returns the contents and what follows
  the closing quote. \<open>getu4\<close> is the value of four hexadecimal digits; a surrogate is combined
  with a following escaped low surrogate, or replaced.
\<close>

definition getu4 :: "string \<Rightarrow> nat option" where
  "getu4 s =
     (case s of
        a # b # c # d # _ \<Rightarrow>
          (case (hex_val a, hex_val b, hex_val c, hex_val d) of
             (Some p, Some q, Some r, Some t) \<Rightarrow> Some (p * 4096 + q * 256 + r * 16 + t)
           | _ \<Rightarrow> None)
      | _ \<Rightarrow> None)"

definition low_surrogate :: "string \<Rightarrow> nat option" where
  "low_surrogate s =
     (case s of
        b # u # rest \<Rightarrow>
          if b = backslash \<and> u = CHR ''u''
          then case getu4 rest of
                 Some r \<Rightarrow> if 0xDC00 \<le> r \<and> r \<le> 0xDFFF then Some r else None
               | None \<Rightarrow> None
          else None
      | _ \<Rightarrow> None)"

definition simple_escape :: "char \<Rightarrow> char option" where
  "simple_escape e =
     (if e = quote \<or> e = backslash \<or> e = CHR ''/'' then Some e
      else if e = CHR ''b'' then Some (CHR 0x08) else if e = CHR ''f'' then Some (CHR 0x0C)
      else if e = CHR ''n'' then Some (CHR 0x0A) else if e = CHR ''r'' then Some (CHR 0x0D)
      else if e = CHR ''t'' then Some (CHR 0x09) else None)"

definition prepend :: "string \<Rightarrow> (string \<times> string) option \<Rightarrow> (string \<times> string) option" where
  "prepend p r = map_option (\<lambda>(s, rest). (p @ s, rest)) r"

function unquote :: "string \<Rightarrow> (string \<times> string) option" where
  "unquote s =
     (case s of
        [] \<Rightarrow> None
      | c # cs \<Rightarrow>
          if c = quote then Some ([], cs)
          else if c = backslash then
            (case cs of
               [] \<Rightarrow> None
             | e # es \<Rightarrow>
                 if e = CHR ''u'' then
                   (case getu4 es of
                      None \<Rightarrow> None
                    | Some r \<Rightarrow>
                        if 0xD800 \<le> r \<and> r \<le> 0xDFFF then
                          (case (if r \<le> 0xDBFF then low_surrogate (drop 4 es) else None) of
                             Some r2 \<Rightarrow> prepend (EncodeRune ((r - 0xD800) * 1024 + (r2 - 0xDC00) + 0x10000))
                                          (unquote (drop 10 es))
                           | None \<Rightarrow> prepend (EncodeRune RuneError) (unquote (drop 4 es)))
                        else prepend (EncodeRune r) (unquote (drop 4 es)))
                 else (case simple_escape e of
                         None \<Rightarrow> None
                       | Some b \<Rightarrow> prepend [b] (unquote es)))
          else if byte c < 0x20 then None
          else if byte c < 0x80 then prepend [c] (unquote cs)
          else prepend (EncodeRune (fst (DecodeRune s))) (unquote (drop (snd (DecodeRune s)) s)))"
  by pat_completeness auto
termination
proof (relation "measure length", goal_cases)
  case (7 s c cs)
  then show ?case using DecodeRune_size [of s] by simp
qed auto

declare unquote.simps [simp del]

lemma prepend_Some [simp]: "prepend p (Some (s, rest)) = Some (p @ s, rest)"
  by (simp add: prepend_def)

lemma unquote_cases:
  "unquote (quote # cs) = Some ([], cs)"
  "simple_escape e = Some b \<Longrightarrow> unquote (backslash # e # es) = prepend [b] (unquote es)"
  "getu4 es = Some r \<Longrightarrow> \<not> (0xD800 \<le> r \<and> r \<le> 0xDFFF) \<Longrightarrow>
     unquote (backslash # CHR ''u'' # es) = prepend (EncodeRune r) (unquote (drop 4 es))"
  "c \<noteq> quote \<Longrightarrow> c \<noteq> backslash \<Longrightarrow> 0x20 \<le> byte c \<Longrightarrow> byte c < 0x80 \<Longrightarrow>
     unquote (c # cs) = prepend [c] (unquote cs)"
  "0x80 \<le> byte c \<Longrightarrow>
     unquote (c # cs) = prepend (EncodeRune (fst (DecodeRune (c # cs))))
       (unquote (drop (snd (DecodeRune (c # cs))) (c # cs)))"
  by (auto simp: unquote.simps [of "_ # _"] quote_def backslash_def simple_escape_def split: if_splits)

lemma hex_val_char [simp]: "v < 16 \<Longrightarrow> hex_val (hex_char v) = Some v"
  by (auto simp: hex_val_def hex_char_def is_digit_def)

lemma hex_val_digits [simp]: "hex_val CHR ''0'' = Some 0" "hex_val CHR ''2'' = Some 2"
  "hex_val CHR ''f'' = Some 15" "hex_val CHR ''d'' = Some 13"
  by (simp_all add: hex_val_def is_digit_def)

text \<open>Decoding what was escaped: first for one ASCII byte, then for the whole string.\<close>

lemma simple_escape_values [simp]:
  "simple_escape quote = Some quote" "simple_escape backslash = Some backslash"
  "simple_escape CHR ''b'' = Some (CHR 0x08)" "simple_escape CHR ''f'' = Some (CHR 0x0C)"
  "simple_escape CHR ''n'' = Some (CHR 0x0A)" "simple_escape CHR ''r'' = Some (CHR 0x0D)"
  "simple_escape CHR ''t'' = Some (CHR 0x09)"
  by (simp_all add: simple_escape_def quote_def backslash_def)

lemma unquote_escape_ascii:
  assumes "byte c < 0x80"
  shows "unquote (escape_ascii c @ t) = prepend [c] (unquote t)"
proof -
  let ?short = "c \<in> {CHR 0x08, CHR 0x0C, CHR 0x0A, CHR 0x0D, CHR 0x09}"
  let ?long = "byte c < 0x20 \<or> c = CHR ''<'' \<or> c = CHR ''>'' \<or> c = CHR ''&''"
  consider (self) "c = quote \<or> c = backslash" | (short) "?short"
    | (u) "\<not> (c = quote \<or> c = backslash)" "\<not> ?short" "?long"
    | (plain) "\<not> (c = quote \<or> c = backslash)" "\<not> ?short" "\<not> ?long" by blast
  then show ?thesis
  proof cases
    case self
    then have "escape_ascii c = [backslash, c]" "simple_escape c = Some c" by (auto simp: escape_ascii_def)
    then show ?thesis by (simp add: unquote_cases(2))
  next
    case short
    then have "\<exists>e. escape_ascii c = [backslash, e] \<and> simple_escape e = Some c"
      by (auto simp: escape_ascii_def quote_def backslash_def simple_escape_def)
    then show ?thesis by (auto simp: unquote_cases(2))
  next
    case u
    let ?es = "[CHR ''0'', CHR ''0'', hex_char (byte c div 16), hex_char (byte c mod 16)] @ t"
    have "byte c div 16 < 16" using assms by simp
    then have "getu4 ?es = Some (byte c)" by (simp add: getu4_def)
    then have "unquote (backslash # CHR ''u'' # ?es) = prepend (EncodeRune (byte c)) (unquote (drop 4 ?es))"
      by (rule unquote_cases(3)) (use assms in simp)
    moreover have "c \<noteq> CHR 0x08" "c \<noteq> CHR 0x0C" "c \<noteq> CHR 0x0A" "c \<noteq> CHR 0x0D" "c \<noteq> CHR 0x09"
      using u(2) by blast+
    then have "escape_ascii c @ t = backslash # CHR ''u'' # ?es"
      unfolding escape_ascii_def using u(1,3) by (simp only: if_True if_False append.simps)
    ultimately show ?thesis using assms by (simp add: EncodeRune_def)
  next
    case plain
    then have "escape_ascii c = [c]" unfolding escape_ascii_def by simp
    with plain assms show ?thesis by (simp add: unquote_cases(4))
  qed
qed

lemma escape_rune:
  assumes "s = c # cs" "0x80 \<le> byte c" "\<not> rune_error (DecodeRune s)"
    "fst (DecodeRune s) \<noteq> 0x2028" "fst (DecodeRune s) \<noteq> 0x2029"
  shows "unquote (take (snd (DecodeRune s)) s @ t) =
    prepend (EncodeRune (fst (DecodeRune s))) (unquote t)"
proof -
  let ?n = "snd (DecodeRune s)"
  have n: "0 < ?n" "?n \<le> length s" using DecodeRune_size [of s] assms(1) by auto
  then obtain u where u: "take ?n s @ t = c # u" using assms(1) by (cases ?n) auto
  have "DecodeRune (c # u) = DecodeRune s"
    using DecodeRune_accepts(2) [of s t] assms(1,3) u by simp
  moreover have "drop ?n (c # u) = t" using n by (simp flip: u)
  ultimately show ?thesis unfolding u using unquote_cases(5) [OF assms(2), of u] by simp
qed

lemma unquote_escape: "unquote (escape s @ quote # t) = Some (to_utf8 s, t)"
proof (induction s rule: escape.induct)
  case (1 s)
  show ?case
  proof (cases s)
    case Nil
    then show ?thesis by (simp add: escape.simps [of "[]"] unquote_cases(1))
  next
    case (Cons c cs)
    let ?rn = "DecodeRune s"
    have U: "to_utf8 s = EncodeRune (fst ?rn) @ to_utf8 (drop (snd ?rn) s)"
      using Cons by (subst to_utf8.simps) simp
    show ?thesis
    proof (cases "byte c < 0x80")
      case True
      then have "to_utf8 s = c # to_utf8 cs" by (subst to_utf8.simps) (simp add: Cons DecodeRune_by_lead EncodeRune_def)
      moreover have "escape s = escape_ascii c @ escape cs" by (subst escape.simps) (simp add: True Cons)
      ultimately show ?thesis
        using "1.IH"(1) [OF Cons True] by (simp add: unquote_escape_ascii [OF True])
    next
      case False
      have E: "escape s = (if rune_error ?rn then [backslash, CHR ''u'', CHR ''f'', CHR ''f'', CHR ''f'', CHR ''d''] @ escape cs
          else if fst ?rn = 0x2028 \<or> fst ?rn = 0x2029
            then [backslash, CHR ''u'', CHR ''2'', CHR ''0'', CHR ''2'', hex_char (fst ?rn mod 16)] @
                 escape (drop (snd ?rn) s)
          else take (snd ?rn) s @ escape (drop (snd ?rn) s))"
        by (subst escape.simps) (simp add: False Cons Let_def)
      note IH = "1.IH"(2-4) [OF Cons False refl]
      show ?thesis
      proof (cases "rune_error ?rn")
        case True
        let ?es = "[CHR ''f'', CHR ''f'', CHR ''f'', CHR ''d''] @ escape cs @ quote # t"
        have "escape s @ quote # t = backslash # CHR ''u'' # ?es"
          using True by (simp add: E)
        moreover have "getu4 ?es = Some RuneError" by (simp add: getu4_def RuneError_def)
        then have "unquote (backslash # CHR ''u'' # ?es) = prepend (EncodeRune RuneError) (unquote (drop 4 ?es))"
          by (rule unquote_cases(3)) (simp add: RuneError_def)
        moreover have "to_utf8 s = EncodeRune RuneError @ to_utf8 cs"
          using True Cons unfolding U by (simp add: rune_error_def)
        ultimately show ?thesis using IH(1) [OF True] by simp
      next
        case ok: False
        show ?thesis
        proof (cases "fst ?rn = 0x2028 \<or> fst ?rn = 0x2029")
          case True
          let ?d = "drop (snd ?rn) s"
          let ?es = "[CHR ''2'', CHR ''0'', CHR ''2'', hex_char (fst ?rn mod 16)] @ escape ?d @ quote # t"
          have "escape s @ quote # t = backslash # CHR ''u'' # ?es"
            using True ok by (simp add: E)
          moreover have "getu4 ?es = Some (fst ?rn)" using True by (auto simp: getu4_def)
          then have "unquote (backslash # CHR ''u'' # ?es) = prepend (EncodeRune (fst ?rn)) (unquote (drop 4 ?es))"
            by (rule unquote_cases(3)) (use True in auto)
          ultimately show ?thesis using IH(2) [OF ok True] unfolding U by simp
        next
          case F: False
          then have "escape s = take (snd ?rn) s @ escape (drop (snd ?rn) s)"
            using ok by (simp add: E)
          then show ?thesis
            using IH(3) [OF ok F] escape_rune [OF Cons _ ok] False F unfolding U by simp
        qed
      qed
    qed
  qed
qed

section \<open>Documents\<close>

datatype json =
    JNull
  | JBool bool
  | JNumber string
  | JString string
  | JArray "json list"
  | JObject "(string \<times> json) list"

definition json_space :: "char \<Rightarrow> bool" where
  "json_space c \<longleftrightarrow> c = CHR 0x20 \<or> c = CHR 0x09 \<or> c = CHR 0x0A \<or> c = CHR 0x0D"

abbreviation skip_ws :: "string \<Rightarrow> string" where
  "skip_ws s \<equiv> dropWhile json_space s"

text \<open>A number literal: an optional minus, an integer part, an optional fraction, an optional exponent.\<close>

definition scan_digits :: "string \<Rightarrow> (string \<times> string) option" where
  "scan_digits s =
     (if takeWhile is_digit s = [] then None else Some (takeWhile is_digit s, dropWhile is_digit s))"

definition scan_int :: "string \<Rightarrow> (string \<times> string) option" where
  "scan_int s =
     (case s of
        [] \<Rightarrow> None
      | c # cs \<Rightarrow> if c = CHR ''0'' then Some ([c], cs) else scan_digits s)"

definition scan_frac :: "string \<Rightarrow> (string \<times> string) option" where
  "scan_frac s =
     (case s of
        [] \<Rightarrow> Some ([], [])
      | c # cs \<Rightarrow>
          if c = CHR ''.'' then map_option (\<lambda>(ds, r). (c # ds, r)) (scan_digits cs) else Some ([], s))"

definition scan_sign :: "string \<Rightarrow> string \<times> string" where
  "scan_sign s =
     (case s of
        [] \<Rightarrow> ([], [])
      | c # cs \<Rightarrow> if c = CHR ''+'' \<or> c = CHR ''-'' then ([c], cs) else ([], s))"

definition scan_exp :: "string \<Rightarrow> (string \<times> string) option" where
  "scan_exp s =
     (case s of
        [] \<Rightarrow> Some ([], [])
      | c # cs \<Rightarrow>
          if c = CHR ''e'' \<or> c = CHR ''E''
          then map_option (\<lambda>(ds, r). (c # fst (scan_sign cs) @ ds, r)) (scan_digits (snd (scan_sign cs)))
          else Some ([], s))"

definition scan_number :: "string \<Rightarrow> (string \<times> string) option" where
  "scan_number s =
     (let neg = (s \<noteq> [] \<and> hd s = CHR ''-'');
          s1 = (if neg then tl s else s)
      in case scan_int s1 of
           None \<Rightarrow> None
         | Some (i, s2) \<Rightarrow>
             (case scan_frac s2 of
                None \<Rightarrow> None
              | Some (f, s3) \<Rightarrow>
                  map_option (\<lambda>(e, s4). ((if neg then [CHR ''-''] else []) @ i @ f @ e, s4)) (scan_exp s3)))"

definition scan_word :: "string \<Rightarrow> json \<Rightarrow> string \<Rightarrow> (json \<times> string) option" where
  "scan_word w v s = (if take (length w) s = w then Some (v, drop (length w) s) else None)"

text \<open>Every scanner consumes part of its input.\<close>

lemma prepend_eq_Some: "prepend p x = Some (t, r) \<longleftrightarrow> (\<exists>t'. x = Some (t', r) \<and> t = p @ t')"
  by (auto simp: prepend_def)

lemma unquote_step:
  assumes "unquote s = Some (t, r)"
  shows "s = quote # r \<or> (\<exists>s' t'. length s' < length s \<and> unquote s' = Some (t', r))"
proof (cases s)
  case Nil
  with assms show ?thesis by (simp add: unquote.simps [of "[]"])
next
  case (Cons c cs)
  note U = assms [unfolded Cons unquote.simps [of "c # cs"] list.case]
  show ?thesis
  proof (cases "c = backslash \<and> c \<noteq> quote")
    case True
    then obtain e es where cs: "cs = e # es" using U by (cases cs) auto
    have short: "length (drop 10 es) < length s" "length (drop 4 es) < length s" "length es < length s"
      using Cons cs by auto
    from U True have "\<exists>s' \<in> {drop 10 es, drop 4 es, es}. \<exists>t'. unquote s' = Some (t', r)"
      unfolding cs by (simp add: prepend_eq_Some split: if_splits option.splits) blast+
    with short show ?thesis by blast
  next
    case False
    have "length (drop (snd (DecodeRune s)) s) < length s" "length cs < length s"
      using DecodeRune_size [of s] Cons by auto
    moreover from U False have "s = quote # r \<or>
        (\<exists>s' \<in> {cs, drop (snd (DecodeRune s)) s}. \<exists>t'. unquote s' = Some (t', r))"
      unfolding Cons by (simp add: prepend_eq_Some split: if_splits) blast+
    ultimately show ?thesis by blast
  qed
qed

lemma unquote_shorter: "unquote s = Some (t, r) \<Longrightarrow> length r < length s"
proof (induction s arbitrary: t rule: measure_induct_rule [of length])
  case (less s)
  from unquote_step [OF less.prems] show ?case
  proof
    assume "\<exists>s' t'. length s' < length s \<and> unquote s' = Some (t', r)"
    then show ?case using less.IH less_trans by blast
  qed simp
qed

lemma skip_ws_length: "length (skip_ws s) \<le> length s"
  by (rule length_dropWhile_le)

lemma skip_ws_Cons_length: "skip_ws s = c # cs \<Longrightarrow> length cs < length s"
  using skip_ws_length [of s] by simp

text \<open>
  The recursive descent. \<open>d\<close> is the number of levels that may still be opened. The test that the
  rest is shorter than the input makes the recursion well founded; it never fails
  (\<open>parse_value_shorter\<close>).
\<close>

function parse_value :: "nat \<Rightarrow> string \<Rightarrow> (json \<times> string) option"
  and parse_elements :: "nat \<Rightarrow> string \<Rightarrow> (json list \<times> string) option"
  and parse_members :: "nat \<Rightarrow> string \<Rightarrow> ((string \<times> json) list \<times> string) option"
where
  "parse_value d s =
     (case skip_ws s of
        [] \<Rightarrow> None
      | c # cs \<Rightarrow>
          if c = quote then map_option (\<lambda>(t, r). (JString t, r)) (unquote cs)
          else if c = CHR ''['' then
            if d = 0 then None
            else if skip_ws cs \<noteq> [] \<and> hd (skip_ws cs) = CHR '']'' then Some (JArray [], tl (skip_ws cs))
            else map_option (\<lambda>(vs, r). (JArray vs, r)) (parse_elements (d - 1) cs)
          else if c = CHR ''{'' then
            if d = 0 then None
            else if skip_ws cs \<noteq> [] \<and> hd (skip_ws cs) = CHR ''}'' then Some (JObject [], tl (skip_ws cs))
            else map_option (\<lambda>(ms, r). (JObject ms, r)) (parse_members (d - 1) cs)
          else if c = CHR ''n'' then scan_word ''null'' JNull (c # cs)
          else if c = CHR ''t'' then scan_word ''true'' (JBool True) (c # cs)
          else if c = CHR ''f'' then scan_word ''false'' (JBool False) (c # cs)
          else map_option (\<lambda>(lit, r). (JNumber lit, r)) (scan_number (c # cs)))"
| "parse_elements d s =
     (case parse_value d s of
        None \<Rightarrow> None
      | Some (v, r) \<Rightarrow>
          if \<not> length r < length s then None
          else case skip_ws r of
                 [] \<Rightarrow> None
               | c # r' \<Rightarrow>
                   if c = CHR '','' then map_option (\<lambda>(vs, q). (v # vs, q)) (parse_elements d r')
                   else if c = CHR '']'' then Some ([v], r') else None)"
| "parse_members d s =
     (case skip_ws s of
        [] \<Rightarrow> None
      | c # cs \<Rightarrow>
          if c \<noteq> quote then None
          else case unquote cs of
                 None \<Rightarrow> None
               | Some (k, r) \<Rightarrow>
                   (case skip_ws r of
                      [] \<Rightarrow> None
                    | c1 # r1 \<Rightarrow>
                        if c1 \<noteq> CHR '':'' then None
                        else case parse_value d r1 of
                               None \<Rightarrow> None
                             | Some (v, r2) \<Rightarrow>
                                 if \<not> length r2 < length r1 then None
                                 else case skip_ws r2 of
                                        [] \<Rightarrow> None
                                      | c3 # r3 \<Rightarrow>
                                          if c3 = CHR '','' then
                                            map_option (\<lambda>(ms, q). ((k, v) # ms, q)) (parse_members d r3)
                                          else if c3 = CHR ''}'' then Some ([(k, v)], r3) else None))"
  by pat_completeness auto

termination
proof (relation "measure (\<lambda>x. case x of
    Inl (d, s) \<Rightarrow> 2 * length s | Inr (Inl (d, s)) \<Rightarrow> 2 * length s + 1
  | Inr (Inr (d, s)) \<Rightarrow> 2 * length s + 1)", goal_cases)
  case (2 d s c cs)
  then show ?case using skip_ws_Cons_length [of s] by fastforce
next
  case (3 d s c cs)
  then show ?case using skip_ws_Cons_length [of s] by fastforce
next
  case (5 d s p v r c r')
  then show ?case using skip_ws_Cons_length [of r] by fastforce
next
  case (6 d s c cs p k r c1 r1)
  then show ?case using skip_ws_Cons_length [of s] skip_ws_Cons_length [of r] unquote_shorter [of cs k r]
    by fastforce
next
  case (7 d s c cs p k r c1 r1 q v r2 c3 r3)
  then show ?case using skip_ws_Cons_length [of s] skip_ws_Cons_length [of r] unquote_shorter [of cs k r]
      skip_ws_Cons_length [of r2] by fastforce
qed simp_all

declare parse_value.simps [simp del] parse_elements.simps [simp del] parse_members.simps [simp del]

definition maxNestingDepth :: nat where "maxNestingDepth = 10000"

definition parse_json :: "string \<Rightarrow> json option" where
  "parse_json s =
     (case parse_value maxNestingDepth s of
        None \<Rightarrow> None
      | Some (v, r) \<Rightarrow> if skip_ws r = [] then Some v else None)"

definition json_Valid :: "string \<Rightarrow> bool" where
  "json_Valid s \<longleftrightarrow> parse_json s \<noteq> None"

fun join_comma :: "string list \<Rightarrow> string" where
  "join_comma [] = []"
| "join_comma [x] = x"
| "join_comma (x # xs) = x @ CHR '','' # join_comma xs"

fun render_json :: "json \<Rightarrow> string" where
  "render_json JNull = ''null''"
| "render_json (JBool b) = (if b then ''true'' else ''false'')"
| "render_json (JNumber lit) = lit"
| "render_json (JString s) = json_quote s"
| "render_json (JArray vs) = CHR ''['' # join_comma (map render_json vs) @ [CHR '']'']"
| "render_json (JObject ms) =
     CHR ''{'' # join_comma (map (\<lambda>(k, v). json_quote k @ CHR '':'' # render_json v) ms) @ [CHR ''}'']"

lemma scan_digits_shorter: "scan_digits s = Some (ds, r) \<Longrightarrow> length r < length s"
  by (cases s) (auto simp: scan_digits_def less_Suc_eq_le length_dropWhile_le split: if_splits)

lemma scan_int_shorter: "scan_int s = Some (ds, r) \<Longrightarrow> length r < length s"
  by (auto simp: scan_int_def split: list.splits if_splits dest: scan_digits_shorter)

lemma scan_frac_shorter: "scan_frac s = Some (ds, r) \<Longrightarrow> length r \<le> length s"
  by (auto simp: scan_frac_def split: list.splits if_splits dest: scan_digits_shorter)

lemma scan_exp_shorter: "scan_exp s = Some (ds, r) \<Longrightarrow> length r \<le> length s"
  by (auto simp: scan_exp_def scan_sign_def split: list.splits if_splits dest!: scan_digits_shorter)

lemma scan_number_shorter:
  assumes "scan_number s = Some (lit, r)"
  shows "length r < length s"
proof -
  let ?s1 = "if s \<noteq> [] \<and> hd s = CHR ''-'' then tl s else s"
  obtain i s2 f s3 e where "scan_int ?s1 = Some (i, s2)" "scan_frac s2 = Some (f, s3)"
    "scan_exp s3 = Some (e, r)"
    using assms unfolding scan_number_def Let_def by (auto split: option.splits prod.splits)
  then have "length r < length ?s1"
    using scan_int_shorter scan_frac_shorter scan_exp_shorter by (meson le_less_trans)
  then show ?thesis by (cases s) (auto split: if_splits)
qed

lemma scan_word_shorter: "w \<noteq> [] \<Longrightarrow> scan_word w v s = Some (x, r) \<Longrightarrow> length r < length s"
  by (cases s) (auto simp: scan_word_def split: if_splits)

lemma parse_value_shorter:
  "parse_value d s = Some (v, r) \<Longrightarrow> length r < length s"
  "parse_elements d s = Some (vs, r) \<Longrightarrow> length r < length s"
  "parse_members d s = Some (ms, r) \<Longrightarrow> length r < length s"
proof (induction d s and d s and d s arbitrary: v r and vs r and ms r
    rule: parse_value_parse_elements_parse_members.induct)
  case (1 d s)
  then obtain c cs where s: "skip_ws s = c # cs"
    by (cases "skip_ws s") (auto simp: parse_value.simps [of d s])
  have cs: "length cs < length s" using skip_ws_Cons_length [OF s] .
  have tl: "skip_ws cs \<noteq> [] \<Longrightarrow> length (tl (skip_ws cs)) < length cs"
    using skip_ws_length [of cs] by (cases "skip_ws cs") auto
  note P = "1.prems" [unfolded parse_value.simps [of d s] s list.case]
  consider "c = quote" | "c = CHR ''[''" | "c = CHR ''{''" | (word) "c \<notin> {quote, CHR ''['', CHR ''{''}"
    by blast
  then show ?case
  proof cases
    case 1
    then show ?thesis using P cs unquote_shorter by (fastforce split: if_splits)
  next
    case 2
    then show ?thesis using P cs tl "1.IH"(1) [OF s] by (fastforce simp: quote_def split: if_splits)
  next
    case 3
    then show ?thesis using P cs tl "1.IH"(2) [OF s] by (fastforce simp: quote_def split: if_splits)
  next
    case word
    then have "length r < length (c # cs)"
      using P by (auto split: if_splits dest: scan_number_shorter scan_word_shorter [rotated])
    then show ?thesis using cs by simp
  qed
next
  case (2 d s)
  then show ?case using skip_ws_Cons_length
    by (fastforce simp: parse_elements.simps [of d s] split: option.splits list.splits if_splits)
next
  case (3 d s)
  note P = "3.prems" [unfolded parse_members.simps [of d s]]
  obtain c cs where m1: "skip_ws s = c # cs" "c = quote"
    using P by (cases "skip_ws s") (auto split: if_splits)
  obtain k r0 where m2: "unquote cs = Some (k, r0)"
    using P m1 by (cases "unquote cs") auto
  obtain c1 r1 where m3: "skip_ws r0 = c1 # r1" "c1 = CHR '':''"
    using P m1 m2 by (cases "skip_ws r0") (auto split: if_splits)
  obtain v r2 where m4: "parse_value d r1 = Some (v, r2)" "length r2 < length r1"
    using P m1 m2 m3 by (cases "parse_value d r1") (auto split: if_splits)
  obtain c3 r3 where m5: "skip_ws r2 = c3 # r3"
    using P m1 m2 m3 m4 by (cases "skip_ws r2") auto
  have "length r3 < length s"
    using skip_ws_Cons_length [OF m1(1)] unquote_shorter [OF m2] skip_ws_Cons_length [OF m3(1)] m4(2)
      skip_ws_Cons_length [OF m5] by linarith
  moreover have "r = r3 \<or> (\<exists>ms'. parse_members d r3 = Some (ms', r) \<and> c3 = CHR '','')"
    using P by (auto simp: m1 m2 m3 m4 m5 split: if_splits)
  moreover have "length r < length r3" if "parse_members d r3 = Some (ms', r)" "c3 = CHR '',''" for ms'
    using "3.IH"(2) [OF m1(1) _ m2 refl m3(1) _ m4(1) refl _ m5 that(2,1)] m1 m3 m4 by simp
  ultimately show ?case by auto
qed

section \<open>Round trip\<close>

text \<open>
  The documents the program renders have integer literals; \<open>normal_json\<close> is a document with its
  strings in well-formed UTF-8.
\<close>

fun renderable :: "json \<Rightarrow> bool" where
  "renderable (JNumber lit) \<longleftrightarrow> (\<exists>i. lit = FormatInt i)"
| "renderable (JArray vs) \<longleftrightarrow> list_all renderable vs"
| "renderable (JObject ms) \<longleftrightarrow> list_all (\<lambda>(k, v). renderable v) ms"
| "renderable _ \<longleftrightarrow> True"

fun json_depth :: "json \<Rightarrow> nat" where
  "json_depth (JArray vs) = Suc (fold max (map json_depth vs) 0)"
| "json_depth (JObject ms) = Suc (fold max (map (\<lambda>(k, v). json_depth v) ms) 0)"
| "json_depth _ = 0"

fun normal_json :: "json \<Rightarrow> json" where
  "normal_json (JString s) = JString (to_utf8 s)"
| "normal_json (JArray vs) = JArray (map normal_json vs)"
| "normal_json (JObject ms) = JObject (map (\<lambda>(k, v). (to_utf8 k, normal_json v)) ms)"
| "normal_json v = v"

definition delimits :: "string \<Rightarrow> bool" where
  "delimits t \<longleftrightarrow> t = [] \<or> hd t \<in> {CHR '','', CHR '']'', CHR ''}''}"

lemma fold_max_le: "x \<in> set xs \<Longrightarrow> x \<le> fold max xs (a :: nat)"
  using Max.set_eq_fold [of a xs] by (metis List.finite_set Max_ge list.set_intros(2))

lemma show_nat_lead: "show_nat n = c # cs \<Longrightarrow> c = CHR ''0'' \<Longrightarrow> cs = []"
proof (induction n arbitrary: c cs rule: show_nat.induct)
  case (1 n)
  show ?case
  proof (cases "n < 10")
    case True
    then show ?thesis using "1.prems" by (simp add: show_nat.simps [of n])
  next
    case False
    then obtain c' cs' where s: "show_nat (n div 10) = c' # cs'" by (cases "show_nat (n div 10)") auto
    with "1.prems" False have c': "c' = CHR ''0''" by (simp add: show_nat.simps [of n])
    with "1.IH" [OF False s c'] have "show_nat (n div 10) = [CHR ''0'']" using s by simp
    then have "n div 10 = 0" using show_nat_digits [of "n div 10"] by (simp add: decimal_val_def)
    with False show ?thesis by simp
  qed
qed

lemma delimits_digits: "delimits t \<Longrightarrow> t = [] \<or> (\<exists>c u. t = c # u \<and> \<not> is_digit c \<and>
    c \<notin> {CHR ''.'', CHR ''e'', CHR ''E''})"
  by (cases t) (auto simp: delimits_def is_digit_def)

lemma scan_int_show: "delimits t \<Longrightarrow> scan_int (show_nat n @ t) = Some (show_nat n, t)"
proof -
  assume t: "delimits t"
  obtain c cs where s: "show_nat n = c # cs" by (cases "show_nat n") auto
  have "takeWhile is_digit (show_nat n @ t) = show_nat n" "dropWhile is_digit (show_nat n @ t) = t"
    using show_nat_digits [of n] delimits_digits [OF t]
    by (auto simp: list_all_iff takeWhile_append dropWhile_append)
  then have "scan_digits (c # cs @ t) = Some (c # cs, t)" using s by (simp add: scan_digits_def)
  with s show_nat_lead [OF s] show ?thesis by (auto simp: scan_int_def)
qed

lemma scan_number_Format: "delimits t \<Longrightarrow> scan_number (FormatInt i @ t) = Some (FormatInt i, t)"
proof -
  assume t: "delimits t"
  have rest: "scan_frac t = Some ([], t)" "scan_exp t = Some ([], t)"
    using delimits_digits [OF t] by (auto simp: scan_frac_def scan_exp_def)
  have "hd (show_nat n @ t) \<noteq> CHR ''-''" for n
    using show_nat_no_sign [of n] by (cases "show_nat n") auto
  then show ?thesis
    using scan_int_show [OF t] rest by (auto simp: scan_number_def FormatInt_def Let_def)
qed

lemma render_lead:
  assumes "renderable v"
  obtains c cs where "render_json v = c # cs" "\<not> json_space c" "c \<noteq> CHR '']''" "c \<noteq> CHR ''}''"
proof -
  have "\<exists>c cs. FormatInt i = c # cs \<and> \<not> json_space c \<and> c \<noteq> CHR '']'' \<and> c \<noteq> CHR ''}''" for i
  proof -
    obtain d ds where "show_nat (nat i) = d # ds" by (cases "show_nat (nat i)") auto
    moreover then have "is_digit d" using show_nat_digits [of "nat i"] by simp
    ultimately show ?thesis by (auto simp: FormatInt_def json_space_def is_digit_def)
  qed
  then have "\<exists>c cs. render_json v = c # cs \<and> \<not> json_space c \<and> c \<noteq> CHR '']'' \<and> c \<noteq> CHR ''}''"
    using assms by (cases v) (auto simp: json_space_def json_quote_def quote_def)
  then show ?thesis using that by blast
qed

lemma join_comma_Cons: "xs \<noteq> [] \<Longrightarrow> join_comma (x # xs) = x @ CHR '','' # join_comma xs"
  by (cases xs) auto

lemma delimits_simps [simp]: "delimits []" "delimits (CHR '','' # t)" "delimits (CHR '']'' # t)"
  "delimits (CHR ''}'' # t)"
  by (simp_all add: delimits_def)

lemma json_space_simps [simp]: "\<not> json_space CHR '',''" "\<not> json_space CHR '']''"
  "\<not> json_space CHR ''}''" "\<not> json_space CHR '':''" "\<not> json_space CHR ''[''"
  "\<not> json_space CHR ''{''" "\<not> json_space quote" "\<not> json_space CHR 0x22"
  by (simp_all add: json_space_def quote_def)

lemma parse_elements_render:
  assumes "vs \<noteq> []" "list_all renderable vs"
    and "\<And>v u. v \<in> set vs \<Longrightarrow> delimits u \<Longrightarrow> parse_value d (render_json v @ u) = Some (normal_json v, u)"
  shows "parse_elements d (join_comma (map render_json vs) @ CHR '']'' # t) = Some (map normal_json vs, t)"
  using assms
proof (induction vs)
  case (Cons v vs)
  have v: "render_json v \<noteq> []" using Cons.prems(2) by (auto elim: render_lead)
  let ?u = "if vs = [] then CHR '']'' # t else CHR '','' # join_comma (map render_json vs) @ CHR '']'' # t"
  have s: "join_comma (map render_json (v # vs)) @ CHR '']'' # t = render_json v @ ?u"
    by (cases vs) simp_all
  have "parse_value d (render_json v @ ?u) = Some (normal_json v, ?u)" using Cons.prems(3) by simp
  moreover have "length ?u < length (render_json v @ ?u)" using v by simp
  moreover have "vs \<noteq> [] \<Longrightarrow> parse_elements d (join_comma (map render_json vs) @ CHR '']'' # t) =
      Some (map normal_json vs, t)"
    using Cons by simp
  ultimately show ?case unfolding s by (cases "vs = []") (simp_all add: parse_elements.simps [of d "render_json v @ _"])
qed simp

abbreviation render_member :: "string \<times> json \<Rightarrow> string" where
  "render_member \<equiv> \<lambda>(k, v). json_quote k @ CHR '':'' # render_json v"

lemma parse_members_render:
  assumes "ms \<noteq> []" "list_all (\<lambda>(k, v). renderable v) ms"
    and "\<And>k v u. (k, v) \<in> set ms \<Longrightarrow> delimits u \<Longrightarrow> parse_value d (render_json v @ u) = Some (normal_json v, u)"
  shows "parse_members d (join_comma (map render_member ms) @ CHR ''}'' # t) =
    Some (map (\<lambda>(k, v). (to_utf8 k, normal_json v)) ms, t)"
  using assms
proof (induction ms)
  case (Cons m ms)
  obtain k v where m: "m = (k, v)" by (cases m)
  have v: "render_json v \<noteq> []" using Cons.prems(2) m by (auto elim: render_lead)
  let ?u = "if ms = [] then CHR ''}'' # t else CHR '','' # join_comma (map render_member ms) @ CHR ''}'' # t"
  have s: "join_comma (map render_member (m # ms)) @ CHR ''}'' # t =
      quote # escape k @ quote # CHR '':'' # render_json v @ ?u"
    using m by (cases ms) (simp_all add: json_quote_def)
  have p: "parse_value d (render_json v @ ?u) = Some (normal_json v, ?u)"
    using Cons.prems(3) [of k v ?u] m by simp
  have l: "length ?u < length (render_json v @ ?u)" using v by simp
  have ih: "ms \<noteq> [] \<Longrightarrow> parse_members d (join_comma (map render_member ms) @ CHR ''}'' # t) =
      Some (map (\<lambda>(k, v). (to_utf8 k, normal_json v)) ms, t)"
    using Cons.prems by (intro Cons.IH) auto
  have "parse_members d (quote # escape k @ quote # CHR '':'' # render_json v @ ?u) =
      (if ms = [] then Some ([(to_utf8 k, normal_json v)], t)
       else map_option (\<lambda>(ms, q). ((to_utf8 k, normal_json v) # ms, q))
              (parse_members d (join_comma (map render_member ms) @ CHR ''}'' # t)))"
    using p l by (simp add: parse_members.simps [of d "quote # _"] unquote_escape)
  then show ?case unfolding s using ih m by (auto split: if_splits)
qed simp

theorem parse_render_value:
  assumes "renderable v" "json_depth v \<le> d" "delimits t"
  shows "parse_value d (render_json v @ t) = Some (normal_json v, t)"
  using assms
proof (induction v arbitrary: d t)
  case (JNumber lit)
  then obtain i where i: "lit = FormatInt i" by auto
  then obtain c cs where c: "lit = c # cs" using FormatInt_nonempty(1) [of i] by (metis neq_Nil_conv)
  have "is_digit c \<or> c = CHR ''-''"
    using show_nat_digits [of "nat i"] c unfolding i by (cases "i < 0") (auto simp: FormatInt_def)
  then have "\<not> json_space c" "c \<notin> {quote, CHR ''['', CHR ''{'', CHR ''n'', CHR ''t'', CHR ''f''}"
    by (auto simp: json_space_def is_digit_def quote_def)
  moreover have "scan_number (c # cs @ t) = Some (c # cs, t)"
    using scan_number_Format [OF JNumber.prems(3), of i] unfolding i [symmetric] c by simp
  ultimately show ?case unfolding c by (simp add: parse_value.simps [of d "c # _"])
next
  case (JString s)
  then show ?case by (simp add: parse_value.simps [of d "_ # _"] json_quote_def unquote_escape)
next
  case (JArray vs)
  then have d: "d \<noteq> 0" by auto
  show ?case
  proof (cases "vs = []")
    case True
    with d show ?thesis by (simp add: parse_value.simps [of d "_ # _"] quote_def)
  next
    case False
    have "parse_elements (d - 1) (join_comma (map render_json vs) @ CHR '']'' # t) = Some (map normal_json vs, t)"
    proof (rule parse_elements_render [OF False])
      fix v u assume v: "v \<in> set vs" "delimits u"
      then have "json_depth v \<le> d - 1"
        using JArray.prems(2) fold_max_le [of "json_depth v" "map json_depth vs" 0] by simp
      then show "parse_value (d - 1) (render_json v @ u) = Some (normal_json v, u)"
        using JArray v by (simp add: list_all_iff)
    qed (use JArray in simp)
    moreover obtain w ws where "vs = w # ws" using False by (cases vs) auto
    moreover then obtain c cs where "render_json w = c # cs" "\<not> json_space c" "c \<noteq> CHR '']''"
      using JArray.prems(1) by (auto elim: render_lead)
    ultimately show ?thesis using d
      by (cases ws) (simp_all add: parse_value.simps [of d "CHR ''['' # _"] quote_def)
  qed
next
  case (JObject ms)
  then have d: "d \<noteq> 0" by auto
  show ?case
  proof (cases "ms = []")
    case True
    with d show ?thesis by (simp add: parse_value.simps [of d "_ # _"] quote_def)
  next
    case False
    have "parse_members (d - 1) (join_comma (map render_member ms) @ CHR ''}'' # t) =
      Some (map (\<lambda>(k, v). (to_utf8 k, normal_json v)) ms, t)"
    proof (rule parse_members_render [OF False])
      fix k v u assume v: "(k, v) \<in> set ms" "delimits u"
      then have "json_depth v \<le> d - 1"
        using JObject.prems(2) fold_max_le [of "json_depth v" "map (\<lambda>(k, v). json_depth v) ms" 0]
        by (force simp: image_iff)
      then show "parse_value (d - 1) (render_json v @ u) = Some (normal_json v, u)"
        using JObject.IH [of "(k, v)" v] JObject.prems(1) v by (force simp: list_all_iff)
    qed (use JObject in simp)
    moreover obtain k v ws where "ms = (k, v) # ws" using False by (cases ms) auto
    ultimately show ?thesis using d
      by (cases ws) (simp_all add: parse_value.simps [of d "CHR ''{'' # _"] json_quote_def quote_def)
  qed
qed (auto simp: parse_value.simps [of _ "_ # _"] json_space_def quote_def scan_word_def)

theorem parse_render_json:
  assumes "renderable v" "json_depth v \<le> maxNestingDepth"
  shows "parse_json (render_json v) = Some (normal_json v)"
  using parse_render_value [OF assms, of "[]"] by (simp add: parse_json_def)

end
