(* ===== verification/Hydrator.thy ===== *)
theory Hydrator
  imports Go_Time Go_Json Job_Aggregate Queue_Aggregate
begin

text \<open>
  The mapping from aggregates to API contracts (\<open>src/pkg/hydrator/job_hydrator.go\<close>, with the
  contracts of \<open>src/pkg/contracts\<close>): enqueue acknowledgements, full jobs with their payload as JSON,
  job summaries, attempt trails and queue statistics. A payload that is not JSON itself is
  rendered as a JSON string, so that every response is valid JSON (\<open>toRawPayload_valid\<close>).
\<close>

section \<open>Contracts\<close>

record EnqueueJobRes =
  res_ID :: string
  res_Queue :: string
  res_TaskType :: string
  res_State :: string
  res_Priority :: string
  res_ProcessAt :: string
  res_CreatedAt :: string
  res_Deduplicated :: bool

record JobSummaryRes =
  sum_ID :: string
  sum_Queue :: string
  sum_TaskType :: string
  sum_State :: string
  sum_Priority :: string
  sum_AttemptsMade :: uint32
  sum_RemainingRetries :: uint32
  sum_LastError :: string
  sum_CreatedAt :: string
  sum_ProcessAt :: string
  sum_WorkerID :: string

record AttemptRes =
  ar_Number :: uint32
  ar_StartedAt :: string
  ar_FinishedAt :: string
  ar_DurationMS :: int
  ar_Error :: string
  ar_WorkerID :: string

record RetryPolicyRes =
  pr_MaxRetries :: uint32
  pr_RetryBaseDelaySeconds :: int
  pr_RetryMaxDelaySeconds :: int
  pr_BackoffStrategy :: string

record JobRes =
  jr_ID :: string
  jr_Queue :: string
  jr_TaskType :: string
  jr_State :: string
  jr_Priority :: string
  jr_Payload :: string
  jr_AttemptsMade :: uint32
  jr_RemainingRetries :: uint32
  jr_LastError :: string
  jr_TimeoutSeconds :: int
  jr_IdempotencyKey :: string
  jr_RetryPolicy :: RetryPolicyRes
  jr_Attempts :: "AttemptRes list"
  jr_CreatedAt :: string
  jr_ProcessAt :: string
  jr_CompletedAt :: string
  jr_DiedAt :: string
  jr_LeaseExpiry :: string
  jr_WorkerID :: string

record QueueStatsRes =
  qr_Queue :: string
  qr_Paused :: bool
  qr_Weight :: uint8
  qr_Pending :: int
  qr_Active :: int
  qr_Scheduled :: int
  qr_Retrying :: int
  qr_Completed :: int
  qr_Dead :: int
  qr_Backlog :: int
  qr_Total :: int

record ListQueueStatsRes =
  lq_Queues :: "QueueStatsRes list"
  lq_Totals :: QueueStatsRes

section \<open>Mapping\<close>

definition formatTime :: "time \<Rightarrow> string" where
  "formatTime t = (if time_IsZero t then '''' else Format_RFC3339Nano t)"

definition formatTimePtr :: "time option \<Rightarrow> string" where
  "formatTimePtr t = (case t of None \<Rightarrow> '''' | Some t \<Rightarrow> formatTime t)"

definition ToEnqueueJobRes :: "Job \<Rightarrow> bool \<Rightarrow> EnqueueJobRes" where
  "ToEnqueueJobRes job deduplicated =
     \<lparr>res_ID = j_id job, res_Queue = j_queue job, res_TaskType = j_taskType job,
      res_State = JobState_String (j_state job), res_Priority = Priority_String (j_priority job),
      res_ProcessAt = formatTime (j_processAt job), res_CreatedAt = formatTime (j_createdAt job),
      res_Deduplicated = deduplicated\<rparr>"

definition ToJobSummaryRes :: "Job \<Rightarrow> JobSummaryRes" where
  "ToJobSummaryRes job =
     \<lparr>sum_ID = j_id job, sum_Queue = j_queue job, sum_TaskType = j_taskType job,
      sum_State = JobState_String (j_state job), sum_Priority = Priority_String (j_priority job),
      sum_AttemptsMade = j_attemptsMade job, sum_RemainingRetries = RemainingRetries job,
      sum_LastError = j_lastError job, sum_CreatedAt = formatTime (j_createdAt job),
      sum_ProcessAt = formatTime (j_processAt job), sum_WorkerID = j_workerID job\<rparr>"

definition ToJobSummaryResList :: "Job list \<Rightarrow> JobSummaryRes list" where
  "ToJobSummaryResList jobs = map ToJobSummaryRes jobs"

definition toAttemptsRes :: "Attempt list \<Rightarrow> AttemptRes list" where
  "toAttemptsRes attempts =
     map (\<lambda>a. \<lparr>ar_Number = a_Number a, ar_StartedAt = formatTime (a_StartedAt a),
       ar_FinishedAt = formatTime (a_FinishedAt a), ar_DurationMS = Milliseconds (Attempt_Duration a),
       ar_Error = a_Error a, ar_WorkerID = a_WorkerID a\<rparr>) attempts"

text \<open>
  \<open>json.RawMessage(nil)\<close> is the empty string. \<open>json.Marshal\<close> of a string does not fail, so the
  last branch of \<open>toRawPayload\<close> is not reached.
\<close>

definition toRawPayload :: "string \<Rightarrow> string" where
  "toRawPayload payload =
     (if payload = '''' then '''' else if json_Valid payload then payload else json_quote payload)"

text \<open>
  \<open>int64(d.Seconds())\<close>. \<open>Seconds\<close> adds the whole seconds and the rest divided by 1e9 in \<open>float64\<close>; both
  the quotient and the sum are rounded. A value \<open>x\<close> below is the number \<open>x / 2 ^ 101\<close>; the last bit
  of the quotient before rounding records whether the division leaves a remainder, so that
  \<open>flN\<close> rounds it as the exact quotient.
\<close>

definition nanos_fraction :: "nat \<Rightarrow> nat" where
  "nanos_fraction n =
     flN (2 * (n * 2 ^ 100 div 10 ^ 9) + (if n * 2 ^ 100 mod 10 ^ 9 = 0 then 0 else 1))"

definition seconds_trunc :: "nat \<Rightarrow> nat" where
  "seconds_trunc d = flN (d div 10 ^ 9 * 2 ^ 101 + nanos_fraction (d mod 10 ^ 9)) div 2 ^ 101"

definition int64_Seconds :: "duration \<Rightarrow> int" where
  "int64_Seconds d =
     (if d < 0 then - int (seconds_trunc (nat (- d))) else int (seconds_trunc (nat d)))"

definition ToJobRes :: "Job \<Rightarrow> JobRes" where
  "ToJobRes job =
     (let policy = j_retryPolicy job
      in \<lparr>jr_ID = j_id job, jr_Queue = j_queue job, jr_TaskType = j_taskType job,
          jr_State = JobState_String (j_state job), jr_Priority = Priority_String (j_priority job),
          jr_Payload = toRawPayload (j_payload job), jr_AttemptsMade = j_attemptsMade job,
          jr_RemainingRetries = RemainingRetries job, jr_LastError = j_lastError job,
          jr_TimeoutSeconds = int64_Seconds (j_timeout job),
          jr_IdempotencyKey = j_idempotencyKey job,
          jr_RetryPolicy = \<lparr>pr_MaxRetries = rp_maxRetries policy,
            pr_RetryBaseDelaySeconds = int64_Seconds (rp_baseDelay policy),
            pr_RetryMaxDelaySeconds = int64_Seconds (rp_maxDelay policy),
            pr_BackoffStrategy = StrategyName policy\<rparr>,
          jr_Attempts = toAttemptsRes (j_attempts job), jr_CreatedAt = formatTime (j_createdAt job),
          jr_ProcessAt = formatTime (j_processAt job), jr_CompletedAt = formatTimePtr (j_completedAt job),
          jr_DiedAt = formatTimePtr (j_diedAt job), jr_LeaseExpiry = formatTimePtr (j_leaseExpiry job),
          jr_WorkerID = j_workerID job\<rparr>)"

definition ToQueueStatsRes :: "Stats \<Rightarrow> QueueStatsRes" where
  "ToQueueStatsRes stats =
     \<lparr>qr_Queue = s_Queue stats, qr_Paused = s_Paused stats, qr_Weight = s_Weight stats,
      qr_Pending = s_Pending stats, qr_Active = s_Active stats, qr_Scheduled = s_Scheduled stats,
      qr_Retrying = s_Retrying stats, qr_Completed = s_Completed stats, qr_Dead = s_Dead stats,
      qr_Backlog = Backlog stats, qr_Total = Total stats\<rparr>"

definition add_totals :: "QueueStatsRes \<Rightarrow> Stats \<Rightarrow> QueueStatsRes" where
  "add_totals totals s =
     totals\<lparr>qr_Pending := wrap64 (qr_Pending totals + s_Pending s),
       qr_Active := wrap64 (qr_Active totals + s_Active s),
       qr_Scheduled := wrap64 (qr_Scheduled totals + s_Scheduled s),
       qr_Retrying := wrap64 (qr_Retrying totals + s_Retrying s),
       qr_Completed := wrap64 (qr_Completed totals + s_Completed s),
       qr_Dead := wrap64 (qr_Dead totals + s_Dead s)\<rparr>"

definition ToListQueueStatsRes :: "Stats list \<Rightarrow> ListQueueStatsRes" where
  "ToListQueueStatsRes stats =
     (let zero = \<lparr>qr_Queue = ''all'', qr_Paused = False, qr_Weight = 0, qr_Pending = 0, qr_Active = 0,
            qr_Scheduled = 0, qr_Retrying = 0, qr_Completed = 0, qr_Dead = 0, qr_Backlog = 0,
            qr_Total = 0\<rparr>;
          totals = foldl add_totals zero stats;
          backlog = wrap64 (qr_Pending totals + qr_Active totals + qr_Scheduled totals + qr_Retrying totals)
      in \<lparr>lq_Queues = map ToQueueStatsRes stats,
          lq_Totals = totals\<lparr>qr_Backlog := backlog,
            qr_Total := wrap64 (backlog + qr_Completed totals + qr_Dead totals)\<rparr>\<rparr>)"

section \<open>Properties of the full representation\<close>

lemma toRawPayload_valid: "payload \<noteq> '''' \<Longrightarrow> json_Valid (toRawPayload payload)"
  using parse_render_json [of "JString payload"] by (simp add: toRawPayload_def json_Valid_def)

lemma int64_Seconds_whole:
  assumes "\<bar>n\<bar> < 2 ^ 53"
  shows "int64_Seconds (n * second) = n"
proof -
  have "seconds_trunc (nat (m * second)) = nat m" if "0 \<le> m" "m < 2 ^ 53" for m
  proof -
    have m: "nat (m * second) = nat m * 10 ^ 9" using that by (simp add: second_def nat_mult_distrib)
    have "flN (nat m * 2 ^ 101) = nat m * 2 ^ 101" using that by (intro flN_exact) (simp add: nat_less_iff)
    then show ?thesis unfolding m by (simp add: seconds_trunc_def nanos_fraction_def flN_def round_half_even_def)
  qed
  from this [of n] this [of "- n"] assms show ?thesis
    by (cases "n < 0") (auto simp: int64_Seconds_def second_def zero_less_mult_iff)
qed

end
