(* ===== verification/Enqueuer.thy ===== *)
theory Enqueuer
  imports Fake_Store Hydrator
begin

text \<open>
  The write side of the API (\<open>src/pkg/application/enqueuer/service.go\<close>): a request is validated
  through the value objects, deduplicated by its idempotency key, and placed on its queue. The
  service holds a broker, a repository and an idempotency store, which are arguments here, and
  reads one identifier and one instant per request, which are arguments too. Log output is left out.

  The lemmas are proved for every store that satisfies the contracts \<open>enqueue_ports\<close>.
\<close>

section \<open>The request\<close>

record EnqueueJobReq =
  rq_TaskType :: string
  rq_Queue :: string
  rq_Payload :: string
  rq_Priority :: string
  rq_DelaySeconds :: "int option"
  rq_RunAt :: "string option"
  rq_MaxRetries :: "uint32 option"
  rq_RetryBaseDelaySeconds :: "int option"
  rq_RetryMaxDelaySeconds :: "int option"
  rq_BackoffStrategy :: string
  rq_TimeoutSeconds :: "int option"
  rq_IdempotencyKey :: string

definition derefOr :: "uint32 option \<Rightarrow> uint32 \<Rightarrow> uint32" where
  "derefOr v fallback = (case v of None \<Rightarrow> fallback | Some x \<Rightarrow> x)"

definition secondsOr :: "int option \<Rightarrow> duration \<Rightarrow> duration" where
  "secondsOr v fallback =
     (case v of
        None \<Rightarrow> fallback
      | Some x \<Rightarrow> if x \<le> 0 then fallback else wrap64 (x * second))"

definition resolveProcessAt :: "EnqueueJobReq \<Rightarrow> time \<Rightarrow> time result" where
  "resolveProcessAt req now =
     (if rq_DelaySeconds req \<noteq> None \<and> rq_RunAt req \<noteq> None
      then Inl (Invalid EInvalidScheduleTime ''delay_seconds and run_at are mutually exclusive'')
      else case rq_DelaySeconds req of
             Some d \<Rightarrow> Inr (now + wrap64 (d * second))
           | None \<Rightarrow>
               (case rq_RunAt req of
                  Some text \<Rightarrow>
                    (case Parse_RFC3339 text of
                       None \<Rightarrow> Inl (Invalid EInvalidScheduleTime ''run_at must be a valid RFC3339 timestamp'')
                     | Some t \<Rightarrow> Inr t)
                | None \<Rightarrow> Inr now))"

definition buildJob :: "string \<Rightarrow> time \<Rightarrow> EnqueueJobReq \<Rightarrow> Job result" where
  "buildJob newID now req =
     andThen (NewTaskType (rq_TaskType req)) (\<lambda>taskType.
     andThen (NewQueueName (rq_Queue req)) (\<lambda>queue.
     andThen (ParsePriority (rq_Priority req)) (\<lambda>priority.
     andThen (NewIdempotencyKey (rq_IdempotencyKey req)) (\<lambda>idempotencyKey.
     andThen (NewJobID newID) (\<lambda>i.
     andThen (resolveProcessAt req now) (\<lambda>processAt.
     andThen (NewRetryPolicy (derefOr (rq_MaxRetries req) DefaultMaxRetries)
         (secondsOr (rq_RetryBaseDelaySeconds req) DefaultBaseDelay)
         (secondsOr (rq_RetryMaxDelaySeconds req) DefaultMaxDelay)
         (rq_BackoffStrategy req)) (\<lambda>policy.
     NewJob \<lparr>p_ID = i, p_Queue = queue, p_TaskType = taskType, p_Payload = rq_Payload req,
       p_Priority = priority, p_RetryPolicy = policy, p_IdempotencyKey = idempotencyKey,
       p_Timeout = secondsOr (rq_TimeoutSeconds req) DefaultTimeout, p_ProcessAt = processAt,
       p_Now = now\<rparr>)))))))"

section \<open>The service\<close>

definition effectiveTTL :: "duration \<Rightarrow> duration" where
  "effectiveTTL ttl = (if ttl \<le> 0 then 24 * hour else ttl)"

definition persist :: "'s IJobBroker \<Rightarrow> Job \<Rightarrow> ('s, unit) call" where
  "persist broker job =
     (if j_state job = StateScheduled then broker_Schedule broker job else broker_Enqueue broker job)"

definition duplicate_error :: "IdempotencyKey \<Rightarrow> go_error" where
  "duplicate_error key = Conflict EDuplicateJob (''idempotency key '' @ key @ '' is already in use'')"

definition resolveDuplicate ::
  "'s IJobRepo \<Rightarrow> IdempotencyKey \<Rightarrow> JobID \<Rightarrow> ('s, EnqueueJobRes) call" where
  "resolveDuplicate repo key existingID s =
     (if IsZero existingID then (s, Inl (duplicate_error key))
      else case repo_FindByID repo existingID s of
             (s', Inl e) \<Rightarrow>
               (s', Inl (if KindOf e = KindNotFound then duplicate_error key else e))
           | (s', Inr existing) \<Rightarrow> (s', Inr (ToEnqueueJobRes existing True)))"

text \<open>After a failed write the claim is rolled back; an error of the release itself is only logged.\<close>

definition persist_or_release ::
  "'s IJobBroker \<Rightarrow> 's IIdempotencyStore \<Rightarrow> Job \<Rightarrow> ('s, EnqueueJobRes) call" where
  "persist_or_release broker idem job s =
     (case persist broker job s of
        (s', Inr _) \<Rightarrow> (s', Inr (ToEnqueueJobRes job False))
      | (s', Inl e) \<Rightarrow>
          (if \<not> IsZero (j_idempotencyKey job)
           then fst (idem_Release idem (j_idempotencyKey job) s') else s', Inl e))"

definition Enqueue_service ::
  "'s IJobRepo \<Rightarrow> 's IJobBroker \<Rightarrow> 's IIdempotencyStore \<Rightarrow> duration \<Rightarrow> string \<Rightarrow> time \<Rightarrow>
   EnqueueJobReq \<Rightarrow> ('s, EnqueueJobRes) call" where
  "Enqueue_service repo broker idem ttl newID now req s =
     (case buildJob newID now req of
        Inl e \<Rightarrow> (s, Inl e)
      | Inr job \<Rightarrow>
          if \<not> IsZero (j_idempotencyKey job)
          then case idem_Claim idem (j_idempotencyKey job) (j_id job) (effectiveTTL ttl) s of
                 (s', Inl e) \<Rightarrow> (s', Inl e)
               | (s', Inr (claimed, existingID)) \<Rightarrow>
                   if \<not> claimed then resolveDuplicate repo (j_idempotencyKey job) existingID s'
                   else persist_or_release broker idem job s'
          else persist_or_release broker idem job s)"

section \<open>What a request builds\<close>

lemma buildJob_Inr:
  assumes "buildJob newID now req = Inr job"
  shows "job_ok job" and "valid_policy (j_retryPolicy job)"
    and "j_state job \<in> {StatePending, StateScheduled}" and "NewJobID newID = Inr (j_id job)"
    and "NewIdempotencyKey (rq_IdempotencyKey req) = Inr (j_idempotencyKey job)"
    and "j_createdAt job = now"
proof -
  obtain p where p: "NewJob p = Inr job" "valid_policy (p_RetryPolicy p)" "NewJobID newID = Inr (p_ID p)"
      "NewIdempotencyKey (rq_IdempotencyKey req) = Inr (p_IdempotencyKey p)" "p_Now p = now"
    using assms unfolding buildJob_def by (auto simp: andThen_eq_Inr dest!: NewRetryPolicy_valid)
  note life = NewJob_lifecycle [OF p(1)]
  show "job_ok job" using NewJob_ok [OF p(1)] .
  show "valid_policy (j_retryPolicy job)" "NewJobID newID = Inr (j_id job)"
    "NewIdempotencyKey (rq_IdempotencyKey req) = Inr (j_idempotencyKey job)" "j_createdAt job = now"
    using p(2-5) life by simp_all
  show "j_state job \<in> {StatePending, StateScheduled}" using life(1) by simp
qed

section \<open>The service over any store that keeps the contracts\<close>

context enqueue_ports
begin

lemma persist_writes: "writes_on fits (persist broker)"
  unfolding writes_on_def
proof (intro allI impI, goal_cases)
  case (1 s j s' r)
  then show ?case
    using enqueue_writes [unfolded writes_on_def, rule_format, OF 1(1,2), of s' r]
      schedule_writes [unfolded writes_on_def, rule_format, OF 1(1,2), of s' r]
    by (cases "j_state j = StateScheduled") (simp_all add: persist_def)
qed

text \<open>The last part of a request: the write, and the release of the claim when it fails.\<close>

lemma persist_or_release_cases:
  assumes "inv s" "fits job" "persist_or_release broker idem job s = (s', r)"
  shows "inv s' \<and>
    (case r of
       Inr res \<Rightarrow> res = ToEnqueueJobRes job False \<and> docs s' = (docs s)(j_id job \<mapsto> norm job) \<and> held s' = held s
     | Inl e \<Rightarrow> (\<forall>i. i \<noteq> j_id job \<longrightarrow> docs s' i = docs s i))"
proof -
  obtain s1 r1 where P: "persist broker job s = (s1, r1)" by fastforce
  show ?thesis
  proof (cases r1)
    case (Inr u)
    with P assms(3) have "s' = s1" "r = Inr (ToEnqueueJobRes job False)"
      by (auto simp: persist_or_release_def)
    then show ?thesis using writes_Inr [OF persist_writes assms(1,2) P [unfolded Inr]] by simp
  next
    case (Inl e)
    note w = writes_Inl [OF persist_writes assms(1,2) P [unfolded Inl]]
    obtain s2 r2 where R: "idem_Release idem (j_idempotencyKey job) s1 = (s2, r2)" by fastforce
    have "inv s2" "docs s2 = docs s1"
      using release_ok [OF w(1)] release_err [OF w(1)] R by (cases r2; auto)+
    with Inl P R w assms(3) show ?thesis by (auto simp: persist_or_release_def split: if_splits)
  qed
qed

lemma resolveDuplicate_cases:
  assumes "repo_FindByID repo = find" "inv s" "resolveDuplicate repo key x s = (s', r)"
  shows "s' = s \<and> (case r of
      Inr res \<Rightarrow> \<exists>j. docs s x = Some j \<and> res = ToEnqueueJobRes j True
    | Inl e \<Rightarrow> docs s x = None \<or> x = '''' \<or> KindOf e \<noteq> KindNotFound)"
proof (cases "find x s")
  case (Pair t q)
  with assms find_ok [of s x t] find_err [of s x t] show ?thesis
    by (cases q) (auto simp: resolveDuplicate_def duplicate_error_def IsZero_def split: if_splits)
qed

text \<open>While a key is held nothing is written for a request that carries it.\<close>

lemma enqueue_held:
  assumes "repo_FindByID repo = find" "inv s" "buildJob newID now req = Inr job"
    and "j_idempotencyKey job \<noteq> ''''" "held s (j_idempotencyKey job) = Some i"
    and "Enqueue_service repo broker idem ttl newID now req s = (s', r)"
  shows "inv s' \<and> docs s' = docs s \<and>
    (\<forall>res. r = Inr res \<longrightarrow> s' = s \<and> (\<exists>j. docs s i = Some j \<and> res = ToEnqueueJobRes j True))"
proof -
  let ?k = "j_idempotencyKey job"
  have id: "NewJobID (j_id job) = Inr (j_id job)" using NewJobID_idem buildJob_Inr(4) [OF assms(3)] by blast
  obtain s1 c where C: "idem_Claim idem ?k (j_id job) (effectiveTTL ttl) s = (s1, c)" by fastforce
  have E: "Enqueue_service repo broker idem ttl newID now req s =
      (case c of Inl e \<Rightarrow> (s1, Inl e)
       | Inr (claimed, x) \<Rightarrow> if \<not> claimed then resolveDuplicate repo ?k x s1 else persist_or_release broker idem job s1)"
    using assms(3,4) C by (simp add: Enqueue_service_def IsZero_def split: sum.splits)
  consider e where "c = Inl e" | x where "c = Inr (True, x)" | x where "c = Inr (False, x)"
    by (metis (full_types) prod.exhaust sum.exhaust)
  then show ?thesis
  proof cases
    case 1
    with E assms(6) claim_err [OF assms(2,4) id C [unfolded 1]] show ?thesis by auto
  next
    case 2
    with claim_free [OF assms(2,4) id C [unfolded 2]] assms(5) show ?thesis by simp
  next
    case 3
    note t = claim_taken [OF assms(2,4) id C [unfolded 3]]
    have "resolveDuplicate repo ?k x s = (s', r)" using E assms(6) 3 t by simp
    from resolveDuplicate_cases [OF assms(1,2) this] t assms(2,5,6) E 3 show ?thesis
      by (cases "x = ''''") (auto simp: resolveDuplicate_def IsZero_def split: sum.splits)
  qed
qed

text \<open>A request that creates a job stores exactly that job, and claims its key.\<close>

lemma enqueue_created:
  assumes "repo_FindByID repo = find" "inv s" "\<And>job. buildJob newID now req = Inr job \<Longrightarrow> fits job"
    and "Enqueue_service repo broker idem ttl newID now req s = (s', Inr res)" "\<not> res_Deduplicated res"
  shows "\<exists>job. buildJob newID now req = Inr job \<and> res = ToEnqueueJobRes job False \<and> inv s' \<and>
    docs s' = (docs s)(j_id job \<mapsto> norm job) \<and>
    (if j_idempotencyKey job = '''' then held s' = held s
     else held s (j_idempotencyKey job) = None \<and> held s' = (held s)(j_idempotencyKey job \<mapsto> j_id job))"
proof -
  obtain job where job: "buildJob newID now req = Inr job"
    using assms(4) by (auto simp: Enqueue_service_def split: sum.splits)
  let ?k = "j_idempotencyKey job"
  have ok: "fits job" using assms(3) [OF job] .
  have id: "NewJobID (j_id job) = Inr (j_id job)" using NewJobID_idem buildJob_Inr(4) [OF job] by blast
  show ?thesis
  proof (cases "?k = ''''")
    case True
    then have "persist_or_release broker idem job s = (s', Inr res)"
      using job assms(4) by (simp add: Enqueue_service_def IsZero_def)
    from persist_or_release_cases [OF assms(2) ok this] True job show ?thesis by auto
  next
    case False
    obtain s1 c where C: "idem_Claim idem ?k (j_id job) (effectiveTTL ttl) s = (s1, c)" by fastforce
    then obtain claimed x where c: "c = Inr (claimed, x)"
      using job assms(4) False by (auto simp: Enqueue_service_def IsZero_def split: sum.splits)
    have claimed
    proof (rule ccontr)
      assume n: "\<not> claimed"
      then have "resolveDuplicate repo ?k x s1 = (s', Inr res)" "inv s1"
        using job assms(4) False C c claim_taken [OF assms(2) False id, of "effectiveTTL ttl" s1 x]
        by (auto simp: Enqueue_service_def IsZero_def)
      with resolveDuplicate_cases [OF assms(1)] assms(5) show False by (force simp: ToEnqueueJobRes_def)
    qed
    then have f: "inv s1 \<and> held s ?k = None \<and> held s1 = (held s)(?k \<mapsto> j_id job) \<and> docs s1 = docs s"
      and P: "persist_or_release broker idem job s1 = (s', Inr res)"
      using claim_free [OF assms(2) False id, of "effectiveTTL ttl" s1 x] C c job assms(4) False
      by (auto simp: Enqueue_service_def IsZero_def)
    with persist_or_release_cases [OF _ ok P] False job show ?thesis by auto
  qed
qed

end

section \<open>Properties\<close>

definition sample_req :: EnqueueJobReq where
  "sample_req = \<lparr>rq_TaskType = ''email:send'', rq_Queue = '''', rq_Payload = ''{}'', rq_Priority = '''',
     rq_DelaySeconds = None, rq_RunAt = None, rq_MaxRetries = None, rq_RetryBaseDelaySeconds = None,
     rq_RetryMaxDelaySeconds = None, rq_BackoffStrategy = '''', rq_TimeoutSeconds = None,
     rq_IdempotencyKey = ''k1''\<rparr>"

definition sample_built :: Job where
  "sample_built =
     \<lparr>j_id = ''a1'', j_queue = ''default'', j_taskType = ''email:send'', j_payload = ''{}'',
      j_priority = 5, j_state = StatePending, j_retryPolicy = DefaultRetryPolicy,
      j_idempotencyKey = ''k1'', j_timeout = DefaultTimeout, j_attemptsMade = 0, j_attempts = [],
      j_lastError = '''', j_createdAt = 1000, j_processAt = 1000, j_completedAt = None,
      j_diedAt = None, j_leaseExpiry = None, j_workerID = ''''\<rparr>"

lemma sample_buildJob: "buildJob ''a1'' 1000 sample_req = Inr sample_built"
proof -
  have "taskTypePattern ''email:send''"
    by (simp add: taskTypePattern_def matches_name_def task_head_def task_tail_def is_lower_def
        is_upper_def is_digit_def)
  then have "NewTaskType ''email:send'' = Inr ''email:send''" by (rule pattern_NewTaskType)
  moreover have "NewQueueName '''' = Inr ''default''" "ParsePriority '''' = Inr 5"
    "NewJobID ''a1'' = Inr ''a1''" "NewIdempotencyKey ''k1'' = Inr ''k1''"
    by (simp_all add: NewQueueName_def ParsePriority_def NewJobID_def NewIdempotencyKey_def Let_def TrimSpace_id
        ToLower_id space_free_def DefaultQueueName_def priority_levels ContainsAny_def maxJobIDLength_def
        maxIdempotencyKeyLength_def)
  moreover have "NewRetryPolicy DefaultMaxRetries DefaultBaseDelay DefaultMaxDelay '''' = Inr DefaultRetryPolicy"
    by (simp add: NewRetryPolicy_def NewBackoffStrategy_def policy_limits DefaultRetryPolicy_def
        TrimSpace_id ToLower_id)
  ultimately show ?thesis
    by (simp add: buildJob_def sample_req_def sample_built_def resolveProcessAt_def derefOr_def secondsOr_def
        NewJob_def IsZero_def MaxPayloadBytes_def DefaultTimeout_def MaxTimeout_def duration_units
        time_IsZero_def zero_time_def)
qed

text \<open>
  Creation through the API. Over any store that keeps its contracts and can represent the job,
  a request that is answered with a new job has stored exactly the job it describes, well formed, pending or scheduled, with a
  validated retry policy; it changed no other job; and if it carries an idempotency key, that key
  was free before and now stands for the new job.
\<close>

theorem enqueue_creates_job:
  assumes "enqueue_ports ok docs held norm (repo_FindByID repo) fits broker idem" and "ok s"
    and "\<And>job. buildJob newID now req = Inr job \<Longrightarrow> fits job"
    and "Enqueue_service repo broker idem ttl newID now req s = (s', Inr res)"
    and "\<not> res_Deduplicated res"
  shows "\<exists>job. buildJob newID now req = Inr job \<and> res = ToEnqueueJobRes job False \<and>
    job_ok job \<and> valid_policy (j_retryPolicy job) \<and> j_state job \<in> {StatePending, StateScheduled} \<and>
    ok s' \<and> docs s' = (docs s)(j_id job \<mapsto> norm job) \<and>
    (if j_idempotencyKey job = '''' then held s' = held s
     else held s (j_idempotencyKey job) = None \<and> held s' = (held s)(j_idempotencyKey job \<mapsto> j_id job))"
  using enqueue_ports.enqueue_created [OF assms(1) refl assms(2-5)] buildJob_Inr by metis

lemma fake_ports:
  "enqueue_ports store_ok store_docs store_held (\<lambda>j. j) (repo_FindByID fakeRepo) job_ok (fakeBroker t) fakeIdempotency"
  using fake_enqueue.enqueue_ports_axioms by (simp add: fakeRepo_def)

lemma sample_enqueued:
  "Enqueue_service fakeRepo (fakeBroker 0) fakeIdempotency 0 ''a1'' 1000 sample_req NewStore =
     (fst (Save sample_built (NewStore\<lparr>st_claims := [(''k1'', ''a1'')]\<rparr>)), Inr (ToEnqueueJobRes sample_built False))"
  by (simp add: Enqueue_service_def sample_buildJob persist_or_release_def persist_def fakeIdempotency_def
      fakeBroker_def Claim_def Enqueue_def Save_def takeFailure_def NewStore_def sample_built_def IsZero_def)

theorem enqueue_creates_job_witness:
  "\<exists>s' job. store_docs s' = [''a1'' \<mapsto> job] \<and> job_ok job \<and>
     Enqueue_service fakeRepo (fakeBroker 0) fakeIdempotency 0 ''a1'' 1000 sample_req NewStore =
       (s', Inr (ToEnqueueJobRes job False))"
proof -
  have "job_ok job" if "buildJob ''a1'' 1000 sample_req = Inr job" for job using buildJob_Inr(1) [OF that] .
  from enqueue_creates_job [OF fake_ports NewStore_ok this sample_enqueued] show ?thesis
    using sample_enqueued sample_buildJob by (force simp: NewStore_def ToEnqueueJobRes_def sample_built_def)
qed

text \<open>
  C7. Deduplication. Over any store that keeps its contracts, while an idempotency key is held a
  request that carries it never stores anything: there is at most one job per key. A successful
  answer describes the job that holds the key, marked as deduplicated, and leaves the store untouched.
\<close>

theorem enqueue_at_most_once:
  assumes "enqueue_ports ok docs held norm (repo_FindByID repo) fits broker idem" and "ok s"
    and "buildJob newID now req = Inr job" and "j_idempotencyKey job \<noteq> ''''"
    and "held s (j_idempotencyKey job) = Some i"
  shows "case Enqueue_service repo broker idem ttl newID now req s of
      (s', Inl e) \<Rightarrow> docs s' = docs s
    | (s', Inr res) \<Rightarrow> s' = s \<and> (\<exists>j. docs s i = Some j \<and> res = ToEnqueueJobRes j True)"
proof (cases "Enqueue_service repo broker idem ttl newID now req s")
  case (Pair s' r)
  with enqueue_ports.enqueue_held [OF assms(1) refl assms(2-5) this] show ?thesis by (cases r) auto
qed

lemma sample_claimed_ok:
  "store_ok (fst (Save sample_built (NewStore\<lparr>st_claims := [(''k1'', ''a1'')]\<rparr>)))"
proof -
  have "store_ok (NewStore\<lparr>st_claims := [(''k1'', ''a1'')]\<rparr>)" using NewStore_ok by (simp add: store_ok_claims)
  then show ?thesis
    using Save_ok [OF _ buildJob_Inr(1) [OF sample_buildJob] prod.collapse [symmetric]] by blast
qed

theorem enqueue_at_most_once_witness:
  "case Enqueue_service fakeRepo (fakeBroker 0) fakeIdempotency 0 ''a1'' 1000 sample_req
      (fst (Save sample_built (NewStore\<lparr>st_claims := [(''k1'', ''a1'')]\<rparr>))) of
     (s', Inl e) \<Rightarrow> store_docs s' = [''a1'' \<mapsto> sample_built]
   | (s', Inr res) \<Rightarrow> res = ToEnqueueJobRes sample_built True"
proof -
  let ?s = "fst (Save sample_built (NewStore\<lparr>st_claims := [(''k1'', ''a1'')]\<rparr>))"
  have h: "store_held ?s ''k1'' = Some ''a1''" "store_docs ?s = [''a1'' \<mapsto> sample_built]" "j_idempotencyKey sample_built = ''k1''"
    by (simp_all add: sample_built_def Save_def takeFailure_def NewStore_def)
  show ?thesis
    using enqueue_at_most_once [where ok = store_ok and docs = store_docs and held = store_held and norm = "\<lambda>j. j" and fits = job_ok
        and repo = fakeRepo and broker = "fakeBroker 0" and idem = fakeIdempotency and s = ?s and i = "''a1''"
        and ttl = 0, OF fake_ports sample_claimed_ok sample_buildJob] h
    by (auto split: prod.splits sum.splits)
qed

text \<open>
  Retrying a request. Over the in-memory store, repeating a request that carries an idempotency
  key, with whatever fresh identifier and at whatever time, is answered with the job the first call
  created, marked as deduplicated, and changes nothing.
\<close>

theorem enqueue_retry_returns_original:
  assumes "store_ok s"
    and "Enqueue_service fakeRepo (fakeBroker t) fakeIdempotency ttl newID now req s = (s1, Inr res1)"
    and "\<not> res_Deduplicated res1"
    and "buildJob newID' now' req = Inr job'" and "j_idempotencyKey job' \<noteq> ''''"
  shows "\<exists>res2. Enqueue_service fakeRepo (fakeBroker t') fakeIdempotency ttl newID' now' req s1 = (s1, Inr res2) \<and>
    res_ID res2 = res_ID res1 \<and> res_State res2 = res_State res1 \<and> res_Deduplicated res2"
proof -
  have built: "job_ok job" if "buildJob newID now req = Inr job" for job using buildJob_Inr(1) [OF that] .
  obtain job where job: "buildJob newID now req = Inr job" "res1 = ToEnqueueJobRes job False"
      "store_docs s1 = (store_docs s)(j_id job \<mapsto> job)"
      "if j_idempotencyKey job = '''' then store_held s1 = store_held s
       else store_held s (j_idempotencyKey job) = None \<and>
         store_held s1 = (store_held s)(j_idempotencyKey job \<mapsto> j_id job)"
    using enqueue_ports.enqueue_created [OF fake_ports refl assms(1) built assms(2,3)] by blast
  have k: "j_idempotencyKey job' = j_idempotencyKey job"
    using buildJob_Inr(5) [OF job(1)] buildJob_Inr(5) [OF assms(4)] by simp
  have "j_id job \<noteq> ''''" using buildJob_Inr(1) [OF job(1)] by (simp add: job_ok_def inputs_ok_def)
  with job k assms(4,5) show ?thesis
    by (simp add: Enqueue_service_def resolveDuplicate_def fakeIdempotency_def Claim_def IsZero_def fakeRepo_def
        FindByID_def ToEnqueueJobRes_def)
qed

theorem enqueue_retry_returns_original_witness:
  "\<exists>s1 res2. Enqueue_service fakeRepo (fakeBroker 0) fakeIdempotency 0 ''a1'' 1000 sample_req s1 = (s1, Inr res2) \<and>
     res_ID res2 = ''a1'' \<and> res_Deduplicated res2"
  using enqueue_retry_returns_original [OF NewStore_ok sample_enqueued _ sample_buildJob]
  by (force simp: ToEnqueueJobRes_def sample_built_def)

text \<open>
  Rollback. Over the in-memory store, when the write of the job fails the claim is undone: the
  request reports the error, no job and no key remain, and the same request sent again creates the job.
\<close>

theorem enqueue_failure_rolls_back:
  assumes "store_ok s" and "st_FailNext s = Some e" and "buildJob newID now req = Inr job"
    and "store_held s (j_idempotencyKey job) = None"
  shows "\<exists>s1. Enqueue_service fakeRepo (fakeBroker t) fakeIdempotency ttl newID now req s = (s1, Inl e) \<and>
    store_docs s1 = store_docs s \<and> store_held s1 = store_held s \<and>
    (\<exists>s2. Enqueue_service fakeRepo (fakeBroker t) fakeIdempotency ttl newID now req s1 =
       (s2, Inr (ToEnqueueJobRes job False)))"
proof -
  let ?k = "j_idempotencyKey job"
  define s1 where "s1 = s\<lparr>st_claims := (if ?k = '''' then st_claims s
    else AList.delete ?k (AList.update ?k (j_id job) (st_claims s))), st_FailNext := None\<rparr>"
  have "Enqueue_service fakeRepo (fakeBroker t) fakeIdempotency ttl newID now req s = (s1, Inl e)"
    using assms(2,3,4)
    by (auto simp: Enqueue_service_def persist_or_release_def persist_def fakeBroker_def Enqueue_def Schedule_def
        Save_def takeFailure_def fakeIdempotency_def Claim_def Release_def IsZero_def s1_def)
  moreover have held: "store_held s1 = store_held s"
    using assms(4) by (auto simp: s1_def delete_conv' update_conv')
  moreover have "\<exists>s2. Enqueue_service fakeRepo (fakeBroker t) fakeIdempotency ttl newID now req s1 =
      (s2, Inr (ToEnqueueJobRes job False))"
    using assms(3,4) held
    by (auto simp: Enqueue_service_def persist_or_release_def persist_def fakeBroker_def Enqueue_def Schedule_def
        Save_def takeFailure_def fakeIdempotency_def Claim_def IsZero_def s1_def)
  ultimately show ?thesis by (auto simp: s1_def)
qed

theorem enqueue_failure_rolls_back_witness:
  "\<exists>s1. Enqueue_service fakeRepo (fakeBroker 0) fakeIdempotency 0 ''a1'' 1000 sample_req
      (NewStore\<lparr>st_FailNext := Some (Internal ''x'' ''y'' None)\<rparr>) = (s1, Inl (Internal ''x'' ''y'' None)) \<and>
     store_held s1 = Map.empty"
proof -
  let ?s = "NewStore\<lparr>st_FailNext := Some (Internal ''x'' ''y'' None)\<rparr>"
  have "store_ok ?s" using NewStore_ok by simp
  moreover have "st_FailNext ?s = Some (Internal ''x'' ''y'' None)" "store_held ?s = Map.empty"
    by (simp_all add: NewStore_def)
  ultimately show ?thesis
    using enqueue_failure_rolls_back [where s = ?s and t = 0 and ttl = 0, OF _ _ sample_buildJob] by fastforce
qed

text \<open>
  Scheduling by delay. A delay of up to 9223372036 seconds (292 years) schedules the job exactly that much
  later. The multiplication to nanoseconds is a 64-bit one and the request has no upper limit: the
  next larger delay overflows to the past, and such a job would run at once.
\<close>

theorem delay_seconds_exact_then_wraps:
  assumes "rq_RunAt req = None" and "rq_DelaySeconds req = Some d" and "0 \<le> d"
  shows "(d \<le> 9223372036 \<longrightarrow> resolveProcessAt req now = Inr (now + d * second)) \<and>
    (d = 9223372037 \<longrightarrow> (\<exists>t. resolveProcessAt req now = Inr t \<and> t < now))"
proof -
  have "wrap64 (d * second) = d * second" if "d \<le> 9223372036"
    using that assms(3) by (intro wrap64_id) (auto simp: duration_units)
  moreover have "wrap64 (9223372037 * second) < 0" by (simp add: wrap64_def duration_units)
  ultimately show ?thesis using assms(1,2) by (auto simp: resolveProcessAt_def)
qed

theorem delay_seconds_exact_then_wraps_witness:
  "\<exists>t. resolveProcessAt (sample_req\<lparr>rq_DelaySeconds := Some 9223372037\<rparr>) 0 = Inr t \<and> t < 0"
  using delay_seconds_exact_then_wraps [of "sample_req\<lparr>rq_DelaySeconds := Some 9223372037\<rparr>" 9223372037 0]
  by (simp add: sample_req_def)

text \<open>
  Instants survive the API: an instant of the years 1 to 9999 that a response shows, sent back as the
  \<open>run_at\<close> of a request, schedules the job for the same instant, to the nanosecond.
\<close>

theorem run_at_round_trip:
  assumes "zero_time < t" and "t < 253402300800 * second"
    and "rq_DelaySeconds req = None" and "rq_RunAt req = Some (formatTime t)"
  shows "resolveProcessAt req now = Inr t"
  using assms rfc3339_round_trip [of t] by (simp add: resolveProcessAt_def formatTime_def time_IsZero_def)

theorem run_at_round_trip_witness:
  "resolveProcessAt (sample_req\<lparr>rq_DelaySeconds := None, rq_RunAt := Some (formatTime 1709208000123450000)\<rparr>) 0 =
     Inr 1709208000123450000"
  by (rule run_at_round_trip) (simp_all add: zero_time_def duration_units)

end
