(* ===== verification/Redis_Keys.thy ===== *)
theory Redis_Keys
  imports Job_Aggregate
begin

text \<open>
  The layout of keys and scores in Redis (\<open>src/pkg/infrastructure/persistence/redis/keys.go\<close>) and the
  order of a listing (\<open>sort.go\<close>). Scores are \<open>float64\<close>; the ones computed here are integers, rounded
  by \<open>fl64\<close> after every operation as the hardware does.
\<close>

section \<open>Keys\<close>

definition DefaultNamespace :: string where "DefaultNamespace = ''goqueue''"

record KeyBuilder =
  kb_namespace :: string

definition NewKeyBuilder :: "string \<Rightarrow> KeyBuilder" where
  "NewKeyBuilder namespace =
     \<lparr>kb_namespace = (if namespace = '''' then DefaultNamespace else namespace)\<rparr>"

definition JobPrefix :: "KeyBuilder \<Rightarrow> string" where
  "JobPrefix k = kb_namespace k @ '':job:''"

definition Job_key :: "KeyBuilder \<Rightarrow> JobID \<Rightarrow> string" where
  "Job_key k i = kb_namespace k @ '':job:'' @ i"

definition Pending_key :: "KeyBuilder \<Rightarrow> QueueName \<Rightarrow> string" where
  "Pending_key k queue = kb_namespace k @ '':queue:'' @ queue @ '':pending''"

definition Active_key :: "KeyBuilder \<Rightarrow> QueueName \<Rightarrow> string" where
  "Active_key k queue = kb_namespace k @ '':queue:'' @ queue @ '':active''"

definition Scheduled_key :: "KeyBuilder \<Rightarrow> QueueName \<Rightarrow> string" where
  "Scheduled_key k queue = kb_namespace k @ '':queue:'' @ queue @ '':scheduled''"

definition Retrying_key :: "KeyBuilder \<Rightarrow> QueueName \<Rightarrow> string" where
  "Retrying_key k queue = kb_namespace k @ '':queue:'' @ queue @ '':retrying''"

definition Completed_key :: "KeyBuilder \<Rightarrow> QueueName \<Rightarrow> string" where
  "Completed_key k queue = kb_namespace k @ '':queue:'' @ queue @ '':completed''"

definition Dead_key :: "KeyBuilder \<Rightarrow> QueueName \<Rightarrow> string" where
  "Dead_key k queue = kb_namespace k @ '':queue:'' @ queue @ '':dead''"

definition StateSet :: "KeyBuilder \<Rightarrow> QueueName \<Rightarrow> JobState \<Rightarrow> string" where
  "StateSet k queue state =
     (case state of
        StatePending \<Rightarrow> Pending_key k queue
      | StateActive \<Rightarrow> Active_key k queue
      | StateScheduled \<Rightarrow> Scheduled_key k queue
      | StateRetrying \<Rightarrow> Retrying_key k queue
      | StateCompleted \<Rightarrow> Completed_key k queue
      | StateDead \<Rightarrow> Dead_key k queue)"

definition QueueRegistry :: "KeyBuilder \<Rightarrow> string" where
  "QueueRegistry k = kb_namespace k @ '':queues''"

definition QueueMeta :: "KeyBuilder \<Rightarrow> QueueName \<Rightarrow> string" where
  "QueueMeta k queue = kb_namespace k @ '':queue:'' @ queue @ '':meta''"

definition Idempotency :: "KeyBuilder \<Rightarrow> IdempotencyKey \<Rightarrow> string" where
  "Idempotency k key = kb_namespace k @ '':idempotency:'' @ key"

lemmas key_defs = Job_key_def Pending_key_def Active_key_def Scheduled_key_def Retrying_key_def
  Completed_key_def Dead_key_def StateSet_def QueueRegistry_def QueueMeta_def Idempotency_def

section \<open>Scores\<close>

definition priorityBand :: int where "priorityBand = 10 ^ 14"

definition PendingScore :: "uint8 \<Rightarrow> int \<Rightarrow> int" where
  "PendingScore priority enqueuedAtMs =
     (let band = fl64 (int (unat (MaxPriority - priority)) * priorityBand)
      in fl64 (band + fl64 enqueuedAtMs))"

section \<open>Listing order\<close>

definition createdAt_desc :: "Job \<Rightarrow> Job \<Rightarrow> bool" where
  "createdAt_desc a b =
     (if j_createdAt a = j_createdAt b then j_id a < j_id b else j_createdAt a > j_createdAt b)"

definition sortJobsByCreatedAtDesc :: "Job list \<Rightarrow> Job list" where
  "sortJobsByCreatedAtDesc jobs = SliceStable createdAt_desc jobs"

section \<open>Properties\<close>

text \<open>Every key of a deployment is one of these.\<close>

datatype redis_key = KJob JobID | KState QueueName JobState | KMeta QueueName | KRegistry | KClaim IdempotencyKey

definition render :: "KeyBuilder \<Rightarrow> redis_key \<Rightarrow> string" where
  "render k key =
     (case key of
        KJob i \<Rightarrow> Job_key k i | KState q st \<Rightarrow> StateSet k q st | KMeta q \<Rightarrow> QueueMeta k q
      | KRegistry \<Rightarrow> QueueRegistry k | KClaim c \<Rightarrow> Idempotency k c)"

definition key_valid :: "redis_key \<Rightarrow> bool" where
  "key_valid key =
     (case key of KState q st \<Rightarrow> queueNamePattern q | KMeta q \<Rightarrow> queueNamePattern q | _ \<Rightarrow> True)"

text \<open>The part after the namespace.\<close>

definition key_body :: "redis_key \<Rightarrow> string" where
  "key_body key =
     (case key of
        KJob i \<Rightarrow> ''job:'' @ i | KState q st \<Rightarrow> ''queue:'' @ q @ '':'' @ JobState_String st
      | KMeta q \<Rightarrow> ''queue:'' @ q @ '':meta'' | KRegistry \<Rightarrow> ''queues'' | KClaim c \<Rightarrow> ''idempotency:'' @ c)"

lemma render_body: "render k key = kb_namespace k @ CHR '':'' # key_body key"
  by (cases key) (simp_all add: render_def key_body_def key_defs JobState_String_def split: JobState.split)

lemma split_at_colon:
  assumes "CHR '':'' \<notin> set xs" "CHR '':'' \<notin> set ys" "xs @ CHR '':'' # us = ys @ CHR '':'' # vs"
  shows "xs = ys \<and> us = vs"
  using assms
proof (induction xs arbitrary: ys)
  case (Cons x xs)
  then show ?case by (cases ys) auto
next
  case Nil
  then show ?case by (cases ys) auto
qed

lemma queue_no_colon:
  assumes "queueNamePattern q"
  shows "CHR '':'' \<notin> set q"
proof -
  have "list_all (\<lambda>c. c \<noteq> CHR '':'') q"
    using assms unfolding queueNamePattern_def
    by (rule matches_name_all) (auto simp: queue_head_def queue_tail_def is_lower_def is_digit_def)
  then show ?thesis by (auto simp: list_all_iff)
qed

lemma JobState_String_inj: "JobState_String a = JobState_String b \<longleftrightarrow> a = b"
  using NewJobState_String by (metis sum.inject(2))

lemma JobState_String_not_meta: "JobState_String st \<noteq> ''meta''"
  by (simp add: JobState_String_def split: JobState.split)

lemma key_body_inj:
  assumes "key_valid a" "key_valid b" "key_body a = key_body b"
  shows "a = b"
  using assms queue_no_colon
  by (cases a; cases b)
     (auto simp: key_valid_def key_body_def JobState_String_inj JobState_String_not_meta
          JobState_String_not_meta [symmetric]
        dest!: split_at_colon [rotated 2])

text \<open>
  C39. The key layout. Deployments whose namespaces contain no colon never touch each other's keys,
  and within one deployment two different things (documents, the six sets of a queue, its
  settings, the registry, claims) never share a key: a key determines its namespace and what it stands for.
\<close>

theorem keys_do_not_collide:
  assumes "CHR '':'' \<notin> set namespace" and "CHR '':'' \<notin> set namespace'"
    and "key_valid a" and "key_valid b"
    and "render (NewKeyBuilder namespace) a = render (NewKeyBuilder namespace') b"
  shows "kb_namespace (NewKeyBuilder namespace) = kb_namespace (NewKeyBuilder namespace') \<and> a = b"
proof -
  have "CHR '':'' \<notin> set (kb_namespace (NewKeyBuilder n))" if "CHR '':'' \<notin> set n" for n
    using that by (simp add: NewKeyBuilder_def DefaultNamespace_def)
  from split_at_colon [OF this [OF assms(1)] this [OF assms(2)] assms(5) [unfolded render_body]]
  show ?thesis using key_body_inj [OF assms(3,4)] by blast
qed

theorem keys_do_not_collide_witness:
  "render (NewKeyBuilder ''goqueue'') (KState ''default'' StatePending) = ''goqueue:queue:default:pending'' \<and>
   kb_namespace (NewKeyBuilder '''') = kb_namespace (NewKeyBuilder ''goqueue'')"
proof -
  have "key_valid KRegistry" by (simp add: key_valid_def)
  moreover have "render (NewKeyBuilder '''') KRegistry = render (NewKeyBuilder ''goqueue'') KRegistry"
    by (simp add: NewKeyBuilder_def DefaultNamespace_def)
  ultimately show ?thesis
    using keys_do_not_collide [of "''''" "''goqueue''" KRegistry KRegistry]
    by (simp add: render_body key_body_def JobState_String_def NewKeyBuilder_def)
qed

text \<open>With a colon in a namespace two deployments can share a key; the namespace is not validated.\<close>

lemma namespace_collision:
  "render (NewKeyBuilder ''goqueue:job'') KRegistry = render (NewKeyBuilder ''goqueue'') (KJob ''queues'')"
  by (simp add: render_body key_body_def NewKeyBuilder_def)

lemma band_order:
  fixes a b x y :: int
  assumes "0 \<le> a" "a < 10 ^ 14" "0 \<le> b" "b < 10 ^ 14"
  shows "(10 - x) * 10 ^ 14 + a < (10 - y) * 10 ^ 14 + b \<longleftrightarrow> y < x \<or> x = y \<and> a < b"
proof (cases x y rule: linorder_cases)
  case less
  then have "x + 1 \<le> y" by simp
  then show ?thesis using assms less by simp
next
  case greater
  then have "y + 1 \<le> x" by simp
  then show ?thesis using assms greater by simp
qed (use assms in simp)

text \<open>
  The pending score. For valid priorities and instants in the next three millennia the
  floating-point score is exact, and it orders jobs by priority first, higher ones before lower ones, and by
  enqueueing time within a priority: no timestamp bleeds into another band.
\<close>

theorem pending_score_order:
  assumes "NewPriority p = Inr p" and "NewPriority p' = Inr p'"
    and "0 \<le> ms" and "ms < 10 ^ 14" and "0 \<le> ms'" and "ms' < 10 ^ 14"
  shows "PendingScore p ms = (10 - int (unat p)) * 10 ^ 14 + ms \<and>
    (PendingScore p ms < PendingScore p' ms' \<longleftrightarrow> p > p' \<or> p = p' \<and> ms < ms')"
proof -
  have range: "1 \<le> unat p \<and> unat p \<le> 10" if "NewPriority p = Inr p" for p
    using that by (auto simp: NewPriority_def priority_levels word_le_nat_alt word_less_nat_alt split: if_splits)
  have exact: "PendingScore p ms = (10 - int (unat p)) * 10 ^ 14 + ms"
    if p: "1 \<le> unat p \<and> unat p \<le> 10" and ms: "0 \<le> ms" "ms < 10 ^ 14" for p and ms :: int
  proof -
    have "unat (MaxPriority - p) = 10 - unat p"
      using p unat_sub [of p MaxPriority] by (simp add: priority_levels word_le_nat_alt)
    then have d: "int (unat (MaxPriority - p)) = 10 - int (unat p)" using p by simp
    define x where "x = 10 - int (unat p)"
    then have x: "x = 10 - int (unat p)" "0 \<le> x" "x \<le> 9" using p by linarith+
    have f: "fl64 (x * 10 ^ 14) = x * 10 ^ 14" "fl64 ms = ms" "fl64 (x * 10 ^ 14 + ms) = x * 10 ^ 14 + ms"
      using x(2,3) ms by (intro fl64_small; simp)+
    show ?thesis unfolding PendingScore_def priorityBand_def d x(1) [symmetric] Let_def f ..
  qed
  note r = range [OF assms(1)] range [OF assms(2)]
  have "p > p' \<longleftrightarrow> unat p' < unat p" "p = p' \<longleftrightarrow> unat p = unat p'" by (simp_all add: word_less_nat_alt word_unat_eq_iff)
  moreover have "(10 - int (unat p)) * 10 ^ 14 + ms < (10 - int (unat p')) * 10 ^ 14 + ms' \<longleftrightarrow>
      unat p' < unat p \<or> unat p = unat p' \<and> ms < ms'"
    using band_order [OF assms(3-6), of "int (unat p)" "int (unat p')"] unfolding of_nat_less_iff of_nat_eq_iff .
  ultimately show ?thesis using exact [OF r(1) assms(3,4)] exact [OF r(2) assms(5,6)] by simp
qed

theorem pending_score_order_witness: "PendingScore 10 5 < PendingScore 1 3 \<and> PendingScore 5 1700000000000 = 501700000000000"
proof -
  have "NewPriority p = Inr p" if "p \<in> {1, 5, 10}" for p
    using that by (auto simp: NewPriority_def priority_levels)
  then show ?thesis
    using pending_score_order [of 10 1 5 3] pending_score_order [of 5 5 1700000000000 0] by simp
qed

end
