(* ===== verification/Redis_Model.thy ===== *)
theory Redis_Model
  imports Redis_Keys Go_Json
begin

text \<open>
  The stored form of a job (\<open>src/pkg/infrastructure/persistence/redis/job_model.go\<close>): the hash of
  decimal, base64 and JSON text that \<open>toJobFields\<close> writes and \<open>toAggregate\<close> reads.

  A hash is an association list from field to value. The result of a Lua script is a list of
  \<open>any\<close> values. The texts of the errors that \<open>encoding/base64\<close> and \<open>encoding/json\<close> report for an
  input are a parameter, \<open>decode_texts\<close>.

  Main result: a job that is written and read back is the same job, at the precision of the
  format (\<open>document_round_trip\<close>): times in milliseconds, error texts in well-formed UTF-8.
\<close>

section \<open>Fields\<close>

definition fieldID :: string where "fieldID = ''id''"
definition fieldQueue :: string where "fieldQueue = ''queue''"
definition fieldTaskType :: string where "fieldTaskType = ''task_type''"
definition fieldPayload :: string where "fieldPayload = ''payload''"
definition fieldPriority :: string where "fieldPriority = ''priority''"
definition fieldState :: string where "fieldState = ''state''"
definition fieldMaxRetries :: string where "fieldMaxRetries = ''max_retries''"
definition fieldBaseDelayMS :: string where "fieldBaseDelayMS = ''base_delay_ms''"
definition fieldMaxDelayMS :: string where "fieldMaxDelayMS = ''max_delay_ms''"
definition fieldBackoff :: string where "fieldBackoff = ''backoff''"
definition fieldIdempotencyKey :: string where "fieldIdempotencyKey = ''idempotency_key''"
definition fieldTimeoutMS :: string where "fieldTimeoutMS = ''timeout_ms''"
definition fieldAttemptsMade :: string where "fieldAttemptsMade = ''attempts_made''"
definition fieldAttempts :: string where "fieldAttempts = ''attempts''"
definition fieldLastError :: string where "fieldLastError = ''last_error''"
definition fieldCreatedAtMS :: string where "fieldCreatedAtMS = ''created_at_ms''"
definition fieldProcessAtMS :: string where "fieldProcessAtMS = ''process_at_ms''"
definition fieldCompletedAtMS :: string where "fieldCompletedAtMS = ''completed_at_ms''"
definition fieldDiedAtMS :: string where "fieldDiedAtMS = ''died_at_ms''"
definition fieldLeaseExpiryMS :: string where "fieldLeaseExpiryMS = ''lease_expiry_ms''"
definition fieldWorkerID :: string where "fieldWorkerID = ''worker_id''"

lemmas field_names = fieldID_def fieldQueue_def fieldTaskType_def fieldPayload_def fieldPriority_def
  fieldState_def fieldMaxRetries_def fieldBaseDelayMS_def fieldMaxDelayMS_def fieldBackoff_def
  fieldIdempotencyKey_def fieldTimeoutMS_def fieldAttemptsMade_def fieldAttempts_def
  fieldLastError_def fieldCreatedAtMS_def fieldProcessAtMS_def fieldCompletedAtMS_def
  fieldDiedAtMS_def fieldLeaseExpiryMS_def fieldWorkerID_def

type_synonym hash = "(string \<times> string) list"

text \<open>\<open>hash[field]\<close> is the empty string for a field that is not there.\<close>

definition field :: "hash \<Rightarrow> string \<Rightarrow> string" where
  "field h f = (case map_of h f of None \<Rightarrow> '''' | Some v \<Rightarrow> v)"

section \<open>Numbers and instants\<close>

definition toMillis :: "time \<Rightarrow> int" where
  "toMillis t = (if time_IsZero t then 0 else wrap64 (t div 1000000))"

definition toMillisPtr :: "time option \<Rightarrow> int" where
  "toMillisPtr t = (case t of None \<Rightarrow> 0 | Some x \<Rightarrow> toMillis x)"

definition fromMillis :: "int \<Rightarrow> time" where
  "fromMillis ms = (if ms = 0 then zero_time else ms * 1000000)"

definition fromMillisPtr :: "int \<Rightarrow> time option" where
  "fromMillisPtr ms = (if ms = 0 then None else Some (ms * 1000000))"

definition parseInt :: "string \<Rightarrow> int \<Rightarrow> int" where
  "parseInt raw fallback =
     (if raw = '''' then fallback
      else case strconv_ParseInt raw of None \<Rightarrow> fallback | Some v \<Rightarrow> v)"

definition parseUint :: "string \<Rightarrow> nat \<Rightarrow> nat" where
  "parseUint raw fallback =
     (if raw = '''' then fallback
      else case strconv_ParseUint raw of None \<Rightarrow> fallback | Some v \<Rightarrow> v)"

section \<open>The attempt trail\<close>

record attemptModel =
  am_Number :: uint32
  am_StartedAtMS :: int
  am_FinishedAtMS :: int
  am_Error :: string
  am_WorkerID :: string

definition attempt_json :: "attemptModel \<Rightarrow> json" where
  "attempt_json a = JObject (
     [(''number'', JNumber (FormatUint (unat (am_Number a)))),
      (''started_at_ms'', JNumber (FormatInt (am_StartedAtMS a))),
      (''finished_at_ms'', JNumber (FormatInt (am_FinishedAtMS a)))] @
     (if am_Error a = '''' then [] else [(''error'', JString (am_Error a))]) @
     (if am_WorkerID a = '''' then [] else [(''worker_id'', JString (am_WorkerID a))]))"

definition Marshal_attempts :: "attemptModel list \<Rightarrow> string" where
  "Marshal_attempts as = render_json (JArray (map attempt_json as))"

text \<open>
  \<open>json.Unmarshal\<close> matches member names up to case folding. Besides the ASCII letters two runes fold
  to an ASCII letter, the long s U+017F and the Kelvin sign U+212A. \<open>null\<close> leaves the target as it
  is; a value of the wrong type makes the whole call fail.
\<close>

definition fold_rune :: "nat \<Rightarrow> nat" where
  "fold_rune r =
     (if 97 \<le> r \<and> r \<le> 122 then r - 32 else if r = 0x17F then 83 else if r = 0x212A then 75 else r)"

function foldName :: "string \<Rightarrow> string" where
  "foldName s =
     (if s = [] then []
      else EncodeRune (fold_rune (fst (DecodeRune s))) @ foldName (drop (snd (DecodeRune s)) s))"
  by pat_completeness auto
termination by (relation "measure length") (use DecodeRune_size in auto)

declare foldName.simps [simp del]

definition json_uint32 :: "uint32 \<Rightarrow> json \<Rightarrow> uint32 option" where
  "json_uint32 cur v =
     (case v of
        JNull \<Rightarrow> Some cur
      | JNumber lit \<Rightarrow>
          (case strconv_ParseUint lit of
             Some n \<Rightarrow> if n < 2 ^ 32 then Some (word_of_nat n) else None
           | None \<Rightarrow> None)
      | _ \<Rightarrow> None)"

definition json_int64 :: "int \<Rightarrow> json \<Rightarrow> int option" where
  "json_int64 cur v =
     (case v of JNull \<Rightarrow> Some cur | JNumber lit \<Rightarrow> strconv_ParseInt lit | _ \<Rightarrow> None)"

definition json_str :: "string \<Rightarrow> json \<Rightarrow> string option" where
  "json_str cur v = (case v of JNull \<Rightarrow> Some cur | JString s \<Rightarrow> Some s | _ \<Rightarrow> None)"

definition set_member :: "attemptModel \<Rightarrow> string \<times> json \<Rightarrow> attemptModel option" where
  "set_member a m =
     (case m of (key, v) \<Rightarrow>
        let k = foldName key
        in if k = foldName ''number''
             then map_option (\<lambda>x. a\<lparr>am_Number := x\<rparr>) (json_uint32 (am_Number a) v)
           else if k = foldName ''started_at_ms''
             then map_option (\<lambda>x. a\<lparr>am_StartedAtMS := x\<rparr>) (json_int64 (am_StartedAtMS a) v)
           else if k = foldName ''finished_at_ms''
             then map_option (\<lambda>x. a\<lparr>am_FinishedAtMS := x\<rparr>) (json_int64 (am_FinishedAtMS a) v)
           else if k = foldName ''error''
             then map_option (\<lambda>x. a\<lparr>am_Error := x\<rparr>) (json_str (am_Error a) v)
           else if k = foldName ''worker_id''
             then map_option (\<lambda>x. a\<lparr>am_WorkerID := x\<rparr>) (json_str (am_WorkerID a) v)
           else Some a)"

definition zero_attempt :: attemptModel where
  "zero_attempt = \<lparr>am_Number = 0, am_StartedAtMS = 0, am_FinishedAtMS = 0, am_Error = '''', am_WorkerID = ''''\<rparr>"

definition decode_attempt :: "json \<Rightarrow> attemptModel option" where
  "decode_attempt v =
     (case v of
        JNull \<Rightarrow> Some zero_attempt
      | JObject ms \<Rightarrow> foldl (\<lambda>a m. Option.bind a (\<lambda>x. set_member x m)) (Some zero_attempt) ms
      | _ \<Rightarrow> None)"

definition Unmarshal_attempts :: "string \<Rightarrow> attemptModel list option" where
  "Unmarshal_attempts raw =
     (case parse_json raw of
        Some JNull \<Rightarrow> Some []
      | Some (JArray vs) \<Rightarrow> those (map decode_attempt vs)
      | _ \<Rightarrow> None)"

section \<open>Writing and reading a job\<close>

definition toJobFields :: "Job \<Rightarrow> string list result" where
  "toJobFields job =
     (let attempts = map (\<lambda>a. \<lparr>am_Number = a_Number a, am_StartedAtMS = toMillis (a_StartedAt a),
            am_FinishedAtMS = toMillis (a_FinishedAt a), am_Error = a_Error a, am_WorkerID = a_WorkerID a\<rparr>)
            (j_attempts job);
          attemptsJSON = Marshal_attempts attempts;
          policy = j_retryPolicy job
      in Inr
       [fieldID, j_id job,
        fieldQueue, j_queue job,
        fieldTaskType, j_taskType job,
        fieldPayload, EncodeToString (j_payload job),
        fieldPriority, FormatUint (unat (j_priority job)),
        fieldState, JobState_String (j_state job),
        fieldMaxRetries, FormatUint (unat (rp_maxRetries policy)),
        fieldBaseDelayMS, FormatInt (Milliseconds (rp_baseDelay policy)),
        fieldMaxDelayMS, FormatInt (Milliseconds (rp_maxDelay policy)),
        fieldBackoff, StrategyName policy,
        fieldIdempotencyKey, j_idempotencyKey job,
        fieldTimeoutMS, FormatInt (Milliseconds (j_timeout job)),
        fieldAttemptsMade, FormatUint (unat (j_attemptsMade job)),
        fieldAttempts, attemptsJSON,
        fieldLastError, j_lastError job,
        fieldCreatedAtMS, FormatInt (toMillis (j_createdAt job)),
        fieldProcessAtMS, FormatInt (toMillis (j_processAt job)),
        fieldCompletedAtMS, FormatInt (toMillisPtr (j_completedAt job)),
        fieldDiedAtMS, FormatInt (toMillisPtr (j_diedAt job)),
        fieldLeaseExpiryMS, FormatInt (toMillisPtr (j_leaseExpiry job)),
        fieldWorkerID, j_workerID job])"

record decode_texts =
  dt_base64 :: "string \<Rightarrow> string"
  dt_json :: "string \<Rightarrow> string"

definition decode_failed :: "string \<Rightarrow> string \<Rightarrow> go_error" where
  "decode_failed msg text = Internal ''job_decode_failed'' msg (Some (ForeignError text None))"

definition millis_duration :: "int \<Rightarrow> duration" where
  "millis_duration ms = wrap64 (ms * millisecond)"

definition toAggregate :: "decode_texts \<Rightarrow> hash \<Rightarrow> Job result" where
  "toAggregate txt h =
     (if h = [] then Inl (NotFound EJobNotFound ''job document is empty'')
      else
        andThen (NewJobID (field h fieldID)) (\<lambda>i.
        andThen (NewQueueName (field h fieldQueue)) (\<lambda>queue.
        andThen (NewTaskType (field h fieldTaskType)) (\<lambda>taskType.
        andThen (NewJobState (field h fieldState)) (\<lambda>state.
        andThen (NewPriority (word_of_nat (parseUint (field h fieldPriority) (unat PriorityNormal)))) (\<lambda>priority.
        andThen (NewIdempotencyKey (field h fieldIdempotencyKey)) (\<lambda>idempotencyKey.
        case DecodeString (field h fieldPayload) of
          None \<Rightarrow> Inl (decode_failed ''failed to decode job payload'' (dt_base64 txt (field h fieldPayload)))
        | Some payload \<Rightarrow>
        andThen (NewRetryPolicy
            (word_of_nat (parseUint (field h fieldMaxRetries) (unat DefaultMaxRetries)))
            (millis_duration (parseInt (field h fieldBaseDelayMS) (Milliseconds DefaultBaseDelay)))
            (millis_duration (parseInt (field h fieldMaxDelayMS) (Milliseconds DefaultMaxDelay)))
            (field h fieldBackoff)) (\<lambda>policy.
        let raw = field h fieldAttempts
        in case (if raw \<noteq> '''' then Unmarshal_attempts raw else Some []) of
          None \<Rightarrow> Inl (decode_failed ''failed to decode job attempts'' (dt_json txt raw))
        | Some attemptModels \<Rightarrow>
        Inr (Reconstitute
         \<lparr>j_id = i, j_queue = queue, j_taskType = taskType, j_payload = payload,
          j_priority = priority, j_state = state, j_retryPolicy = policy,
          j_idempotencyKey = idempotencyKey,
          j_timeout = millis_duration (parseInt (field h fieldTimeoutMS) (Milliseconds DefaultTimeout)),
          j_attemptsMade = word_of_nat (parseUint (field h fieldAttemptsMade) 0),
          j_attempts = map (\<lambda>a. \<lparr>a_Number = am_Number a, a_StartedAt = fromMillis (am_StartedAtMS a),
              a_FinishedAt = fromMillis (am_FinishedAtMS a), a_Error = am_Error a,
              a_WorkerID = am_WorkerID a\<rparr>) attemptModels,
          j_lastError = field h fieldLastError,
          j_createdAt = fromMillis (parseInt (field h fieldCreatedAtMS) 0),
          j_processAt = fromMillis (parseInt (field h fieldProcessAtMS) 0),
          j_completedAt = fromMillisPtr (parseInt (field h fieldCompletedAtMS) 0),
          j_diedAt = fromMillisPtr (parseInt (field h fieldDiedAtMS) 0),
          j_leaseExpiry = fromMillisPtr (parseInt (field h fieldLeaseExpiryMS) 0),
          j_workerID = field h fieldWorkerID\<rparr>)))))))))"

text \<open>
  A value in the reply of a script: a string, or something else (an integer, a nil). A pair whose
  key is not a string is skipped, a value that is not a string becomes the empty string.
\<close>

datatype any = AnyString string | AnyOther

fun flat_pairs :: "any list \<Rightarrow> hash \<Rightarrow> hash" where
  "flat_pairs (AnyString key # v # raw) out =
     flat_pairs raw (AList.update key (case v of AnyString s \<Rightarrow> s | AnyOther \<Rightarrow> '''') out)"
| "flat_pairs (AnyOther # v # raw) out = flat_pairs raw out"
| "flat_pairs _ out = out"

definition flatArrayToMap :: "any list \<Rightarrow> hash result" where
  "flatArrayToMap raw =
     (if length raw mod 2 \<noteq> 0
      then Inl (Internal ''job_decode_failed'' ''malformed job hash: odd number of elements'' None)
      else Inr (flat_pairs raw []))"

section \<open>Round trip of the attempt trail\<close>

lemma folded_names:
  "foldName ''number'' = ''NUMBER''" "foldName ''started_at_ms'' = ''STARTED_AT_MS''"
  "foldName ''finished_at_ms'' = ''FINISHED_AT_MS''" "foldName ''error'' = ''ERROR''"
  "foldName ''worker_id'' = ''WORKER_ID''"
  by (simp_all add: foldName.simps DecodeRune_by_lead fold_rune_def EncodeRune_def char_of_def bit_0)

lemma ascii_names:
  "to_utf8 ''number'' = ''number''" "to_utf8 ''started_at_ms'' = ''started_at_ms''"
  "to_utf8 ''finished_at_ms'' = ''finished_at_ms''" "to_utf8 ''error'' = ''error''"
  "to_utf8 ''worker_id'' = ''worker_id''"
  by (simp_all add: to_utf8_id utf8_Valid_ascii)

definition int64 :: "int \<Rightarrow> bool" where
  "int64 i \<longleftrightarrow> - (2 ^ 63) \<le> i \<and> i < 2 ^ 63"

lemma wrap64_int64 [simp]: "int64 (wrap64 x)"
  using wrap64_range [of x] by (simp add: int64_def)

lemma ParseInt_Format_int64 [simp]: "int64 i \<Longrightarrow> strconv_ParseInt (FormatInt i) = Some i"
  by (simp add: int64_def)

lemma unat_32_less [simp]: "unat (w :: uint32) < 4294967296" "unat (w :: uint32) < 18446744073709551616"
  using unsigned_less [of w, where 'a = nat] by simp_all

lemma decode_attempt_json:
  assumes "int64 (am_StartedAtMS a)" "int64 (am_FinishedAtMS a)"
  shows "decode_attempt (normal_json (attempt_json a)) =
    Some (a\<lparr>am_Error := to_utf8 (am_Error a), am_WorkerID := to_utf8 (am_WorkerID a)\<rparr>)"
  using assms
  by (simp add: decode_attempt_def attempt_json_def zero_attempt_def ascii_names set_member_def
      folded_names json_uint32_def json_int64_def json_str_def)

lemma those_map: "(\<And>x. x \<in> set xs \<Longrightarrow> f x = Some (g x)) \<Longrightarrow> those (map f xs) = Some (map g xs)"
  by (induction xs) auto

lemma attempt_json_renderable: "renderable (attempt_json a)" "json_depth (attempt_json a) = 1"
proof -
  have "FormatUint n = FormatInt (int n)" for n by (simp add: FormatUint_def FormatInt_def)
  then show "renderable (attempt_json a)" by (auto simp: attempt_json_def)
  show "json_depth (attempt_json a) = 1" by (simp add: attempt_json_def)
qed

lemma Unmarshal_Marshal:
  assumes "\<And>a. a \<in> set as \<Longrightarrow> int64 (am_StartedAtMS a) \<and> int64 (am_FinishedAtMS a)"
  shows "Unmarshal_attempts (Marshal_attempts as) =
    Some (map (\<lambda>a. a\<lparr>am_Error := to_utf8 (am_Error a), am_WorkerID := to_utf8 (am_WorkerID a)\<rparr>) as)"
proof -
  let ?v = "JArray (map attempt_json as)"
  have "fold max (map json_depth (map attempt_json as)) n = (if as = [] then n else max n 1)" for n :: nat
    by (induction as arbitrary: n) (auto simp: attempt_json_renderable)
  then have "json_depth ?v \<le> maxNestingDepth" by (simp add: maxNestingDepth_def)
  moreover have "renderable ?v" by (simp add: list_all_iff attempt_json_renderable)
  ultimately have "parse_json (render_json ?v) = Some (normal_json ?v)" by (intro parse_render_json)
  then show ?thesis
    using assms unfolding Unmarshal_attempts_def Marshal_attempts_def
    by (simp add: those_map decode_attempt_json)
qed

section \<open>Round trip of a document\<close>

text \<open>The fields as pairs, and the flat list as the pairs one after the other.\<close>

fun flatten :: "hash \<Rightarrow> string list" where
  "flatten [] = []"
| "flatten ((k, v) # ps) = k # v # flatten ps"

lemma flat_pairs_flatten:
  "keys_distinct ps \<Longrightarrow> set (map fst ps) \<inter> set (map fst out) = {} \<Longrightarrow>
     flat_pairs (map AnyString (flatten ps)) out = out @ ps"
proof (induction ps arbitrary: out rule: flatten.induct)
  case (2 k v ps)
  have "k \<notin> set (map fst out)" using "2.prems"(2) by auto
  then have "AList.update k v out = out @ [(k, v)]" by (induction out) auto
  moreover have "flat_pairs (map AnyString (flatten ps)) (out @ [(k, v)]) = (out @ [(k, v)]) @ ps"
    using "2.prems" by (intro "2.IH") auto
  ultimately show ?case by simp
qed simp

lemma length_flatten: "length (flatten ps) = 2 * length ps"
  by (induction ps rule: flatten.induct) auto

lemma flatArrayToMap_flatten:
  "keys_distinct ps \<Longrightarrow> flatArrayToMap (map AnyString (flatten ps)) = Inr ps"
  using flat_pairs_flatten [of ps "[]"] by (simp add: flatArrayToMap_def length_flatten)

definition stored_attempt :: "Attempt \<Rightarrow> Attempt" where
  "stored_attempt a =
     a\<lparr>a_StartedAt := fromMillis (toMillis (a_StartedAt a)),
       a_FinishedAt := fromMillis (toMillis (a_FinishedAt a)),
       a_Error := to_utf8 (a_Error a), a_WorkerID := to_utf8 (a_WorkerID a)\<rparr>"

definition stored :: "Job \<Rightarrow> Job" where
  "stored j =
     j\<lparr>j_timeout := Milliseconds (j_timeout j) * millisecond,
       j_attempts := map stored_attempt (j_attempts j),
       j_createdAt := fromMillis (toMillis (j_createdAt j)),
       j_processAt := fromMillis (toMillis (j_processAt j)),
       j_completedAt := fromMillisPtr (toMillisPtr (j_completedAt j)),
       j_diedAt := fromMillisPtr (toMillisPtr (j_diedAt j)),
       j_leaseExpiry := fromMillisPtr (toMillisPtr (j_leaseExpiry j))\<rparr>"

definition job_pairs :: "Job \<Rightarrow> hash" where
  "job_pairs job =
     [(fieldID, j_id job), (fieldQueue, j_queue job), (fieldTaskType, j_taskType job),
      (fieldPayload, EncodeToString (j_payload job)),
      (fieldPriority, FormatUint (unat (j_priority job))),
      (fieldState, JobState_String (j_state job)),
      (fieldMaxRetries, FormatUint (unat (rp_maxRetries (j_retryPolicy job)))),
      (fieldBaseDelayMS, FormatInt (Milliseconds (rp_baseDelay (j_retryPolicy job)))),
      (fieldMaxDelayMS, FormatInt (Milliseconds (rp_maxDelay (j_retryPolicy job)))),
      (fieldBackoff, StrategyName (j_retryPolicy job)),
      (fieldIdempotencyKey, j_idempotencyKey job),
      (fieldTimeoutMS, FormatInt (Milliseconds (j_timeout job))),
      (fieldAttemptsMade, FormatUint (unat (j_attemptsMade job))),
      (fieldAttempts, Marshal_attempts (map (\<lambda>a. \<lparr>am_Number = a_Number a,
          am_StartedAtMS = toMillis (a_StartedAt a), am_FinishedAtMS = toMillis (a_FinishedAt a),
          am_Error = a_Error a, am_WorkerID = a_WorkerID a\<rparr>) (j_attempts job))),
      (fieldLastError, j_lastError job),
      (fieldCreatedAtMS, FormatInt (toMillis (j_createdAt job))),
      (fieldProcessAtMS, FormatInt (toMillis (j_processAt job))),
      (fieldCompletedAtMS, FormatInt (toMillisPtr (j_completedAt job))),
      (fieldDiedAtMS, FormatInt (toMillisPtr (j_diedAt job))),
      (fieldLeaseExpiryMS, FormatInt (toMillisPtr (j_leaseExpiry job))),
      (fieldWorkerID, j_workerID job)]"

lemma toJobFields_pairs: "toJobFields job = Inr (flatten (job_pairs job))"
  by (simp add: toJobFields_def job_pairs_def Let_def)

lemma job_pairs_distinct [simp]: "keys_distinct (job_pairs job)"
  by (simp add: job_pairs_def field_names)

lemma toMillis_int64 [simp]: "int64 (toMillis t)" "int64 (toMillisPtr t')"
  by (simp_all add: toMillis_def toMillisPtr_def split: option.split) (simp_all add: int64_def)

lemma parse_Format [simp]:
  "int64 i \<Longrightarrow> parseInt (FormatInt i) fb = i"
  "n < 2 ^ 64 \<Longrightarrow> parseUint (FormatUint n) fb' = n"
  by (simp_all add: parseInt_def parseUint_def)

lemma Milliseconds_int64: "0 \<le> d \<Longrightarrow> d < 2 ^ 63 \<Longrightarrow> int64 (Milliseconds d)"
  unfolding Milliseconds_def int64_def by (simp, linarith)

lemma Milliseconds_back: "0 \<le> d \<Longrightarrow> d < 2 ^ 63 \<Longrightarrow>
    millis_duration (Milliseconds d) = Milliseconds d * millisecond"
  by (simp add: Milliseconds_def millis_duration_def millisecond_def)

text \<open>
  A job that the domain can create: canonical names, a valid policy. The policy of a stored job
  is in whole milliseconds; the API takes whole seconds.
\<close>

definition whole_millis :: "int \<Rightarrow> bool" where
  "whole_millis d \<longleftrightarrow> d mod millisecond = 0"

definition storable :: "Job \<Rightarrow> bool" where
  "storable j \<longleftrightarrow>
     NewJobID (j_id j) = Inr (j_id j) \<and> NewQueueName (j_queue j) = Inr (j_queue j) \<and>
     NewTaskType (j_taskType j) = Inr (j_taskType j) \<and> NewPriority (j_priority j) = Inr (j_priority j) \<and>
     NewIdempotencyKey (j_idempotencyKey j) = Inr (j_idempotencyKey j) \<and>
     valid_policy (j_retryPolicy j) \<and> rp_maxDelay (j_retryPolicy j) < 2 ^ 63 \<and>
     whole_millis (rp_baseDelay (j_retryPolicy j)) \<and> whole_millis (rp_maxDelay (j_retryPolicy j)) \<and>
     0 \<le> j_timeout j \<and> j_timeout j < 2 ^ 63"

lemma whole_millis_back: "0 \<le> d \<Longrightarrow> d < 2 ^ 63 \<Longrightarrow> whole_millis d \<Longrightarrow>
    millis_duration (Milliseconds d) = d"
  unfolding Milliseconds_back by (auto simp: Milliseconds_def whole_millis_def millisecond_def)

lemma unat_8_less [simp]: "unat (w :: uint8) < 18446744073709551616"
  using unsigned_less [of w, where 'a = nat] by simp

lemma Marshal_nonempty [simp]: "Marshal_attempts as \<noteq> []"
  by (simp add: Marshal_attempts_def)

lemma field_job_pairs [simp]:
  "field (job_pairs j) fieldID = j_id j" "field (job_pairs j) fieldQueue = j_queue j"
  "field (job_pairs j) fieldTaskType = j_taskType j"
  "field (job_pairs j) fieldPayload = EncodeToString (j_payload j)"
  "field (job_pairs j) fieldPriority = FormatUint (unat (j_priority j))"
  "field (job_pairs j) fieldState = JobState_String (j_state j)"
  "field (job_pairs j) fieldMaxRetries = FormatUint (unat (rp_maxRetries (j_retryPolicy j)))"
  "field (job_pairs j) fieldBaseDelayMS = FormatInt (Milliseconds (rp_baseDelay (j_retryPolicy j)))"
  "field (job_pairs j) fieldMaxDelayMS = FormatInt (Milliseconds (rp_maxDelay (j_retryPolicy j)))"
  "field (job_pairs j) fieldBackoff = StrategyName (j_retryPolicy j)"
  "field (job_pairs j) fieldIdempotencyKey = j_idempotencyKey j"
  "field (job_pairs j) fieldTimeoutMS = FormatInt (Milliseconds (j_timeout j))"
  "field (job_pairs j) fieldAttemptsMade = FormatUint (unat (j_attemptsMade j))"
  "field (job_pairs j) fieldLastError = j_lastError j"
  "field (job_pairs j) fieldCreatedAtMS = FormatInt (toMillis (j_createdAt j))"
  "field (job_pairs j) fieldProcessAtMS = FormatInt (toMillis (j_processAt j))"
  "field (job_pairs j) fieldCompletedAtMS = FormatInt (toMillisPtr (j_completedAt j))"
  "field (job_pairs j) fieldDiedAtMS = FormatInt (toMillisPtr (j_diedAt j))"
  "field (job_pairs j) fieldLeaseExpiryMS = FormatInt (toMillisPtr (j_leaseExpiry j))"
  "field (job_pairs j) fieldWorkerID = j_workerID j"
  by (simp_all add: field_def job_pairs_def field_names)

lemma Unmarshal_job_attempts:
  "field (job_pairs j) fieldAttempts \<noteq> []"
  "map_option (map (\<lambda>a. \<lparr>a_Number = am_Number a, a_StartedAt = fromMillis (am_StartedAtMS a),
       a_FinishedAt = fromMillis (am_FinishedAtMS a), a_Error = am_Error a, a_WorkerID = am_WorkerID a\<rparr>))
     (Unmarshal_attempts (field (job_pairs j) fieldAttempts)) = Some (map stored_attempt (j_attempts j))"
proof -
  let ?as = "map (\<lambda>a. \<lparr>am_Number = a_Number a, am_StartedAtMS = toMillis (a_StartedAt a),
    am_FinishedAtMS = toMillis (a_FinishedAt a), am_Error = a_Error a, am_WorkerID = a_WorkerID a\<rparr>) (j_attempts j)"
  have f: "field (job_pairs j) fieldAttempts = Marshal_attempts ?as"
    by (simp add: field_def job_pairs_def field_names)
  then show "field (job_pairs j) fieldAttempts \<noteq> []" by simp
  have "Unmarshal_attempts (Marshal_attempts ?as) =
    Some (map (\<lambda>a. a\<lparr>am_Error := to_utf8 (am_Error a), am_WorkerID := to_utf8 (am_WorkerID a)\<rparr>) ?as)"
    by (rule Unmarshal_Marshal) auto
  then show "map_option (map (\<lambda>a. \<lparr>a_Number = am_Number a, a_StartedAt = fromMillis (am_StartedAtMS a),
       a_FinishedAt = fromMillis (am_FinishedAtMS a), a_Error = am_Error a, a_WorkerID = am_WorkerID a\<rparr>))
     (Unmarshal_attempts (field (job_pairs j) fieldAttempts)) = Some (map stored_attempt (j_attempts j))"
    unfolding f by (simp add: stored_attempt_def)
qed

lemma toAggregate_job_pairs:
  assumes "storable j"
  shows "toAggregate txt (job_pairs j) = Inr (stored j)"
proof -
  let ?p = "j_retryPolicy j"
  have v: "valid_policy ?p" using assms by (simp add: storable_def)
  have base: "0 \<le> rp_baseDelay ?p" "rp_baseDelay ?p < 2 ^ 63" "0 \<le> rp_maxDelay ?p" "rp_maxDelay ?p < 2 ^ 63"
    using assms by (auto simp: storable_def valid_policy_def)
  note ms = Milliseconds_int64 [OF base(1,2)] Milliseconds_int64 [OF base(3,4)]
  have pol: "NewRetryPolicy (rp_maxRetries ?p) (millis_duration (Milliseconds (rp_baseDelay ?p)))
      (millis_duration (Milliseconds (rp_maxDelay ?p))) (StrategyName ?p) = Inr ?p"
    using assms valid_policy_rebuild [OF v] base by (simp add: storable_def whole_millis_back)
  have t: "0 \<le> j_timeout j" "j_timeout j < 2 ^ 63" using assms by (auto simp: storable_def)
  obtain ams where ams: "Unmarshal_attempts (field (job_pairs j) fieldAttempts) = Some ams"
    "map (\<lambda>a. \<lparr>a_Number = am_Number a, a_StartedAt = fromMillis (am_StartedAtMS a),
       a_FinishedAt = fromMillis (am_FinishedAtMS a), a_Error = am_Error a, a_WorkerID = am_WorkerID a\<rparr>) ams =
     map stored_attempt (j_attempts j)"
    using Unmarshal_job_attempts(2) [of j] by auto
  have ne: "job_pairs j \<noteq> []" by (simp add: job_pairs_def)
  show ?thesis
    using assms ne pol ms ams t Milliseconds_int64 [OF t] Unmarshal_job_attempts(1) [of j]
    by (simp add: toAggregate_def storable_def Let_def Milliseconds_back NewJobState_String
        Reconstitute_def stored_def)
qed

text \<open>
  The format is exact for a job whose instants are whole milliseconds other than the epoch (or
  the zero time), whose timeout is whole milliseconds and whose texts are well-formed.
\<close>

definition exact_time :: "time \<Rightarrow> bool" where
  "exact_time t \<longleftrightarrow>
     t = zero_time \<or> whole_millis t \<and> t \<noteq> 0 \<and> - (2 ^ 63) \<le> t div millisecond \<and> t div millisecond < 2 ^ 63"

definition exact_stamp :: "time option \<Rightarrow> bool" where
  "exact_stamp t \<longleftrightarrow> (case t of None \<Rightarrow> True | Some x \<Rightarrow> exact_time x \<and> x \<noteq> zero_time)"

definition exact_attempt :: "Attempt \<Rightarrow> bool" where
  "exact_attempt a \<longleftrightarrow>
     exact_time (a_StartedAt a) \<and> exact_time (a_FinishedAt a) \<and> utf8_Valid (a_Error a) \<and> utf8_Valid (a_WorkerID a)"

definition exact_job :: "Job \<Rightarrow> bool" where
  "exact_job j \<longleftrightarrow>
     whole_millis (j_timeout j) \<and> exact_time (j_createdAt j) \<and> exact_time (j_processAt j) \<and>
     exact_stamp (j_completedAt j) \<and> exact_stamp (j_diedAt j) \<and> exact_stamp (j_leaseExpiry j) \<and>
     list_all exact_attempt (j_attempts j)"

lemma exact_time_back: "exact_time t \<Longrightarrow> fromMillis (toMillis t) = t"
  by (auto simp: exact_time_def fromMillis_def toMillis_def time_IsZero_def whole_millis_def millisecond_def)

lemma exact_stamp_back: "exact_stamp t \<Longrightarrow> fromMillisPtr (toMillisPtr t) = t"
  by (auto simp: exact_stamp_def exact_time_def fromMillisPtr_def toMillisPtr_def toMillis_def
      time_IsZero_def whole_millis_def millisecond_def split: option.splits)

lemma stored_exact:
  assumes "exact_job j" "0 \<le> j_timeout j"
  shows "stored j = j"
proof -
  have "map stored_attempt (j_attempts j) = j_attempts j"
    using assms(1) by (auto simp: exact_job_def exact_attempt_def list_all_iff stored_attempt_def
        exact_time_back to_utf8_id intro!: map_idI)
  moreover have "Milliseconds (j_timeout j) * millisecond = j_timeout j"
    using assms by (auto simp: exact_job_def Milliseconds_def whole_millis_def millisecond_def)
  ultimately show ?thesis
    using assms(1) by (simp add: stored_def exact_job_def exact_time_back exact_stamp_back)
qed

text \<open>
  C10. A job that is written to Redis and read back is the same job at the precision of the format:
  the reply of a script that returns the fields \<open>toJobFields\<close> wrote decodes, and the result is the
  job with its instants and timeout cut to milliseconds and the texts of its attempts in
  well-formed UTF-8; it is exactly the job when it has no finer instants and no other texts.\<close>

theorem document_round_trip:
  assumes "storable j"
  shows "\<exists>fields h. toJobFields j = Inr fields \<and> flatArrayToMap (map AnyString fields) = Inr h \<and>
    toAggregate txt h = Inr (stored j) \<and> (exact_job j \<longrightarrow> toAggregate txt h = Inr j)"
proof -
  have "flatArrayToMap (map AnyString (flatten (job_pairs j))) = Inr (job_pairs j)"
    by (rule flatArrayToMap_flatten) simp
  moreover have "exact_job j \<longrightarrow> stored j = j" using assms stored_exact by (auto simp: storable_def)
  ultimately show ?thesis
    using toJobFields_pairs toAggregate_job_pairs [OF assms] by metis
qed

definition sample_job :: Job where
  "sample_job =
     \<lparr>j_id = ''j1'', j_queue = ''default'', j_taskType = ''email:send'', j_payload = [CHR 0x00, CHR 0xFF],
      j_priority = 8, j_state = StateActive, j_retryPolicy = DefaultRetryPolicy, j_idempotencyKey = ''order-7'',
      j_timeout = 30 * second, j_attemptsMade = 2,
      j_attempts = [\<lparr>a_Number = 1, a_StartedAt = 1700000000 * second, a_FinishedAt = 1700000001 * second,
                       a_Error = ''a < b'', a_WorkerID = ''w1''\<rparr>,
                     \<lparr>a_Number = 2, a_StartedAt = 1700000060 * second, a_FinishedAt = zero_time,
                       a_Error = '''', a_WorkerID = ''w2''\<rparr>],
      j_lastError = ''a < b'', j_createdAt = 1699999999 * second, j_processAt = 1700000060 * second,
      j_completedAt = None, j_diedAt = None, j_leaseExpiry = Some (1700000120 * second), j_workerID = ''w2''\<rparr>"

lemma sample_job_storable: "storable sample_job" "exact_job sample_job"
  by (simp_all add: sample_job_def storable_def exact_job_def exact_attempt_def exact_time_def
      exact_stamp_def whole_millis_def DefaultRetryPolicy_def policy_limits valid_policy_def zero_time_def
      NewJobID_def NewQueueName_def NewTaskType_def NewIdempotencyKey_def NewPriority_def
      TrimSpace_id space_free_def ToLower_id lower_stable_def queueNamePattern_def taskTypePattern_def
      matches_name_def queue_head_def queue_tail_def task_head_def task_tail_def is_lower_def is_digit_def
      is_upper_def ContainsAny_def maxJobIDLength_def maxIdempotencyKeyLength_def MinPriority_def
      MaxPriority_def utf8_Valid_ascii Let_def)

theorem document_round_trip_witness:
  "\<exists>fields h. toJobFields sample_job = Inr fields \<and> flatArrayToMap (map AnyString fields) = Inr h \<and>
     toAggregate \<lparr>dt_base64 = (\<lambda>_. ''corrupt''), dt_json = (\<lambda>_. ''syntax'')\<rparr> h = Inr sample_job"
  using document_round_trip [OF sample_job_storable(1)] sample_job_storable(2) by blast

end
