(* ===== verification/Redis_Server.thy ===== *)
theory Redis_Server
  imports Redis_Model
begin

text \<open>
  The Redis server and the connection to it, as the program's Redis adapters see them.

  The server is not part of the program: it is a parameter, a record \<open>'r redis\<close> of the commands the
  program and its Lua scripts call, over a server state of type \<open>'r\<close>. What the program relies on is
  the locale \<open>redis_server\<close>: every command behaves as the reference command, as the Redis
  documentation describes it, on a related reference state (\<open>L s m\<close>). The relation leaves open what the
  documentation leaves open, the order in which \<open>HGETALL\<close> and \<open>SMEMBERS\<close> reply. Besides the commands the
  record has the passing of time between two calls, \<open>r_elapse\<close>, which counts the times to live down
  and removes the keys whose time is over.

  A Lua script is a program over that record, run without interruption by the server. The
  connection decides how often a request is executed: the client library repeats a request whose
  reply was lost, and may give up after some executions. \<open>send\<close> reads these decisions from a list,
  over which every statement quantifies.
\<close>

section \<open>Commands\<close>

text \<open>
  Scores are the integers the program stores (a \<open>float64\<close> each); \<open>r_tonumber\<close> is the \<open>tonumber\<close> of
  the script interpreter, \<open>None\<close> for a text that is no number.
\<close>

record 'r redis =
  r_EXISTS :: "string \<Rightarrow> ('r, bool) call"
  r_DEL :: "string \<Rightarrow> ('r, unit) call"
  r_EXPIRE :: "string \<Rightarrow> int \<Rightarrow> ('r, unit) call"
  r_PERSIST :: "string \<Rightarrow> ('r, unit) call"
  r_GET :: "string \<Rightarrow> ('r, string option) call"
  r_SETNX :: "string \<Rightarrow> string \<Rightarrow> duration \<Rightarrow> ('r, bool) call"
  r_SADD :: "string \<Rightarrow> string \<Rightarrow> ('r, unit) call"
  r_SMEMBERS :: "string \<Rightarrow> ('r, string list) call"
  r_SISMEMBER :: "string \<Rightarrow> string \<Rightarrow> ('r, bool) call"
  r_HSET :: "string \<Rightarrow> hash \<Rightarrow> ('r, unit) call"
  r_HSETNX :: "string \<Rightarrow> string \<Rightarrow> string \<Rightarrow> ('r, unit) call"
  r_HGET :: "string \<Rightarrow> string \<Rightarrow> ('r, string option) call"
  r_HGETALL :: "string \<Rightarrow> ('r, hash) call"
  r_ZADD :: "string \<Rightarrow> int \<Rightarrow> string \<Rightarrow> ('r, unit) call"
  r_ZREM :: "string \<Rightarrow> string \<Rightarrow> ('r, unit) call"
  r_ZPOPMIN :: "string \<Rightarrow> ('r, string option) call"
  r_ZSCORE :: "string \<Rightarrow> string \<Rightarrow> ('r, int option) call"
  r_ZRANGEBYSCORE :: "string \<Rightarrow> int \<Rightarrow> int \<Rightarrow> ('r, string list) call"
  r_ZRANGE :: "string \<Rightarrow> int \<Rightarrow> ('r, string list) call"
  r_ZCARD :: "string \<Rightarrow> ('r, int) call"
  r_tonumber :: "string \<Rightarrow> int option"
  r_elapse :: "int \<Rightarrow> 'r \<Rightarrow> 'r"

section \<open>The reference server\<close>

datatype rvalue =
    RString string
  | RHash hash
  | RZset "(int \<times> string) list"
  | RSet "string list"

text \<open>
  A key has a value and possibly a time to live, in milliseconds. A sorted set is the list of its
  members in the order of score and name. An empty hash, set or sorted set is an absent key.
\<close>

record entry =
  e_value :: rvalue
  e_ttl :: "int option"

type_synonym ref_db = "string \<Rightarrow> entry option"

definition wrongtype :: go_error where
  "wrongtype = ForeignError ''WRONGTYPE Operation against a key holding the wrong kind of value'' None"

definition hash_at :: "ref_db \<Rightarrow> string \<Rightarrow> hash option" where
  "hash_at m k =
     (case m k of None \<Rightarrow> Some [] | Some e \<Rightarrow> (case e_value e of RHash h \<Rightarrow> Some h | _ \<Rightarrow> None))"

definition zset_at :: "ref_db \<Rightarrow> string \<Rightarrow> (int \<times> string) list option" where
  "zset_at m k =
     (case m k of None \<Rightarrow> Some [] | Some e \<Rightarrow> (case e_value e of RZset z \<Rightarrow> Some z | _ \<Rightarrow> None))"

definition set_at :: "ref_db \<Rightarrow> string \<Rightarrow> string list option" where
  "set_at m k =
     (case m k of None \<Rightarrow> Some [] | Some e \<Rightarrow> (case e_value e of RSet xs \<Rightarrow> Some xs | _ \<Rightarrow> None))"

definition put_value :: "string \<Rightarrow> rvalue \<Rightarrow> ref_db \<Rightarrow> ref_db" where
  "put_value k v m =
     m(k \<mapsto> \<lparr>e_value = v, e_ttl = (case m k of None \<Rightarrow> None | Some e \<Rightarrow> e_ttl e)\<rparr>)"

definition put_zset :: "string \<Rightarrow> (int \<times> string) list \<Rightarrow> ref_db \<Rightarrow> ref_db" where
  "put_zset k z m = (if z = [] then m(k := None) else put_value k (RZset z) m)"

definition on :: "'a option \<Rightarrow> ('a \<Rightarrow> ref_db \<times> 'b result) \<Rightarrow> ref_db \<Rightarrow> ref_db \<times> 'b result" where
  "on x f m = (case x of None \<Rightarrow> (m, Inl wrongtype) | Some v \<Rightarrow> f v)"

definition hset :: "hash \<Rightarrow> hash \<Rightarrow> hash" where
  "hset h fs = fold (\<lambda>(f, v) h. AList.update f v h) fs h"

definition zdel :: "string \<Rightarrow> (int \<times> string) list \<Rightarrow> (int \<times> string) list" where
  "zdel x z = filter (\<lambda>(s, y). y \<noteq> x) z"

definition zput :: "int \<Rightarrow> string \<Rightarrow> (int \<times> string) list \<Rightarrow> (int \<times> string) list" where
  "zput s x z = insort (s, x) (zdel x z)"

definition first_items :: "int \<Rightarrow> 'a list \<Rightarrow> 'a list" where
  "first_items n xs = (if n < 0 then xs else take (nat n) xs)"

definition ref_EXISTS :: "string \<Rightarrow> (ref_db, bool) call" where
  "ref_EXISTS k m = (m, Inr (m k \<noteq> None))"

definition ref_DEL :: "string \<Rightarrow> (ref_db, unit) call" where
  "ref_DEL k m = (m(k := None), Inr ())"

definition ref_EXPIRE :: "string \<Rightarrow> int \<Rightarrow> (ref_db, unit) call" where
  "ref_EXPIRE k secs m =
     (case m k of
        None \<Rightarrow> (m, Inr ())
      | Some e \<Rightarrow> (if secs \<le> 0 then m(k := None) else m(k \<mapsto> e\<lparr>e_ttl := Some (secs * 1000)\<rparr>), Inr ()))"

definition ref_PERSIST :: "string \<Rightarrow> (ref_db, unit) call" where
  "ref_PERSIST k m = (m(k := map_option (e_ttl_update (\<lambda>_. None)) (m k)), Inr ())"

definition ref_GET :: "string \<Rightarrow> (ref_db, string option) call" where
  "ref_GET k m =
     (case m k of
        None \<Rightarrow> (m, Inr None)
      | Some e \<Rightarrow> (case e_value e of RString v \<Rightarrow> (m, Inr (Some v)) | _ \<Rightarrow> (m, Inl wrongtype)))"

text \<open>An expiration of zero, or the client library's \<open>KeepTTL\<close> (-1), means none.\<close>

definition ref_SETNX :: "string \<Rightarrow> string \<Rightarrow> duration \<Rightarrow> (ref_db, bool) call" where
  "ref_SETNX k v d m =
     (if d < -1 then (m, Inl (ForeignError ''ERR invalid expire time'' None))
      else if m k \<noteq> None then (m, Inr False)
      else (m(k \<mapsto> \<lparr>e_value = RString v,
                     e_ttl = (if d = 0 \<or> d = -1 then None else Some (max 1 (d div millisecond)))\<rparr>), Inr True))"

definition ref_SADD :: "string \<Rightarrow> string \<Rightarrow> (ref_db, unit) call" where
  "ref_SADD k x m = on (set_at m k) (\<lambda>xs. (put_value k (RSet (List.insert x xs)) m, Inr ())) m"

definition ref_SMEMBERS :: "string \<Rightarrow> (ref_db, string list) call" where
  "ref_SMEMBERS k m = on (set_at m k) (\<lambda>xs. (m, Inr xs)) m"

definition ref_SISMEMBER :: "string \<Rightarrow> string \<Rightarrow> (ref_db, bool) call" where
  "ref_SISMEMBER k x m = on (set_at m k) (\<lambda>xs. (m, Inr (List.member xs x))) m"

definition ref_HSET :: "string \<Rightarrow> hash \<Rightarrow> (ref_db, unit) call" where
  "ref_HSET k fs m =
     (if fs = [] then (m, Inl (ForeignError ''ERR wrong number of arguments for hset'' None))
      else on (hash_at m k) (\<lambda>h. (put_value k (RHash (hset h fs)) m, Inr ())) m)"

definition ref_HSETNX :: "string \<Rightarrow> string \<Rightarrow> string \<Rightarrow> (ref_db, unit) call" where
  "ref_HSETNX k f v m =
     on (hash_at m k) (\<lambda>h. (if map_of h f = None then put_value k (RHash (AList.update f v h)) m else m, Inr ())) m"

definition ref_HGET :: "string \<Rightarrow> string \<Rightarrow> (ref_db, string option) call" where
  "ref_HGET k f m = on (hash_at m k) (\<lambda>h. (m, Inr (map_of h f))) m"

definition ref_HGETALL :: "string \<Rightarrow> (ref_db, hash) call" where
  "ref_HGETALL k m = on (hash_at m k) (\<lambda>h. (m, Inr h)) m"

definition ref_ZADD :: "string \<Rightarrow> int \<Rightarrow> string \<Rightarrow> (ref_db, unit) call" where
  "ref_ZADD k s x m = on (zset_at m k) (\<lambda>z. (put_zset k (zput s x z) m, Inr ())) m"

definition ref_ZREM :: "string \<Rightarrow> string \<Rightarrow> (ref_db, unit) call" where
  "ref_ZREM k x m = on (zset_at m k) (\<lambda>z. (put_zset k (zdel x z) m, Inr ())) m"

definition ref_ZPOPMIN :: "string \<Rightarrow> (ref_db, string option) call" where
  "ref_ZPOPMIN k m =
     on (zset_at m k) (\<lambda>z. case z of [] \<Rightarrow> (m, Inr None) | (s, x) # z' \<Rightarrow> (put_zset k z' m, Inr (Some x))) m"

definition ref_ZSCORE :: "string \<Rightarrow> string \<Rightarrow> (ref_db, int option) call" where
  "ref_ZSCORE k x m = on (zset_at m k) (\<lambda>z. (m, Inr (map_of (map prod.swap z) x))) m"

definition ref_ZRANGEBYSCORE :: "string \<Rightarrow> int \<Rightarrow> int \<Rightarrow> (ref_db, string list) call" where
  "ref_ZRANGEBYSCORE k hi n m =
     on (zset_at m k) (\<lambda>z. (m, Inr (first_items n (map snd (filter (\<lambda>(s, x). s \<le> hi) z))))) m"

text \<open>\<open>ZRANGE key 0 stop\<close>, where a negative index counts from the end.\<close>

definition ref_ZRANGE :: "string \<Rightarrow> int \<Rightarrow> (ref_db, string list) call" where
  "ref_ZRANGE k stop m =
     on (zset_at m k) (\<lambda>z. (m, Inr (take (nat (if stop < 0 then int (length z) + stop + 1 else stop + 1)) (map snd z)))) m"

definition ref_ZCARD :: "string \<Rightarrow> (ref_db, int) call" where
  "ref_ZCARD k m = on (zset_at m k) (\<lambda>z. (m, Inr (int (length z)))) m"

text \<open>\<open>d\<close> milliseconds pass: a key whose time to live is over is gone.\<close>

definition ref_elapse :: "int \<Rightarrow> ref_db \<Rightarrow> ref_db" where
  "ref_elapse d m k =
     (case m k of
        None \<Rightarrow> None
      | Some e \<Rightarrow>
          (case e_ttl e of
             None \<Rightarrow> Some e
           | Some t \<Rightarrow> if t \<le> d then None else Some (e\<lparr>e_ttl := Some (t - d)\<rparr>)))"

text \<open>
  The reference server takes its \<open>tonumber\<close> as an argument; \<open>ref_tonumber\<close> accepts the decimal
  integers, which are all the texts the program gives to it.
\<close>

definition ref_tonumber :: "string \<Rightarrow> int option" where
  "ref_tonumber s = map_option fl64 (strconv_ParseInt s)"

definition RefN :: "(string \<Rightarrow> int option) \<Rightarrow> ref_db redis" where
  "RefN tonumber = \<lparr>r_EXISTS = ref_EXISTS, r_DEL = ref_DEL, r_EXPIRE = ref_EXPIRE, r_PERSIST = ref_PERSIST,
     r_GET = ref_GET, r_SETNX = ref_SETNX, r_SADD = ref_SADD, r_SMEMBERS = ref_SMEMBERS,
     r_SISMEMBER = ref_SISMEMBER, r_HSET = ref_HSET, r_HSETNX = ref_HSETNX, r_HGET = ref_HGET,
     r_HGETALL = ref_HGETALL, r_ZADD = ref_ZADD, r_ZREM = ref_ZREM, r_ZPOPMIN = ref_ZPOPMIN,
     r_ZSCORE = ref_ZSCORE, r_ZRANGEBYSCORE = ref_ZRANGEBYSCORE, r_ZRANGE = ref_ZRANGE,
     r_ZCARD = ref_ZCARD, r_tonumber = tonumber, r_elapse = ref_elapse\<rparr>"

lemma RefN_simps [simp]:
  "r_EXISTS (RefN tn) = ref_EXISTS" "r_DEL (RefN tn) = ref_DEL" "r_EXPIRE (RefN tn) = ref_EXPIRE"
  "r_PERSIST (RefN tn) = ref_PERSIST" "r_GET (RefN tn) = ref_GET" "r_SETNX (RefN tn) = ref_SETNX"
  "r_SADD (RefN tn) = ref_SADD" "r_SMEMBERS (RefN tn) = ref_SMEMBERS" "r_SISMEMBER (RefN tn) = ref_SISMEMBER"
  "r_HSET (RefN tn) = ref_HSET" "r_HSETNX (RefN tn) = ref_HSETNX" "r_HGET (RefN tn) = ref_HGET"
  "r_HGETALL (RefN tn) = ref_HGETALL" "r_ZADD (RefN tn) = ref_ZADD" "r_ZREM (RefN tn) = ref_ZREM"
  "r_ZPOPMIN (RefN tn) = ref_ZPOPMIN" "r_ZSCORE (RefN tn) = ref_ZSCORE"
  "r_ZRANGEBYSCORE (RefN tn) = ref_ZRANGEBYSCORE" "r_ZRANGE (RefN tn) = ref_ZRANGE"
  "r_ZCARD (RefN tn) = ref_ZCARD" "r_tonumber (RefN tn) = tn" "r_elapse (RefN tn) = ref_elapse"
  by (simp_all add: RefN_def)

definition Ref :: "ref_db redis" where
  "Ref = RefN ref_tonumber"

text \<open>The states the reference server reaches.\<close>

definition rvalue_ok :: "rvalue \<Rightarrow> bool" where
  "rvalue_ok v =
     (case v of
        RString _ \<Rightarrow> True
      | RHash h \<Rightarrow> keys_distinct h \<and> h \<noteq> []
      | RZset z \<Rightarrow> sorted z \<and> distinct (map snd z) \<and> z \<noteq> []
      | RSet xs \<Rightarrow> distinct xs \<and> xs \<noteq> [])"

definition ref_ok :: "ref_db \<Rightarrow> bool" where
  "ref_ok m \<longleftrightarrow> (\<forall>k e. m k = Some e \<longrightarrow> rvalue_ok (e_value e))"

lemma ref_ok_empty [simp]: "ref_ok Map.empty"
  by (simp add: ref_ok_def)

lemma ref_ok_at:
  assumes "ref_ok m"
  shows "hash_at m k = Some h \<Longrightarrow> keys_distinct h"
    and "zset_at m k = Some z \<Longrightarrow> sorted z \<and> distinct (map snd z)"
    and "set_at m k = Some xs \<Longrightarrow> distinct xs"
  using assms
  by (auto simp: ref_ok_def rvalue_ok_def hash_at_def zset_at_def set_at_def
      split: option.splits rvalue.splits)

lemma ref_ok_upd: "ref_ok m \<Longrightarrow> rvalue_ok (e_value e) \<Longrightarrow> ref_ok (m(k \<mapsto> e))"
  by (simp add: ref_ok_def)

lemma ref_ok_del: "ref_ok m \<Longrightarrow> ref_ok (m(k := None))"
  by (simp add: ref_ok_def)

lemma ref_ok_elapse: "ref_ok m \<Longrightarrow> ref_ok (ref_elapse d m)"
  unfolding ref_ok_def ref_elapse_def by (auto split: option.splits if_splits)

lemma ref_ok_put: "ref_ok m \<Longrightarrow> rvalue_ok v \<Longrightarrow> ref_ok (put_value k v m)"
  by (simp add: put_value_def ref_ok_upd)

lemma ref_ok_put_zset: "ref_ok m \<Longrightarrow> sorted z \<Longrightarrow> distinct (map snd z) \<Longrightarrow> ref_ok (put_zset k z m)"
  by (auto simp: put_zset_def ref_ok_del rvalue_ok_def intro!: ref_ok_put)

lemma hset_distinct: "keys_distinct h \<Longrightarrow> keys_distinct (hset h fs)"
  unfolding hset_def by (induction fs arbitrary: h) (auto intro: distinct_update)

lemma update_nonempty: "AList.update k v h \<noteq> []"
  by (cases h) auto

lemma hset_nonempty: "fs \<noteq> [] \<Longrightarrow> hset h fs \<noteq> []"
  unfolding hset_def by (cases fs rule: rev_cases) (auto simp: update_nonempty)

lemma zdel_ok:
  assumes "sorted z" "distinct (map snd z)"
  shows "sorted (zdel x z)" "distinct (map snd (zdel x z))" "x \<notin> snd ` set (zdel x z)"
  using assms unfolding zdel_def
  by (auto simp: sorted_filter [of id, simplified] distinct_map_filter)

lemma zput_ok:
  assumes "sorted z" "distinct (map snd z)"
  shows "sorted (zput s x z)" "distinct (map snd (zput s x z))" "zput s x z \<noteq> []"
proof -
  show "sorted (zput s x z)" using zdel_ok [OF assms] by (simp add: zput_def sorted_insort)
  have "mset (map snd (zput s x z)) = mset (x # map snd (zdel x z))" by (simp add: zput_def)
  then show "distinct (map snd (zput s x z))"
    using zdel_ok(2,3) [OF assms, of x] by (metis distinct.simps(2) list.set_map mset_eq_imp_distinct_iff)
  show "zput s x z \<noteq> []" by (simp add: zput_def)
qed

lemma ref_ok_on:
  assumes "ref_ok m" "\<And>v. x = Some v \<Longrightarrow> ref_ok (fst (f v))"
  shows "ref_ok (fst (on x f m))"
  using assms by (simp add: on_def split: option.split)

lemma ref_ok_commands:
  assumes "ref_ok m"
  shows "ref_ok (fst (ref_EXISTS k m))" "ref_ok (fst (ref_DEL k m))" "ref_ok (fst (ref_EXPIRE k n m))"
    "ref_ok (fst (ref_PERSIST k m))" "ref_ok (fst (ref_GET k m))" "ref_ok (fst (ref_SETNX k v d m))"
    "ref_ok (fst (ref_SADD k v m))" "ref_ok (fst (ref_SMEMBERS k m))" "ref_ok (fst (ref_SISMEMBER k v m))"
    "ref_ok (fst (ref_HSET k fs m))" "ref_ok (fst (ref_HSETNX k f v m))" "ref_ok (fst (ref_HGET k f m))"
    "ref_ok (fst (ref_HGETALL k m))" "ref_ok (fst (ref_ZADD k n v m))" "ref_ok (fst (ref_ZREM k v m))"
    "ref_ok (fst (ref_ZPOPMIN k m))" "ref_ok (fst (ref_ZSCORE k v m))"
    "ref_ok (fst (ref_ZRANGEBYSCORE k n n' m))" "ref_ok (fst (ref_ZRANGE k n m))" "ref_ok (fst (ref_ZCARD k m))"
proof -
  show "ref_ok (fst (ref_EXPIRE k n m))"
    using assms by (auto simp: ref_EXPIRE_def ref_ok_del split: option.split intro!: ref_ok_upd) (simp add: ref_ok_def)
  show "ref_ok (fst (ref_PERSIST k m))"
    using assms by (auto simp: ref_PERSIST_def ref_ok_def)
  show "ref_ok (fst (ref_SADD k v m))" "ref_ok (fst (ref_HSET k fs m))" "ref_ok (fst (ref_HSETNX k f v m))"
    using assms ref_ok_at [OF assms]
    by (auto simp: ref_SADD_def ref_HSET_def ref_HSETNX_def rvalue_ok_def hset_distinct hset_nonempty
        distinct_update update_nonempty distinct_insert List.insert_def intro!: ref_ok_on ref_ok_put)
  show "ref_ok (fst (ref_ZADD k n v m))" "ref_ok (fst (ref_ZREM k v m))"
    using assms ref_ok_at(2) [OF assms]
    by (auto simp: ref_ZADD_def ref_ZREM_def zput_ok zdel_ok intro!: ref_ok_on ref_ok_put_zset)
  show "ref_ok (fst (ref_ZPOPMIN k m))"
    using assms ref_ok_at(2) [OF assms, of k]
    by (auto simp: ref_ZPOPMIN_def intro!: ref_ok_on ref_ok_put_zset split: list.split)
qed (use assms in \<open>auto simp: ref_EXISTS_def ref_DEL_def ref_GET_def ref_SETNX_def ref_SMEMBERS_def
    ref_SISMEMBER_def ref_HGET_def ref_HGETALL_def ref_ZSCORE_def ref_ZRANGEBYSCORE_def ref_ZRANGE_def
    ref_ZCARD_def ref_ok_del rvalue_ok_def split: option.split rvalue.split intro!: ref_ok_on ref_ok_upd\<close>)

section \<open>Simulation\<close>

text \<open>
  \<open>sim L Q f g\<close>: from related states, \<open>f\<close> and \<open>g\<close> end in related states, and either both report the
  same error or their values are related by \<open>Q\<close>.
\<close>

definition sim :: "('r \<Rightarrow> 'm \<Rightarrow> bool) \<Rightarrow> ('a \<Rightarrow> 'b \<Rightarrow> bool) \<Rightarrow> ('r, 'a) call \<Rightarrow> ('m, 'b) call \<Rightarrow> bool" where
  "sim L Q f g \<longleftrightarrow>
     (\<forall>s m. L s m \<longrightarrow> L (fst (f s)) (fst (g m)) \<and> rel_sum (=) Q (snd (f s)) (snd (g m)))"

definition same_hash :: "hash \<Rightarrow> hash \<Rightarrow> bool" where
  "same_hash a b \<longleftrightarrow> map_of a = map_of b \<and> keys_distinct a \<and> keys_distinct b"

definition same_members :: "string list \<Rightarrow> string list \<Rightarrow> bool" where
  "same_members a b \<longleftrightarrow> mset a = mset b"

locale redis_server =
  fixes R :: "'r redis"
    and L :: "'r \<Rightarrow> ref_db \<Rightarrow> bool"
  assumes related_ok: "L s m \<Longrightarrow> ref_ok m"
    and sim_EXISTS: "sim L (=) (r_EXISTS R k) (ref_EXISTS k)"
    and sim_DEL: "sim L (=) (r_DEL R k) (ref_DEL k)"
    and sim_EXPIRE: "sim L (=) (r_EXPIRE R k secs) (ref_EXPIRE k secs)"
    and sim_PERSIST: "sim L (=) (r_PERSIST R k) (ref_PERSIST k)"
    and sim_GET: "sim L (=) (r_GET R k) (ref_GET k)"
    and sim_SETNX: "sim L (=) (r_SETNX R k v d) (ref_SETNX k v d)"
    and sim_SADD: "sim L (=) (r_SADD R k x) (ref_SADD k x)"
    and sim_SMEMBERS: "sim L same_members (r_SMEMBERS R k) (ref_SMEMBERS k)"
    and sim_SISMEMBER: "sim L (=) (r_SISMEMBER R k x) (ref_SISMEMBER k x)"
    and sim_HSET: "sim L (=) (r_HSET R k fs) (ref_HSET k fs)"
    and sim_HSETNX: "sim L (=) (r_HSETNX R k f v) (ref_HSETNX k f v)"
    and sim_HGET: "sim L (=) (r_HGET R k f) (ref_HGET k f)"
    and sim_HGETALL: "sim L same_hash (r_HGETALL R k) (ref_HGETALL k)"
    and sim_ZADD: "sim L (=) (r_ZADD R k score x) (ref_ZADD k score x)"
    and sim_ZREM: "sim L (=) (r_ZREM R k x) (ref_ZREM k x)"
    and sim_ZPOPMIN: "sim L (=) (r_ZPOPMIN R k) (ref_ZPOPMIN k)"
    and sim_ZSCORE: "sim L (=) (r_ZSCORE R k x) (ref_ZSCORE k x)"
    and sim_ZRANGEBYSCORE: "sim L (=) (r_ZRANGEBYSCORE R k hi n) (ref_ZRANGEBYSCORE k hi n)"
    and sim_ZRANGE: "sim L (=) (r_ZRANGE R k stop) (ref_ZRANGE k stop)"
    and sim_ZCARD: "sim L (=) (r_ZCARD R k) (ref_ZCARD k)"
    and tonumber_int: "strconv_ParseInt t = Some i \<Longrightarrow> r_tonumber R t = Some (fl64 i)"
    and elapses: "L s m \<Longrightarrow> 0 \<le> d \<Longrightarrow> L (r_elapse R d s) (ref_elapse d m)"

interpretation ref: redis_server Ref "\<lambda>m m'. m = m' \<and> ref_ok m"
proof
  show "\<And>t i. strconv_ParseInt t = Some i \<Longrightarrow> r_tonumber Ref t = Some (fl64 i)"
    by (simp add: Ref_def ref_tonumber_def)
  show "\<And>k. sim (\<lambda>m m'. m = m' \<and> ref_ok m) same_hash (r_HGETALL Ref k) (ref_HGETALL k)"
    by (auto simp: sim_def Ref_def ref_ok_commands same_hash_def ref_HGETALL_def on_def rel_sum.simps
        dest: ref_ok_at(1) split: option.split)
  show "\<And>k. sim (\<lambda>m m'. m = m' \<and> ref_ok m) same_members (r_SMEMBERS Ref k) (ref_SMEMBERS k)"
    by (auto simp: sim_def Ref_def ref_ok_commands same_members_def sum.rel_refl)
qed (simp_all add: sim_def Ref_def ref_ok_commands ref_ok_elapse sum.rel_refl)

text \<open>Simulation is compositional.\<close>

named_theorems sim_intros \<open>simulation of the constructs that scripts are built from\<close>

lemma sim_returnS [sim_intros]: "Q x y \<Longrightarrow> sim L Q (returnS x) (returnS y)"
  by (simp add: sim_def)

lemma sim_failS [sim_intros]: "sim L Q (failS e) (failS e)"
  by (simp add: sim_def)

lemma sim_andThenS [sim_intros]:
  assumes "sim L Q f g" "\<And>x y. Q x y \<Longrightarrow> sim L Q' (f' x) (g' y)"
  shows "sim L Q' (andThenS f f') (andThenS g g')"
  unfolding sim_def
proof (intro allI impI)
  fix s m assume l: "L s m"
  obtain s' x where f: "f s = (s', x)" by (cases "f s")
  obtain m' y where g: "g m = (m', y)" by (cases "g m")
  have l': "L s' m'" and r: "rel_sum (=) Q x y" using assms(1) l f g unfolding sim_def by fastforce+
  show "L (fst (andThenS f f' s)) (fst (andThenS g g' m)) \<and>
    rel_sum (=) Q' (snd (andThenS f f' s)) (snd (andThenS g g' m))"
  proof (cases x)
    case (Inl e)
    with r f g l' show ?thesis by (cases y) (auto simp: andThenS_def)
  next
    case (Inr a)
    with r obtain b where "y = Inr b" "Q a b" by (cases y) auto
    with Inr f g l' assms(2) [of a b] show ?thesis unfolding sim_def by (simp add: andThenS_def)
  qed
qed

lemma sim_if [sim_intros]:
  "(b \<Longrightarrow> sim L Q f g) \<Longrightarrow> (\<not> b \<Longrightarrow> sim L Q f' g') \<Longrightarrow> sim L Q (if b then f else f') (if b then g else g')"
  by simp

lemma sim_weaken: "sim L Q f g \<Longrightarrow> (\<And>x y. Q x y \<Longrightarrow> Q' x y) \<Longrightarrow> sim L Q' f g"
  unfolding sim_def rel_sum.simps by blast

lemma simD:
  assumes "sim L Q f g" "L s m" "f s = (s', x)"
  obtains m' y where "g m = (m', y)" "L s' m'" "rel_sum (=) Q x y"
  using assms unfolding sim_def by (metis fst_conv prod.collapse snd_conv)

section \<open>The connection\<close>

text \<open>
  What happens to a request: it is executed a number of times without a reply reaching the client, and
  then either once more with the reply delivered, or the client gives up and reports an error.
\<close>

datatype delivery = Delivered nat | GaveUp nat string

record 'r conn =
  c_redis :: 'r
  c_net :: "delivery list"

definition executed :: "nat \<Rightarrow> ('r, 'a) call \<Rightarrow> 'r \<Rightarrow> 'r" where
  "executed n f r = ((\<lambda>r. fst (f r)) ^^ n) r"

definition send :: "('r, 'a) call \<Rightarrow> ('r conn, 'a) call" where
  "send f c =
     (case c_net c of
        [] \<Rightarrow> (c\<lparr>c_redis := fst (f (c_redis c))\<rparr>, snd (f (c_redis c)))
      | Delivered n # net \<Rightarrow>
          let r = executed n f (c_redis c)
          in (c\<lparr>c_redis := fst (f r), c_net := net\<rparr>, snd (f r))
      | GaveUp n text # net \<Rightarrow>
          (c\<lparr>c_redis := executed n f (c_redis c), c_net := net\<rparr>, Inl (ForeignError text None)))"

text \<open>A transaction or pipeline runs all its commands and reports the first error among them.\<close>

fun pipeline :: "('r, unit) call list \<Rightarrow> ('r, unit) call" where
  "pipeline [] r = (r, Inr ())"
| "pipeline (f # fs) r =
     (case f r of
        (r', Inr _) \<Rightarrow> pipeline fs r'
      | (r', Inl e) \<Rightarrow> (fst (pipeline fs r'), Inl e))"

text \<open>\<open>if err != nil { return ..., errors.Internal(code, msg, err) }\<close>\<close>

definition orInternal :: "string \<Rightarrow> string \<Rightarrow> ('s, 'a) call \<Rightarrow> ('s, 'a) call" where
  "orInternal code msg f s =
     (case f s of
        (s', Inl e) \<Rightarrow> (s', Inl (Internal code msg (Some e)))
      | (s', Inr x) \<Rightarrow> (s', Inr x))"

text \<open>Time passes between two calls.\<close>

definition elapse :: "'r redis \<Rightarrow> int \<Rightarrow> 'r conn \<Rightarrow> 'r conn" where
  "elapse R d c = c\<lparr>c_redis := r_elapse R d (c_redis c)\<rparr>"

lemma elapse_simps [simp]: "c_redis (elapse R d c) = r_elapse R d (c_redis c)" "c_net (elapse R d c) = c_net c"
  by (simp_all add: elapse_def)

definition conn_rel :: "('r \<Rightarrow> 'm \<Rightarrow> bool) \<Rightarrow> 'r conn \<Rightarrow> 'm conn \<Rightarrow> bool" where
  "conn_rel L c d \<longleftrightarrow> L (c_redis c) (c_redis d) \<and> c_net c = c_net d"

lemma sim_executed: "sim L Q f g \<Longrightarrow> L s m \<Longrightarrow> L (executed n f s) (executed n g m)"
  unfolding executed_def by (induction n) (auto simp: sim_def)

lemma sim_send [sim_intros]:
  assumes "sim L Q f g"
  shows "sim (conn_rel L) Q (send f) (send g)"
  unfolding sim_def
proof (intro allI impI)
  fix c d assume r: "conn_rel L c d"
  note S = assms [unfolded sim_def, rule_format] and E = sim_executed [OF assms]
  show "conn_rel L (fst (send f c)) (fst (send g d)) \<and> rel_sum (=) Q (snd (send f c)) (snd (send g d))"
    using r S E by (auto simp: conn_rel_def send_def Let_def split: list.split delivery.split)
qed

lemma sim_orInternal [sim_intros]:
  "sim L Q f g \<Longrightarrow> sim L Q (orInternal code msg f) (orInternal code msg g)"
  by (fastforce simp: sim_def orInternal_def split: prod.split sum.split elim!: rel_sum.cases)

lemma sim_pipeline [sim_intros]:
  assumes "list_all2 (sim L (=)) fs gs"
  shows "sim L (=) (pipeline fs) (pipeline gs)"
  using assms
proof (induction rule: list_all2_induct)
  case Nil
  then show ?case by (simp add: sim_def)
next
  case (Cons f fs g gs)
  show ?case unfolding sim_def
  proof (intro allI impI)
    fix s m assume l: "L s m"
    obtain s' x where f: "f s = (s', x)" by (cases "f s")
    obtain m' y where g: "g m = (m', y)" by (cases "g m")
    have l': "L s' m'" and r: "rel_sum (=) (=) x y" using Cons(1) l f g unfolding sim_def by fastforce+
    from r have xy: "x = y" by (simp add: sum.rel_eq)
    show "L (fst (pipeline (f # fs) s)) (fst (pipeline (g # gs) m)) \<and>
      rel_sum (=) (=) (snd (pipeline (f # fs) s)) (snd (pipeline (g # gs) m))"
      using Cons.IH l' f g xy unfolding sim_def by (cases y) auto
  qed
qed

end
