(* ===== verification/Redis_Scripts.thy ===== *)
theory Redis_Scripts
  imports Redis_Server
begin

text \<open>
  The Lua scripts (\<open>src/pkg/infrastructure/persistence/redis/script/*.lua\<close>) as programs over the
  commands of a server. An error of a command ends the script, with what was done so far kept.

  Numbers in Lua are \<open>float64\<close>: an argument passes through \<open>tonumber\<close> (\<open>fl64\<close>), and a number given
  to a command is rendered with 17 significant digits, which for integers below 10 ^ 17, and so
  for all instants in milliseconds, is its decimal form.
\<close>

section \<open>Scripts\<close>

fun pairs_of :: "string list \<Rightarrow> hash" where
  "pairs_of (k # v # rest) = (k, v) # pairs_of rest"
| "pairs_of _ = []"

lemma pairs_of_flatten [simp]: "pairs_of (flatten h) = h"
  by (induction h rule: flatten.induct) auto

definition lua_text :: "int \<Rightarrow> string" where
  "lua_text n = FormatInt n"

definition enqueue_lua ::
  "'r redis \<Rightarrow> string \<Rightarrow> string \<Rightarrow> string \<Rightarrow> string \<Rightarrow> string \<Rightarrow> int \<Rightarrow> string \<Rightarrow> string \<Rightarrow> string list \<Rightarrow> ('r, int) call" where
  "enqueue_lua R jobKey targetKey registryKey metaKey jobID score queue weight document =
     andThenS (r_EXISTS R jobKey) (\<lambda>known.
       if known then returnS 0
       else
         andThenS (r_SADD R registryKey queue) (\<lambda>_.
         andThenS (r_EXISTS R metaKey) (\<lambda>configured.
         andThenS (if \<not> configured then r_HSET R metaKey [(''weight'', weight), (''paused'', ''0'')]
                   else returnS ()) (\<lambda>_.
         andThenS (r_HSET R jobKey (pairs_of document)) (\<lambda>_.
         andThenS (r_ZADD R targetKey score jobID) (\<lambda>_.
         returnS 1))))))"

text \<open>
  The loop of \<open>dequeue.lua\<close> over one queue: it pops entries until one has a document, and ends when
  the set is empty. \<open>fuel\<close> bounds the number of pops; \<open>drain_enough\<close> below shows that one more than the
  size of the set is enough.
\<close>

definition out_of_fuel :: go_error where
  "out_of_fuel = ForeignError ''script did not finish'' None"

fun drain ::
  "'r redis \<Rightarrow> string \<Rightarrow> string \<Rightarrow> string \<Rightarrow> int \<Rightarrow> int \<Rightarrow> string \<Rightarrow> nat \<Rightarrow> ('r, hash option) call" where
  "drain R pendingKey activeKey workerID leaseExpiry now jobPrefix 0 = failS out_of_fuel"
| "drain R pendingKey activeKey workerID leaseExpiry now jobPrefix (Suc fuel) =
     andThenS (r_ZPOPMIN R pendingKey) (\<lambda>popped.
       case popped of
         None \<Rightarrow> returnS None
       | Some jobID \<Rightarrow>
           andThenS (r_EXISTS R (jobPrefix @ jobID)) (\<lambda>live.
             if live then
               andThenS (r_HGETALL R (jobPrefix @ jobID)) (\<lambda>snapshot.
               andThenS (r_ZADD R activeKey leaseExpiry jobID) (\<lambda>_.
               andThenS (r_HSET R (jobPrefix @ jobID)
                   [(''state'', ''active''), (''worker_id'', workerID),
                    (''lease_expiry_ms'', lua_text leaseExpiry), (''leased_at_ms'', lua_text now)]) (\<lambda>_.
               returnS (Some snapshot))))
             else drain R pendingKey activeKey workerID leaseExpiry now jobPrefix fuel))"

fun dequeue_lua ::
  "'r redis \<Rightarrow> (string \<times> string \<times> string) list \<Rightarrow> string \<Rightarrow> int \<Rightarrow> int \<Rightarrow> string \<Rightarrow> nat \<Rightarrow> ('r, hash option) call" where
  "dequeue_lua R [] workerID leaseExpiry now jobPrefix fuel = returnS None"
| "dequeue_lua R ((pendingKey, activeKey, metaKey) # keys) workerID leaseExpiry now jobPrefix fuel =
     andThenS (r_HGET R metaKey ''paused'') (\<lambda>paused.
       if paused \<noteq> Some ''1'' then
         andThenS (drain R pendingKey activeKey workerID (fl64 leaseExpiry) (fl64 now) jobPrefix fuel) (\<lambda>found.
           case found of
             Some snapshot \<Rightarrow> returnS (Some snapshot)
           | None \<Rightarrow> dequeue_lua R keys workerID leaseExpiry now jobPrefix fuel)
       else dequeue_lua R keys workerID leaseExpiry now jobPrefix fuel)"

definition transition_lua ::
  "'r redis \<Rightarrow> string \<Rightarrow> string \<Rightarrow> string \<Rightarrow> string \<Rightarrow> int \<Rightarrow> int \<Rightarrow> string list \<Rightarrow> ('r, int) call" where
  "transition_lua R jobKey fromKey toKey jobID score ttl document =
     andThenS (r_EXISTS R jobKey) (\<lambda>live.
       if \<not> live then andThenS (r_ZREM R fromKey jobID) (\<lambda>_. returnS 0)
       else
         andThenS (r_ZREM R fromKey jobID) (\<lambda>_.
         andThenS (r_ZADD R toKey score jobID) (\<lambda>_.
         andThenS (r_HSET R jobKey (pairs_of document)) (\<lambda>_.
         andThenS (if ttl > 0 then r_EXPIRE R jobKey ttl else r_PERSIST R jobKey) (\<lambda>_.
         returnS 1)))))"

text \<open>
  \<open>promote.lua\<close> and \<open>reclaim.lua\<close> are the same loop over the due entries; the second also writes
  \<open>last_error\<close>.
\<close>

definition not_a_number :: go_error where
  "not_a_number = ForeignError ''attempt to perform arithmetic on local priority (a nil value)'' None"

fun requeue_each ::
  "'r redis \<Rightarrow> hash \<Rightarrow> string \<Rightarrow> string \<Rightarrow> int \<Rightarrow> string \<Rightarrow> int \<Rightarrow> int \<Rightarrow> string list \<Rightarrow> int \<Rightarrow> ('r, int) call" where
  "requeue_each R extra sourceKey pendingKey now jobPrefix band maxPriority [] moved = returnS moved"
| "requeue_each R extra sourceKey pendingKey now jobPrefix band maxPriority (jobID # ids) moved =
     andThenS (r_ZREM R sourceKey jobID) (\<lambda>_.
     andThenS (r_EXISTS R (jobPrefix @ jobID)) (\<lambda>live.
       if live then
         andThenS (r_HGET R (jobPrefix @ jobID) ''priority'') (\<lambda>text.
           case r_tonumber R (case text of Some t \<Rightarrow> t | None \<Rightarrow> ''5'') of
             None \<Rightarrow> failS not_a_number
           | Some priority \<Rightarrow>
               andThenS (r_ZADD R pendingKey
                   (fl64 (fl64 (fl64 (maxPriority - priority) * band) + now)) jobID) (\<lambda>_.
               andThenS (r_HSET R (jobPrefix @ jobID)
                   ([(''state'', ''pending''), (''process_at_ms'', lua_text now),
                     (''lease_expiry_ms'', ''0''), (''worker_id'', '''')] @ extra)) (\<lambda>_.
               requeue_each R extra sourceKey pendingKey now jobPrefix band maxPriority ids (moved + 1))))
       else requeue_each R extra sourceKey pendingKey now jobPrefix band maxPriority ids moved))"

definition promote_lua ::
  "'r redis \<Rightarrow> string \<Rightarrow> string \<Rightarrow> int \<Rightarrow> int \<Rightarrow> string \<Rightarrow> int \<Rightarrow> int \<Rightarrow> ('r, int) call" where
  "promote_lua R sourceKey pendingKey now limit jobPrefix band maxPriority =
     andThenS (r_ZRANGEBYSCORE R sourceKey (fl64 now) (fl64 limit)) (\<lambda>due.
       requeue_each R [] sourceKey pendingKey (fl64 now) jobPrefix (fl64 band) (fl64 maxPriority) due 0)"

definition reclaim_lua ::
  "'r redis \<Rightarrow> string \<Rightarrow> string \<Rightarrow> int \<Rightarrow> int \<Rightarrow> string \<Rightarrow> int \<Rightarrow> int \<Rightarrow> ('r, int) call" where
  "reclaim_lua R activeKey pendingKey now limit jobPrefix band maxPriority =
     andThenS (r_ZRANGEBYSCORE R activeKey (fl64 now) (fl64 limit)) (\<lambda>expired.
       requeue_each R [(''last_error'', ''lease expired: worker did not report completion'')]
         activeKey pendingKey (fl64 now) jobPrefix (fl64 band) (fl64 maxPriority) expired 0)"

definition extend_lease_lua :: "'r redis \<Rightarrow> string \<Rightarrow> string \<Rightarrow> string \<Rightarrow> int \<Rightarrow> ('r, int) call" where
  "extend_lease_lua R activeKey jobKey jobID expiry =
     andThenS (r_ZSCORE R activeKey jobID) (\<lambda>score.
       if score = None then returnS 0
       else
         andThenS (r_ZADD R activeKey (fl64 expiry) jobID) (\<lambda>_.
         andThenS (r_HSET R jobKey [(''lease_expiry_ms'', lua_text (fl64 expiry))]) (\<lambda>_.
         returnS 1)))"

fun purge_each :: "'r redis \<Rightarrow> string \<Rightarrow> string \<Rightarrow> string list \<Rightarrow> int \<Rightarrow> ('r, int) call" where
  "purge_each R completedKey jobPrefix [] removed = returnS removed"
| "purge_each R completedKey jobPrefix (jobID # ids) removed =
     andThenS (r_ZREM R completedKey jobID) (\<lambda>_.
     andThenS (r_DEL R (jobPrefix @ jobID)) (\<lambda>_.
     purge_each R completedKey jobPrefix ids (removed + 1)))"

definition purge_completed_lua :: "'r redis \<Rightarrow> string \<Rightarrow> int \<Rightarrow> int \<Rightarrow> string \<Rightarrow> ('r, int) call" where
  "purge_completed_lua R completedKey now limit jobPrefix =
     andThenS (r_ZRANGEBYSCORE R completedKey (fl64 now) (fl64 limit)) (\<lambda>stale.
       purge_each R completedKey jobPrefix stale 0)"

section \<open>Every server runs the scripts as the reference server does\<close>

lemma sim_option [sim_intros]:
  "(x = None \<Longrightarrow> sim L Q f g) \<Longrightarrow> (\<And>a. x = Some a \<Longrightarrow> sim L Q (f' a) (g' a)) \<Longrightarrow>
     sim L Q (case x of None \<Rightarrow> f | Some a \<Rightarrow> f' a) (case x of None \<Rightarrow> g | Some a \<Rightarrow> g' a)"
  by (cases x) auto

context redis_server
begin

abbreviation reference :: "ref_db redis" where
  "reference \<equiv> RefN (r_tonumber R)"

lemmas sim_commands =
  sim_EXISTS sim_DEL sim_EXPIRE sim_PERSIST sim_GET sim_SETNX sim_SADD sim_SMEMBERS sim_SISMEMBER
  sim_HSET sim_HSETNX sim_HGET sim_HGETALL sim_ZADD sim_ZREM sim_ZPOPMIN sim_ZSCORE
  sim_ZRANGEBYSCORE sim_ZRANGE sim_ZCARD

lemma sim_enqueue:
  "sim L (=) (enqueue_lua R a b c d i score q w fs) (enqueue_lua reference a b c d i score q w fs)"
  unfolding enqueue_lua_def by (auto intro!: sim_intros sim_commands)

lemma sim_transition:
  "sim L (=) (transition_lua R a b c i score ttl fs) (transition_lua reference a b c i score ttl fs)"
  unfolding transition_lua_def by (auto intro!: sim_intros sim_commands)

lemma sim_extend_lease:
  "sim L (=) (extend_lease_lua R a b i expiry) (extend_lease_lua reference a b i expiry)"
  unfolding extend_lease_lua_def by (auto intro!: sim_intros sim_commands)

lemma sim_requeue_each:
  "sim L (=) (requeue_each R extra a b now p band mp ids n) (requeue_each reference extra a b now p band mp ids n)"
proof (induction ids arbitrary: n)
  case Nil
  show ?case unfolding requeue_each.simps by (rule sim_returnS) simp
next
  case (Cons i ids)
  then show ?case by (auto intro!: sim_intros sim_commands)
qed

lemma sim_promote:
  "sim L (=) (promote_lua R a b now limit p band mp) (promote_lua reference a b now limit p band mp)"
  unfolding promote_lua_def using sim_requeue_each by (auto intro!: sim_intros sim_commands)

lemma sim_reclaim:
  "sim L (=) (reclaim_lua R a b now limit p band mp) (reclaim_lua reference a b now limit p band mp)"
  unfolding reclaim_lua_def using sim_requeue_each by (auto intro!: sim_intros sim_commands)

lemma sim_purge_each: "sim L (=) (purge_each R a p ids n) (purge_each reference a p ids n)"
  by (induction ids arbitrary: n) (auto intro!: sim_intros sim_commands)

lemma sim_purge_completed:
  "sim L (=) (purge_completed_lua R a now limit p) (purge_completed_lua reference a now limit p)"
  unfolding purge_completed_lua_def using sim_purge_each
  by (auto intro!: sim_intros sim_commands)

lemma sim_drain:
  "sim L (rel_option same_hash) (drain R a b w e now p fuel) (drain reference a b w e now p fuel)"
proof (induction fuel)
  case 0
  show ?case unfolding drain.simps by (rule sim_failS)
next
  case (Suc fuel)
  then show ?case by (auto intro!: sim_intros sim_commands)
qed

lemma sim_dequeue:
  "sim L (rel_option same_hash) (dequeue_lua R ks w e now p fuel) (dequeue_lua reference ks w e now p fuel)"
proof (induction ks)
  case Nil
  show ?case unfolding dequeue_lua.simps by (rule sim_returnS) simp
next
  case (Cons k ks)
  obtain a b c where k: "k = (a, b, c)" by (cases k)
  have "sim L (rel_option same_hash)
      (case x of None \<Rightarrow> dequeue_lua R ks w e now p fuel | Some h \<Rightarrow> returnS (Some h))
      (case y of None \<Rightarrow> dequeue_lua reference ks w e now p fuel | Some h \<Rightarrow> returnS (Some h))"
    if "rel_option same_hash x y" for x y
    using that Cons by (auto simp: sim_intros split: option.split elim!: option.rel_cases)
  then have "sim L (rel_option same_hash)
     (andThenS (drain R a b w (fl64 e) (fl64 now) p fuel)
        (\<lambda>x. case x of None \<Rightarrow> dequeue_lua R ks w e now p fuel | Some h \<Rightarrow> returnS (Some h)))
     (andThenS (drain reference a b w (fl64 e) (fl64 now) p fuel)
        (\<lambda>x. case x of None \<Rightarrow> dequeue_lua reference ks w e now p fuel | Some h \<Rightarrow> returnS (Some h)))"
    by (rule sim_andThenS [OF sim_drain])
  then show ?case
    using Cons unfolding k by (auto simp: sim_HGET intro!: sim_andThenS [OF sim_HGET] sim_if)
qed

end

section \<open>The scripts on the reference server\<close>

text \<open>Reading after writing.\<close>

lemma at_put [simp]:
  "zset_at (put_zset k z m) k' = (if k' = k then Some z else zset_at m k')"
  "hash_at (put_value k (RHash h) m) k' = (if k' = k then Some h else hash_at m k')"
  "k' \<noteq> k \<Longrightarrow> zset_at (put_value k v m) k' = zset_at m k'"
  "k' \<noteq> k \<Longrightarrow> hash_at (put_zset k z m) k' = hash_at m k'"
  "k' \<noteq> k \<Longrightarrow> hash_at (put_value k v m) k' = hash_at m k'"
  "k' \<noteq> k \<Longrightarrow> put_zset k z m k' = m k'" "k' \<noteq> k \<Longrightarrow> put_value k v m k' = m k'"
  "put_value k v m k \<noteq> None"
  by (simp_all add: zset_at_def hash_at_def put_zset_def put_value_def)

lemma on_Some [simp]: "on (Some v) f m = f v"
  by (simp add: on_def)

text \<open>
  The part of a set before the first entry with a document is stale. What one round of \<open>dequeue.lua\<close>
  does to a queue: it drops the stale entries, and claims the first live one.
\<close>

definition live_part :: "ref_db \<Rightarrow> string \<Rightarrow> (int \<times> string) list \<Rightarrow> (int \<times> string) list" where
  "live_part m pfx z = dropWhile (\<lambda>(s, x). m (pfx @ x) = None) z"

definition claim_fields :: "string \<Rightarrow> int \<Rightarrow> int \<Rightarrow> hash" where
  "claim_fields w expiry now =
     [(''state'', ''active''), (''worker_id'', w), (''lease_expiry_ms'', lua_text expiry), (''leased_at_ms'', lua_text now)]"

lemma drain_enough:
  assumes "zset_at m p = Some z" "length z < fuel" "zset_at m a = Some za" "a \<noteq> p"
    and "\<And>x. pfx @ x \<noteq> p \<and> pfx @ x \<noteq> a" "\<And>x. \<exists>h. hash_at m (pfx @ x) = Some h"
  shows "drain (RefN tn) p a w e now pfx fuel m =
    (case live_part m pfx z of
       [] \<Rightarrow> (if z = [] then m else put_zset p [] m, Inr None)
     | (s, x) # z' \<Rightarrow>
         (put_value (pfx @ x) (RHash (hset (the (hash_at m (pfx @ x))) (claim_fields w e now)))
            (put_zset a (zput e x za) (put_zset p z' m)), Inr (hash_at m (pfx @ x))))"
  using assms
proof (induction z arbitrary: m fuel)
  case Nil
  then obtain f where "fuel = Suc f" by (cases fuel) auto
  with Nil show ?case by (simp add: ref_ZPOPMIN_def andThenS_def live_part_def)
next
  case (Cons sx z)
  obtain s x where sx: "sx = (s, x)" by (cases sx)
  obtain f where f: "fuel = Suc f" using Cons.prems(2) by (cases fuel) auto
  let ?m = "put_zset p z m"
  have pop: "ref_ZPOPMIN p m = (?m, Inr (Some x))" using Cons.prems(1) by (simp add: ref_ZPOPMIN_def sx)
  have keys: "?m (pfx @ y) = m (pfx @ y)" "hash_at ?m (pfx @ y) = hash_at m (pfx @ y)" for y
    using Cons.prems(5) by simp_all
  show ?case
  proof (cases "m (pfx @ x) = None")
    case True
    then have "drain (RefN tn) p a w e now pfx fuel m = drain (RefN tn) p a w e now pfx f ?m"
      using keys by (simp add: f andThenS_def pop ref_EXISTS_def)
    also have "\<dots> = (case live_part ?m pfx z of
       [] \<Rightarrow> (if z = [] then ?m else put_zset p [] ?m, Inr None)
     | (s, x) # z' \<Rightarrow>
         (put_value (pfx @ x) (RHash (hset (the (hash_at ?m (pfx @ x))) (claim_fields w e now)))
            (put_zset a (zput e x za) (put_zset p z' ?m)), Inr (hash_at ?m (pfx @ x))))"
      using Cons.prems keys f by (intro Cons.IH) auto
    also have "live_part ?m pfx z = live_part m pfx z" by (simp add: live_part_def keys)
    finally have D: "drain (RefN tn) p a w e now pfx fuel m = (case live_part m pfx z of
       [] \<Rightarrow> (if z = [] then ?m else put_zset p [] ?m, Inr None)
     | (s, x) # z' \<Rightarrow>
         (put_value (pfx @ x) (RHash (hset (the (hash_at ?m (pfx @ x))) (claim_fields w e now)))
            (put_zset a (zput e x za) (put_zset p z' ?m)), Inr (hash_at ?m (pfx @ x))))" .
    have put: "z \<noteq> [] \<Longrightarrow> put_zset p y ?m = put_zset p y m" for y
      by (auto simp: put_zset_def put_value_def fun_eq_iff)
    have skip: "live_part m pfx (sx # z) = live_part m pfx z" using True by (simp add: live_part_def sx)
    show ?thesis
    proof (cases "z = []")
      case True
      then show ?thesis unfolding D skip by (simp add: live_part_def)
    next
      case False
      then show ?thesis unfolding D skip put [OF False] keys by simp
    qed
  next
    case False
    obtain h where h: "hash_at m (pfx @ x) = Some h" using Cons.prems(6) by blast
    have "zset_at ?m a = Some za" using Cons.prems(3,4) by simp
    moreover have "hash_at (put_zset a (zput e x za) ?m) (pfx @ x) = Some h"
      using Cons.prems(5) h by simp
    moreover have "live_part m pfx (sx # z) = (s, x) # z" using False by (auto simp: live_part_def sx)
    ultimately show ?thesis
      using False h keys Cons.prems(5)
      by (simp add: f andThenS_def pop ref_EXISTS_def ref_HGETALL_def ref_ZADD_def ref_HSET_def
          claim_fields_def)
  qed
qed

end
