(* ===== verification/Redis_Layout.thy ===== *)
theory Redis_Layout
  imports Redis_Scripts
begin

text \<open>
  What the keys of a deployment hold on the reference server, and the exact effect of the scripts in
  these terms: \<open>members kb m q st\<close> is the lifecycle set of a queue, \<open>document kb m i\<close> the stored hash of a
  job, \<open>paused kb m q\<close> whether a queue is paused.
\<close>

section \<open>Keys\<close>

lemma key_render:
  "Job_key kb i = render kb (KJob i)" "JobPrefix kb @ i = render kb (KJob i)"
  "Pending_key kb q = render kb (KState q StatePending)" "Active_key kb q = render kb (KState q StateActive)"
  "Scheduled_key kb q = render kb (KState q StateScheduled)"
  "Retrying_key kb q = render kb (KState q StateRetrying)"
  "Completed_key kb q = render kb (KState q StateCompleted)" "Dead_key kb q = render kb (KState q StateDead)"
  "StateSet kb q st = render kb (KState q st)" "QueueRegistry kb = render kb KRegistry"
  "QueueMeta kb q = render kb (KMeta q)" "Idempotency kb c = render kb (KClaim c)"
  by (simp_all add: render_def StateSet_def key_defs JobPrefix_def)

lemma render_inj [simp]: "key_valid a \<Longrightarrow> key_valid b \<Longrightarrow> render kb a = render kb b \<longleftrightarrow> a = b"
  using key_body_inj [of a b] by (auto simp: render_body)

lemma key_valid_simps [simp]:
  "key_valid (KJob i)" "key_valid KRegistry" "key_valid (KClaim c)"
  "key_valid (KState q st) \<longleftrightarrow> queueNamePattern q" "key_valid (KMeta q) \<longleftrightarrow> queueNamePattern q"
  by (simp_all add: key_valid_def)

text \<open>Every key holds the kind of value the program stores under it.\<close>

definition typed :: "KeyBuilder \<Rightarrow> ref_db \<Rightarrow> bool" where
  "typed kb m \<longleftrightarrow>
     (\<forall>i. hash_at m (render kb (KJob i)) \<noteq> None) \<and>
     (\<forall>q st. queueNamePattern q \<longrightarrow> zset_at m (render kb (KState q st)) \<noteq> None) \<and>
     (\<forall>q. queueNamePattern q \<longrightarrow> hash_at m (render kb (KMeta q)) \<noteq> None) \<and>
     set_at m (render kb KRegistry) \<noteq> None \<and>
     (\<forall>c e. m (render kb (KClaim c)) = Some e \<longrightarrow> (\<exists>v. e_value e = RString v))"

definition members :: "KeyBuilder \<Rightarrow> ref_db \<Rightarrow> QueueName \<Rightarrow> JobState \<Rightarrow> (int \<times> string) list" where
  "members kb m q st = the (zset_at m (render kb (KState q st)))"

definition document :: "KeyBuilder \<Rightarrow> ref_db \<Rightarrow> JobID \<Rightarrow> hash option" where
  "document kb m i = (if m (render kb (KJob i)) = None then None else hash_at m (render kb (KJob i)))"

definition meta :: "KeyBuilder \<Rightarrow> ref_db \<Rightarrow> QueueName \<Rightarrow> hash" where
  "meta kb m q = the (hash_at m (render kb (KMeta q)))"

definition paused :: "KeyBuilder \<Rightarrow> ref_db \<Rightarrow> QueueName \<Rightarrow> bool" where
  "paused kb m q \<longleftrightarrow> map_of (meta kb m q) ''paused'' = Some ''1''"

definition registry :: "KeyBuilder \<Rightarrow> ref_db \<Rightarrow> string list" where
  "registry kb m = the (set_at m (render kb KRegistry))"

definition holder :: "KeyBuilder \<Rightarrow> ref_db \<Rightarrow> IdempotencyKey \<Rightarrow> string option" where
  "holder kb m c =
     (case m (render kb (KClaim c)) of
        None \<Rightarrow> None
      | Some e \<Rightarrow> (case e_value e of RString v \<Rightarrow> Some v | _ \<Rightarrow> None))"

lemma typed_empty [simp]: "typed kb Map.empty"
  by (simp add: typed_def hash_at_def zset_at_def set_at_def)

text \<open>Time takes keys away and changes no value.\<close>

lemma elapse_at:
  "hash_at (ref_elapse d m) k = (if ref_elapse d m k = None then Some [] else hash_at m k)"
  "zset_at (ref_elapse d m) k = (if ref_elapse d m k = None then Some [] else zset_at m k)"
  "set_at (ref_elapse d m) k = (if ref_elapse d m k = None then Some [] else set_at m k)"
  by (auto simp: hash_at_def zset_at_def set_at_def ref_elapse_def split: option.splits)

lemma typed_elapse: "typed kb m \<Longrightarrow> typed kb (ref_elapse d m)"
  unfolding typed_def elapse_at by (auto simp: ref_elapse_def split: option.splits if_splits)

lemma document_elapse: "document kb (ref_elapse d m) i \<in> {None, document kb m i}"
  by (auto simp: document_def elapse_at) (auto simp: ref_elapse_def)

lemma holder_elapse_cases: "holder kb (ref_elapse d m) k \<in> {None, holder kb m k}"
  by (auto simp: holder_def ref_elapse_def split: option.splits)

lemma typed_at:
  assumes "typed kb m"
  shows "queueNamePattern q \<Longrightarrow> zset_at m (render kb (KState q st)) = Some (members kb m q st)"
    and "queueNamePattern q \<Longrightarrow> hash_at m (render kb (KMeta q)) = Some (meta kb m q)"
    and "set_at m (render kb KRegistry) = Some (registry kb m)"
    and "hash_at m (render kb (KJob i)) = Some (case document kb m i of None \<Rightarrow> [] | Some h \<Rightarrow> h)"
proof -
  obtain h where h: "hash_at m (render kb (KJob i)) = Some h" using assms unfolding typed_def by blast
  then show "hash_at m (render kb (KJob i)) = Some (case document kb m i of None \<Rightarrow> [] | Some h \<Rightarrow> h)"
    by (cases "m (render kb (KJob i))") (auto simp: document_def hash_at_def)
qed (use assms in \<open>auto simp: typed_def members_def meta_def registry_def\<close>)

lemma document_None: "typed kb m \<Longrightarrow> document kb m i = None \<longleftrightarrow> m (render kb (KJob i)) = None"
  using typed_at(4) [of kb m i] unfolding document_def by auto

section \<open>Effects of the writes\<close>

definition put_members ::
  "KeyBuilder \<Rightarrow> QueueName \<Rightarrow> JobState \<Rightarrow> (int \<times> string) list \<Rightarrow> ref_db \<Rightarrow> ref_db" where
  "put_members kb q st z m = put_zset (render kb (KState q st)) z m"

definition put_document :: "KeyBuilder \<Rightarrow> JobID \<Rightarrow> hash \<Rightarrow> ref_db \<Rightarrow> ref_db" where
  "put_document kb i h m = put_value (render kb (KJob i)) (RHash h) m"

lemma at_other_value:
  "set_at (put_zset k z m) k' = (if k' = k then (if z = [] then Some [] else None) else set_at m k')"
  "set_at (put_value k (RHash h) m) k' = (if k' = k then None else set_at m k')"
  by (simp_all add: set_at_def put_zset_def put_value_def)

lemma typed_put_members [intro]:
  "typed kb m \<Longrightarrow> queueNamePattern q \<Longrightarrow> typed kb (put_members kb q st z m)"
  unfolding typed_def put_members_def by (auto simp: at_other_value)

lemma typed_put_document [intro]: "typed kb m \<Longrightarrow> typed kb (put_document kb i h m)"
  unfolding typed_def put_document_def by (auto simp: at_other_value)

lemma put_views [simp]:
  assumes "queueNamePattern q"
  shows "queueNamePattern q' \<Longrightarrow>
      members kb (put_members kb q st z m) q' st' = (if q' = q \<and> st' = st then z else members kb m q' st')"
    and "document kb (put_members kb q st z m) i = document kb m i"
    and "queueNamePattern q' \<Longrightarrow> meta kb (put_members kb q st z m) q' = meta kb m q'"
    and "registry kb (put_members kb q st z m) = registry kb m"
    and "holder kb (put_members kb q st z m) c = holder kb m c"
  using assms by (auto simp: put_members_def members_def document_def meta_def registry_def at_other_value
      holder_def)

lemma put_document_views [simp]:
  "queueNamePattern q \<Longrightarrow> members kb (put_document kb i h m) q st = members kb m q st"
  "document kb (put_document kb i h m) i' = (if i' = i then Some h else document kb m i')"
  "queueNamePattern q \<Longrightarrow> meta kb (put_document kb i h m) q = meta kb m q"
  "registry kb (put_document kb i h m) = registry kb m"
  "holder kb (put_document kb i h m) c = holder kb m c"
  by (auto simp: put_document_def members_def document_def meta_def registry_def at_other_value holder_def)

lemma paused_put [simp]:
  "queueNamePattern q \<Longrightarrow> queueNamePattern q' \<Longrightarrow> paused kb (put_members kb q st z m) q' = paused kb m q'"
  "queueNamePattern q' \<Longrightarrow> paused kb (put_document kb i h m) q' = paused kb m q'"
  by (simp_all add: paused_def)

section \<open>Claiming a job\<close>

text \<open>
  The specification of \<open>dequeue.lua\<close>: the first queue that is not paused and has an entry with a
  document; stale entries before it are dropped on the way.
\<close>

definition live_members :: "KeyBuilder \<Rightarrow> ref_db \<Rightarrow> QueueName \<Rightarrow> (int \<times> string) list" where
  "live_members kb m q = dropWhile (\<lambda>(s, x). document kb m x = None) (members kb m q StatePending)"

definition clear_stale :: "KeyBuilder \<Rightarrow> QueueName \<Rightarrow> ref_db \<Rightarrow> ref_db" where
  "clear_stale kb q m =
     (if members kb m q StatePending = [] then m else put_members kb q StatePending [] m)"

definition claim ::
  "KeyBuilder \<Rightarrow> QueueName \<Rightarrow> string \<Rightarrow> int \<Rightarrow> int \<Rightarrow> string \<Rightarrow> (int \<times> string) list \<Rightarrow> ref_db \<Rightarrow> ref_db" where
  "claim kb q w expiry now x rest m =
     put_document kb x (hset (the (document kb m x)) (claim_fields w expiry now))
       (put_members kb q StateActive (zput expiry x (members kb m q StateActive))
         (put_members kb q StatePending rest m))"

fun claim_first ::
  "KeyBuilder \<Rightarrow> string \<Rightarrow> int \<Rightarrow> int \<Rightarrow> QueueName list \<Rightarrow> ref_db \<Rightarrow> ref_db \<times> hash option" where
  "claim_first kb w expiry now [] m = (m, None)"
| "claim_first kb w expiry now (q # qs) m =
     (if paused kb m q then claim_first kb w expiry now qs m
      else case live_members kb m q of
             [] \<Rightarrow> claim_first kb w expiry now qs (clear_stale kb q m)
           | (s, x) # rest \<Rightarrow> (claim kb q w expiry now x rest m, document kb m x))"

lemma drain_queue:
  assumes "typed kb m" "queueNamePattern q" "length (members kb m q StatePending) < fuel"
  shows "drain (RefN tn) (Pending_key kb q) (Active_key kb q) w e now (JobPrefix kb) fuel m =
    (case live_members kb m q of
       [] \<Rightarrow> (clear_stale kb q m, Inr None)
     | (s, x) # rest \<Rightarrow> (claim kb q w e now x rest m, Inr (document kb m x)))"
proof -
  let ?z = "members kb m q StatePending"
  have live: "live_part m (JobPrefix kb) ?z = live_members kb m q"
    using assms(1) by (simp add: live_part_def live_members_def key_render document_None)
  have doc: "hash_at m (render kb (KJob x)) = document kb m x" if "live_members kb m q = (s, x) # rest" for s x rest
  proof -
    have "\<not> (case (s, x) of (s, x) \<Rightarrow> document kb m x = None)"
      using that hd_dropWhile [of "\<lambda>(s, x). document kb m x = None" ?z] unfolding live_members_def by fastforce
    then show ?thesis using typed_at(4) [OF assms(1), of x] by auto
  qed
  have "drain (RefN tn) (Pending_key kb q) (Active_key kb q) w e now (JobPrefix kb) fuel m =
    (case live_part m (JobPrefix kb) ?z of
       [] \<Rightarrow> (if ?z = [] then m else put_zset (Pending_key kb q) [] m, Inr None)
     | (s, x) # z' \<Rightarrow>
         (put_value (JobPrefix kb @ x) (RHash (hset (the (hash_at m (JobPrefix kb @ x))) (claim_fields w e now)))
            (put_zset (Active_key kb q) (zput e x (members kb m q StateActive)) (put_zset (Pending_key kb q) z' m)),
          Inr (hash_at m (JobPrefix kb @ x))))"
    using assms typed_at(1,4) [OF assms(1)] by (intro drain_enough) (auto simp: key_render)
  then show ?thesis unfolding live
    using doc by (auto simp: clear_stale_def claim_def put_members_def put_document_def key_render split: list.split)
qed

lemma clear_stale_views:
  assumes "queueNamePattern q"
  shows "typed kb m \<Longrightarrow> typed kb (clear_stale kb q m)"
    and "queueNamePattern q' \<Longrightarrow> members kb (clear_stale kb q m) q' st =
      (if q' = q \<and> st = StatePending then [] else members kb m q' st)"
    and "document kb (clear_stale kb q m) i = document kb m i"
    and "queueNamePattern q' \<Longrightarrow> paused kb (clear_stale kb q m) q' = paused kb m q'"
    and "registry kb (clear_stale kb q m) = registry kb m" "holder kb (clear_stale kb q m) c = holder kb m c"
  using assms by (auto simp: clear_stale_def)

lemma dequeue_lua_spec:
  assumes "typed kb m" "list_all queueNamePattern qs"
    and "\<And>q. q \<in> set qs \<Longrightarrow> length (members kb m q StatePending) < fuel"
  shows "dequeue_lua (RefN tn) (map (\<lambda>q. (Pending_key kb q, Active_key kb q, QueueMeta kb q)) qs) w e now
      (JobPrefix kb) fuel m =
    (case claim_first kb w (fl64 e) (fl64 now) qs m of (m', x) \<Rightarrow> (m', Inr x))"
  using assms
proof (induction qs arbitrary: m)
  case (Cons q qs)
  have q: "queueNamePattern q" using Cons.prems(2) by simp
  have hget: "ref_HGET (QueueMeta kb q) ''paused'' m = (m, Inr (map_of (meta kb m q) ''paused''))"
    using typed_at(2) [OF Cons.prems(1) q] by (simp add: ref_HGET_def key_render)
  have pos: "0 < fuel" using Cons.prems(3) [of q] by auto
  have next_q: "dequeue_lua (RefN tn) (map (\<lambda>q. (Pending_key kb q, Active_key kb q, QueueMeta kb q)) qs) w e now
      (JobPrefix kb) fuel m = (case claim_first kb w (fl64 e) (fl64 now) qs m of (m', x) \<Rightarrow> (m', Inr x))"
    using Cons by simp
  have next_c: "dequeue_lua (RefN tn) (map (\<lambda>q. (Pending_key kb q, Active_key kb q, QueueMeta kb q)) qs) w e now
      (JobPrefix kb) fuel (clear_stale kb q m) =
      (case claim_first kb w (fl64 e) (fl64 now) qs (clear_stale kb q m) of (m', x) \<Rightarrow> (m', Inr x))"
    using Cons.prems clear_stale_views [OF q] pos by (intro Cons.IH) (auto simp: list_all_iff)
  have d: "drain (RefN tn) (Pending_key kb q) (Active_key kb q) w (fl64 e) (fl64 now) (JobPrefix kb) fuel m =
    (case live_members kb m q of
       [] \<Rightarrow> (clear_stale kb q m, Inr None)
     | (s, x) # rest \<Rightarrow> (claim kb q w (fl64 e) (fl64 now) x rest m, Inr (document kb m x)))"
    using Cons.prems by (intro drain_queue) auto
  have doc: "\<exists>h. document kb m x = Some h" if "live_members kb m q = (s, x) # rest" for s x rest
    using that hd_dropWhile [of "\<lambda>(s, x). document kb m x = None" "members kb m q StatePending"]
    unfolding live_members_def by fastforce
  show ?case
  proof (cases "paused kb m q")
    case True
    then show ?thesis using hget next_q by (simp add: andThenS_def paused_def)
  next
    case False
    then show ?thesis using hget next_c d doc
      by (auto simp: andThenS_def paused_def split: list.split)
  qed
qed simp

section \<open>What a claim leaves behind\<close>

lemma claim_views:
  assumes "queueNamePattern q" "document kb m x = Some h"
  shows "typed kb m \<Longrightarrow> typed kb (claim kb q w e now x rest m)"
    and "queueNamePattern q' \<Longrightarrow> members kb (claim kb q w e now x rest m) q' st =
      (if q' = q \<and> st = StatePending then rest
       else if q' = q \<and> st = StateActive then zput e x (members kb m q StateActive) else members kb m q' st)"
    and "document kb (claim kb q w e now x rest m) i =
      (if i = x then Some (hset h (claim_fields w e now)) else document kb m i)"
    and "queueNamePattern q' \<Longrightarrow> paused kb (claim kb q w e now x rest m) q' = paused kb m q'"
  using assms by (auto simp: claim_def)

lemma live_members_Cons:
  assumes "live_members kb m q = (s, x) # rest"
  obtains h stale where "document kb m x = Some h" "members kb m q StatePending = stale @ (s, x) # rest"
    "\<And>t y. (t, y) \<in> set stale \<Longrightarrow> document kb m y = None"
proof -
  let ?P = "\<lambda>(s, x). document kb m x = None" and ?z = "members kb m q StatePending"
  have "\<not> ?P (s, x)" using assms hd_dropWhile [of ?P ?z] unfolding live_members_def by fastforce
  then obtain h where h: "document kb m x = Some h" by auto
  have z: "?z = takeWhile ?P ?z @ (s, x) # rest"
    using assms takeWhile_dropWhile_id [of ?P ?z] unfolding live_members_def by metis
  have "document kb m y = None" if "(t, y) \<in> set (takeWhile ?P ?z)" for t y
    using that by (auto dest: set_takeWhileD)
  with h z show thesis using that by blast
qed

text \<open>
  \<open>claimable kb fuel m\<close>: the deployment's keys have their types, an identifier waits in at most one
  queue, every document is stored under the identifier it carries, and the loop bound is large enough.
\<close>

definition waiting :: "KeyBuilder \<Rightarrow> ref_db \<Rightarrow> QueueName \<Rightarrow> string set" where
  "waiting kb m q = snd ` set (members kb m q StatePending)"

definition claimable :: "KeyBuilder \<Rightarrow> nat \<Rightarrow> ref_db \<Rightarrow> bool" where
  "claimable kb fuel m \<longleftrightarrow>
     typed kb m \<and> ref_ok m \<and>
     (\<forall>q q'. queueNamePattern q \<longrightarrow> queueNamePattern q' \<longrightarrow> q \<noteq> q' \<longrightarrow> waiting kb m q \<inter> waiting kb m q' = {}) \<and>
     (\<forall>q. queueNamePattern q \<longrightarrow> length (members kb m q StatePending) < fuel) \<and>
     (\<forall>i h. document kb m i = Some h \<longrightarrow> field h fieldID = i \<and> NewJobID i = Inr i)"

lemma waiting_clear:
  "queueNamePattern q \<Longrightarrow> queueNamePattern q' \<Longrightarrow>
     waiting kb (clear_stale kb q m) q' = (if q' = q then {} else waiting kb m q')"
  by (simp add: waiting_def clear_stale_views)

lemma members_ok:
  assumes "typed kb m" "ref_ok m" "queueNamePattern q"
  shows "sorted (members kb m q st)" "distinct (map snd (members kb m q st))"
  using ref_ok_at(2) [OF assms(2) typed_at(1) [OF assms(1,3)]] by auto

lemma ref_ok_clear: "ref_ok m \<Longrightarrow> ref_ok (clear_stale kb q m)"
  by (auto simp: clear_stale_def put_members_def intro: ref_ok_put_zset)

lemma claim_fields_no_id: "map_of (hset h (claim_fields w e now)) fieldID = map_of h fieldID"
  by (simp add: hset_def claim_fields_def field_names update_conv')

lemma claimable_clear:
  assumes "claimable kb fuel m" "queueNamePattern q"
  shows "claimable kb fuel (clear_stale kb q m)"
  using assms clear_stale_views [OF assms(2)] waiting_clear [OF assms(2)]
  unfolding claimable_def by (auto simp: ref_ok_clear)

lemma claimable_claim:
  assumes "claimable kb fuel m" "queueNamePattern q" "live_members kb m q = (s, x) # rest"
  shows "claimable kb fuel (claim kb q w e now x rest m)"
    and "x \<in> waiting kb m q" "queueNamePattern q' \<Longrightarrow> x \<notin> waiting kb (claim kb q w e now x rest m) q'"
    and "queueNamePattern q' \<Longrightarrow> waiting kb (claim kb q w e now x rest m) q' \<subseteq> waiting kb m q'"
proof -
  obtain h stale where h: "document kb m x = Some h" and z: "members kb m q StatePending = stale @ (s, x) # rest"
    using live_members_Cons [OF assms(3)] by metis
  have t: "typed kb m" "ref_ok m" using assms(1) by (auto simp: claimable_def)
  note ok = members_ok [OF t assms(2)]
  note V = claim_views [OF assms(2) h]
  have W: "waiting kb (claim kb q w e now x rest m) q' = (if q' = q then snd ` set rest else waiting kb m q')"
    if "queueNamePattern q'" for q'
    using V(2) that by (simp add: waiting_def)
  show x: "x \<in> waiting kb m q" using z by (simp add: waiting_def image_Un)
  have nx: "x \<notin> snd ` set rest" using ok(2) [of StatePending] z by simp
  show "x \<notin> waiting kb (claim kb q w e now x rest m) q'" if "queueNamePattern q'"
  proof (cases "q' = q")
    case True
    then show ?thesis using W [OF that] nx by simp
  next
    case False
    then have "waiting kb m q \<inter> waiting kb m q' = {}" using assms(1,2) that unfolding claimable_def by blast
    then show ?thesis using W [OF that] False x by auto
  qed
  show sub: "waiting kb (claim kb q w e now x rest m) q' \<subseteq> waiting kb m q'" if "queueNamePattern q'" for q'
    using W [OF that] z by (auto simp: waiting_def image_Un)
  have "ref_ok (claim kb q w e now x rest m)"
    unfolding claim_def put_document_def put_members_def
    using t(2) ok(1,2) [of StatePending] z zput_ok [OF ok(1,2) [of StateActive]]
      ref_ok_at(1) [OF t(2) typed_at(4) [OF t(1), of x]] h
    by (auto simp: rvalue_ok_def hset_distinct hset_nonempty claim_fields_def sorted_append
        intro!: ref_ok_put ref_ok_put_zset)
  moreover have "\<forall>q'. queueNamePattern q' \<longrightarrow> length (members kb (claim kb q w e now x rest m) q' StatePending) < fuel"
    using V(2) z assms(1,2) by (fastforce simp: claimable_def)
  moreover have "\<forall>i g. document kb (claim kb q w e now x rest m) i = Some g \<longrightarrow> field g fieldID = i \<and> NewJobID i = Inr i"
    using V(3) h assms(1) claim_fields_no_id by (auto simp: claimable_def field_def)
  moreover have "\<forall>q1 q2. queueNamePattern q1 \<longrightarrow> queueNamePattern q2 \<longrightarrow> q1 \<noteq> q2 \<longrightarrow>
      waiting kb (claim kb q w e now x rest m) q1 \<inter> waiting kb (claim kb q w e now x rest m) q2 = {}"
    using assms(1) sub unfolding claimable_def by blast
  ultimately show "claimable kb fuel (claim kb q w e now x rest m)"
    using V(1) [OF t(1)] unfolding claimable_def by blast
qed

text \<open>The claim over several queues.\<close>

lemma claim_first_keeps:
  assumes "claimable kb fuel m" "list_all queueNamePattern qs" "claim_first kb w e now qs m = (m', found)"
  shows "claimable kb fuel m' \<and> (\<forall>q'. queueNamePattern q' \<longrightarrow> waiting kb m' q' \<subseteq> waiting kb m q')"
  using assms
proof (induction qs arbitrary: m)
  case (Cons q qs)
  have q: "queueNamePattern q" "list_all queueNamePattern qs" using Cons.prems(2) by auto
  have sub: "queueNamePattern q' \<Longrightarrow> waiting kb (clear_stale kb q m) q' \<subseteq> waiting kb m q'" for q'
    using waiting_clear [OF q(1), of q'] by auto
  note C = claimable_claim [OF Cons.prems(1) q(1)] and D = claimable_clear [OF Cons.prems(1) q(1)]
  consider "paused kb m q" | "\<not> paused kb m q" "live_members kb m q = []"
    | s x rest where "\<not> paused kb m q" "live_members kb m q = (s, x) # rest"
    by (cases "live_members kb m q") auto
  then show ?case
  proof cases
    case 1
    then show ?thesis using Cons.IH [OF Cons.prems(1) q(2)] Cons.prems(3) by simp
  next
    case 2
    then show ?thesis using Cons.IH [OF D q(2)] Cons.prems(3) sub by fastforce
  next
    case 3
    then have "m' = claim kb q w e now x rest m" using Cons.prems(3) by simp
    then show ?thesis using C(1,4) [OF 3(2)] by blast
  qed
qed simp

definition claims ::
  "KeyBuilder \<Rightarrow> string \<Rightarrow> int \<Rightarrow> int \<Rightarrow> QueueName list \<Rightarrow> ref_db \<Rightarrow> ref_db \<Rightarrow> QueueName \<Rightarrow> string \<Rightarrow> hash \<Rightarrow> bool" where
  "claims kb w e now qs m m' q x h \<longleftrightarrow>
     (\<exists>s rest before after. qs = before @ q # after \<and>
        (\<forall>p \<in> set before. paused kb m p \<or> live_members kb m p = []) \<and> \<not> paused kb m q \<and>
        live_members kb m q = (s, x) # rest \<and> document kb m x = Some h \<and>
        members kb m' q StatePending = rest \<and> members kb m' q StateActive = zput e x (members kb m q StateActive) \<and>
        (\<forall>i. document kb m' i = (if i = x then Some (hset h (claim_fields w e now)) else document kb m i)))"

lemma live_members_clear:
  "queueNamePattern q \<Longrightarrow> queueNamePattern q' \<Longrightarrow> q' \<noteq> q \<Longrightarrow>
     live_members kb (clear_stale kb q m) q' = live_members kb m q'"
  by (simp add: live_members_def clear_stale_views)

lemma claim_first_Some:
  assumes "claimable kb fuel m" "list_all queueNamePattern qs" "distinct qs"
    "claim_first kb w e now qs m = (m', Some h)"
  shows "\<exists>q x. claims kb w e now qs m m' q x h"
  using assms
proof (induction qs arbitrary: m)
  case (Cons q qs)
  have q: "queueNamePattern q" "list_all queueNamePattern qs" "q \<notin> set qs" "distinct qs"
    using Cons.prems(2,3) by auto
  have qs: "queueNamePattern p" "p \<noteq> q" if "p \<in> set qs" for p using that q(2,3) by (auto simp: list_all_iff)
  consider (pause) "paused kb m q" | (stale) "\<not> paused kb m q" "live_members kb m q = []"
    | (hit) s x rest where "\<not> paused kb m q" "live_members kb m q = (s, x) # rest"
    by (cases "live_members kb m q") auto
  then show ?case
  proof cases
    case pause
    then obtain p x where "claims kb w e now qs m m' p x h" using Cons.IH [OF Cons.prems(1) q(2,4)] Cons.prems(4) by auto
    then obtain s rest before after where c: "qs = before @ p # after"
        "(\<forall>p \<in> set before. paused kb m p \<or> live_members kb m p = [])" "\<not> paused kb m p"
        "live_members kb m p = (s, x) # rest" "document kb m x = Some h"
        "members kb m' p StatePending = rest" "members kb m' p StateActive = zput e x (members kb m p StateActive)"
        "(\<forall>i. document kb m' i = (if i = x then Some (hset h (claim_fields w e now)) else document kb m i))"
      unfolding claims_def by blast
    then have "q # qs = (q # before) @ p # after" "\<forall>p \<in> set (q # before). paused kb m p \<or> live_members kb m p = []"
      using pause by auto
    with c show ?thesis unfolding claims_def by blast
  next
    case stale
    let ?m = "clear_stale kb q m"
    have V: "paused kb ?m p = paused kb m p" "live_members kb ?m p = live_members kb m p"
      "members kb ?m p st = members kb m p st" "document kb ?m i = document kb m i" if "p \<in> set qs" for p st i
      using clear_stale_views [OF q(1)] live_members_clear [OF q(1)] qs [OF that] by simp_all
    obtain p x where "claims kb w e now qs ?m m' p x h"
      using Cons.IH [OF claimable_clear [OF Cons.prems(1) q(1)] q(2,4)] Cons.prems(4) stale by auto
    then obtain s rest before after where c: "qs = before @ p # after"
        "(\<forall>p \<in> set before. paused kb ?m p \<or> live_members kb ?m p = [])" "\<not> paused kb ?m p"
        "live_members kb ?m p = (s, x) # rest" "document kb ?m x = Some h"
        "members kb m' p StatePending = rest" "members kb m' p StateActive = zput e x (members kb ?m p StateActive)"
        "(\<forall>i. document kb m' i = (if i = x then Some (hset h (claim_fields w e now)) else document kb ?m i))"
      unfolding claims_def by blast
    have p: "p \<in> set qs" "set before \<subseteq> set qs" using c(1) by auto
    have "q # qs = (q # before) @ p # after" "\<forall>p \<in> set (q # before). paused kb m p \<or> live_members kb m p = []"
      using stale c(1,2) V p by auto
    with c V [OF p(1)] show ?thesis unfolding claims_def by metis
  next
    case hit
    obtain g where g: "document kb m x = Some g" using live_members_Cons [OF hit(2)] by metis
    then have "m' = claim kb q w e now x rest m" "g = h" using Cons.prems(4) hit by auto
    then have "claims kb w e now ([] @ q # qs) m m' q x h"
      unfolding claims_def using hit g claim_views [OF q(1) g] q(1)
      by (intro exI [of _ s] exI [of _ rest] exI [of _ "[]"] exI [of _ qs]) auto
    then show ?thesis by auto
  qed
qed simp

lemma claim_first_None:
  assumes "list_all queueNamePattern qs" "distinct qs" "claim_first kb w e now qs m = (m', None)"
  shows "(\<forall>q \<in> set qs. paused kb m q \<or> live_members kb m q = []) \<and> (\<forall>i. document kb m' i = document kb m i)"
  using assms
proof (induction qs arbitrary: m)
  case (Cons q qs)
  have q: "queueNamePattern q" "list_all queueNamePattern qs" "q \<notin> set qs" "distinct qs"
    using Cons.prems(1,2) by auto
  show ?case
  proof (cases "paused kb m q")
    case True
    then show ?thesis using Cons.IH [OF q(2,4)] Cons.prems(3) by auto
  next
    case False
    then have n: "live_members kb m q = []"
      using Cons.prems(3) by (auto split: list.splits elim: live_members_Cons)
    then have "claim_first kb w e now qs (clear_stale kb q m) = (m', None)" using Cons.prems(3) False by simp
    note IH = Cons.IH [OF q(2,4) this]
    have "paused kb m p \<or> live_members kb m p = []" if "p \<in> set qs" for p
    proof -
      have p: "queueNamePattern p" "p \<noteq> q" using q(2,3) that by (auto simp: list_all_iff)
      show ?thesis
        using IH that clear_stale_views(4) [OF q(1) p(1)] live_members_clear [OF q(1) p] by auto
    qed
    then show ?thesis using n IH clear_stale_views(3) [OF q(1)] by auto
  qed
qed simp

section \<open>Inserting a job\<close>

text \<open>The queue is registered, and configured when it was not; then the document and its entry are written.\<close>

definition announce :: "KeyBuilder \<Rightarrow> QueueName \<Rightarrow> string \<Rightarrow> ref_db \<Rightarrow> ref_db" where
  "announce kb q weight m =
     (let m1 = put_value (render kb KRegistry) (RSet (List.insert q (registry kb m))) m
      in if m (render kb (KMeta q)) = None
         then put_value (render kb (KMeta q)) (RHash [(''weight'', weight), (''paused'', ''0'')]) m1 else m1)"

definition insert_job ::
  "KeyBuilder \<Rightarrow> QueueName \<Rightarrow> JobState \<Rightarrow> string \<Rightarrow> int \<Rightarrow> JobID \<Rightarrow> hash \<Rightarrow> ref_db \<Rightarrow> ref_db" where
  "insert_job kb q st weight score i h m =
     (let m1 = put_document kb i h (announce kb q weight m)
      in put_members kb q st (zput score i (members kb m1 q st)) m1)"

lemma set_at_put [simp]: "set_at (put_value k (RSet xs) m) k' = (if k' = k then Some xs else set_at m k')"
  by (simp add: set_at_def put_value_def)

lemma announce_views:
  assumes "typed kb m" "queueNamePattern q"
  shows "typed kb (announce kb q weight m)"
    and "queueNamePattern q' \<Longrightarrow> members kb (announce kb q weight m) q' st = members kb m q' st"
    and "document kb (announce kb q weight m) i = document kb m i"
    and "queueNamePattern q' \<Longrightarrow> paused kb (announce kb q weight m) q' = paused kb m q'"
    and "registry kb (announce kb q weight m) = List.insert q (registry kb m)"
    and "holder kb (announce kb q weight m) c = holder kb m c"
    and "ref_ok m \<Longrightarrow> ref_ok (announce kb q weight m)"
proof -
  show "paused kb (announce kb q weight m) q' = paused kb m q'" if "queueNamePattern q'"
  proof (cases "q' = q \<and> m (render kb (KMeta q)) = None")
    case True
    then have "meta kb m q = []" using typed_at(2) [OF assms] by (simp add: hash_at_def)
    then show ?thesis using True assms(2) by (simp add: announce_def Let_def paused_def meta_def)
  next
    case False
    then show ?thesis using that assms by (auto simp: announce_def Let_def paused_def meta_def)
  qed
  show "typed kb (announce kb q weight m)"
    using assms by (auto simp: announce_def Let_def typed_def at_other_value)
  show "ref_ok m \<Longrightarrow> ref_ok (announce kb q weight m)"
    using ref_ok_at(3) [OF _ typed_at(3) [OF assms(1)]]
    by (auto simp: announce_def Let_def rvalue_ok_def distinct_insert List.insert_def intro!: ref_ok_put)
qed (use assms in \<open>auto simp: announce_def Let_def members_def document_def registry_def holder_def at_other_value\<close>)

lemma insert_job_views:
  assumes "typed kb m" "queueNamePattern q"
  shows "typed kb (insert_job kb q st weight score i h m)"
    and "queueNamePattern q' \<Longrightarrow> members kb (insert_job kb q st weight score i h m) q' st' =
      (if q' = q \<and> st' = st then zput score i (members kb m q st) else members kb m q' st')"
    and "document kb (insert_job kb q st weight score i h m) i' = (if i' = i then Some h else document kb m i')"
    and "queueNamePattern q' \<Longrightarrow> paused kb (insert_job kb q st weight score i h m) q' = paused kb m q'"
    and "registry kb (insert_job kb q st weight score i h m) = List.insert q (registry kb m)"
    and "holder kb (insert_job kb q st weight score i h m) c = holder kb m c"
  using assms announce_views [OF assms] by (auto simp: insert_job_def Let_def)

lemma hset_Nil: "keys_distinct h \<Longrightarrow> hset [] h = h"
proof -
  have "keys_distinct (g @ h) \<Longrightarrow> hset g h = g @ h" for g
  proof (induction h arbitrary: g)
    case (Cons kv h)
    obtain k v where kv: "kv = (k, v)" by (cases kv)
    have "k \<notin> fst ` set g" using Cons.prems kv by auto
    then have "AList.update k v g = g @ [(k, v)]" by (induction g) auto
    then show ?case using Cons.IH [of "g @ [(k, v)]"] Cons.prems kv by (simp add: hset_def)
  qed (simp add: hset_def)
  from this [of "[]"] show "keys_distinct h \<Longrightarrow> hset [] h = h" by simp
qed

lemma enqueue_lua_spec:
  assumes "typed kb m" "queueNamePattern q" "keys_distinct h" "h \<noteq> []"
  shows "enqueue_lua (RefN tn) (Job_key kb i) (StateSet kb q st) (QueueRegistry kb) (QueueMeta kb q) i score q weight (flatten h) m =
    (if document kb m i = None then (insert_job kb q st weight score i h m, Inr 1) else (m, Inr 0))"
proof (cases "document kb m i = None")
  case False
  then show ?thesis using assms(1)
    by (auto simp: enqueue_lua_def andThenS_def ref_EXISTS_def key_render document_None)
next
  case True
  have D: "m (render kb (KJob i)) = None" using True document_None [OF assms(1)] by blast
  let ?m1 = "put_value (render kb KRegistry) (RSet (List.insert q (registry kb m))) m"
  have M: "hash_at ?m1 (render kb (KMeta q)) = Some (if m (render kb (KMeta q)) = None then [] else meta kb m q)"
    using typed_at(2) [OF assms(1,2)] assms(2) by (auto simp: hash_at_def)
  let ?a = "announce kb q weight m"
  have a: "zset_at (put_document kb i h ?a) (render kb (KState q st)) = Some (members kb (put_document kb i h ?a) q st)"
    using announce_views(1) [OF assms(1,2)] assms(2) by (intro typed_at(1)) auto
  have J: "hash_at ?a (render kb (KJob i)) = Some []"
    using D by (auto simp: announce_def Let_def hash_at_def assms(2))
  have E: "ref_EXISTS (render kb (KJob i)) m = (m, Inr False)" using D by (simp add: ref_EXISTS_def)
  have "andThenS (ref_SADD (render kb KRegistry) q) (\<lambda>_.
      andThenS (ref_EXISTS (render kb (KMeta q))) (\<lambda>configured.
      andThenS (if \<not> configured then ref_HSET (render kb (KMeta q)) [(''weight'', weight), (''paused'', ''0'')]
                else returnS ()) f)) m = f () ?a" for f :: "unit \<Rightarrow> (ref_db, int) call"
    using typed_at(3) [OF assms(1)] M assms(2)
    by (auto simp: andThenS_def ref_SADD_def ref_EXISTS_def ref_HSET_def announce_def Let_def hset_def)
  then have "enqueue_lua (RefN tn) (Job_key kb i) (StateSet kb q st) (QueueRegistry kb) (QueueMeta kb q) i score q weight
        (flatten h) m =
      andThenS (ref_HSET (render kb (KJob i)) h) (\<lambda>_. andThenS (ref_ZADD (render kb (KState q st)) score i) (\<lambda>_. returnS 1)) ?a"
    unfolding enqueue_lua_def key_render RefN_simps by (simp add: andThenS_simps(2) [where m = "ref_EXISTS (render kb (KJob i))", OF E])
  also have "\<dots> = (insert_job kb q st weight score i h m, Inr 1)"
    using J a assms(3,4)
    by (simp add: andThenS_def ref_HSET_def ref_ZADD_def hset_Nil insert_job_def Let_def put_members_def put_document_def)
  finally show ?thesis using True by simp
qed

section \<open>Moving a job between sets\<close>

definition set_ttl :: "KeyBuilder \<Rightarrow> JobID \<Rightarrow> int \<Rightarrow> ref_db \<Rightarrow> ref_db" where
  "set_ttl kb i ttl m =
     m(render kb (KJob i) :=
       map_option (e_ttl_update (\<lambda>_. if ttl > 0 then Some (ttl * 1000) else None)) (m (render kb (KJob i))))"

definition move_job ::
  "KeyBuilder \<Rightarrow> QueueName \<Rightarrow> JobState \<Rightarrow> JobState \<Rightarrow> int \<Rightarrow> int \<Rightarrow> JobID \<Rightarrow> hash \<Rightarrow> ref_db \<Rightarrow> ref_db" where
  "move_job kb q a b score ttl i h m =
     (let m1 = put_members kb q a (zdel i (members kb m q a)) m
      in if document kb m i = None then m1
         else let m2 = put_members kb q b (zput score i (members kb m1 q b)) m1
              in set_ttl kb i ttl (put_document kb i (hset (the (document kb m i)) h) m2))"

lemma set_ttl_views:
  "hash_at (set_ttl kb i ttl m) k = hash_at m k" "zset_at (set_ttl kb i ttl m) k = zset_at m k"
  "set_at (set_ttl kb i ttl m) k = set_at m k" "typed kb m \<Longrightarrow> typed kb (set_ttl kb i ttl m)"
  "members kb (set_ttl kb i ttl m) q st = members kb m q st" "document kb (set_ttl kb i ttl m) i' = document kb m i'"
  "paused kb (set_ttl kb i ttl m) q = paused kb m q" "registry kb (set_ttl kb i ttl m) = registry kb m"
  "holder kb (set_ttl kb i ttl m) c = holder kb m c"
proof -
  show h: "hash_at (set_ttl kb i ttl m) k = hash_at m k" for k
    by (auto simp: hash_at_def set_ttl_def split: option.split)
  show z: "zset_at (set_ttl kb i ttl m) k = zset_at m k" for k
    by (auto simp: zset_at_def set_ttl_def split: option.split)
  show s: "set_at (set_ttl kb i ttl m) k = set_at m k" for k
    by (auto simp: set_at_def set_ttl_def split: option.split)
  show "holder kb (set_ttl kb i ttl m) c = holder kb m c"
    by (auto simp: holder_def set_ttl_def split: option.split)
  show "typed kb m \<Longrightarrow> typed kb (set_ttl kb i ttl m)"
    unfolding typed_def h z s by (auto simp: set_ttl_def)
qed (auto simp: members_def document_def paused_def meta_def registry_def set_ttl_def hash_at_def zset_at_def set_at_def
      split: option.split)

lemma move_job_views:
  assumes "typed kb m" "queueNamePattern q" "a \<noteq> b"
  shows "typed kb (move_job kb q a b score ttl i h m)"
    and "queueNamePattern q' \<Longrightarrow> members kb (move_job kb q a b score ttl i h m) q' st =
      (if q' = q \<and> st = a then zdel i (members kb m q a)
       else if q' = q \<and> st = b \<and> document kb m i \<noteq> None then zput score i (members kb m q b)
       else members kb m q' st)"
    and "document kb (move_job kb q a b score ttl i h m) i' =
      (if i' = i then map_option (\<lambda>g. hset g h) (document kb m i) else document kb m i')"
    and "queueNamePattern q' \<Longrightarrow> paused kb (move_job kb q a b score ttl i h m) q' = paused kb m q'"
  using assms by (auto simp: move_job_def Let_def set_ttl_views intro!: set_ttl_views(4))

lemma transition_lua_spec:
  assumes "typed kb m" "queueNamePattern q" "h \<noteq> []"
  shows "transition_lua (RefN tn) (Job_key kb i) (StateSet kb q a) (StateSet kb q b) i score ttl (flatten h) m =
    (move_job kb q a b score ttl i h m, Inr (if document kb m i = None then 0 else 1))"
proof -
  let ?K = "\<lambda>st. render kb (KState q st)"
  let ?m1 = "put_members kb q a (zdel i (members kb m q a)) m"
  let ?m2 = "put_members kb q b (zput score i (members kb ?m1 q b)) ?m1"
  have t: "typed kb ?m1" "typed kb ?m2" using assms by auto
  have rem: "ref_ZREM (?K a) i m = (?m1, Inr ())"
    using typed_at(1) [OF assms(1,2)] by (simp add: ref_ZREM_def put_members_def)
  have add: "ref_ZADD (?K b) score i ?m1 = (?m2, Inr ())"
    using typed_at(1) [OF t(1) assms(2)] by (simp add: ref_ZADD_def put_members_def)
  have set: "ref_HSET (render kb (KJob i)) h ?m2 = (put_document kb i (hset (the (document kb m i)) h) ?m2, Inr ())"
    if "document kb m i \<noteq> None"
    using typed_at(4) [OF t(2), of i] that assms(2,3) by (auto simp: ref_HSET_def put_document_def)
  have exp: "(if ttl > 0 then ref_EXPIRE (render kb (KJob i)) ttl else ref_PERSIST (render kb (KJob i)))
      (put_document kb i g m') = (set_ttl kb i ttl (put_document kb i g m'), Inr ())" for g m'
    by (auto simp: ref_EXPIRE_def ref_PERSIST_def set_ttl_def put_document_def put_value_def)
  show ?thesis
  proof (cases "document kb m i = None")
    case True
    then have "ref_EXISTS (render kb (KJob i)) m = (m, Inr False)" using document_None [OF assms(1)] by (simp add: ref_EXISTS_def)
    then show ?thesis using True rem
      by (simp add: transition_lua_def key_render andThenS_def move_job_def)
  next
    case False
    then have "ref_EXISTS (render kb (KJob i)) m = (m, Inr True)" using document_None [OF assms(1)] by (simp add: ref_EXISTS_def)
    then show ?thesis using False rem add set [OF False] exp
      unfolding transition_lua_def key_render RefN_simps pairs_of_flatten move_job_def Let_def
      by (auto simp: andThenS_def)
  qed
qed

section \<open>Returning due jobs to the pending set\<close>

definition priority_text :: "hash \<Rightarrow> string" where
  "priority_text h = (case map_of h ''priority'' of Some t \<Rightarrow> t | None \<Rightarrow> ''5'')"

definition requeue_score :: "int \<Rightarrow> int \<Rightarrow> int \<Rightarrow> int \<Rightarrow> int" where
  "requeue_score mp band now priority = fl64 (fl64 (fl64 (mp - priority) * band) + now)"

definition pending_fields :: "int \<Rightarrow> hash" where
  "pending_fields now =
     [(''state'', ''pending''), (''process_at_ms'', lua_text now), (''lease_expiry_ms'', ''0''), (''worker_id'', '''')]"

definition requeue_one ::
  "KeyBuilder \<Rightarrow> QueueName \<Rightarrow> JobState \<Rightarrow> hash \<Rightarrow> int \<Rightarrow> (hash \<Rightarrow> int) \<Rightarrow> JobID \<Rightarrow> ref_db \<Rightarrow> ref_db" where
  "requeue_one kb q a extra now score i m =
     (let m1 = put_members kb q a (zdel i (members kb m q a)) m
      in case document kb m i of
           None \<Rightarrow> m1
         | Some h \<Rightarrow>
             put_document kb i (hset h (pending_fields now @ extra))
               (put_members kb q StatePending (zput (score h) i (members kb m1 q StatePending)) m1))"

definition requeue_all ::
  "KeyBuilder \<Rightarrow> QueueName \<Rightarrow> JobState \<Rightarrow> hash \<Rightarrow> int \<Rightarrow> (hash \<Rightarrow> int) \<Rightarrow> JobID list \<Rightarrow> ref_db \<Rightarrow> ref_db" where
  "requeue_all kb q a extra now score ids m = fold (requeue_one kb q a extra now score) ids m"

lemma requeue_one_views:
  assumes "typed kb m" "queueNamePattern q" "a \<noteq> StatePending"
  shows "typed kb (requeue_one kb q a extra now score i m)"
    and "queueNamePattern q' \<Longrightarrow> members kb (requeue_one kb q a extra now score i m) q' st =
      (if q' = q \<and> st = a then zdel i (members kb m q a)
       else if q' = q \<and> st = StatePending then
         (case document kb m i of None \<Rightarrow> members kb m q st | Some h \<Rightarrow> zput (score h) i (members kb m q st))
       else members kb m q' st)"
    and "document kb (requeue_one kb q a extra now score i m) x =
      (if x = i then map_option (\<lambda>h. hset h (pending_fields now @ extra)) (document kb m x) else document kb m x)"
  using assms by (auto simp: requeue_one_def Let_def split: option.split)

lemma requeue_all_views:
  assumes "typed kb m" "queueNamePattern q" "a \<noteq> StatePending" "distinct ids"
  shows "typed kb (requeue_all kb q a extra now score ids m)"
    and "document kb (requeue_all kb q a extra now score ids m) x =
      (if x \<in> set ids then map_option (\<lambda>h. hset h (pending_fields now @ extra)) (document kb m x) else document kb m x)"
    and "members kb (requeue_all kb q a extra now score ids m) q a = filter (\<lambda>(s, x). x \<notin> set ids) (members kb m q a)"
    and "(t, x) \<in> set (members kb (requeue_all kb q a extra now score ids m) q StatePending) \<longleftrightarrow>
      (case document kb m x of
         Some h \<Rightarrow> if x \<in> set ids then t = score h else (t, x) \<in> set (members kb m q StatePending)
       | None \<Rightarrow> (t, x) \<in> set (members kb m q StatePending))"
    and "queueNamePattern q' \<Longrightarrow> q' \<noteq> q \<or> st \<notin> {a, StatePending} \<Longrightarrow>
      members kb (requeue_all kb q a extra now score ids m) q' st = members kb m q' st"
  using assms(1,4)
proof (induction ids arbitrary: m)
  case (Cons i ids)
  note V = requeue_one_views [OF _ assms(2,3)]
  have step: "requeue_all kb q a extra now score (i # ids) m =
      requeue_all kb q a extra now score ids (requeue_one kb q a extra now score i m)" for m
    by (simp add: requeue_all_def)
  { case 1 show ?case unfolding step using Cons.IH(1) V(1) 1 by simp
  next case 2 show ?case unfolding step using Cons.IH(2) V(1,3) 2 by auto
  next case 3
    have "filter (\<lambda>(s, x). x \<notin> set ids) (zdel i (members kb m q a)) = filter (\<lambda>(s, x). x \<notin> set (i # ids)) (members kb m q a)"
      by (auto simp: zdel_def intro: filter_cong)
    then show ?case unfolding step using Cons.IH(3) V(1,2) 3 assms(2) by simp
  next case 4
    let ?m = "requeue_one kb q a extra now score i m"
    have "document kb ?m x = (if x = i then map_option (\<lambda>h. hset h (pending_fields now @ extra)) (document kb m x) else document kb m x)"
      using V(3) 4 by simp
    moreover have "(t, x) \<in> set (members kb ?m q StatePending) \<longleftrightarrow>
        (case document kb m i of None \<Rightarrow> (t, x) \<in> set (members kb m q StatePending)
         | Some h \<Rightarrow> (t, x) = (score h, i) \<or> (t, x) \<in> set (members kb m q StatePending) \<and> x \<noteq> i)"
      using V(2) [OF _ assms(2)] 4 assms(3) by (auto simp: zput_def zdel_def set_insort_key split: option.split)
    ultimately show ?case unfolding step using Cons.IH(4) V(1) 4
      by (auto split: option.split)
  next case 5 show ?case unfolding step using Cons.IH(5) V(1,2) 5 by auto }
qed (auto simp: requeue_all_def split: option.split)

lemma requeue_each_spec:
  assumes "typed kb m" "queueNamePattern q" "a \<noteq> StatePending" "distinct ids"
    and "\<And>i h. i \<in> set ids \<Longrightarrow> document kb m i = Some h \<Longrightarrow> tn (priority_text h) = Some (prio h)"
  shows "requeue_each (RefN tn) extra (StateSet kb q a) (Pending_key kb q) now (JobPrefix kb) band mp ids n m =
    (requeue_all kb q a extra now (\<lambda>h. requeue_score mp band now (prio h)) ids m,
     Inr (n + int (length (filter (\<lambda>i. document kb m i \<noteq> None) ids))))"
  using assms(1,4,5)
proof (induction ids arbitrary: m n)
  case (Cons i ids)
  let ?score = "\<lambda>h. requeue_score mp band now (prio h)"
  let ?m = "requeue_one kb q a extra now ?score i m"
  let ?m1 = "put_members kb q a (zdel i (members kb m q a)) m"
  note V = requeue_one_views [OF Cons.prems(1) assms(2,3)]
  have other: "document kb ?m x = document kb m x" if "x \<in> set ids" for x using V(3) that Cons.prems(2) by auto
  have IH: "requeue_each (RefN tn) extra (StateSet kb q a) (Pending_key kb q) now (JobPrefix kb) band mp ids k ?m =
    (requeue_all kb q a extra now ?score ids ?m, Inr (k + int (length (filter (\<lambda>i. document kb m i \<noteq> None) ids))))" for k
  proof -
    have "filter (\<lambda>i. document kb ?m i \<noteq> None) ids = filter (\<lambda>i. document kb m i \<noteq> None) ids"
      using other by (intro filter_cong) auto
    moreover have "requeue_each (RefN tn) extra (StateSet kb q a) (Pending_key kb q) now (JobPrefix kb) band mp ids k ?m =
      (requeue_all kb q a extra now ?score ids ?m, Inr (k + int (length (filter (\<lambda>i. document kb ?m i \<noteq> None) ids))))"
      using Cons.prems V(1) other by (intro Cons.IH) auto
    ultimately show ?thesis by simp
  qed
  have t: "typed kb ?m1" using Cons.prems(1) assms(2) by auto
  have rem: "ref_ZREM (render kb (KState q a)) i m = (?m1, Inr ())"
    using typed_at(1) [OF Cons.prems(1) assms(2)] by (simp add: ref_ZREM_def put_members_def)
  have ex: "ref_EXISTS (render kb (KJob i)) ?m1 = (?m1, Inr (document kb m i \<noteq> None))"
    using document_None [OF t, of i] assms(2) by (simp add: ref_EXISTS_def)
  have step: "requeue_all kb q a extra now ?score (i # ids) m = requeue_all kb q a extra now ?score ids ?m"
    by (simp add: requeue_all_def)
  show ?case
  proof (cases "document kb m i")
    case None
    then show ?thesis using rem ex IH [of n] unfolding step
      by (simp add: key_render andThenS_def requeue_one_def)
  next
    case (Some h)
    let ?m2 = "put_members kb q StatePending (zput (?score h) i (members kb ?m1 q StatePending)) ?m1"
    have get: "ref_HGET (render kb (KJob i)) ''priority'' ?m1 = (?m1, Inr (map_of h ''priority''))"
      using typed_at(4) [OF t, of i] Some assms(2) by (simp add: ref_HGET_def)
    have num: "tn (case map_of h ''priority'' of None \<Rightarrow> ''5'' | Some t \<Rightarrow> t) = Some (prio h)"
      using Cons.prems(3) [of i h] Some by (simp add: priority_text_def)
    have add: "ref_ZADD (render kb (KState q StatePending)) (?score h) i ?m1 = (?m2, Inr ())"
      using typed_at(1) [OF t assms(2)] by (simp add: ref_ZADD_def put_members_def)
    have "typed kb ?m2" using t assms(2) by auto
    then have hs: "ref_HSET (render kb (KJob i)) (pending_fields now @ extra) ?m2 =
        (put_document kb i (hset h (pending_fields now @ extra)) ?m2, Inr ())"
      using typed_at(4) [of kb ?m2 i] Some assms(2) by (simp add: ref_HSET_def put_document_def pending_fields_def)
    have m': "?m = put_document kb i (hset h (pending_fields now @ extra)) ?m2" using Some by (simp add: requeue_one_def Let_def)
    have "requeue_each (RefN tn) extra (StateSet kb q a) (Pending_key kb q) now (JobPrefix kb) band mp (i # ids) n m =
      requeue_each (RefN tn) extra (StateSet kb q a) (Pending_key kb q) now (JobPrefix kb) band mp ids (n + 1) ?m"
      using rem ex get num add hs Some unfolding m'
      by (simp add: key_render andThenS_def requeue_score_def pending_fields_def)
    then show ?thesis using IH [of "n + 1"] Some unfolding step by simp
  qed
qed (simp add: requeue_all_def)

lemma requeue_all_cong:
  assumes "typed kb m" "queueNamePattern q" "a \<noteq> StatePending" "distinct ids"
    and "\<And>i h. i \<in> set ids \<Longrightarrow> document kb m i = Some h \<Longrightarrow> score h = score' h"
  shows "requeue_all kb q a extra now score ids m = requeue_all kb q a extra now score' ids m"
  using assms(1,4,5)
proof (induction ids arbitrary: m)
  case (Cons i ids)
  note V = requeue_one_views [OF Cons.prems(1) assms(2,3)]
  have one: "requeue_one kb q a extra now score i m = requeue_one kb q a extra now score' i m"
    using Cons.prems(3) [of i] by (auto simp: requeue_one_def Let_def split: option.split)
  have "requeue_all kb q a extra now score ids (requeue_one kb q a extra now score i m) =
      requeue_all kb q a extra now score' ids (requeue_one kb q a extra now score i m)"
  proof (rule Cons.IH)
    show "\<And>x h. x \<in> set ids \<Longrightarrow> document kb (requeue_one kb q a extra now score i m) x = Some h \<Longrightarrow> score h = score' h"
      using Cons.prems(2,3) V(3) by (auto split: if_splits)
  qed (use V(1) Cons.prems(2) in auto)
  then show ?case using one by (simp add: requeue_all_def)
qed (simp add: requeue_all_def)

end
