(* ===== verification/Redis_Broker.thy ===== *)
theory Redis_Broker
  imports Redis_Layout Ports Hydrator
begin

text \<open>
  The job broker on Redis (\<open>src/pkg/infrastructure/persistence/redis/job_broker.go\<close>). An operation takes the
  commands of the server, the key builder and the instant its clock shows, and runs over a
  connection. \<open>redisBroker\<close> collects the operations as the port the services use.

  The properties are stated for every server that behaves as documented (\<open>redis_server\<close>): the calls
  simulate the same calls on the reference server, where their effect is computed exactly.
\<close>

section \<open>Operations\<close>

definition leaseGrace :: duration where "leaseGrace = 30 * second"

definition defWeight :: Weight where "defWeight = DefaultWeight"

definition sweepLimit :: int where "sweepLimit = 500"

definition RB_insert :: "'r redis \<Rightarrow> KeyBuilder \<Rightarrow> Job \<Rightarrow> string \<Rightarrow> int \<Rightarrow> ('r conn, unit) call" where
  "RB_insert R kb job targetKey score =
     andThenS (liftS (toJobFields job)) (\<lambda>document.
     andThenS (orInternal ''job_enqueue_failed'' ''failed to enqueue job''
         (send (enqueue_lua R (Job_key kb (j_id job)) targetKey (QueueRegistry kb) (QueueMeta kb (j_queue job))
            (j_id job) score (j_queue job) (FormatUint (unat defWeight)) document))) (\<lambda>inserted.
       if inserted = 0 then failS (Conflict ''duplicate_job_id'' ''a job with this id already exists'')
       else returnS ()))"

definition RB_Enqueue :: "'r redis \<Rightarrow> KeyBuilder \<Rightarrow> Job \<Rightarrow> ('r conn, unit) call" where
  "RB_Enqueue R kb job =
     RB_insert R kb job (Pending_key kb (j_queue job)) (PendingScore (j_priority job) (toMillis (j_processAt job)))"

definition RB_Schedule :: "'r redis \<Rightarrow> KeyBuilder \<Rightarrow> Job \<Rightarrow> ('r conn, unit) call" where
  "RB_Schedule R kb job =
     RB_insert R kb job (Scheduled_key kb (j_queue job)) (fl64 (toMillis (j_processAt job)))"

text \<open>
  A reply \<open>false\<close> of the script reaches the client as \<open>redis.Nil\<close>, here \<open>None\<close>. \<open>fuel\<close> bounds the loop of
  the script.
\<close>

definition RB_Dequeue ::
  "'r redis \<Rightarrow> KeyBuilder \<Rightarrow> decode_texts \<Rightarrow> nat \<Rightarrow> time \<Rightarrow> QueueName list \<Rightarrow> string \<Rightarrow> duration \<Rightarrow>
     ('r conn, Job option) call" where
  "RB_Dequeue R kb txt fuel now order workerID leaseFor =
     (if order = [] then returnS None
      else let leaseExpiry = now + wrap64 (leaseFor + leaseGrace)
      in andThenS (orInternal ''job_dequeue_failed'' ''failed to dequeue job''
           (send (dequeue_lua R
              (map (\<lambda>queue. (Pending_key kb queue, Active_key kb queue, QueueMeta kb queue)) (dedupeQueues order))
              workerID (toMillis leaseExpiry) (toMillis now) (JobPrefix kb) fuel))) (\<lambda>raw.
         case raw of
           None \<Rightarrow> returnS None
         | Some snapshot \<Rightarrow>
             if snapshot = [] then returnS None
             else
               andThenS (liftS (flatArrayToMap (map AnyString (flatten snapshot)))) (\<lambda>h.
               andThenS (liftS (toAggregate txt h)) (\<lambda>job.
               andThenS (liftS (Lease workerID now leaseGrace job)) (\<lambda>leased.
               returnS (Some leased))))))"

definition RB_transition ::
  "'r redis \<Rightarrow> KeyBuilder \<Rightarrow> Job \<Rightarrow> string \<Rightarrow> string \<Rightarrow> int \<Rightarrow> int \<Rightarrow> ('r conn, unit) call" where
  "RB_transition R kb job fromKey toKey score ttlSeconds =
     andThenS (liftS (toJobFields job)) (\<lambda>document.
     andThenS (orInternal ''job_transition_failed'' ''failed to transition job''
         (send (transition_lua R (Job_key kb (j_id job)) fromKey toKey (j_id job) score ttlSeconds document)))
       (\<lambda>_. returnS ()))"

definition RB_transitionFromAny ::
  "'r redis \<Rightarrow> KeyBuilder \<Rightarrow> Job \<Rightarrow> string \<Rightarrow> int \<Rightarrow> int \<Rightarrow> ('r conn, unit) call" where
  "RB_transitionFromAny R kb job toKey score ttlSeconds =
     (let queue = j_queue job
      in andThenS (orInternal ''job_transition_failed'' ''failed to clear job set membership''
           (send (pipeline (map (\<lambda>key. r_ZREM R key (j_id job))
              [Pending_key kb queue, Active_key kb queue, Scheduled_key kb queue, Retrying_key kb queue,
               Completed_key kb queue, Dead_key kb queue])))) (\<lambda>_.
         RB_transition R kb job (Pending_key kb queue) toKey score ttlSeconds))"

definition RB_Complete :: "'r redis \<Rightarrow> KeyBuilder \<Rightarrow> time \<Rightarrow> Job \<Rightarrow> duration \<Rightarrow> ('r conn, unit) call" where
  "RB_Complete R kb now job retainFor =
     (let retainUntil = now + retainFor
      in RB_transition R kb job (Active_key kb (j_queue job)) (Completed_key kb (j_queue job))
           (fl64 (toMillis retainUntil)) (int64_Seconds retainFor))"

definition RB_Retry :: "'r redis \<Rightarrow> KeyBuilder \<Rightarrow> Job \<Rightarrow> time \<Rightarrow> ('r conn, unit) call" where
  "RB_Retry R kb job retryAt =
     RB_transition R kb job (Active_key kb (j_queue job)) (Retrying_key kb (j_queue job))
       (fl64 (toMillis retryAt)) 0"

definition RB_Kill :: "'r redis \<Rightarrow> KeyBuilder \<Rightarrow> time \<Rightarrow> Job \<Rightarrow> ('r conn, unit) call" where
  "RB_Kill R kb now job =
     (let score = (case j_diedAt job of
            None \<Rightarrow> fl64 (toMillis now)
          | Some diedAt \<Rightarrow> fl64 (toMillis diedAt))
      in RB_transitionFromAny R kb job (Dead_key kb (j_queue job)) score 0)"

definition RB_Requeue :: "'r redis \<Rightarrow> KeyBuilder \<Rightarrow> Job \<Rightarrow> ('r conn, unit) call" where
  "RB_Requeue R kb job =
     RB_transition R kb job (Dead_key kb (j_queue job)) (Pending_key kb (j_queue job))
       (PendingScore (j_priority job) (toMillis (j_processAt job))) 0"

text \<open>
  The two sweeps. When the second source of \<open>PromoteDue\<close> fails, the Go code also returns the count of the
  first; its callers drop it with the error.
\<close>

definition RB_PromoteDue :: "'r redis \<Rightarrow> KeyBuilder \<Rightarrow> QueueName \<Rightarrow> time \<Rightarrow> int \<Rightarrow> ('r conn, int) call" where
  "RB_PromoteDue R kb queue now limit =
     (let limit = (if limit \<le> 0 then sweepLimit else limit);
          run = (\<lambda>sourceKey. orInternal ''job_promote_failed'' ''failed to promote due jobs''
            (send (promote_lua R sourceKey (Pending_key kb queue) (toMillis now) limit (JobPrefix kb)
               priorityBand (int (unat MaxPriority)))))
      in andThenS (run (Scheduled_key kb queue)) (\<lambda>scheduled.
         andThenS (run (Retrying_key kb queue)) (\<lambda>retrying.
         returnS (wrap64 (scheduled + retrying)))))"

definition RB_ReclaimExpired :: "'r redis \<Rightarrow> KeyBuilder \<Rightarrow> QueueName \<Rightarrow> time \<Rightarrow> int \<Rightarrow> ('r conn, int) call" where
  "RB_ReclaimExpired R kb queue now limit =
     (let limit = (if limit \<le> 0 then sweepLimit else limit)
      in orInternal ''job_reclaim_failed'' ''failed to reclaim expired jobs''
           (send (reclaim_lua R (Active_key kb queue) (Pending_key kb queue) (toMillis now) limit (JobPrefix kb)
              priorityBand (int (unat MaxPriority)))))"

definition RB_ExtendLease :: "'r redis \<Rightarrow> KeyBuilder \<Rightarrow> JobID \<Rightarrow> QueueName \<Rightarrow> time \<Rightarrow> ('r conn, unit) call" where
  "RB_ExtendLease R kb i queue until =
     andThenS (orInternal ''lease_extend_failed'' ''failed to extend job lease''
         (send (extend_lease_lua R (Active_key kb queue) (Job_key kb i) i (toMillis until)))) (\<lambda>extended.
       if extended = 0
       then failS (Conflict ''lease_lost'' ''job is no longer active; its lease was reclaimed by another worker'')
       else returnS ())"

definition redisBroker ::
  "'r redis \<Rightarrow> KeyBuilder \<Rightarrow> decode_texts \<Rightarrow> nat \<Rightarrow> time \<Rightarrow> 'r conn IJobBroker" where
  "redisBroker R kb txt fuel now =
     \<lparr>broker_Enqueue = RB_Enqueue R kb, broker_Schedule = RB_Schedule R kb,
      broker_Dequeue = RB_Dequeue R kb txt fuel now, broker_Complete = RB_Complete R kb now,
      broker_Retry = RB_Retry R kb, broker_Kill = RB_Kill R kb now, broker_Requeue = RB_Requeue R kb,
      broker_PromoteDue = RB_PromoteDue R kb, broker_ReclaimExpired = RB_ReclaimExpired R kb,
      broker_ExtendLease = RB_ExtendLease R kb\<rparr>"

lemmas RB_defs = RB_insert_def RB_Enqueue_def RB_Schedule_def RB_transition_def RB_transitionFromAny_def
  RB_Complete_def RB_Retry_def RB_Kill_def RB_Requeue_def RB_PromoteDue_def RB_ReclaimExpired_def
  RB_ExtendLease_def

section \<open>Refinement\<close>

text \<open>Decoding does not depend on the order of the fields.\<close>

lemma field_cong: "map_of a = map_of b \<Longrightarrow> field a = field b"
  by (auto simp: field_def fun_eq_iff)

lemma toAggregate_cong: "map_of a = map_of b \<Longrightarrow> toAggregate txt a = toAggregate txt b"
proof -
  assume eq: "map_of a = map_of b"
  have "a = [] \<longleftrightarrow> b = []" using eq map_of_eq_empty_iff [of a] map_of_eq_empty_iff [of b] by simp
  then show ?thesis unfolding toAggregate_def field_cong [OF eq] by simp
qed

lemma sim_liftS [sim_intros]: "rel_sum (=) Q x y \<Longrightarrow> sim L Q (liftS x) (liftS y)"
  by (simp add: sim_def)

lemma sim_liftS_eq: "sim L (=) (liftS x) (liftS x)"
  by (simp add: sim_def sum.rel_refl)

lemma sim_andThenS_eq:
  "sim L (=) f g \<Longrightarrow> (\<And>x. sim L Q (f' x) (g' x)) \<Longrightarrow> sim L Q (andThenS f f') (andThenS g g')"
  by (erule sim_andThenS [where Q = "(=)"]) auto

lemma sim_returnS_eq: "sim L (=) (returnS x) (returnS x)"
  by (rule sim_returnS) (rule refl)

lemmas sim_call = sim_andThenS_eq sim_liftS_eq sim_orInternal sim_send sim_if sim_failS sim_returnS_eq

context redis_server
begin

lemma sim_insert: "sim (conn_rel L) (=) (RB_insert R kb job k score) (RB_insert reference kb job k score)"
  unfolding RB_insert_def by (intro sim_call sim_enqueue)

lemma sim_broker_transition:
  "sim (conn_rel L) (=) (RB_transition R kb job a b score ttl) (RB_transition reference kb job a b score ttl)"
  unfolding RB_transition_def by (intro sim_call sim_transition)

lemma sim_clear:
  "sim L (=) (pipeline (map (\<lambda>k. r_ZREM R k i) ks)) (pipeline (map (\<lambda>k. r_ZREM reference k i) ks))"
  by (rule sim_pipeline) (simp add: list.rel_map list_all2_same sim_ZREM)

lemma sim_fromAny:
  "sim (conn_rel L) (=) (RB_transitionFromAny R kb job b score ttl) (RB_transitionFromAny reference kb job b score ttl)"
  unfolding RB_transitionFromAny_def Let_def by (intro sim_call sim_clear sim_broker_transition)

lemma sim_promote_due:
  "sim (conn_rel L) (=) (RB_PromoteDue R kb q now n) (RB_PromoteDue reference kb q now n)"
  unfolding RB_PromoteDue_def Let_def by (intro sim_call sim_promote)

lemma sim_reclaim_expired:
  "sim (conn_rel L) (=) (RB_ReclaimExpired R kb q now n) (RB_ReclaimExpired reference kb q now n)"
  unfolding RB_ReclaimExpired_def Let_def by (intro sim_call sim_reclaim)

lemma sim_extend:
  "sim (conn_rel L) (=) (RB_ExtendLease R kb i q t) (RB_ExtendLease reference kb i q t)"
  unfolding RB_ExtendLease_def by (intro sim_call sim_extend_lease)

end

text \<open>The snapshot is decoded through its fields, so its order does not matter.\<close>

definition decode_leased :: "decode_texts \<Rightarrow> string \<Rightarrow> time \<Rightarrow> hash option \<Rightarrow> Job option result" where
  "decode_leased txt w now raw =
     (case raw of
        None \<Rightarrow> Inr None
      | Some snapshot \<Rightarrow>
          if snapshot = [] then Inr None
          else andThen (toAggregate txt snapshot) (\<lambda>job.
               andThen (Lease w now leaseGrace job) (\<lambda>leased. Inr (Some leased))))"

lemma decode_leased_eq:
  assumes "case raw of None \<Rightarrow> True | Some h \<Rightarrow> keys_distinct h"
  shows "(case raw of
           None \<Rightarrow> returnS None
         | Some snapshot \<Rightarrow>
             if snapshot = [] then returnS None
             else
               andThenS (liftS (flatArrayToMap (map AnyString (flatten snapshot)))) (\<lambda>h.
               andThenS (liftS (toAggregate txt h)) (\<lambda>job.
               andThenS (liftS (Lease w now leaseGrace job)) (\<lambda>leased.
               returnS (Some leased))))) = liftS (decode_leased txt w now raw)"
proof (cases raw)
  case (Some h)
  then have "flatArrayToMap (map AnyString (flatten h)) = Inr h" using assms by (intro flatArrayToMap_flatten) simp
  then show ?thesis using Some
    by (auto simp: decode_leased_def fun_eq_iff andThenS_def andThen_def split: sum.split)
qed (simp add: decode_leased_def fun_eq_iff)

lemma decode_leased_cong:
  assumes "rel_option same_hash x y"
  shows "decode_leased txt w now x = decode_leased txt w now y"
proof (cases x)
  case (Some a)
  then obtain b where b: "y = Some b" "map_of a = map_of b" using assms by (auto simp: option_rel_Some1 same_hash_def)
  then have "a = [] \<longleftrightarrow> b = []" using map_of_eq_empty_iff [of a] map_of_eq_empty_iff [of b] by simp
  then show ?thesis using Some b toAggregate_cong [OF b(2)] by (simp add: decode_leased_def)
qed (use assms in simp)

context redis_server
begin

lemma sim_broker_dequeue:
  "sim (conn_rel L) (=) (RB_Dequeue R kb txt fuel now order w d) (RB_Dequeue reference kb txt fuel now order w d)"
  unfolding RB_Dequeue_def Let_def
proof (intro sim_if sim_returnS_eq, rule sim_andThenS)
  show "sim (conn_rel L) (rel_option same_hash)
    (orInternal ''job_dequeue_failed'' ''failed to dequeue job'' (send (dequeue_lua R ks w e t p fuel)))
    (orInternal ''job_dequeue_failed'' ''failed to dequeue job'' (send (dequeue_lua reference ks w e t p fuel)))"
    for ks e t p by (intro sim_orInternal sim_send sim_dequeue)
next
  fix x y assume q: "rel_option same_hash x y"
  then have "case x of None \<Rightarrow> True | Some h \<Rightarrow> keys_distinct h" "case y of None \<Rightarrow> True | Some h \<Rightarrow> keys_distinct h"
    by (auto simp: same_hash_def split: option.split elim!: option.rel_cases)
  then show "sim (conn_rel L) (=)
      (case x of
           None \<Rightarrow> returnS None
         | Some snapshot \<Rightarrow>
             if snapshot = [] then returnS None
             else
               andThenS (liftS (flatArrayToMap (map AnyString (flatten snapshot)))) (\<lambda>h.
               andThenS (liftS (toAggregate txt h)) (\<lambda>job.
               andThenS (liftS (Lease w now leaseGrace job)) (\<lambda>leased.
               returnS (Some leased)))))
      (case y of
           None \<Rightarrow> returnS None
         | Some snapshot \<Rightarrow>
             if snapshot = [] then returnS None
             else
               andThenS (liftS (flatArrayToMap (map AnyString (flatten snapshot)))) (\<lambda>h.
               andThenS (liftS (toAggregate txt h)) (\<lambda>job.
               andThenS (liftS (Lease w now leaseGrace job)) (\<lambda>leased.
               returnS (Some leased)))))"
    using decode_leased_cong [OF q] by (simp only: decode_leased_eq sim_liftS_eq)
qed

lemmas broker_sims = sim_insert sim_broker_transition sim_fromAny sim_promote_due sim_reclaim_expired
  sim_extend sim_broker_dequeue

end

section \<open>Dequeue\<close>

abbreviation queue_keys :: "KeyBuilder \<Rightarrow> QueueName list \<Rightarrow> (string \<times> string \<times> string) list" where
  "queue_keys kb qs \<equiv> map (\<lambda>q. (Pending_key kb q, Active_key kb q, QueueMeta kb q)) qs"

lemma dedupe_valid:
  "list_all queueNamePattern order \<Longrightarrow> list_all queueNamePattern (dedupeQueues order)"
  "distinct (dedupeQueues order)" "set (dedupeQueues order) = set order"
  by (simp_all add: dedupeQueues_def list_all_iff set_keep_first distinct_keep_first)

lemma dequeue_lua_claimable:
  assumes "claimable kb fuel m" "list_all queueNamePattern qs"
  shows "dequeue_lua (RefN tn) (queue_keys kb qs) w e now (JobPrefix kb) fuel m =
    (case claim_first kb w (fl64 e) (fl64 now) qs m of (m', x) \<Rightarrow> (m', Inr x))"
  using assms by (intro dequeue_lua_spec) (auto simp: claimable_def list_all_iff)

text \<open>Executing the script any number of times keeps the layout and never adds a waiting entry.\<close>

lemma executed_claims:
  assumes "claimable kb fuel m" "list_all queueNamePattern qs"
  shows "claimable kb fuel (executed n (dequeue_lua (RefN tn) (queue_keys kb qs) w e now (JobPrefix kb) fuel) m) \<and>
    (\<forall>q. queueNamePattern q \<longrightarrow>
       waiting kb (executed n (dequeue_lua (RefN tn) (queue_keys kb qs) w e now (JobPrefix kb) fuel) m) q \<subseteq> waiting kb m q)"
proof (induction n)
  case 0
  show ?case using assms by (simp add: executed_def)
next
  case (Suc n)
  let ?F = "dequeue_lua (RefN tn) (queue_keys kb qs) w e now (JobPrefix kb) fuel"
  let ?m = "executed n ?F m"
  obtain m' x where c: "claim_first kb w (fl64 e) (fl64 now) qs ?m = (m', x)" by fastforce
  have "executed (Suc n) ?F m = m'"
    using dequeue_lua_claimable [of kb fuel ?m qs] Suc assms(2) c by (simp add: executed_def)
  moreover have "claimable kb fuel m' \<and> (\<forall>q. queueNamePattern q \<longrightarrow> waiting kb m' q \<subseteq> waiting kb ?m q)"
    using claim_first_keeps [OF _ assms(2) c] Suc by blast
  ultimately show ?case using Suc by blast
qed

lemma toAggregate_id: "toAggregate txt h = Inr j \<Longrightarrow> NewJobID (field h fieldID) = Inr (j_id j)"
  by (auto simp: toAggregate_def andThen_eq_Inr Let_def Reconstitute_def split: if_splits option.splits)

lemma decode_leased_Some:
  assumes "decode_leased txt w now x = Inr (Some j)"
  obtains h job where "x = Some h" "toAggregate txt h = Inr job" "Lease w now leaseGrace job = Inr j"
    "NewJobID (field h fieldID) = Inr (j_id j)"
proof -
  obtain h job where x: "x = Some h" "toAggregate txt h = Inr job" "Lease w now leaseGrace job = Inr j"
    using assms by (auto simp: decode_leased_def andThen_eq_Inr split: option.splits if_splits)
  have "j_id j = j_id job" using same_identity_ops(2) [OF x(3)] by (simp add: same_identity_def)
  with toAggregate_id [OF x(2)] x that show thesis by metis
qed

text \<open>A call on the reference server, over any connection, in terms of the specification.\<close>

lemma ref_Dequeue:
  assumes "claimable kb fuel (c_redis c)" "list_all queueNamePattern order" "order \<noteq> []"
    "RB_Dequeue (RefN tn) kb txt fuel now order w d c = (c', r)"
  obtains m found where "claimable kb fuel m" "\<And>q. queueNamePattern q \<Longrightarrow> waiting kb m q \<subseteq> waiting kb (c_redis c) q"
      "claim_first kb w (fl64 (toMillis (now + wrap64 (d + leaseGrace)))) (fl64 (toMillis now)) (dedupeQueues order) m =
         (c_redis c', found)"
      "r = decode_leased txt w now found" "c_net c = [] \<Longrightarrow> m = c_redis c"
    | e where "r = Inl e" "claimable kb fuel (c_redis c')"
      "\<And>q. queueNamePattern q \<Longrightarrow> waiting kb (c_redis c') q \<subseteq> waiting kb (c_redis c) q" "c_net c \<noteq> []"
proof -
  let ?e = "toMillis (now + wrap64 (d + leaseGrace))"
  define F where "F = dequeue_lua (RefN tn) (queue_keys kb (dedupeQueues order)) w ?e (toMillis now) (JobPrefix kb) fuel"
  note qs = dedupe_valid(1) [OF assms(2)]
  have ex: "claimable kb fuel (executed n F (c_redis c))"
    "queueNamePattern q \<Longrightarrow> waiting kb (executed n F (c_redis c)) q \<subseteq> waiting kb (c_redis c) q" for n q
    using executed_claims [OF assms(1) qs] unfolding F_def by blast+
  show thesis
  proof (cases "\<exists>n text net. c_net c = GaveUp n text # net")
    case True
    then obtain n msg net where net: "c_net c = GaveUp n msg # net" by blast
    have "c_redis c' = executed n F (c_redis c)" "\<exists>e. r = Inl e"
      using assms(3,4) net unfolding RB_Dequeue_def Let_def F_def
      by (auto simp: andThenS_def orInternal_def send_def)
    then show thesis using ex net that(2) by (metis list.distinct(1))
  next
    case False
    define m where "m = (case c_net c of Delivered n # net \<Rightarrow> executed n F (c_redis c) | _ \<Rightarrow> c_redis c)"
    have m: "claimable kb fuel m" "\<And>q. queueNamePattern q \<Longrightarrow> waiting kb m q \<subseteq> waiting kb (c_redis c) q"
      using ex assms(1) unfolding m_def by (auto split: list.split delivery.split)
    obtain m' x where cf: "claim_first kb w (fl64 ?e) (fl64 (toMillis now)) (dedupeQueues order) m = (m', x)" by fastforce
    have F: "F m = (m', Inr x)" using dequeue_lua_claimable [OF m(1) qs] cf unfolding F_def by simp
    have s: "\<exists>c0. send F c = (c0, Inr x) \<and> c_redis c0 = m'"
      using F False unfolding send_def m_def
      by (auto simp: Let_def split: list.split delivery.split)
    have dist: "case x of None \<Rightarrow> True | Some h \<Rightarrow> keys_distinct h"
    proof (cases x)
      case (Some h)
      then obtain q y where "claims kb w (fl64 ?e) (fl64 (toMillis now)) (dedupeQueues order) m m' q y h"
        using claim_first_Some [OF m(1) qs dedupe_valid(2)] cf by blast
      then have "document kb m y = Some h" unfolding claims_def by blast
      then have "hash_at m (render kb (KJob y)) = Some h" using typed_at(4) [of kb m y] m(1) by (auto simp: claimable_def)
      then show ?thesis using Some m(1) by (auto simp: claimable_def dest: ref_ok_at(1))
    qed simp
    have "r = decode_leased txt w now x" "c_redis c' = m'"
      using assms(3,4) s unfolding RB_Dequeue_def Let_def F_def
      by (auto simp: andThenS_def orInternal_def decode_leased_eq [OF dist])
    moreover have "c_net c = [] \<Longrightarrow> m = c_redis c" by (simp add: m_def)
    ultimately show thesis using that(1) [OF m, of x] cf by simp
  qed
qed

lemma ref_Dequeue_keeps:
  assumes "claimable kb fuel (c_redis c)" "list_all queueNamePattern order"
    "RB_Dequeue (RefN tn) kb txt fuel now order w d c = (c', r)"
  shows "claimable kb fuel (c_redis c')" "queueNamePattern q \<Longrightarrow> waiting kb (c_redis c') q \<subseteq> waiting kb (c_redis c) q"
    and "r = Inr (Some j) \<Longrightarrow> \<exists>q \<in> set order. j_id j \<in> waiting kb (c_redis c) q"
    and "r = Inr (Some j) \<Longrightarrow> queueNamePattern q \<Longrightarrow> j_id j \<notin> waiting kb (c_redis c') q"
proof -
  let ?e = "fl64 (toMillis (now + wrap64 (d + leaseGrace)))"
  have "claimable kb fuel (c_redis c') \<and> (\<forall>q. queueNamePattern q \<longrightarrow> waiting kb (c_redis c') q \<subseteq> waiting kb (c_redis c) q) \<and>
    (r = Inr (Some j) \<longrightarrow> (\<exists>q \<in> set order. j_id j \<in> waiting kb (c_redis c) q) \<and>
      (\<forall>q. queueNamePattern q \<longrightarrow> j_id j \<notin> waiting kb (c_redis c') q))"
  proof (cases "order = []")
    case True
    then show ?thesis using assms by (auto simp: RB_Dequeue_def)
  next
    case False
    note qs = dedupe_valid(1) [OF assms(2)]
    from assms(1,2) False assms(3) show ?thesis
    proof (cases rule: ref_Dequeue)
      case (1 m found)
      note k = claim_first_keeps [OF 1(1) qs 1(3)]
      have "\<exists>p \<in> set order. j_id j \<in> waiting kb m p \<and> (\<forall>q. queueNamePattern q \<longrightarrow> j_id j \<notin> waiting kb (c_redis c') q)"
        if "r = Inr (Some j)"
      proof -
        have "decode_leased txt w now found = Inr (Some j)" using 1(4) that by simp
        then obtain h where h: "found = Some h" "NewJobID (field h fieldID) = Inr (j_id j)"
          by (elim decode_leased_Some) blast
        then obtain p x where cl: "claims kb w ?e (fl64 (toMillis now)) (dedupeQueues order) m (c_redis c') p x h"
          using claim_first_Some [OF 1(1) qs dedupe_valid(2)] 1(3) by blast
        then obtain s rest where p: "p \<in> set (dedupeQueues order)" "live_members kb m p = (s, x) # rest"
          "document kb m x = Some h" "members kb (c_redis c') p StatePending = rest"
          unfolding claims_def by auto
        have pv: "queueNamePattern p" "p \<in> set order" using p(1) qs dedupe_valid(3) by (auto simp: list_all_iff)
        have x: "j_id j = x" using 1(1) p(3) h(2) unfolding claimable_def by fastforce
        note C = claimable_claim [OF 1(1) pv(1) p(2)]
        have "j_id j \<notin> waiting kb (c_redis c') q" if q: "queueNamePattern q" for q
        proof (cases "q = p")
          case True
          have "x \<notin> snd ` set rest" using C(3) [OF pv(1)] claim_views(2) [OF pv(1) p(3) pv(1)] by (simp add: waiting_def)
          then show ?thesis using True p(4) x by (simp add: waiting_def)
        next
          case False
          then have "waiting kb m p \<inter> waiting kb m q = {}" using 1(1) pv(1) q unfolding claimable_def by metis
          then show ?thesis using C(2) k q x by blast
        qed
        then show ?thesis using C(2) x pv(2) by blast
      qed
      moreover have "queueNamePattern p" if "p \<in> set order" for p using assms(2) that by (auto simp: list_all_iff)
      ultimately show ?thesis using k 1(2) by (meson subsetD subset_trans)
    next
      case (2 e)
      then show ?thesis by auto
    qed
  qed
  then show "claimable kb fuel (c_redis c')"
    "queueNamePattern q \<Longrightarrow> waiting kb (c_redis c') q \<subseteq> waiting kb (c_redis c) q"
    "r = Inr (Some j) \<Longrightarrow> \<exists>q \<in> set order. j_id j \<in> waiting kb (c_redis c) q"
    "r = Inr (Some j) \<Longrightarrow> queueNamePattern q \<Longrightarrow> j_id j \<notin> waiting kb (c_redis c') q" by blast+
qed

text \<open>A sequence of polls, by any workers at any instants, and the jobs they were handed.\<close>

record poll =
  po_now :: time
  po_order :: "QueueName list"
  po_worker :: string
  po_lease :: duration

fun RB_polls ::
  "'r redis \<Rightarrow> KeyBuilder \<Rightarrow> decode_texts \<Rightarrow> nat \<Rightarrow> poll list \<Rightarrow> 'r conn \<Rightarrow> 'r conn \<times> Job list" where
  "RB_polls R kb txt fuel [] c = (c, [])"
| "RB_polls R kb txt fuel (p # ps) c =
     (case RB_Dequeue R kb txt fuel (po_now p) (po_order p) (po_worker p) (po_lease p) c of
        (c', r) \<Rightarrow>
          (case RB_polls R kb txt fuel ps c' of
             (c'', jobs) \<Rightarrow> (c'', (case r of Inr (Some j) \<Rightarrow> j # jobs | _ \<Rightarrow> jobs))))"

lemma ref_polls:
  assumes "claimable kb fuel (c_redis c)" "list_all (\<lambda>p. list_all queueNamePattern (po_order p)) ps"
    "RB_polls (RefN tn) kb txt fuel ps c = (c', jobs)"
  shows "distinct (map j_id jobs) \<and> (\<forall>j \<in> set jobs. \<exists>q. queueNamePattern q \<and> j_id j \<in> waiting kb (c_redis c) q)"
  using assms
proof (induction ps arbitrary: c c' jobs)
  case (Cons p ps)
  obtain c1 r where d: "RB_Dequeue (RefN tn) kb txt fuel (po_now p) (po_order p) (po_worker p) (po_lease p) c = (c1, r)"
    by fastforce
  obtain c2 js where ps: "RB_polls (RefN tn) kb txt fuel ps c1 = (c2, js)" by fastforce
  have v: "list_all queueNamePattern (po_order p)" "list_all (\<lambda>p. list_all queueNamePattern (po_order p)) ps"
    using Cons.prems(2) by auto
  note k = ref_Dequeue_keeps [OF Cons.prems(1) v(1) d]
  note IH = Cons.IH [OF k(1) v(2) ps]
  have js: "\<forall>j \<in> set js. \<exists>q. queueNamePattern q \<and> j_id j \<in> waiting kb (c_redis c) q"
    using IH k(2) by blast
  show ?case
  proof (cases "\<exists>j. r = Inr (Some j)")
    case True
    then obtain j where j: "r = Inr (Some j)" by blast
    then have "jobs = j # js" using Cons.prems(3) d ps by simp
    moreover have "j_id j \<notin> j_id ` set js" using IH k(4) [OF j] by auto
    moreover obtain q where "q \<in> set (po_order p)" "j_id j \<in> waiting kb (c_redis c) q" using k(3) [OF j] by blast
    ultimately show ?thesis using IH js v(1) by (auto simp: list_all_iff)
  next
    case False
    then have "jobs = js" using Cons.prems(3) d ps by (auto split: sum.splits option.splits)
    then show ?thesis using IH js by simp
  qed
qed simp

context redis_server
begin

lemma sim_polls:
  "conn_rel L c d \<Longrightarrow> conn_rel L (fst (RB_polls R kb txt fuel ps c)) (fst (RB_polls reference kb txt fuel ps d)) \<and>
     snd (RB_polls R kb txt fuel ps c) = snd (RB_polls reference kb txt fuel ps d)"
proof (induction ps arbitrary: c d)
  case (Cons p ps)
  obtain c1 r where f: "RB_Dequeue R kb txt fuel (po_now p) (po_order p) (po_worker p) (po_lease p) c = (c1, r)"
    by fastforce
  obtain d1 r' where g: "RB_Dequeue reference kb txt fuel (po_now p) (po_order p) (po_worker p) (po_lease p) d = (d1, r')"
    "conn_rel L c1 d1" "rel_sum (=) (=) r r'"
    using simD [OF sim_broker_dequeue Cons.prems f] by metis
  then have "r' = r" by (simp add: sum.rel_eq)
  then show ?case using f g Cons.IH [OF g(2)] by (auto split: prod.split)
qed simp

end

text \<open>
  C2. No job is handed out twice by Redis. Over any server that behaves as documented, for any sequence
  of polls by any workers, at any instants and in any polling orders, and whatever the connection
  loses or repeats, the jobs handed out are different jobs, each of which was waiting before.\<close>

theorem redis_no_double_claim:
  assumes "redis_server R L" and "L (c_redis c) m" and "claimable kb fuel m"
    and "list_all (\<lambda>p. list_all queueNamePattern (po_order p)) polls"
    and "RB_polls R kb txt fuel polls c = (c', jobs)"
  shows "distinct (map j_id jobs) \<and> (\<forall>j \<in> set jobs. \<exists>q. queueNamePattern q \<and> j_id j \<in> waiting kb m q)"
proof -
  let ?d = "\<lparr>c_redis = m, c_net = c_net c\<rparr>"
  have "conn_rel L c ?d" using assms(2) by (simp add: conn_rel_def)
  then have "snd (RB_polls (RefN (r_tonumber R)) kb txt fuel polls ?d) = jobs"
    using redis_server.sim_polls [OF assms(1)] assms(5) by (metis snd_conv)
  then show ?thesis
    using ref_polls [of kb fuel ?d polls "r_tonumber R" "txt" _ jobs] assms(3,4) by (metis conn.select_convs(1) prod.collapse)
qed

lemma live_minimal:
  assumes "typed kb m" "ref_ok m" "queueNamePattern q" "live_members kb m q = (s, x) # rest"
    "(t, y) \<in> set (members kb m q StatePending)" "document kb m y \<noteq> None"
  shows "(s, x) \<le> (t, y)"
proof -
  obtain h stale where z: "members kb m q StatePending = stale @ (s, x) # rest"
    "\<And>t y. (t, y) \<in> set stale \<Longrightarrow> document kb m y = None"
    using live_members_Cons [OF assms(4)] by metis
  then have "(t, y) = (s, x) \<or> (t, y) \<in> set rest" using assms(5,6) by auto
  moreover have "\<forall>e \<in> set rest. (s, x) \<le> e"
    using members_ok(1) [OF assms(1-3), of StatePending] z(1) by (simp add: sorted_append)
  ultimately show ?thesis by auto
qed

lemma document_nonempty: "ref_ok m \<Longrightarrow> document kb m x \<noteq> Some []"
  by (auto simp: document_def hash_at_def ref_ok_def rvalue_ok_def split: if_splits option.splits rvalue.splits)

lemma claimed_nonempty:
  assumes "claimable kb fuel m" "list_all queueNamePattern qs" "distinct qs"
  shows "claim_first kb w e now qs m \<noteq> (m', Some [])"
proof
  assume "claim_first kb w e now qs m = (m', Some [])"
  then obtain q x where "claims kb w e now qs m m' q x []" using claim_first_Some [OF assms] by blast
  then have "document kb m x = Some []" unfolding claims_def by blast
  with document_nonempty assms(1) show False by (auto simp: claimable_def)
qed

lemma redis_dequeue_spec:
  assumes "redis_server R L" and "L (c_redis c) m" and "claimable kb fuel m" and "c_net c = []"
    and "list_all queueNamePattern order"
    and "RB_Dequeue R kb txt fuel now order w d c = (c', Inr r)"
  shows "\<exists>m'. L (c_redis c') m' \<and> claimable kb fuel m' \<and>
    (case r of
       None \<Rightarrow> (\<forall>q \<in> set order. paused kb m q \<or> live_members kb m q = []) \<and> document kb m' = document kb m
     | Some j \<Rightarrow>
         \<exists>q s h job. q \<in> set order \<and> (s, j_id j) \<in> set (members kb m q StatePending) \<and>
           (\<forall>t y. (t, y) \<in> set (members kb m q StatePending) \<longrightarrow> document kb m y \<noteq> None \<longrightarrow> (s, j_id j) \<le> (t, y)) \<and>
           claims kb w (fl64 (toMillis (now + wrap64 (d + leaseGrace)))) (fl64 (toMillis now))
             (dedupeQueues order) m m' q (j_id j) h \<and>
           toAggregate txt h = Inr job \<and> Lease w now leaseGrace job = Inr j)"
proof -
  let ?e = "fl64 (toMillis (now + wrap64 (d + leaseGrace)))" and ?t = "fl64 (toMillis now)"
  let ?d = "\<lparr>c_redis = m, c_net = c_net c\<rparr>"
  have rel: "conn_rel L c ?d" using assms(2) by (simp add: conn_rel_def)
  obtain d' r' where d': "RB_Dequeue (RefN (r_tonumber R)) kb txt fuel now order w d ?d = (d', r')"
    "conn_rel L c' d'" "rel_sum (=) (=) (Inr r) r'"
    using simD [OF redis_server.sim_broker_dequeue [OF assms(1)] rel assms(6)] by metis
  then have r': "r' = Inr r" by (simp add: sum.rel_eq)
  have cl: "claimable kb fuel (c_redis ?d)" using assms(3) by simp
  have L': "L (c_redis c') (c_redis d')" using d'(2) by (simp add: conn_rel_def)
  have keep: "claimable kb fuel (c_redis d')" using ref_Dequeue_keeps(1) [OF cl assms(5) d'(1)] .
  note qs = dedupe_valid(1) [OF assms(5)]
  show ?thesis
  proof (cases "order = []")
    case True
    then have "r = None" "d' = ?d" using d'(1) r' by (auto simp: RB_Dequeue_def)
    then show ?thesis using L' keep True by (intro exI [of _ m]) auto
  next
    case False
    from cl assms(5) False d'(1) show ?thesis
    proof (cases rule: ref_Dequeue)
      case (1 m0 found)
      then have f: "claim_first kb w ?e ?t (dedupeQueues order) m = (c_redis d', found)"
        "decode_leased txt w now found = Inr r" using assms(4) r' by auto
      show ?thesis
      proof (cases r)
        case None
        then have n: "found = None \<or> (\<exists>h. found = Some h \<and> h = [])"
          using f(2) by (auto simp: decode_leased_def andThen_eq_Inr split: option.splits if_splits)
        then have "found = None" using claimed_nonempty [OF assms(3) qs dedupe_valid(2)] f(1) by blast
        then show ?thesis
          using claim_first_None [OF qs dedupe_valid(2)] f(1) L' keep None dedupe_valid(3)
          by (intro exI [of _ "c_redis d'"]) auto
      next
        case (Some j)
        obtain h job where h: "found = Some h" "toAggregate txt h = Inr job" "Lease w now leaseGrace job = Inr j"
          "NewJobID (field h fieldID) = Inr (j_id j)"
          using f(2) unfolding Some by (elim decode_leased_Some) blast
        then obtain q x where C: "claims kb w ?e ?t (dedupeQueues order) m (c_redis d') q x h"
          using claim_first_Some [OF assms(3) qs dedupe_valid(2)] f(1) by blast
        then obtain s rest where q: "q \<in> set (dedupeQueues order)" "live_members kb m q = (s, x) # rest"
          "document kb m x = Some h" unfolding claims_def by auto
        have x: "x = j_id j" using assms(3) q(3) h(4) unfolding claimable_def by fastforce
        have qv: "q \<in> set order" "queueNamePattern q" using q(1) qs dedupe_valid(3) by (auto simp: list_all_iff)
        have "(s, x) \<in> set (members kb m q StatePending)" using live_members_Cons [OF q(2)] by (metis in_set_conv_decomp)
        moreover have "typed kb m" "ref_ok m" using assms(3) by (auto simp: claimable_def)
        ultimately show ?thesis
          using L' keep C h(2,3) qv live_minimal [OF _ _ qv(2) q(2)] unfolding Some x
          by (intro exI [of _ "c_redis d'"]) auto
      qed
    next
      case (2 e)
      then show ?thesis using r' by simp
    qed
  qed
qed

text \<open>
  C5. What \<open>Dequeue\<close> on Redis does over a working connection. A job that is handed out is the waiting job
  with the least score, and the least identifier among equals, of the first queue in polling order
  that is not paused and has work; it has left the pending set, is in the active set with the lease
  as its score, its document names the worker, and the caller gets the stored job with the domain's
  lease applied. When nothing is handed out, every queue was paused or without work, and no document
  has changed.\<close>

theorem redis_dequeue_claims:
  assumes "redis_server R L" and "L (c_redis c) m" and "claimable kb fuel m" and "c_net c = []"
    and "list_all queueNamePattern order"
    and "RB_Dequeue R kb txt fuel now order w d c = (c', Inr r)"
  shows "\<exists>m'. L (c_redis c') m' \<and> claimable kb fuel m' \<and>
    (case r of
       None \<Rightarrow> (\<forall>q \<in> set order. paused kb m q \<or> live_members kb m q = []) \<and> document kb m' = document kb m
     | Some j \<Rightarrow>
         \<exists>q s h job. q \<in> set order \<and> (s, j_id j) \<in> set (members kb m q StatePending) \<and>
           (\<forall>t y. (t, y) \<in> set (members kb m q StatePending) \<longrightarrow> document kb m y \<noteq> None \<longrightarrow> (s, j_id j) \<le> (t, y)) \<and>
           claims kb w (fl64 (toMillis (now + wrap64 (d + leaseGrace)))) (fl64 (toMillis now))
             (dedupeQueues order) m m' q (j_id j) h \<and>
           toAggregate txt h = Inr job \<and> Lease w now leaseGrace job = Inr j)"
  by (rule redis_dequeue_spec [OF assms])

section \<open>Enqueue\<close>

abbreviation stored_in :: "KeyBuilder \<Rightarrow> Job \<Rightarrow> JobState \<Rightarrow> int \<Rightarrow> ref_db \<Rightarrow> ref_db" where
  "stored_in kb job st score m \<equiv>
     insert_job kb (j_queue job) st (FormatUint (unat defWeight)) score (j_id job) (job_pairs job) m"

lemma job_pairs_nonempty [simp]: "job_pairs job \<noteq> []"
  by (simp add: job_pairs_def)

lemma ref_insert:
  assumes "typed kb (c_redis c)" "queueNamePattern (j_queue job)"
    "RB_insert (RefN tn) kb job (StateSet kb (j_queue job) st) score c = (c', r)"
  shows "(c_redis c' = c_redis c \<or>
      document kb (c_redis c) (j_id job) = None \<and> c_redis c' = stored_in kb job st score (c_redis c)) \<and>
    (r = Inr () \<longrightarrow>
      document kb (c_redis c) (j_id job) = None \<and> c_redis c' = stored_in kb job st score (c_redis c)) \<and>
    (c_net c = [] \<longrightarrow>
      (document kb (c_redis c) (j_id job) = None \<longrightarrow> r = Inr ()) \<and>
      (document kb (c_redis c) (j_id job) \<noteq> None \<longrightarrow>
         r = Inl (Conflict ''duplicate_job_id'' ''a job with this id already exists'')))"
proof -
  let ?i = "j_id job" and ?q = "j_queue job" and ?m = "c_redis c"
  let ?m' = "stored_in kb job st score ?m"
  define F where "F = enqueue_lua (RefN tn) (Job_key kb ?i) (StateSet kb ?q st) (QueueRegistry kb) (QueueMeta kb ?q) ?i score ?q
    (FormatUint (unat defWeight)) (flatten (job_pairs job))"
  have F: "F m = (if document kb m ?i = None then (stored_in kb job st score m, Inr 1) else (m, Inr 0))"
    if "typed kb m" for m
    unfolding F_def using assms(2) that by (intro enqueue_lua_spec) simp_all
  have doc: "document kb ?m' ?i \<noteq> None" "typed kb ?m'"
    using insert_job_views(1,3) [OF assms(1,2)] by simp_all
  have ex: "executed n F ?m = (if n = 0 \<or> document kb ?m ?i \<noteq> None then ?m else ?m')" for n
  proof (induction n)
    case (Suc n)
    then show ?case using F [OF assms(1)] F [OF doc(2)] doc(1) by (auto simp: executed_def)
  qed (simp add: executed_def)
  have op: "RB_insert (RefN tn) kb job (StateSet kb ?q st) score =
      andThenS (orInternal ''job_enqueue_failed'' ''failed to enqueue job'' (send F)) (\<lambda>inserted.
        if inserted = 0 then failS (Conflict ''duplicate_job_id'' ''a job with this id already exists'') else returnS ())"
    unfolding RB_insert_def F_def toJobFields_pairs by (auto simp: fun_eq_iff)
  show ?thesis
    using assms(3) ex F [OF assms(1)] F [OF doc(2)] doc(1) unfolding op
    by (auto simp: andThenS_def orInternal_def send_def Let_def split: list.splits delivery.splits if_splits prod.splits)
qed

text \<open>
  C11. Enqueueing on Redis is atomic. Whatever the connection loses or repeats, the document of the job
  and its entry in the lifecycle set are either both written or neither, and an existing document is
  never overwritten. Success means that the identifier was new and the job is stored; over a working
  connection the call succeeds exactly when the identifier is new, and reports a conflict otherwise.\<close>

theorem redis_insert_atomic:
  assumes "redis_server R L" and "L (c_redis c) m" and "typed kb m" and "queueNamePattern (j_queue job)"
    and "RB_insert R kb job (StateSet kb (j_queue job) st) score c = (c', r)"
  shows "\<exists>m'. L (c_redis c') m' \<and>
    (m' = m \<or> document kb m (j_id job) = None \<and> m' = stored_in kb job st score m) \<and>
    (r = Inr () \<longrightarrow> document kb m (j_id job) = None \<and> m' = stored_in kb job st score m) \<and>
    (c_net c = [] \<longrightarrow> (document kb m (j_id job) = None \<longrightarrow> r = Inr ()) \<and>
      (document kb m (j_id job) \<noteq> None \<longrightarrow>
         r = Inl (Conflict ''duplicate_job_id'' ''a job with this id already exists'')))"
proof -
  let ?d = "\<lparr>c_redis = m, c_net = c_net c\<rparr>"
  have "conn_rel L c ?d" using assms(2) by (simp add: conn_rel_def)
  then obtain d' r' where d': "RB_insert (RefN (r_tonumber R)) kb job (StateSet kb (j_queue job) st) score ?d = (d', r')"
    "conn_rel L c' d'" "rel_sum (=) (=) r r'"
    using simD [OF redis_server.sim_insert [OF assms(1)] _ assms(5)] by metis
  then have r': "r' = r" by (simp add: sum.rel_eq)
  have t: "typed kb (c_redis ?d)" using assms(3) by simp
  have "L (c_redis c') (c_redis d')" using d'(2) by (simp add: conn_rel_def)
  then show ?thesis
    by (intro exI [of _ "c_redis d'"] conjI [OF _ ref_insert [OF t assms(4) d'(1) [unfolded r'], unfolded conn.select_convs]])
qed

lemma waiting_zput:
  assumes "i \<notin> waiting kb m q"
  shows "snd ` set (zput score i (members kb m q StatePending)) = Set.insert i (snd ` set (members kb m q StatePending))"
proof -
  have "zdel i (members kb m q StatePending) = members kb m q StatePending"
    using assms unfolding waiting_def zdel_def by (force simp: filter_id_conv)
  then show ?thesis by (simp add: zput_def set_insort_key)
qed

lemma insert_job_ok:
  assumes "typed kb m" "ref_ok m" "queueNamePattern q" "keys_distinct h" "h \<noteq> []"
  shows "ref_ok (insert_job kb q st weight score i h m)"
  unfolding insert_job_def Let_def put_members_def put_document_def
  using announce_views(1,2,7) [OF assms(1,3)] assms(2-5) zput_ok [OF members_ok [OF assms(1-3)]]
  by (auto simp: rvalue_ok_def put_document_views(1) [unfolded put_document_def] intro!: ref_ok_put_zset ref_ok_put)

lemma claimable_insert:
  assumes "claimable kb fuel m" "queueNamePattern q" "\<And>q'. queueNamePattern q' \<Longrightarrow> i \<notin> waiting kb m q'"
    "Suc (length (members kb m q StatePending)) < fuel" "field h fieldID = i" "NewJobID i = Inr i"
    "keys_distinct h" "h \<noteq> []"
  shows "claimable kb fuel (insert_job kb q StatePending weight score i h m)"
proof -
  have t: "typed kb m" "ref_ok m" using assms(1) by (auto simp: claimable_def)
  note V = insert_job_views [OF t(1) assms(2)]
  have W: "waiting kb (insert_job kb q StatePending weight score i h m) q' =
      (if q' = q then Set.insert i (waiting kb m q) else waiting kb m q')" if "queueNamePattern q'" for q'
    using V(2) [OF that, of StatePending] waiting_zput assms(3) [OF assms(2)] by (simp add: waiting_def)
  have len: "length (zput score i (members kb m q StatePending)) \<le> Suc (length (members kb m q StatePending))"
    by (simp add: zput_def zdel_def)
  have "ref_ok (insert_job kb q StatePending weight score i h m)"
    by (rule insert_job_ok [OF t assms(2,7,8)])
  moreover have "length (members kb (insert_job kb q StatePending weight score i h m) q' StatePending) < fuel"
    if "queueNamePattern q'" for q'
  proof -
    have "length (members kb m q' StatePending) < fuel" using assms(1) that unfolding claimable_def by blast
    then show ?thesis using V(2) [OF that, of StatePending] len assms(4) by simp
  qed
  moreover have "waiting kb (insert_job kb q StatePending weight score i h m) q1 \<inter>
      waiting kb (insert_job kb q StatePending weight score i h m) q2 = {}"
    if "queueNamePattern q1" "queueNamePattern q2" "q1 \<noteq> q2" for q1 q2
  proof -
    have "waiting kb m q1 \<inter> waiting kb m q2 = {}" using assms(1) that unfolding claimable_def by blast
    then show ?thesis using W [OF that(1)] W [OF that(2)] assms(3) [OF that(1)] assms(3) [OF that(2)] that(3) by auto
  qed
  moreover have "field g fieldID = i' \<and> NewJobID i' = Inr i'"
    if "document kb (insert_job kb q StatePending weight score i h m) i' = Some g" for i' g
  proof (cases "i' = i")
    case True
    then show ?thesis using that V(3) assms(5,6) by simp
  next
    case False
    then have "document kb m i' = Some g" using that V(3) by simp
    then show ?thesis using assms(1) unfolding claimable_def by blast
  qed
  ultimately show ?thesis using V(1) unfolding claimable_def by blast
qed

lemma RB_insert_net: "c_net c = [] \<Longrightarrow> c_net (fst (RB_insert R kb job k score c)) = []"
  by (auto simp: RB_insert_def andThenS_def orInternal_def send_def split: prod.splits sum.splits)

lemma ref_enqueue_dequeue:
  assumes "claimable kb fuel m" and "storable j" and "j_state j = StatePending"
    and "document kb m (j_id j) = None" and "\<And>q. queueNamePattern q \<Longrightarrow> j_id j \<notin> waiting kb m q"
    and "members kb m (j_queue j) StatePending = []" and "\<not> paused kb m (j_queue j)" and "1 < fuel"
    and "w \<noteq> ''''" and "queueNamePattern (j_queue j)"
  shows "\<exists>d1 d2 j'. RB_Enqueue (RefN tn) kb j \<lparr>c_redis = m, c_net = []\<rparr> = (d1, Inr ()) \<and>
    RB_Dequeue (RefN tn) kb txt fuel now [j_queue j] w lease d1 = (d2, Inr (Some j')) \<and>
    Lease w now leaseGrace (stored j) = Inr j'"
proof -
  let ?q = "j_queue j" and ?score = "PendingScore (j_priority j) (toMillis (j_processAt j))"
  let ?m1 = "stored_in kb j StatePending ?score m" and ?d = "\<lparr>c_redis = m, c_net = []\<rparr>"
  obtain d1 r where i: "RB_Enqueue (RefN tn) kb j ?d = (d1, r)" by fastforce
  have t: "typed kb m" using assms(1) by (simp add: claimable_def)
  have i': "RB_insert (RefN tn) kb j (StateSet kb ?q StatePending) ?score ?d = (d1, r)"
    using i by (simp add: RB_Enqueue_def StateSet_def)
  have d1: "r = Inr ()" "c_redis d1 = ?m1" using ref_insert [OF _ assms(10) i'] t assms(4) by auto
  have net: "c_net d1 = []" using RB_insert_net [of ?d] i' by (metis conn.select_convs(2) fst_conv)
  have len: "Suc (length (members kb m ?q StatePending)) < fuel" using assms(6,8) by simp
  have "NewJobID (j_id j) = Inr (j_id j)" using assms(2) by (simp add: storable_def)
  then have cl: "claimable kb fuel ?m1"
    using assms(10) by (intro claimable_insert [OF assms(1) _ assms(5) len]) simp_all
  note V = insert_job_views [OF t assms(10)]
  have live: "live_members kb ?m1 ?q = [(?score, j_id j)]"
    using V(2,3) assms(6,10) by (simp add: live_members_def zput_def zdel_def)
  have found: "claim_first kb w e n [?q] ?m1 = (claim kb ?q w e n (j_id j) [] ?m1, Some (job_pairs j))" for e n
    using V(3,4) assms(7,10) live by simp
  have dd: "dedupeQueues [?q] = [?q]" by (simp add: dedupeQueues_def)
  obtain j' where j': "Lease w now leaseGrace (stored j) = Inr j'"
    using assms(3,9) by (auto simp: Lease_def stored_def guard_def CanTransitionTo_iff Let_def)
  have dec: "decode_leased txt w now (Some (job_pairs j)) = Inr (Some j')"
    using toAggregate_job_pairs [OF assms(2)] j' by (simp add: decode_leased_def)
  obtain d2 r2 where q: "RB_Dequeue (RefN tn) kb txt fuel now [?q] w lease d1 = (d2, r2)" by fastforce
  have "r2 = Inr (Some j')"
  proof (cases rule: ref_Dequeue [OF _ _ _ q])
    case (4 m0 f)
    then show ?thesis using found dd dec d1(2) net by (metis prod.inject)
  qed (use cl d1 assms(10) net in auto)
  then show ?thesis using i d1(1) q j' by auto
qed

text \<open>
  C19. A job that is enqueued reaches a worker. On a working connection, a pending job with a new
  identifier, put into a queue that is not paused and has no other work, is what the next poll of
  that queue returns: the job as stored, leased to the polling worker.\<close>

theorem redis_enqueue_then_dequeue:
  assumes "redis_server R L" and "L (c_redis c) m" and "c_net c = []" and "claimable kb fuel m"
    and "storable j" and "j_state j = StatePending" and "queueNamePattern (j_queue j)"
    and "document kb m (j_id j) = None" and "\<And>q. queueNamePattern q \<Longrightarrow> j_id j \<notin> waiting kb m q"
    and "members kb m (j_queue j) StatePending = []" and "\<not> paused kb m (j_queue j)" and "1 < fuel"
    and "w \<noteq> ''''"
  shows "\<exists>c1 c2 j'. RB_Enqueue R kb j c = (c1, Inr ()) \<and>
    RB_Dequeue R kb txt fuel now [j_queue j] w lease c1 = (c2, Inr (Some j')) \<and>
    Lease w now leaseGrace (stored j) = Inr j'"
proof -
  let ?d = "\<lparr>c_redis = m, c_net = []\<rparr>"
  obtain d1 d2 j' where ref: "RB_Enqueue (RefN (r_tonumber R)) kb j ?d = (d1, Inr ())"
    "RB_Dequeue (RefN (r_tonumber R)) kb txt fuel now [j_queue j] w lease d1 = (d2, Inr (Some j'))"
    "Lease w now leaseGrace (stored j) = Inr j'"
    using ref_enqueue_dequeue [OF assms(4,5,6,8,9,10,11,12,13,7)] by blast
  have rel: "conn_rel L c ?d" using assms(2,3) by (simp add: conn_rel_def)
  obtain c1 x where e: "RB_Enqueue R kb j c = (c1, x)" by fastforce
  have s1: "conn_rel L c1 d1" "x = Inr ()"
    using simD [OF redis_server.sim_insert [OF assms(1)] rel e [unfolded RB_Enqueue_def]] ref(1)
    by (auto simp: RB_Enqueue_def elim!: rel_sum.cases)
  obtain c2 y where q: "RB_Dequeue R kb txt fuel now [j_queue j] w lease c1 = (c2, y)" by fastforce
  then have "y = Inr (Some j')"
    using simD [OF redis_server.sim_broker_dequeue [OF assms(1)] s1(1) q] ref(2)
    by (metis (mono_tags, lifting) prod.inject rel_sum_simps(4) sum.rel_eq)
  then show ?thesis using e s1(2) q ref(3) by blast
qed

section \<open>Outcomes\<close>

text \<open>
  Decoding reads the fields of the format only, so a document that was overwritten by a job decodes to
  that job, whatever other fields it had (\<open>leased_at_ms\<close>, for one).
\<close>

definition job_field_names :: "string list" where
  "job_field_names =
     [fieldID, fieldQueue, fieldTaskType, fieldPayload, fieldPriority, fieldState, fieldMaxRetries,
      fieldBaseDelayMS, fieldMaxDelayMS, fieldBackoff, fieldIdempotencyKey, fieldTimeoutMS,
      fieldAttemptsMade, fieldAttempts, fieldLastError, fieldCreatedAtMS, fieldProcessAtMS,
      fieldCompletedAtMS, fieldDiedAtMS, fieldLeaseExpiryMS, fieldWorkerID]"

lemma toAggregate_fields:
  assumes "\<And>f. f \<in> set job_field_names \<Longrightarrow> field a f = field b f" "a \<noteq> []" "b \<noteq> []"
  shows "toAggregate txt a = toAggregate txt b"
proof -
  have f: "field a fieldID = field b fieldID" "field a fieldQueue = field b fieldQueue"
    "field a fieldTaskType = field b fieldTaskType" "field a fieldPayload = field b fieldPayload"
    "field a fieldPriority = field b fieldPriority" "field a fieldState = field b fieldState"
    "field a fieldMaxRetries = field b fieldMaxRetries" "field a fieldBaseDelayMS = field b fieldBaseDelayMS"
    "field a fieldMaxDelayMS = field b fieldMaxDelayMS" "field a fieldBackoff = field b fieldBackoff"
    "field a fieldIdempotencyKey = field b fieldIdempotencyKey" "field a fieldTimeoutMS = field b fieldTimeoutMS"
    "field a fieldAttemptsMade = field b fieldAttemptsMade" "field a fieldAttempts = field b fieldAttempts"
    "field a fieldLastError = field b fieldLastError" "field a fieldCreatedAtMS = field b fieldCreatedAtMS"
    "field a fieldProcessAtMS = field b fieldProcessAtMS" "field a fieldCompletedAtMS = field b fieldCompletedAtMS"
    "field a fieldDiedAtMS = field b fieldDiedAtMS" "field a fieldLeaseExpiryMS = field b fieldLeaseExpiryMS"
    "field a fieldWorkerID = field b fieldWorkerID"
    by (rule assms(1), simp add: job_field_names_def)+
  show ?thesis unfolding toAggregate_def f using assms(2,3) by simp
qed

lemma hset_lookup:
  "keys_distinct ps \<Longrightarrow> map_of (hset h ps) f = (case map_of ps f of None \<Rightarrow> map_of h f | Some v \<Rightarrow> Some v)"
proof (induction ps arbitrary: h)
  case (Cons kv ps)
  obtain k v where kv: "kv = (k, v)" by (cases kv)
  have "map_of ps k = None" using Cons.prems kv by (simp add: map_of_eq_None_iff)
  then show ?case using Cons kv by (auto simp: hset_def update_conv' split: option.split)
qed (simp add: hset_def)

lemma job_pairs_names: "map fst (job_pairs j) = job_field_names"
  by (simp add: job_pairs_def job_field_names_def)

lemma toAggregate_overwritten:
  assumes "storable j"
  shows "toAggregate txt (hset h (job_pairs j)) = Inr (stored j)"
proof -
  have "field (hset h (job_pairs j)) f = field (job_pairs j) f" if "f \<in> set job_field_names" for f
  proof -
    have "f \<in> fst ` set (job_pairs j)" using that job_pairs_names [of j] by (metis list.set_map)
    then obtain v where "map_of (job_pairs j) f = Some v" by (metis map_of_eq_None_iff not_None_eq)
    then show ?thesis by (simp add: field_def hset_lookup)
  qed
  then have "toAggregate txt (hset h (job_pairs j)) = toAggregate txt (job_pairs j)"
    by (rule toAggregate_fields) (simp_all add: hset_nonempty)
  then show ?thesis using toAggregate_job_pairs [OF assms] by simp
qed

lemma zset_updates:
  "x \<notin> snd ` set (zdel x z)" "(t, y) \<in> set (zput s x z) \<longleftrightarrow> (t, y) = (s, x) \<or> (t, y) \<in> set z \<and> y \<noteq> x"
  by (auto simp: zdel_def zput_def set_insort_key)

lemma ref_transition:
  assumes "typed kb (c_redis c)" "queueNamePattern (j_queue job)" "c_net c = []"
  shows "RB_transition (RefN tn) kb job (StateSet kb (j_queue job) a) (StateSet kb (j_queue job) b) score ttl c =
    (c\<lparr>c_redis := move_job kb (j_queue job) a b score ttl (j_id job) (job_pairs job) (c_redis c)\<rparr>, Inr ())"
proof -
  have "transition_lua (RefN tn) (Job_key kb (j_id job)) (StateSet kb (j_queue job) a) (StateSet kb (j_queue job) b)
      (j_id job) score ttl (flatten (job_pairs job)) (c_redis c) =
    (move_job kb (j_queue job) a b score ttl (j_id job) (job_pairs job) (c_redis c),
     Inr (if document kb (c_redis c) (j_id job) = None then 0 else 1))"
    using assms by (intro transition_lua_spec) simp_all
  then show ?thesis using assms(3)
    by (simp add: RB_transition_def toJobFields_pairs andThenS_def orInternal_def send_def)
qed

text \<open>What a move leaves behind, for a job that is there and for one that was deleted meanwhile.\<close>

definition moved :: "KeyBuilder \<Rightarrow> decode_texts \<Rightarrow> Job \<Rightarrow> (JobState \<Rightarrow> bool) \<Rightarrow> JobState \<Rightarrow> ref_db \<Rightarrow> ref_db \<Rightarrow> bool" where
  "moved kb txt job from b m m' \<longleftrightarrow>
     (\<forall>st. from st \<longrightarrow> st \<noteq> b \<longrightarrow> j_id job \<notin> snd ` set (members kb m' (j_queue job) st)) \<and>
     (case document kb m (j_id job) of
        None \<Rightarrow> document kb m' (j_id job) = None
      | Some _ \<Rightarrow> j_id job \<in> snd ` set (members kb m' (j_queue job) b) \<and>
          (\<exists>h. document kb m' (j_id job) = Some h \<and> toAggregate txt h = Inr (stored job))) \<and>
     (\<forall>i. i \<noteq> j_id job \<longrightarrow> document kb m' i = document kb m i) \<and>
     (\<forall>q st t i. queueNamePattern q \<longrightarrow> i \<noteq> j_id job \<or> q \<noteq> j_queue job \<longrightarrow>
        (t, i) \<in> set (members kb m' q st) \<longleftrightarrow> (t, i) \<in> set (members kb m q st))"

lemma zdel_other: "i \<noteq> x \<Longrightarrow> (t, i) \<in> set (zdel x z) \<longleftrightarrow> (t, i) \<in> set z"
  by (simp add: zdel_def)

lemma move_job_moved:
  assumes "typed kb m" "queueNamePattern (j_queue job)" "storable job" "a \<noteq> b"
  shows "moved kb txt job (\<lambda>st. st = a) b m (move_job kb (j_queue job) a b score ttl (j_id job) (job_pairs job) m)"
proof -
  note V = move_job_views [OF assms(1,2,4), where h = "job_pairs job" and i = "j_id job" and score = score and ttl = ttl]
  let ?m = "move_job kb (j_queue job) a b score ttl (j_id job) (job_pairs job) m"
  have a: "j_id job \<notin> snd ` set (members kb ?m (j_queue job) a)"
    using V(2) [OF assms(2)] zset_updates(1) by simp
  have b: "j_id job \<in> snd ` set (members kb ?m (j_queue job) b)" if "document kb m (j_id job) \<noteq> None"
  proof -
    have "members kb ?m (j_queue job) b = zput score (j_id job) (members kb m (j_queue job) b)"
      using V(2) [OF assms(2), of b] assms(4) that by auto
    then have "(score, j_id job) \<in> set (members kb ?m (j_queue job) b)" using zset_updates(2) by auto
    then show ?thesis by force
  qed
  have o: "(t, i) \<in> set (members kb ?m q st) \<longleftrightarrow> (t, i) \<in> set (members kb m q st)"
    if "queueNamePattern q" "i \<noteq> j_id job \<or> q \<noteq> j_queue job" for q st t i
    using V(2) [OF that(1), of st] that(2) by (auto simp: zdel_other zset_updates(2))
  show ?thesis
    unfolding moved_def using a b o V(3) toAggregate_overwritten [OF assms(3)]
    by (auto split: option.split)
qed

text \<open>
  C14. Reporting an outcome on Redis. Over a working connection \<open>Complete\<close>, \<open>Retry\<close> and \<open>Requeue\<close> take the
  job out of the set it came from, put it into the set of its new state, and leave a document that
  decodes to the reported job; a job whose document was deleted meanwhile is not brought back, and
  no other job is touched.\<close>

theorem redis_outcome_moves:
  assumes "redis_server R L" and "L (c_redis c) m" and "c_net c = []" and "typed kb m"
    and "queueNamePattern (j_queue job)" and "storable job"
    and "(f, a, b) \<in> {(RB_Complete R kb now job retain, StateActive, StateCompleted),
      (RB_Retry R kb job at, StateActive, StateRetrying), (RB_Requeue R kb job, StateDead, StatePending)}"
  shows "\<exists>c' m'. f c = (c', Inr ()) \<and> L (c_redis c') m' \<and> moved kb txt job (\<lambda>st. st = a) b m m'"
proof -
  obtain score ttl where f: "f = RB_transition R kb job (StateSet kb (j_queue job) a) (StateSet kb (j_queue job) b) score ttl"
    and ab: "a \<noteq> b"
    using assms(7) by (auto simp: RB_Complete_def RB_Retry_def RB_Requeue_def Let_def StateSet_def)
  let ?d = "\<lparr>c_redis = m, c_net = c_net c\<rparr>"
  have rel: "conn_rel L c ?d" using assms(2) by (simp add: conn_rel_def)
  obtain c' x where c': "f c = (c', x)" by fastforce
  obtain d' y where d': "RB_transition (RefN (r_tonumber R)) kb job (StateSet kb (j_queue job) a) (StateSet kb (j_queue job) b)
      score ttl ?d = (d', y)" "conn_rel L c' d'" "rel_sum (=) (=) x y"
    using simD [OF redis_server.sim_broker_transition [OF assms(1)] rel c' [unfolded f]] by metis
  have "c_redis d' = move_job kb (j_queue job) a b score ttl (j_id job) (job_pairs job) m" "y = Inr ()"
    using ref_transition [of kb ?d job] assms(3,4,5) d'(1) by auto
  then show ?thesis
    using c' d'(2,3) move_job_moved [OF assms(4,5,6) ab] by (auto simp: conn_rel_def sum.rel_eq)
qed

fun clear_sets :: "KeyBuilder \<Rightarrow> QueueName \<Rightarrow> JobID \<Rightarrow> JobState list \<Rightarrow> ref_db \<Rightarrow> ref_db" where
  "clear_sets kb q i [] m = m"
| "clear_sets kb q i (st # sts) m = clear_sets kb q i sts (put_members kb q st (zdel i (members kb m q st)) m)"

lemma clear_sets_views:
  assumes "queueNamePattern q"
  shows "typed kb m \<Longrightarrow> typed kb (clear_sets kb q i sts m)"
    "document kb (clear_sets kb q i sts m) x = document kb m x"
    "queueNamePattern q' \<Longrightarrow> members kb (clear_sets kb q i sts m) q' st =
      (if q' = q \<and> st \<in> set sts then zdel i (members kb m q st) else members kb m q' st)"
  using assms by (induction sts arbitrary: m) (auto simp: zdel_def)

lemma pipeline_clear:
  assumes "queueNamePattern q" "typed kb m"
  shows "pipeline (map (\<lambda>key. ref_ZREM key i) (map (StateSet kb q) sts)) m = (clear_sets kb q i sts m, Inr ())"
  using assms(2)
proof (induction sts arbitrary: m)
  case (Cons st sts)
  have "ref_ZREM (StateSet kb q st) i m = (put_members kb q st (zdel i (members kb m q st)) m, Inr ())"
    using typed_at(1) [OF Cons.prems assms(1)] by (simp add: ref_ZREM_def key_render put_members_def)
  moreover have "typed kb (put_members kb q st (zdel i (members kb m q st)) m)" using Cons.prems assms(1) by auto
  ultimately show ?case using Cons.IH by simp
qed simp

lemma ref_fromAny:
  assumes "typed kb (c_redis c)" "queueNamePattern (j_queue job)" "c_net c = []"
  shows "RB_transitionFromAny (RefN tn) kb job (StateSet kb (j_queue job) b) score ttl c =
    (c\<lparr>c_redis := move_job kb (j_queue job) StatePending b score ttl (j_id job) (job_pairs job)
       (clear_sets kb (j_queue job) (j_id job)
          [StatePending, StateActive, StateScheduled, StateRetrying, StateCompleted, StateDead] (c_redis c))\<rparr>, Inr ())"
proof -
  let ?sts = "[StatePending, StateActive, StateScheduled, StateRetrying, StateCompleted, StateDead]"
  let ?m = "clear_sets kb (j_queue job) (j_id job) ?sts (c_redis c)"
  have keys: "[Pending_key kb q, Active_key kb q, Scheduled_key kb q, Retrying_key kb q, Completed_key kb q, Dead_key kb q] =
    map (StateSet kb q) ?sts" for q by (simp add: StateSet_def)
  have "send (pipeline (map (\<lambda>key. r_ZREM (RefN tn) key (j_id job)) (map (StateSet kb (j_queue job)) ?sts))) c =
      (c\<lparr>c_redis := ?m\<rparr>, Inr ())"
    using pipeline_clear [OF assms(2,1), of "j_id job" ?sts] assms(3) by (simp only: send_def RefN_simps list.case fst_conv snd_conv)
  moreover have "Pending_key kb (j_queue job) = StateSet kb (j_queue job) StatePending" by (simp add: StateSet_def)
  moreover have "typed kb ?m" using clear_sets_views(1) [OF assms(2,1)] .
  ultimately show ?thesis
    unfolding RB_transitionFromAny_def Let_def keys
    using ref_transition [of kb "c\<lparr>c_redis := ?m\<rparr>" job tn StatePending b score ttl] assms(2,3)
    by (simp add: andThenS_def orInternal_def)
qed

lemma clear_then_move:
  assumes "typed kb m" "queueNamePattern (j_queue job)" "storable job" "set sts = UNIV"
  shows "moved kb txt job (\<lambda>st. True) StateDead m
    (move_job kb (j_queue job) StatePending StateDead score ttl (j_id job) (job_pairs job)
       (clear_sets kb (j_queue job) (j_id job) sts m))"
proof -
  let ?q = "j_queue job" and ?i = "j_id job" and ?mc = "clear_sets kb (j_queue job) (j_id job) sts m"
  let ?m = "move_job kb ?q StatePending StateDead score ttl ?i (job_pairs job) ?mc"
  note C = clear_sets_views [OF assms(2)]
  have t: "typed kb ?mc" using C(1) [OF assms(1)] .
  have M: "moved kb txt job (\<lambda>st. st = StatePending) StateDead ?mc ?m"
    by (rule move_job_moved [OF t assms(2,3)]) simp
  have "?i \<notin> snd ` set (members kb ?m ?q st)" if "st \<noteq> StateDead" for st
    using move_job_views(2) [OF t assms(2) _ assms(2), of StatePending StateDead] C(3) [OF assms(2)] assms(4) that zset_updates(1)
    by simp
  moreover have "(t, i) \<in> set (members kb ?mc q st) \<longleftrightarrow> (t, i) \<in> set (members kb m q st)"
    if "queueNamePattern q" "i \<noteq> ?i \<or> q \<noteq> ?q" for q st t i
    using C(3) [OF that(1)] that(2) by (auto simp: zdel_other)
  ultimately show ?thesis using M unfolding moved_def C(2) by auto
qed

text \<open>
  C29. Killing on Redis. Wherever the job was, over a working connection it is afterwards in the dead-letter
  set of its queue and in no other set of the queue, with the document of the killed job; a deleted
  job is not brought back, and no other job is touched.\<close>

theorem redis_kill_dead_letters:
  assumes "redis_server R L" and "L (c_redis c) m" and "c_net c = []" and "typed kb m"
    and "queueNamePattern (j_queue job)" and "storable job"
  shows "\<exists>c' m'. RB_Kill R kb now job c = (c', Inr ()) \<and> L (c_redis c') m' \<and>
    moved kb txt job (\<lambda>st. True) StateDead m m'"
proof -
  define score where "score = (case j_diedAt job of None \<Rightarrow> fl64 (toMillis now) | Some t \<Rightarrow> fl64 (toMillis t))"
  have f: "RB_Kill S kb now job = RB_transitionFromAny S kb job (StateSet kb (j_queue job) StateDead) score 0" for S :: "'y redis"
    by (simp add: RB_Kill_def Let_def StateSet_def score_def)
  let ?d = "\<lparr>c_redis = m, c_net = c_net c\<rparr>"
  let ?sts = "[StatePending, StateActive, StateScheduled, StateRetrying, StateCompleted, StateDead]"
  have rel: "conn_rel L c ?d" using assms(2) by (simp add: conn_rel_def)
  obtain c' x where c': "RB_transitionFromAny R kb job (StateSet kb (j_queue job) StateDead) score 0 c = (c', x)" by fastforce
  obtain d' y where d': "RB_transitionFromAny (RefN (r_tonumber R)) kb job (StateSet kb (j_queue job) StateDead) score 0 ?d = (d', y)"
    "conn_rel L c' d'" "rel_sum (=) (=) x y"
    using simD [OF redis_server.sim_fromAny [OF assms(1)] rel c'] by metis
  have "c_redis d' = move_job kb (j_queue job) StatePending StateDead score 0 (j_id job) (job_pairs job)
      (clear_sets kb (j_queue job) (j_id job) ?sts m)" "y = Inr ()"
    using ref_fromAny [of kb ?d job "r_tonumber R" StateDead score 0] assms(3,4,5) d'(1) by auto
  moreover have "set ?sts = UNIV" by (auto intro: JobState.exhaust)
  ultimately show ?thesis
    using c' d'(2,3) clear_then_move [OF assms(4,5,6), of ?sts "txt" score 0] unfolding f
    by (auto simp: conn_rel_def sum.rel_eq)
qed

section \<open>Sweeps\<close>

text \<open>The entries a sweep takes: the first \<open>n\<close> of those whose score has come, in the order of the set.\<close>

definition due_ids :: "KeyBuilder \<Rightarrow> ref_db \<Rightarrow> QueueName \<Rightarrow> JobState \<Rightarrow> int \<Rightarrow> int \<Rightarrow> string list" where
  "due_ids kb m q st now n = take (nat n) (map snd (filter (\<lambda>(s, x). s \<le> now) (members kb m q st)))"

text \<open>The priority field of every document is the decimal text of a valid priority.\<close>

definition priorities_ok :: "KeyBuilder \<Rightarrow> ref_db \<Rightarrow> (hash \<Rightarrow> Priority) \<Rightarrow> bool" where
  "priorities_ok kb m prio \<longleftrightarrow>
     (\<forall>i h. document kb m i = Some h \<longrightarrow>
        priority_text h = FormatUint (unat (prio h)) \<and> NewPriority (prio h) = Inr (prio h))"

lemma priority_range: "NewPriority p = Inr p \<Longrightarrow> 1 \<le> unat p \<and> unat p \<le> 10"
  by (auto simp: NewPriority_def priority_levels word_le_nat_alt word_less_nat_alt split: if_splits)

lemma FormatUint_Int: "FormatUint n = FormatInt (int n)"
  by (simp add: FormatUint_def FormatInt_def)

text \<open>The score of the scripts is the score of the Go code.\<close>

lemma requeue_score_pending:
  assumes "NewPriority p = Inr p" "0 \<le> ms" "ms < 10 ^ 14"
  shows "requeue_score 10 priorityBand ms (int (unat p)) = PendingScore p ms"
proof -
  have p: "1 \<le> unat p" "unat p \<le> 10" using priority_range [OF assms(1)] by auto
  define x where "x = 10 - int (unat p)"
  have x: "0 \<le> x" "x \<le> 9" using p unfolding x_def by linarith+
  have "unat (MaxPriority - p) = 10 - unat p"
    using p unat_sub [of p MaxPriority] by (simp add: priority_levels word_le_nat_alt)
  then have d: "int (unat (MaxPriority - p)) = x" using p by (simp add: x_def)
  have "fl64 x = x" "fl64 ms = ms" using x assms(2,3) by (intro fl64_small; simp)+
  then show ?thesis
    unfolding requeue_score_def PendingScore_def d x_def [symmetric] Let_def by (simp only:)
qed

lemma due_distinct:
  assumes "typed kb m" "ref_ok m" "queueNamePattern q"
  shows "distinct (due_ids kb m q st now n)"
  using members_ok(2) [OF assms] by (simp add: due_ids_def distinct_map_filter)

lemma sweep_script:
  assumes "typed kb m" "ref_ok m" "queueNamePattern q" "a \<noteq> StatePending" "priorities_ok kb m prio"
    and "\<And>t i. strconv_ParseInt t = Some i \<Longrightarrow> tn t = Some (fl64 i)"
    and "0 < n" "n < 2 ^ 53" "0 \<le> now" "now < 10 ^ 14"
  shows "andThenS (r_ZRANGEBYSCORE (RefN tn) (StateSet kb q a) (fl64 now) (fl64 n)) (\<lambda>due.
      requeue_each (RefN tn) extra (StateSet kb q a) (Pending_key kb q) (fl64 now) (JobPrefix kb) (fl64 priorityBand)
        (fl64 (int (unat MaxPriority))) due 0) m =
    (requeue_all kb q a extra now (\<lambda>h. PendingScore (prio h) now) (due_ids kb m q a now n) m,
     Inr (int (length (filter (\<lambda>i. document kb m i \<noteq> None) (due_ids kb m q a now n)))))"
proof -
  let ?ids = "due_ids kb m q a now n"
  have f: "fl64 now = now" "fl64 n = n" "fl64 priorityBand = priorityBand" "fl64 (int (unat MaxPriority)) = 10"
    using assms(7-10) by (auto simp: priorityBand_def priority_levels)
  have "r_ZRANGEBYSCORE (RefN tn) (StateSet kb q a) now n m = (m, Inr ?ids)"
    using typed_at(1) [OF assms(1,3), of a] assms(7)
    by (simp add: ref_ZRANGEBYSCORE_def key_render due_ids_def first_items_def)
  moreover have "requeue_each (RefN tn) extra (StateSet kb q a) (Pending_key kb q) now (JobPrefix kb) priorityBand 10 ?ids 0 m =
    (requeue_all kb q a extra now (\<lambda>h. requeue_score 10 priorityBand now (int (unat (prio h)))) ?ids m,
     Inr (0 + int (length (filter (\<lambda>i. document kb m i \<noteq> None) ?ids))))"
  proof (rule requeue_each_spec [OF assms(1,3,4) due_distinct [OF assms(1,2,3)]])
    fix i h assume "document kb m i = Some h"
    then have p: "priority_text h = FormatInt (int (unat (prio h)))" "unat (prio h) \<le> 10"
      using assms(5) priority_range unfolding priorities_ok_def FormatUint_Int by blast+
    have "tn (FormatInt (int k)) = Some (int k)" if "k \<le> 10" for k
      using assms(6) [of "FormatInt (int k)" "int k"] that by simp
    from this [OF p(2)] show "tn (priority_text h) = Some (int (unat (prio h)))" unfolding p(1) .
  qed
  moreover have "requeue_all kb q a extra now (\<lambda>h. requeue_score 10 priorityBand now (int (unat (prio h)))) ?ids m =
      requeue_all kb q a extra now (\<lambda>h. PendingScore (prio h) now) ?ids m"
  proof (rule requeue_all_cong [OF assms(1,3,4) due_distinct [OF assms(1,2,3)]])
    fix i h assume "document kb m i = Some h"
    then have "NewPriority (prio h) = Inr (prio h)" using assms(5) unfolding priorities_ok_def by blast
    from requeue_score_pending [OF this assms(9,10)]
    show "requeue_score 10 priorityBand now (int (unat (prio h))) = PendingScore (prio h) now" .
  qed
  ultimately show ?thesis unfolding f by (simp add: andThenS_def)
qed

text \<open>What a sweep of the set \<open>a\<close> of a queue does to the deployment.\<close>

definition swept ::
  "KeyBuilder \<Rightarrow> QueueName \<Rightarrow> JobState \<Rightarrow> (hash \<Rightarrow> Priority) \<Rightarrow> int \<Rightarrow> string list \<Rightarrow> ref_db \<Rightarrow> ref_db \<Rightarrow> bool" where
  "swept kb q a prio now ids m m' \<longleftrightarrow>
     (\<forall>t x. (t, x) \<in> set (members kb m' q a) \<longleftrightarrow> (t, x) \<in> set (members kb m q a) \<and> x \<notin> set ids) \<and>
     (\<forall>x \<in> set ids. \<forall>h. document kb m x = Some h \<longrightarrow>
        (\<forall>t. (t, x) \<in> set (members kb m' q StatePending) \<longleftrightarrow> t = PendingScore (prio h) now) \<and>
        (\<exists>h'. document kb m' x = Some h' \<and> field h' fieldState = ''pending'' \<and>
              field h' fieldProcessAtMS = FormatInt now \<and> field h' fieldWorkerID = '''' \<and>
              field h' fieldAttempts = field h fieldAttempts)) \<and>
     (\<forall>x. x \<notin> set ids \<longrightarrow> document kb m' x = document kb m x)"

lemma pending_field_values:
  assumes "extra = [] \<or> extra = [(''last_error'', msg)]"
  shows "field (hset h (pending_fields now @ extra)) fieldState = ''pending''"
    "field (hset h (pending_fields now @ extra)) fieldProcessAtMS = FormatInt now"
    "field (hset h (pending_fields now @ extra)) fieldWorkerID = ''''"
    "field (hset h (pending_fields now @ extra)) fieldAttempts = field h fieldAttempts"
  using assms by (auto simp: pending_fields_def field_def hset_def update_conv' field_names lua_text_def)

lemma requeue_all_swept:
  assumes "typed kb m" "queueNamePattern q" "a \<noteq> StatePending" "distinct ids"
    "extra = [] \<or> extra = [(''last_error'', msg)]"
  shows "swept kb q a prio now ids m (requeue_all kb q a extra now (\<lambda>h. PendingScore (prio h) now) ids m)"
  using requeue_all_views [OF assms(1-4)] pending_field_values [OF assms(5)]
  unfolding swept_def by auto

lemma redis_reclaim_spec:
  assumes "redis_server R L" and "L (c_redis c) m" and "c_net c = []" and "typed kb m"
    and "queueNamePattern q" and "priorities_ok kb m prio" and "0 < limit" and "limit < 2 ^ 53"
    and "0 \<le> toMillis now" and "toMillis now < 10 ^ 14"
  defines "ids \<equiv> due_ids kb m q StateActive (toMillis now) limit"
  shows "\<exists>c' m'. RB_ReclaimExpired R kb q now limit c =
      (c', Inr (int (length (filter (\<lambda>i. document kb m i \<noteq> None) ids)))) \<and> L (c_redis c') m' \<and>
    swept kb q StateActive prio (toMillis now) ids m m'"
proof -
  let ?d = "\<lparr>c_redis = m, c_net = c_net c\<rparr>"
  let ?extra = "[(''last_error'', ''lease expired: worker did not report completion'')]"
  let ?m' = "requeue_all kb q StateActive ?extra (toMillis now) (\<lambda>h. PendingScore (prio h) (toMillis now)) ids m"
  have ok: "ref_ok m" using redis_server.related_ok [OF assms(1,2)] .
  have tn: "\<And>t i. strconv_ParseInt t = Some i \<Longrightarrow> r_tonumber R t = Some (fl64 i)"
    using redis_server.tonumber_int [OF assms(1)] .
  have "reclaim_lua (RefN (r_tonumber R)) (Active_key kb q) (Pending_key kb q) (toMillis now) limit (JobPrefix kb)
      priorityBand (int (unat MaxPriority)) m =
      (?m', Inr (int (length (filter (\<lambda>i. document kb m i \<noteq> None) ids))))"
    unfolding reclaim_lua_def ids_def
    using sweep_script [OF assms(4) ok assms(5) _ assms(6) tn assms(7-10), where a = StateActive and extra = ?extra]
    by (simp add: StateSet_def)
  then have "RB_ReclaimExpired (RefN (r_tonumber R)) kb q now limit ?d =
      (?d\<lparr>c_redis := ?m'\<rparr>, Inr (int (length (filter (\<lambda>i. document kb m i \<noteq> None) ids))))"
    using assms(3,7) by (simp add: RB_ReclaimExpired_def orInternal_def send_def)
  moreover have rel: "conn_rel L c ?d" using assms(2) by (simp add: conn_rel_def)
  moreover obtain c' x where c': "RB_ReclaimExpired R kb q now limit c = (c', x)" by fastforce
  ultimately have "L (c_redis c') ?m'" "x = Inr (int (length (filter (\<lambda>i. document kb m i \<noteq> None) ids)))"
    using simD [OF redis_server.sim_reclaim_expired [OF assms(1)] rel c']
    by (auto simp: conn_rel_def elim!: rel_sum.cases)
  moreover have "swept kb q StateActive prio (toMillis now) ids m ?m'"
    unfolding ids_def using due_distinct [OF assms(4) ok assms(5)] assms(4,5) by (intro requeue_all_swept) auto
  ultimately show ?thesis using c' by blast
qed

text \<open>
  C15. Recovery on Redis. Over a working connection \<open>ReclaimExpired\<close> takes the jobs of the active set whose
  lease has lapsed, at most the limit of them and the longest lapsed first, and puts every one that
  still has a document back into the pending set with the score of its priority and the current
  instant; their documents say pending, with no worker. The reply counts
  them, and no other document changes. The attempt trail is left exactly as it is: the attempt that lapsed stays open in
  it, where \<open>Job.ReclaimExpiredLease\<close>, whose batch form the script is said to be, closes it with the
  reason.\<close>

theorem redis_reclaim_recovers:
  assumes "redis_server R L" and "L (c_redis c) m" and "c_net c = []" and "typed kb m"
    and "queueNamePattern q" and "priorities_ok kb m prio" and "0 < limit" and "limit < 2 ^ 53"
    and "0 \<le> toMillis now" and "toMillis now < 10 ^ 14"
  defines "ids \<equiv> due_ids kb m q StateActive (toMillis now) limit"
  shows "\<exists>c' m'. RB_ReclaimExpired R kb q now limit c =
      (c', Inr (int (length (filter (\<lambda>i. document kb m i \<noteq> None) ids)))) \<and> L (c_redis c') m' \<and>
    swept kb q StateActive prio (toMillis now) ids m m'"
  unfolding ids_def by (rule redis_reclaim_spec [OF assms(1-10)])

section \<open>A deployment with one job\<close>

definition sample_kb :: KeyBuilder where
  "sample_kb = NewKeyBuilder ''goqueue''"

definition sample_texts :: decode_texts where
  "sample_texts = \<lparr>dt_base64 = (\<lambda>_. ''illegal base64 data''), dt_json = (\<lambda>_. ''unexpected end of JSON input'')\<rparr>"

definition waiting_job :: Job where
  "waiting_job = sample_job\<lparr>j_state := StatePending, j_leaseExpiry := None, j_workerID := ''''\<rparr>"

abbreviation waiting_score :: int where
  "waiting_score \<equiv> PendingScore (j_priority waiting_job) (toMillis (j_processAt waiting_job))"

definition waiting_db :: ref_db where
  "waiting_db = stored_in sample_kb waiting_job StatePending waiting_score Map.empty"

definition running_db :: ref_db where
  "running_db = stored_in sample_kb sample_job StateActive 7 Map.empty"

lemma empty_views [simp]:
  "members kb Map.empty q st = []" "document kb Map.empty i = None" "\<not> paused kb Map.empty q"
  "waiting kb Map.empty q = {}" "meta kb Map.empty q = []"
  by (simp_all add: members_def document_def paused_def waiting_def meta_def zset_at_def hash_at_def)

lemma claimable_empty: "0 < fuel \<Longrightarrow> claimable kb fuel Map.empty"
  by (simp add: claimable_def)

lemma default_queue: "queueNamePattern ''default''"
  by (simp add: queueNamePattern_def matches_name_def queue_head_def queue_tail_def is_lower_def is_digit_def)

lemma waiting_job_ok:
  "storable waiting_job" "j_state waiting_job = StatePending" "j_id waiting_job = ''j1''" "j_queue waiting_job = ''default''"
  using sample_job_storable(1) by (auto simp: storable_def waiting_job_def sample_job_def)

lemma sample_job_at: "j_id sample_job = ''j1''" "j_queue sample_job = ''default''"
  by (simp_all add: sample_job_def)

lemma waiting_db_ok: "claimable sample_kb 5 waiting_db" "typed sample_kb waiting_db"
  "members sample_kb waiting_db ''default'' StatePending = [(waiting_score, ''j1'')]" "document sample_kb waiting_db ''j1'' \<noteq> None"
  "\<not> paused sample_kb waiting_db ''default''"
proof -
  note V = insert_job_views [OF typed_empty default_queue]
  show "claimable sample_kb 5 waiting_db"
    unfolding waiting_db_def waiting_job_ok using waiting_job_ok default_queue
    by (intro claimable_insert claimable_empty) (simp_all add: storable_def waiting_job_ok job_pairs_def field_def field_names)
  show "typed sample_kb waiting_db" "members sample_kb waiting_db ''default'' StatePending = [(waiting_score, ''j1'')]"
    "document sample_kb waiting_db ''j1'' \<noteq> None" "\<not> paused sample_kb waiting_db ''default''"
    unfolding waiting_db_def waiting_job_ok using V default_queue by (simp_all add: zput_def zdel_def)
qed

lemma running_db_ok: "typed sample_kb running_db" "ref_ok running_db"
  "members sample_kb running_db ''default'' StateActive = [(7, ''j1'')]"
  "document sample_kb running_db i = (if i = ''j1'' then Some (job_pairs sample_job) else None)"
proof -
  note V = insert_job_views [OF typed_empty default_queue]
  show "typed sample_kb running_db" "members sample_kb running_db ''default'' StateActive = [(7, ''j1'')]"
    "document sample_kb running_db i = (if i = ''j1'' then Some (job_pairs sample_job) else None)"
    unfolding running_db_def sample_job_at using V default_queue by (simp_all add: zput_def zdel_def)
qed (use default_queue in \<open>simp add: running_db_def sample_job_at insert_job_ok\<close>)

abbreviation ref_rel :: "ref_db \<Rightarrow> ref_db \<Rightarrow> bool" where
  "ref_rel \<equiv> \<lambda>m m'. m = m' \<and> ref_ok m"

text \<open>Two workers poll; the first request is executed but its reply is lost.\<close>

definition two_polls :: "poll list" where
  "two_polls =
     [\<lparr>po_now = 1700000000 * second, po_order = [''default''], po_worker = ''w1'', po_lease = 30 * second\<rparr>,
      \<lparr>po_now = 1700000001 * second, po_order = [''default''], po_worker = ''w2'', po_lease = 30 * second\<rparr>]"

theorem redis_no_double_claim_witness:
  "distinct (map j_id (snd (RB_polls Ref sample_kb sample_texts 5 two_polls
     \<lparr>c_redis = waiting_db, c_net = [GaveUp 1 ''i/o timeout'', Delivered 0]\<rparr>)))"
proof -
  let ?c = "\<lparr>c_redis = waiting_db, c_net = [GaveUp 1 ''i/o timeout'', Delivered 0]\<rparr>"
  obtain c' jobs where r: "RB_polls Ref sample_kb sample_texts 5 two_polls ?c = (c', jobs)" by fastforce
  have "ref_rel (c_redis ?c) waiting_db" "list_all (\<lambda>p. list_all queueNamePattern (po_order p)) two_polls"
    using waiting_db_ok(1) default_queue by (simp_all add: claimable_def two_polls_def)
  from redis_no_double_claim [OF ref.redis_server_axioms this(1) waiting_db_ok(1) this(2) r] show ?thesis
    using r by simp
qed

lemma waiting_dequeue:
  "\<exists>c' j. RB_Dequeue Ref sample_kb sample_texts 5 (1700000200 * second) [''default''] ''w1'' lease
     \<lparr>c_redis = waiting_db, c_net = []\<rparr> = (c', Inr (Some j))"
proof -
  let ?e = "\<lparr>c_redis = Map.empty, c_net = []\<rparr> :: ref_db conn"
  obtain d1 d2 j where d: "RB_Enqueue Ref sample_kb waiting_job ?e = (d1, Inr ())"
    "RB_Dequeue Ref sample_kb sample_texts 5 (1700000200 * second) [''default''] ''w1'' lease d1 = (d2, Inr (Some j))"
    using ref_enqueue_dequeue [of sample_kb 5 Map.empty waiting_job "''w1''" ref_tonumber sample_texts
        "1700000200 * second" lease]
      waiting_job_ok default_queue claimable_empty [of 5 sample_kb] unfolding Ref_def by auto
  have i: "RB_insert (RefN ref_tonumber) sample_kb waiting_job (StateSet sample_kb (j_queue waiting_job) StatePending)
      waiting_score ?e = (d1, Inr ())"
    using d(1) by (simp add: RB_Enqueue_def StateSet_def Ref_def)
  have "c_redis d1 = waiting_db"
    using ref_insert [OF _ _ i] default_queue by (simp add: waiting_db_def waiting_job_ok)
  moreover have "c_net d1 = []" using RB_insert_net [of ?e] i by (metis conn.select_convs(2) fst_conv)
  ultimately have "d1 = \<lparr>c_redis = waiting_db, c_net = []\<rparr>" by simp
  with d(2) show ?thesis by blast
qed

theorem redis_dequeue_claims_witness:
  "\<exists>c' j. RB_Dequeue Ref sample_kb sample_texts 5 (1700000200 * second) [''default''] ''w1'' (30 * second)
       \<lparr>c_redis = waiting_db, c_net = []\<rparr> = (c', Inr (Some j)) \<and> j_id j = ''j1'' \<and>
     members sample_kb (c_redis c') ''default'' StatePending = []"
proof -
  let ?c = "\<lparr>c_redis = waiting_db, c_net = []\<rparr>" and ?now = "1700000200 * second"
  obtain c' j where r: "RB_Dequeue Ref sample_kb sample_texts 5 ?now [''default''] ''w1'' (30 * second) ?c = (c', Inr (Some j))"
    using waiting_dequeue by blast
  have rel: "ref_rel (c_redis ?c) waiting_db" using waiting_db_ok(1) by (simp add: claimable_def)
  have "c_net ?c = []" "list_all queueNamePattern [''default'']" using default_queue by simp_all
  from redis_dequeue_claims [OF ref.redis_server_axioms rel waiting_db_ok(1) this r]
  obtain h where "(waiting_score, j_id j) \<in> set (members sample_kb waiting_db ''default'' StatePending)"
    "claims sample_kb ''w1'' (fl64 (toMillis (?now + wrap64 (30 * second + leaseGrace)))) (fl64 (toMillis ?now))
       (dedupeQueues [''default'']) waiting_db (c_redis c') ''default'' (j_id j) h"
    by (auto simp: waiting_db_ok)
  moreover have "live_members sample_kb waiting_db ''default'' = [(waiting_score, ''j1'')]"
    using waiting_db_ok(3,4) by (simp add: live_members_def)
  ultimately have "j_id j = ''j1''" "members sample_kb (c_redis c') ''default'' StatePending = []"
    unfolding claims_def waiting_db_ok(3) by auto
  then show ?thesis using r by blast
qed

theorem redis_insert_atomic_witness:
  "\<exists>c'. RB_insert Ref sample_kb waiting_job (StateSet sample_kb ''default'' StatePending) waiting_score
      \<lparr>c_redis = Map.empty, c_net = []\<rparr> = (c', Inr ()) \<and> c_redis c' = waiting_db"
proof -
  let ?c = "\<lparr>c_redis = Map.empty, c_net = []\<rparr> :: ref_db conn"
  obtain c' r where r: "RB_insert Ref sample_kb waiting_job (StateSet sample_kb (j_queue waiting_job) StatePending) waiting_score ?c = (c', r)"
    by fastforce
  have "ref_rel (c_redis ?c) Map.empty" "queueNamePattern (j_queue waiting_job)"
    using default_queue by (simp_all add: waiting_job_ok)
  from redis_insert_atomic [OF ref.redis_server_axioms this(1) typed_empty this(2) r]
  have "r = Inr ()" "c_redis c' = waiting_db" by (auto simp: waiting_db_def)
  then show ?thesis using r by (simp add: waiting_job_ok)
qed

theorem redis_enqueue_then_dequeue_witness:
  "\<exists>c1 c2 j'. RB_Enqueue Ref sample_kb waiting_job \<lparr>c_redis = Map.empty, c_net = []\<rparr> = (c1, Inr ()) \<and>
    RB_Dequeue Ref sample_kb sample_texts 5 (1700000200 * second) [''default''] ''w1'' (30 * second) c1 = (c2, Inr (Some j')) \<and>
    Lease ''w1'' (1700000200 * second) leaseGrace (stored waiting_job) = Inr j'"
  using redis_enqueue_then_dequeue [OF ref.redis_server_axioms, of "\<lparr>c_redis = Map.empty, c_net = []\<rparr>" Map.empty
      sample_kb 5 waiting_job "''w1''" sample_texts "1700000200 * second" "30 * second"]
    waiting_job_ok default_queue claimable_empty [of 5 sample_kb] by simp

theorem redis_outcome_moves_witness:
  "\<exists>c' m'. RB_Complete Ref sample_kb (1700000200 * second) sample_job (24 * hour)
      \<lparr>c_redis = running_db, c_net = []\<rparr> = (c', Inr ()) \<and>
    moved sample_kb sample_texts sample_job (\<lambda>st. st = StateActive) StateCompleted running_db m'"
proof -
  let ?f = "RB_Complete Ref sample_kb (1700000200 * second) sample_job (24 * hour)"
  have "\<exists>c' m'. ?f \<lparr>c_redis = running_db, c_net = []\<rparr> = (c', Inr ()) \<and> ref_rel (c_redis c') m' \<and>
      moved sample_kb sample_texts sample_job (\<lambda>st. st = StateActive) StateCompleted running_db m'"
    using running_db_ok(1,2) default_queue sample_job_storable(1)
    by (intro redis_outcome_moves [OF ref.redis_server_axioms, where now = "1700000200 * second" and retain = "24 * hour" and at = 0])
      (simp_all add: sample_job_at)
  then show ?thesis by blast
qed

theorem redis_kill_dead_letters_witness:
  "\<exists>c' m'. RB_Kill Ref sample_kb (1700000200 * second) sample_job \<lparr>c_redis = running_db, c_net = []\<rparr> = (c', Inr ()) \<and>
    moved sample_kb sample_texts sample_job (\<lambda>st. True) StateDead running_db m'"
  using redis_kill_dead_letters [OF ref.redis_server_axioms, of "\<lparr>c_redis = running_db, c_net = []\<rparr>" running_db sample_kb
      sample_job "1700000200 * second" sample_texts]
    running_db_ok(1,2) default_queue sample_job_storable(1) by (auto simp: sample_job_at)

theorem redis_reclaim_recovers_witness:
  "\<exists>c' m'. RB_ReclaimExpired Ref sample_kb ''default'' (1700000200 * second) 10 \<lparr>c_redis = running_db, c_net = []\<rparr> =
      (c', Inr 1) \<and> swept sample_kb ''default'' StateActive (\<lambda>_. 8) 1700000200000 [''j1''] running_db m'"
proof -
  have p: "priorities_ok sample_kb running_db (\<lambda>_. 8)"
    by (auto simp: priorities_ok_def running_db_ok priority_text_def job_pairs_def field_names NewPriority_def priority_levels sample_job_def split: if_splits)
  have now: "toMillis (1700000200 * second) = 1700000200000" by (simp add: toMillis_def second_def time_IsZero_def zero_time_def)
  have due: "due_ids sample_kb running_db ''default'' StateActive 1700000200000 10 = [''j1'']"
    by (simp add: due_ids_def running_db_ok)
  show ?thesis
    using redis_reclaim_recovers [OF ref.redis_server_axioms, of "\<lparr>c_redis = running_db, c_net = []\<rparr>" running_db sample_kb
        "''default''" "\<lambda>_. 8" 10 "1700000200 * second"] p running_db_ok default_queue
    by (auto simp: now due)
qed

end
