(* ===== verification/Redis_Repo.thy ===== *)
theory Redis_Repo
  imports Redis_Broker
begin

text \<open>
  The job repository on Redis (\<open>src/pkg/infrastructure/persistence/redis/job_repo.go\<close>): saving and reading a
  document, the paged listing over the lifecycle sets, deletion and the retention sweep.

  As for the broker, an operation takes the commands of the server and runs over a connection, and
  the properties hold for every server that behaves as documented.
\<close>

section \<open>Operations\<close>

definition defaultPageSize :: int where "defaultPageSize = 50"

definition maxPageSize :: int where "maxPageSize = 500"

text \<open>A pipeline of reads: all its commands run, and the first error among their replies is the error of the pipeline.\<close>

fun gather :: "('r, 'a) call list \<Rightarrow> ('r, 'a list) call" where
  "gather [] r = (r, Inr [])"
| "gather (f # fs) r =
     (case f r of
        (r', Inl e) \<Rightarrow> (fst (gather fs r'), Inl e)
      | (r', Inr x) \<Rightarrow>
          (case gather fs r' of
             (r'', Inl e) \<Rightarrow> (r'', Inl e)
           | (r'', Inr xs) \<Rightarrow> (r'', Inr (x # xs))))"

definition RJ_Save :: "'r redis \<Rightarrow> KeyBuilder \<Rightarrow> Job \<Rightarrow> ('r conn, unit) call" where
  "RJ_Save R kb job =
     andThenS (liftS (toJobFields job)) (\<lambda>document.
     andThenS (orInternal ''job_save_failed'' ''failed to save job''
         (send (r_HSET R (Job_key kb (j_id job)) (pairs_of document)))) (\<lambda>_. returnS ()))"

definition RJ_FindByID :: "'r redis \<Rightarrow> KeyBuilder \<Rightarrow> decode_texts \<Rightarrow> JobID \<Rightarrow> ('r conn, Job) call" where
  "RJ_FindByID R kb txt i =
     andThenS (orInternal ''job_read_failed'' ''failed to read job'' (send (r_HGETALL R (Job_key kb i)))) (\<lambda>h.
       if h = [] then failS (NotFound EJobNotFound (''no job found with id '' @ i))
       else liftS (toAggregate txt h))"

text \<open>Entries that are no identifiers, names that are no queue names, and documents that are gone or unreadable, are skipped.\<close>

definition valid_ids :: "string list \<Rightarrow> JobID list" where
  "valid_ids = List.map_filter (\<lambda>m. case NewJobID m of Inl _ \<Rightarrow> None | Inr i \<Rightarrow> Some i)"

definition valid_queues :: "string list \<Rightarrow> QueueName list" where
  "valid_queues = List.map_filter (\<lambda>name. case NewQueueName name of Inl _ \<Rightarrow> None | Inr q \<Rightarrow> Some q)"

definition readable :: "decode_texts \<Rightarrow> hash list \<Rightarrow> Job list" where
  "readable txt =
     List.map_filter (\<lambda>h. if h = [] then None else case toAggregate txt h of Inl _ \<Rightarrow> None | Inr j \<Rightarrow> Some j)"

definition RJ_loadMany :: "'r redis \<Rightarrow> KeyBuilder \<Rightarrow> decode_texts \<Rightarrow> JobID list \<Rightarrow> ('r conn, Job list) call" where
  "RJ_loadMany R kb txt ids =
     (if ids = [] then returnS []
      else andThenS (orInternal ''job_list_failed'' ''failed to load jobs''
          (send (gather (map (\<lambda>i. r_HGETALL R (Job_key kb i)) ids)))) (\<lambda>docs. returnS (readable txt docs)))"

definition RJ_resolveQueues :: "'r redis \<Rightarrow> KeyBuilder \<Rightarrow> QueueName \<Rightarrow> ('r conn, QueueName list) call" where
  "RJ_resolveQueues R kb wanted =
     (if wanted \<noteq> '''' then returnS [wanted]
      else andThenS (orInternal ''queue_list_failed'' ''failed to list queues''
          (send (r_SMEMBERS R (QueueRegistry kb)))) (\<lambda>names. returnS (valid_queues names)))"

definition resolveStates :: "JobState option \<Rightarrow> JobState list" where
  "resolveStates wanted = (case wanted of Some st \<Rightarrow> [st] | None \<Rightarrow> AllStates)"

text \<open>The two nested loops of the listing, over the pairs of a queue and a state.\<close>

fun RJ_collect ::
  "'r redis \<Rightarrow> KeyBuilder \<Rightarrow> int \<Rightarrow> (QueueName \<times> JobState) list \<Rightarrow> int \<Rightarrow> JobID list \<Rightarrow>
     ('r conn, int \<times> JobID list) call" where
  "RJ_collect R kb stop [] tot ids = returnS (tot, ids)"
| "RJ_collect R kb stop ((queue, state) # sets) tot ids =
     (if StateSet kb queue state = '''' then RJ_collect R kb stop sets tot ids
      else
        andThenS (orInternal ''job_list_failed'' ''failed to count jobs''
            (send (r_ZCARD R (StateSet kb queue state)))) (\<lambda>count.
        andThenS (orInternal ''job_list_failed'' ''failed to list jobs''
            (send (r_ZRANGE R (StateSet kb queue state) stop))) (\<lambda>entries.
        RJ_collect R kb stop sets (wrap64 (tot + count)) (ids @ valid_ids entries))))"

text \<open>
  \<open>make([]T, 0, n)\<close> for elements of 16 bytes, as a \<open>string\<close> is: it panics when the slice cannot fit the
  address space of a 64-bit machine.
\<close>

definition make_strings_ok :: "int \<Rightarrow> bool" where
  "make_strings_ok n \<longleftrightarrow> 0 \<le> n \<and> 16 * n \<le> 2 ^ 48"

text \<open>The listing once the queues are known, and the listing.\<close>

definition RJ_page ::
  "'r redis \<Rightarrow> KeyBuilder \<Rightarrow> decode_texts \<Rightarrow> JobFilter \<Rightarrow> int \<Rightarrow> int \<Rightarrow> QueueName list \<Rightarrow> ('r conn, JobPage) call" where
  "RJ_page R kb txt f limit offset queues =
     (if \<not> make_strings_ok (wrap64 (limit + offset)) then failS (go_panic ''makeslice: cap out of range'')
      else
        andThenS (RJ_collect R kb (wrap64 (offset + limit - 1))
            (List.product queues (resolveStates (f_State f))) 0 []) (\<lambda>(tot, ids).
        andThenS (RJ_loadMany R kb txt ids) (\<lambda>loaded.
          let by_type = (f_TaskType f \<noteq> '''');
              jobs = (if by_type then filter (\<lambda>job. j_taskType job = f_TaskType f) loaded else loaded);
              tot = (if by_type then int (length jobs) else tot);
              jobs = sortJobsByCreatedAtDesc jobs;
              end0 = wrap64 (offset + limit);
              end' = (if end0 > int (length jobs) then int (length jobs) else end0)
          in returnS (if offset \<ge> int (length jobs) then \<lparr>pg_Jobs = [], pg_Total = tot\<rparr>
             else \<lparr>pg_Jobs = take (nat (end' - offset)) (drop (nat offset) jobs), pg_Total = tot\<rparr>))))"

definition page_limit :: "JobFilter \<Rightarrow> int" where
  "page_limit f =
     (let limit = (if f_Limit f \<le> 0 then defaultPageSize else f_Limit f)
      in if limit > maxPageSize then maxPageSize else limit)"

definition page_offset :: "JobFilter \<Rightarrow> int" where
  "page_offset f = (if f_Offset f < 0 then 0 else f_Offset f)"

definition RJ_List :: "'r redis \<Rightarrow> KeyBuilder \<Rightarrow> decode_texts \<Rightarrow> JobFilter \<Rightarrow> ('r conn, JobPage) call" where
  "RJ_List R kb txt f =
     andThenS (RJ_resolveQueues R kb (f_Queue f)) (RJ_page R kb txt f (page_limit f) (page_offset f))"

definition RJ_Delete :: "'r redis \<Rightarrow> KeyBuilder \<Rightarrow> decode_texts \<Rightarrow> JobID \<Rightarrow> ('r conn, unit) call" where
  "RJ_Delete R kb txt i =
     andThenS (RJ_FindByID R kb txt i) (\<lambda>job.
     andThenS (orInternal ''job_delete_failed'' ''failed to delete job''
         (send (pipeline
            (r_DEL R (Job_key kb i) #
             map (\<lambda>state. r_ZREM R (StateSet kb (j_queue job) state) i) AllStates @
             (if \<not> IsZero (j_idempotencyKey job) then [r_DEL R (Idempotency kb (j_idempotencyKey job))] else [])))))
       (\<lambda>_. returnS ()))"

definition RJ_PurgeCompleted :: "'r redis \<Rightarrow> KeyBuilder \<Rightarrow> time \<Rightarrow> QueueName \<Rightarrow> int \<Rightarrow> ('r conn, int) call" where
  "RJ_PurgeCompleted R kb now queue limit =
     (let limit = (if limit \<le> 0 then maxPageSize else limit)
      in orInternal ''job_purge_failed'' ''failed to purge completed jobs''
           (send (purge_completed_lua R (Completed_key kb queue) (toMillis now) limit (JobPrefix kb))))"

definition redisJobRepo :: "'r redis \<Rightarrow> KeyBuilder \<Rightarrow> decode_texts \<Rightarrow> time \<Rightarrow> 'r conn IJobRepo" where
  "redisJobRepo R kb txt now =
     \<lparr>repo_Save = RJ_Save R kb, repo_FindByID = RJ_FindByID R kb txt, repo_List = RJ_List R kb txt,
      repo_Delete = RJ_Delete R kb txt, repo_PurgeCompleted = RJ_PurgeCompleted R kb now\<rparr>"

section \<open>Refinement\<close>

lemma same_hash_reads:
  assumes "same_hash a b"
  shows "a = [] \<longleftrightarrow> b = []" "toAggregate txt a = toAggregate txt b"
  using assms map_of_eq_empty_iff [of a] map_of_eq_empty_iff [of b]
  by (auto simp: same_hash_def intro: toAggregate_cong)

lemma sim_gather:
  assumes "list_all2 (sim L Q) fs gs"
  shows "sim L (list_all2 Q) (gather fs) (gather gs)"
  using assms
proof (induction rule: list_all2_induct)
  case Nil
  then show ?case by (simp add: sim_def)
next
  case (Cons f fs g gs)
  show ?case unfolding sim_def
  proof (intro allI impI)
    fix s m assume l: "L s m"
    obtain s' x where f: "f s = (s', x)" by (cases "f s")
    obtain m' y where g: "g m = (m', y)" "L s' m'" "rel_sum (=) Q x y" using simD [OF Cons(1) l f] by metis
    obtain s2 xs where fs: "gather fs s' = (s2, xs)" by (cases "gather fs s'")
    obtain m2 ys where gs: "gather gs m' = (m2, ys)" "L s2 m2" "rel_sum (=) (list_all2 Q) xs ys"
      using simD [OF Cons.IH g(2) fs] by metis
    show "L (fst (gather (f # fs) s)) (fst (gather (g # gs) m)) \<and>
      rel_sum (=) (list_all2 Q) (snd (gather (f # fs) s)) (snd (gather (g # gs) m))"
      using g(3) gs(2,3) f g(1) fs gs(1) by (auto elim!: rel_sum.cases)
  qed
qed

lemma readable_cong: "list_all2 same_hash xs ys \<Longrightarrow> readable txt xs = readable txt ys"
  unfolding readable_def
  by (induction rule: list_all2_induct) (auto simp: map_filter_simps same_hash_reads split: option.split)

context redis_server
begin

lemma sim_save: "sim (conn_rel L) (=) (RJ_Save R kb job) (RJ_Save reference kb job)"
  unfolding RJ_Save_def RefN_simps by (intro sim_call sim_HSET)

lemma sim_find_job: "sim (conn_rel L) (=) (RJ_FindByID R kb txt i) (RJ_FindByID reference kb txt i)"
  unfolding RJ_FindByID_def
proof (rule sim_andThenS)
  show "sim (conn_rel L) same_hash (orInternal a b (send (r_HGETALL R (Job_key kb i))))
      (orInternal a b (send (r_HGETALL reference (Job_key kb i))))" for a b
    unfolding RefN_simps by (intro sim_orInternal sim_send sim_HGETALL)
qed (simp add: same_hash_reads sim_failS sim_liftS_eq)

lemma sim_load: "sim (conn_rel L) (=) (RJ_loadMany R kb txt ids) (RJ_loadMany reference kb txt ids)"
  unfolding RJ_loadMany_def
proof (intro sim_if sim_returnS_eq, rule sim_andThenS)
  show "sim (conn_rel L) (list_all2 same_hash)
      (orInternal a b (send (gather (map (\<lambda>i. r_HGETALL R (Job_key kb i)) ids))))
      (orInternal a b (send (gather (map (\<lambda>i. r_HGETALL reference (Job_key kb i)) ids))))" for a b
    unfolding RefN_simps
    by (intro sim_orInternal sim_send sim_gather) (simp add: list.rel_map list_all2_same sim_HGETALL)
qed (simp add: readable_cong sim_returnS_eq)

lemma sim_collect: "sim (conn_rel L) (=) (RJ_collect R kb stop sets tot ids) (RJ_collect reference kb stop sets tot ids)"
proof (induction sets arbitrary: tot ids)
  case (Cons qs sets)
  obtain q st where qs: "qs = (q, st)" by (cases qs)
  show ?case unfolding qs RJ_collect.simps RefN_simps by (intro sim_call sim_ZCARD sim_ZRANGE Cons.IH)
qed (simp add: sim_returnS_eq)

lemma sim_delete_job: "sim (conn_rel L) (=) (RJ_Delete R kb txt i) (RJ_Delete reference kb txt i)"
  unfolding RJ_Delete_def
  by (intro sim_call sim_find_job sim_pipeline)
    (simp add: list.rel_map list_all2_append list_all2_same sim_DEL sim_ZREM)

lemma sim_purge_jobs: "sim (conn_rel L) (=) (RJ_PurgeCompleted R kb now q n) (RJ_PurgeCompleted reference kb now q n)"
  unfolding RJ_PurgeCompleted_def Let_def by (intro sim_call sim_purge_completed)

end

section \<open>Documents\<close>

lemma ref_find:
  assumes "typed kb (c_redis c)" "c_net c = []"
  shows "RJ_FindByID (RefN tn) kb txt i c =
    (c, case document kb (c_redis c) i of
          None \<Rightarrow> Inl (NotFound EJobNotFound (''no job found with id '' @ i))
        | Some h \<Rightarrow> if h = [] then Inl (NotFound EJobNotFound (''no job found with id '' @ i)) else toAggregate txt h)"
  using assms typed_at(4) [OF assms(1), of i]
  by (auto simp: RJ_FindByID_def andThenS_def orInternal_def send_def ref_HGETALL_def key_render split: option.split)

lemma ref_save:
  assumes "typed kb (c_redis c)" "c_net c = []"
  shows "RJ_Save (RefN tn) kb job c =
    (c\<lparr>c_redis := put_document kb (j_id job)
        (hset (case document kb (c_redis c) (j_id job) of None \<Rightarrow> [] | Some h \<Rightarrow> h) (job_pairs job)) (c_redis c)\<rparr>, Inr ())"
  using assms typed_at(4) [OF assms(1), of "j_id job"]
  by (simp add: RJ_Save_def toJobFields_pairs andThenS_def orInternal_def send_def ref_HSET_def key_render put_document_def)

text \<open>
  What the repository saves, it finds. Over a working connection \<open>Save\<close> succeeds, and reading the
  identifier afterwards gives the saved job as the format keeps it; no other document and no
  lifecycle set has changed.\<close>

theorem redis_save_find:
  assumes "redis_server R L" and "L (c_redis c) m" and "c_net c = []" and "typed kb m" and "storable job"
  shows "\<exists>c1 c2 m1. RJ_Save R kb job c = (c1, Inr ()) \<and> L (c_redis c1) m1 \<and>
    RJ_FindByID R kb txt (j_id job) c1 = (c2, Inr (stored job)) \<and>
    (\<forall>i. i \<noteq> j_id job \<longrightarrow> document kb m1 i = document kb m i) \<and>
    (\<forall>q st. queueNamePattern q \<longrightarrow> members kb m1 q st = members kb m q st)"
proof -
  let ?d = "\<lparr>c_redis = m, c_net = c_net c\<rparr>"
  let ?h = "hset (case document kb m (j_id job) of None \<Rightarrow> [] | Some h \<Rightarrow> h) (job_pairs job)"
  let ?m1 = "put_document kb (j_id job) ?h m" and ?d1 = "\<lparr>c_redis = put_document kb (j_id job) ?h m, c_net = c_net c\<rparr>"
  have rel: "conn_rel L c ?d" using assms(2) by (simp add: conn_rel_def)
  have s: "RJ_Save (RefN (r_tonumber R)) kb job ?d = (?d1, Inr ())"
    using ref_save [of kb ?d] assms(3,4) by simp
  have t: "typed kb ?m1" using assms(4) by auto
  have "?h \<noteq> []" by (simp add: hset_nonempty)
  then have f: "RJ_FindByID (RefN (r_tonumber R)) kb txt (j_id job) ?d1 = (?d1, Inr (stored job))"
    using ref_find [of kb ?d1] t assms(3) toAggregate_overwritten [OF assms(5)] by simp
  obtain c1 x where c1: "RJ_Save R kb job c = (c1, x)" by fastforce
  have r1: "conn_rel L c1 ?d1" "x = Inr ()"
    using simD [OF redis_server.sim_save [OF assms(1)] rel c1] s by (auto elim!: rel_sum.cases)
  obtain c2 y where c2: "RJ_FindByID R kb txt (j_id job) c1 = (c2, y)" by fastforce
  have "y = Inr (stored job)"
    using simD [OF redis_server.sim_find_job [OF assms(1)] r1(1) c2] f by (auto elim!: rel_sum.cases)
  then show ?thesis using c1 r1 c2 by (intro exI [of _ c1] exI [of _ c2] exI [of _ ?m1]) (auto simp: conn_rel_def)
qed

theorem redis_save_find_witness:
  "\<exists>c1 c2. RJ_Save Ref sample_kb sample_job \<lparr>c_redis = waiting_db, c_net = []\<rparr> = (c1, Inr ()) \<and>
     RJ_FindByID Ref sample_kb sample_texts ''j1'' c1 = (c2, Inr (stored sample_job))"
  using redis_save_find [OF ref.redis_server_axioms, of "\<lparr>c_redis = waiting_db, c_net = []\<rparr>" waiting_db sample_kb
      sample_job sample_texts] waiting_db_ok(1,2) sample_job_storable(1)
  by (auto simp: sample_job_at claimable_def)

section \<open>Deletion\<close>

definition drop_document :: "KeyBuilder \<Rightarrow> JobID \<Rightarrow> ref_db \<Rightarrow> ref_db" where
  "drop_document kb i m = m(render kb (KJob i) := None)"

definition drop_claim :: "KeyBuilder \<Rightarrow> IdempotencyKey \<Rightarrow> ref_db \<Rightarrow> ref_db" where
  "drop_claim kb k m = m(render kb (KClaim k) := None)"

lemma at_drop:
  "hash_at (m(k := None)) k' = (if k' = k then Some [] else hash_at m k')"
  "zset_at (m(k := None)) k' = (if k' = k then Some [] else zset_at m k')"
  "set_at (m(k := None)) k' = (if k' = k then Some [] else set_at m k')"
  by (simp_all add: hash_at_def zset_at_def set_at_def)

lemma drop_document_views [simp]:
  "typed kb m \<Longrightarrow> typed kb (drop_document kb i m)"
  "queueNamePattern q \<Longrightarrow> members kb (drop_document kb i m) q st = members kb m q st"
  "document kb (drop_document kb i m) i' = (if i' = i then None else document kb m i')"
  "holder kb (drop_document kb i m) k = holder kb m k"
  "queueNamePattern q \<Longrightarrow> meta kb (drop_document kb i m) q = meta kb m q"
  "registry kb (drop_document kb i m) = registry kb m"
  by (auto simp: drop_document_def typed_def members_def document_def holder_def meta_def registry_def at_drop)

lemma drop_claim_views [simp]:
  "typed kb m \<Longrightarrow> typed kb (drop_claim kb k m)"
  "queueNamePattern q \<Longrightarrow> members kb (drop_claim kb k m) q st = members kb m q st"
  "document kb (drop_claim kb k m) i = document kb m i"
  "holder kb (drop_claim kb k m) k' = (if k' = k then None else holder kb m k')"
  "queueNamePattern q \<Longrightarrow> meta kb (drop_claim kb k m) q = meta kb m q"
  "registry kb (drop_claim kb k m) = registry kb m"
  by (auto simp: drop_claim_def typed_def members_def document_def holder_def meta_def registry_def at_drop)

lemma clear_sets_holder: "queueNamePattern q \<Longrightarrow> holder kb (clear_sets kb q i sts m) k = holder kb m k"
  by (induction sts arbitrary: m) auto

lemma pipeline_append: "pipeline fs m = (m', Inr ()) \<Longrightarrow> pipeline (fs @ gs) m = pipeline gs m'"
  by (induction fs arbitrary: m) (auto split: prod.splits sum.splits)

definition delete_job :: "KeyBuilder \<Rightarrow> Job \<Rightarrow> JobID \<Rightarrow> ref_db \<Rightarrow> ref_db" where
  "delete_job kb job i m =
     (let m' = clear_sets kb (j_queue job) i AllStates (drop_document kb i m)
      in if IsZero (j_idempotencyKey job) then m' else drop_claim kb (j_idempotencyKey job) m')"

lemma delete_pipeline:
  assumes "typed kb m" "queueNamePattern (j_queue job)"
  shows "pipeline (ref_DEL (Job_key kb i) # map (\<lambda>st. ref_ZREM (StateSet kb (j_queue job) st) i) AllStates @
      (if \<not> IsZero (j_idempotencyKey job) then [ref_DEL (Idempotency kb (j_idempotencyKey job))] else [])) m =
    (delete_job kb job i m, Inr ())"
proof -
  let ?m1 = "drop_document kb i m" and ?q = "j_queue job"
  let ?rest = "if \<not> IsZero (j_idempotencyKey job) then [ref_DEL (Idempotency kb (j_idempotencyKey job))] else []"
  have "pipeline (map (\<lambda>st. ref_ZREM (StateSet kb ?q st) i) AllStates) ?m1 = (clear_sets kb ?q i AllStates ?m1, Inr ())"
    using pipeline_clear [OF assms(2), of kb ?m1 i AllStates] assms(1) by (simp add: comp_def)
  note pipeline_append [OF this, of ?rest]
  moreover have "ref_DEL (Job_key kb i) m = (?m1, Inr ())" by (simp add: ref_DEL_def drop_document_def key_render)
  ultimately show ?thesis
    by (simp add: delete_job_def Let_def ref_DEL_def drop_claim_def key_render)
qed

lemma set_AllStates: "set AllStates = UNIV"
  by (auto simp: AllStates_def intro: JobState.exhaust)

text \<open>What a deletion leaves behind.\<close>

definition deleted :: "KeyBuilder \<Rightarrow> JobID \<Rightarrow> Job \<Rightarrow> ref_db \<Rightarrow> ref_db \<Rightarrow> bool" where
  "deleted kb i job m m' \<longleftrightarrow>
     (\<forall>x. document kb m' x = (if x = i then None else document kb m x)) \<and>
     (\<forall>q st t x. queueNamePattern q \<longrightarrow>
        (t, x) \<in> set (members kb m' q st) \<longleftrightarrow>
        (t, x) \<in> set (members kb m q st) \<and> \<not> (x = i \<and> q = j_queue job)) \<and>
     (\<forall>k. holder kb m' k = (if k = j_idempotencyKey job \<and> k \<noteq> '''' then None else holder kb m k))"

lemma delete_job_deleted:
  assumes "typed kb m" "queueNamePattern (j_queue job)"
  shows "deleted kb i job m (delete_job kb job i m)"
proof -
  note C = clear_sets_views [OF assms(2)] clear_sets_holder [OF assms(2)]
  show ?thesis
    unfolding deleted_def delete_job_def Let_def
    using C by (auto simp: set_AllStates IsZero_def zdel_def)
qed

lemma toAggregate_queue: "toAggregate txt h = Inr j \<Longrightarrow> queueNamePattern (j_queue j)"
  by (auto simp: toAggregate_def andThen_eq_Inr Let_def Reconstitute_def dest!: NewQueueName_pattern split: if_splits option.splits)

text \<open>
  Deleting a job on Redis. Over a working connection, deleting a readable job removes its document,
  its entry in every lifecycle set of its queue and its claim on an idempotency key, and nothing
  else; deleting an identifier that has no document reports that it was not found and changes nothing.\<close>

theorem redis_delete:
  assumes "redis_server R L" and "L (c_redis c) m" and "c_net c = []" and "typed kb m"
    and "case document kb m i of None \<Rightarrow> True | Some h \<Rightarrow> toAggregate txt h = Inr job"
  shows "\<exists>c' m'. L (c_redis c') m' \<and>
    (case document kb m i of
       None \<Rightarrow> RJ_Delete R kb txt i c = (c', Inl (NotFound EJobNotFound (''no job found with id '' @ i))) \<and> m' = m
     | Some h \<Rightarrow> RJ_Delete R kb txt i c = (c', Inr ()) \<and> deleted kb i job m m')"
proof -
  let ?d = "\<lparr>c_redis = m, c_net = c_net c\<rparr>"
  have rel: "conn_rel L c ?d" using assms(2) by (simp add: conn_rel_def)
  obtain c' x where c': "RJ_Delete R kb txt i c = (c', x)" by fastforce
  obtain d' where d': "RJ_Delete (RefN (r_tonumber R)) kb txt i ?d = (d', x)" "L (c_redis c') (c_redis d')"
    using simD [OF redis_server.sim_delete_job [OF assms(1)] rel c'] by (auto simp: conn_rel_def sum.rel_eq)
  note F = ref_find [of kb ?d "r_tonumber R" "txt" i]
  have "document kb m i \<noteq> Some []" using document_nonempty redis_server.related_ok [OF assms(1,2)] by blast
  then show ?thesis
  proof (cases "document kb m i")
    case None
    then have "d' = ?d" "x = Inl (NotFound EJobNotFound (''no job found with id '' @ i))"
      using d'(1) F assms(3,4) by (auto simp: RJ_Delete_def andThenS_def)
    then show ?thesis using c' d'(2) None by auto
  next
    case (Some h)
    then have h: "toAggregate txt h = Inr job" using assms(5) by simp
    then have ne: "h \<noteq> []" by (auto simp: toAggregate_def)
    note q = toAggregate_queue [OF h]
    have p: "send (pipeline (r_DEL S (Job_key kb i) # map (\<lambda>st. r_ZREM S (StateSet kb (j_queue job) st) i) AllStates @
        (if \<not> IsZero (j_idempotencyKey job) then [r_DEL S (Idempotency kb (j_idempotencyKey job))] else []))) ?d =
      (?d\<lparr>c_redis := delete_job kb job i m\<rparr>, Inr ())" if "S = RefN tn" for S tn
      using delete_pipeline [OF assms(4) q, of i] assms(3) unfolding that
      by (simp only: send_def RefN_simps list.case fst_conv snd_conv conn.select_convs)
    have "x = Inr ()" "c_redis d' = delete_job kb job i m"
      using d'(1) F assms(3,4) Some h ne p [OF refl]
      by (auto simp: RJ_Delete_def andThenS_def orInternal_def simp del: RefN_simps pipeline.simps)
    then show ?thesis using c' d'(2) Some delete_job_deleted [OF assms(4) q] by auto
  qed
qed

theorem redis_delete_witness:
  "\<exists>c'. RJ_Delete Ref sample_kb sample_texts ''j1'' \<lparr>c_redis = running_db, c_net = []\<rparr> = (c', Inr ()) \<and>
     deleted sample_kb ''j1'' (stored sample_job) running_db (c_redis c')"
  using redis_delete [OF ref.redis_server_axioms, of "\<lparr>c_redis = running_db, c_net = []\<rparr>" running_db sample_kb
      sample_texts "stored sample_job" "''j1''"]
    running_db_ok toAggregate_job_pairs [OF sample_job_storable(1)]
  by auto

section \<open>Retention\<close>

fun purge_all :: "KeyBuilder \<Rightarrow> QueueName \<Rightarrow> string list \<Rightarrow> ref_db \<Rightarrow> ref_db" where
  "purge_all kb q [] m = m"
| "purge_all kb q (i # ids) m =
     purge_all kb q ids (drop_document kb i (put_members kb q StateCompleted (zdel i (members kb m q StateCompleted)) m))"

lemma purge_all_views:
  assumes "queueNamePattern q"
  shows "queueNamePattern q' \<Longrightarrow> members kb (purge_all kb q ids m) q' st =
      (if q' = q \<and> st = StateCompleted then filter (\<lambda>(s, x). x \<notin> set ids) (members kb m q st) else members kb m q' st)"
    and "document kb (purge_all kb q ids m) i = (if i \<in> set ids then None else document kb m i)"
  using assms
  by (induction ids arbitrary: m) (auto simp: zdel_def filter_filter case_prod_beta' intro!: filter_cong)

lemma purge_each_spec:
  assumes "typed kb m" "queueNamePattern q"
  shows "purge_each (RefN tn) (Completed_key kb q) (JobPrefix kb) ids n m = (purge_all kb q ids m, Inr (n + int (length ids)))"
  using assms(1)
proof (induction ids arbitrary: m n)
  case (Cons i ids)
  let ?m = "drop_document kb i (put_members kb q StateCompleted (zdel i (members kb m q StateCompleted)) m)"
  have "ref_ZREM (Completed_key kb q) i m = (put_members kb q StateCompleted (zdel i (members kb m q StateCompleted)) m, Inr ())"
    using typed_at(1) [OF Cons.prems assms(2)] by (simp add: ref_ZREM_def key_render put_members_def)
  moreover have "ref_DEL (JobPrefix kb @ i) m1 = (drop_document kb i m1, Inr ())" for m1
    by (simp add: ref_DEL_def key_render drop_document_def)
  moreover have "typed kb ?m" using Cons.prems assms(2) by (intro drop_document_views(1) typed_put_members)
  ultimately show ?case using Cons.IH [of ?m "n + 1"] by (simp add: andThenS_def)
qed simp

text \<open>
  The retention sweep on Redis. Over a working connection \<open>PurgeCompleted\<close> removes the completed jobs of
  a queue whose retention has passed, at most the limit of them and the longest passed first: their
  entries and their documents, and nothing else. It returns how many.\<close>

theorem redis_purge_completed:
  assumes "redis_server R L" and "L (c_redis c) m" and "c_net c = []" and "typed kb m" and "queueNamePattern q"
    and "0 < limit" and "limit < 2 ^ 53" and "0 \<le> toMillis now" and "toMillis now < 2 ^ 53"
  defines "ids \<equiv> due_ids kb m q StateCompleted (toMillis now) limit"
  shows "\<exists>c' m'. RJ_PurgeCompleted R kb now q limit c = (c', Inr (int (length ids))) \<and> L (c_redis c') m' \<and>
    (\<forall>i. document kb m' i = (if i \<in> set ids then None else document kb m i)) \<and>
    (\<forall>q' st. queueNamePattern q' \<longrightarrow> members kb m' q' st =
       (if q' = q \<and> st = StateCompleted then filter (\<lambda>(s, x). x \<notin> set ids) (members kb m q st) else members kb m q' st))"
proof -
  let ?d = "\<lparr>c_redis = m, c_net = c_net c\<rparr>" and ?m' = "purge_all kb q ids m"
  have f: "fl64 (toMillis now) = toMillis now" "fl64 limit = limit"
    using assms(6-9) by (auto intro!: fl64_small)
  have "r_ZRANGEBYSCORE (RefN tn) (Completed_key kb q) (toMillis now) limit m = (m, Inr ids)" for tn
    using typed_at(1) [OF assms(4,5), of StateCompleted] assms(6)
    by (simp add: ref_ZRANGEBYSCORE_def key_render due_ids_def first_items_def ids_def)
  then have "RJ_PurgeCompleted (RefN (r_tonumber R)) kb now q limit ?d = (?d\<lparr>c_redis := ?m'\<rparr>, Inr (int (length ids)))"
    using assms(3,6) purge_each_spec [OF assms(4,5), of "r_tonumber R" ids 0]
    by (simp add: RJ_PurgeCompleted_def orInternal_def send_def purge_completed_lua_def f andThenS_def)
  moreover have rel: "conn_rel L c ?d" using assms(2) by (simp add: conn_rel_def)
  moreover obtain c' x where c': "RJ_PurgeCompleted R kb now q limit c = (c', x)" by fastforce
  ultimately have "L (c_redis c') ?m'" "x = Inr (int (length ids))"
    using simD [OF redis_server.sim_purge_jobs [OF assms(1)] rel c'] by (auto simp: conn_rel_def elim!: rel_sum.cases)
  then show ?thesis using c' purge_all_views [OF assms(5)] by blast
qed

theorem redis_purge_completed_witness:
  "\<exists>c'. RJ_PurgeCompleted Ref sample_kb (1700000200 * second) ''default'' 10 \<lparr>c_redis = waiting_db, c_net = []\<rparr> = (c', Inr 0)"
proof -
  have "members sample_kb waiting_db ''default'' StateCompleted = []"
    using insert_job_views(2) [OF typed_empty default_queue default_queue]
    by (simp add: waiting_db_def waiting_job_ok)
  then have due: "due_ids sample_kb waiting_db ''default'' StateCompleted t 10 = []" for t by (simp add: due_ids_def)
  have now: "toMillis (1700000200 * second) = 1700000200000" by (simp add: toMillis_def second_def time_IsZero_def zero_time_def)
  show ?thesis
    using redis_purge_completed [OF ref.redis_server_axioms, of "\<lparr>c_redis = waiting_db, c_net = []\<rparr>" waiting_db sample_kb
        "''default''" 10 "1700000200 * second"] waiting_db_ok(1,2) default_queue
    by (auto simp: now due claimable_def)
qed

section \<open>Listing\<close>

definition created_rank :: "Job \<Rightarrow> int \<times> string" where
  "created_rank j = (- j_createdAt j, j_id j)"

lemma sortJobs_rank: "sortJobsByCreatedAtDesc jobs = sort_key created_rank jobs"
  unfolding sortJobsByCreatedAtDesc_def
  by (rule SliceStable_key) (auto simp: createdAt_desc_def created_rank_def)

lemma set_map_filter: "y \<in> set (List.map_filter f xs) \<longleftrightarrow> (\<exists>x \<in> set xs. f x = Some y)"
  by (induction xs) (auto simp: map_filter_simps split: option.split)

lemma kept_value: "(case r of Inl _ \<Rightarrow> None | Inr x \<Rightarrow> Some x) = Some y \<longleftrightarrow> r = Inr y"
  by (cases r) auto

lemma length_map_filter: "length (List.map_filter f xs) \<le> length xs"
  by (simp add: map_filter_def length_filter_le)

text \<open>The lifecycle sets a filter selects, and the part of them that is read.\<close>

definition selected :: "KeyBuilder \<Rightarrow> ref_db \<Rightarrow> JobFilter \<Rightarrow> (QueueName \<times> JobState) list" where
  "selected kb m f =
     List.product (if f_Queue f \<noteq> '''' then [f_Queue f] else valid_queues (registry kb m)) (resolveStates (f_State f))"

definition set_size :: "KeyBuilder \<Rightarrow> ref_db \<Rightarrow> QueueName \<times> JobState \<Rightarrow> int" where
  "set_size kb m s = int (length (members kb m (fst s) (snd s)))"

definition read_ids :: "KeyBuilder \<Rightarrow> ref_db \<Rightarrow> int \<Rightarrow> (QueueName \<times> JobState) list \<Rightarrow> JobID list" where
  "read_ids kb m n sets = concat (map (\<lambda>(q, st). valid_ids (take (nat n) (map snd (members kb m q st)))) sets)"

definition read_jobs :: "KeyBuilder \<Rightarrow> ref_db \<Rightarrow> decode_texts \<Rightarrow> JobID list \<Rightarrow> Job list" where
  "read_jobs kb m txt ids = readable txt (map (\<lambda>i. case document kb m i of None \<Rightarrow> [] | Some h \<Rightarrow> h) ids)"

lemma StateSet_nonempty: "StateSet kb q st \<noteq> ''''"
  by (simp add: key_render render_body)

lemma ref_collect:
  assumes "typed kb (c_redis c)" "c_net c = []" "\<And>q st. (q, st) \<in> set sets \<Longrightarrow> queueNamePattern q" "0 < n"
    "0 \<le> tot" "tot + sum_list (map (set_size kb (c_redis c)) sets) < 2 ^ 63"
  shows "RJ_collect (RefN tn) kb (n - 1) sets tot ids c =
    (c, Inr (tot + sum_list (map (set_size kb (c_redis c)) sets), ids @ read_ids kb (c_redis c) n sets))"
  using assms(3,5,6)
proof (induction sets arbitrary: tot ids)
  case (Cons s sets)
  obtain q st where s: "s = (q, st)" by (cases s)
  let ?m = "c_redis c"
  have q: "queueNamePattern q" using Cons.prems(1) s by auto
  have z: "zset_at ?m (StateSet kb q st) = Some (members kb ?m q st)"
    using typed_at(1) [OF assms(1) q] by (simp add: key_render)
  have size: "0 \<le> set_size kb ?m x" for x by (simp add: set_size_def)
  have sizes: "0 \<le> sum_list (map (set_size kb ?m) sets)" by (intro sum_list_nonneg) (auto simp: size)
  have w: "wrap64 (tot + int (length (members kb ?m q st))) = tot + set_size kb ?m s"
  proof -
    have "tot + set_size kb ?m s < 2 ^ 63" "0 \<le> tot + set_size kb ?m s"
      using Cons.prems(2,3) sizes size [of s] by auto
    then show ?thesis by (simp add: set_size_def s)
  qed
  have IH: "RJ_collect (RefN tn) kb (n - 1) sets (tot + set_size kb ?m s) ids' c =
    (c, Inr (tot + set_size kb ?m s + sum_list (map (set_size kb ?m) sets), ids' @ read_ids kb ?m n sets))" for ids'
    using Cons.prems size [of s] by (intro Cons.IH) auto
  have c: "c\<lparr>c_redis := ?m\<rparr> = c" by simp
  have sz: "set_size kb ?m (q, st) = int (length (members kb ?m q st))" by (simp add: set_size_def)
  show ?case
    using IH w assms(2,4) unfolding s
    by (simp add: StateSet_nonempty andThenS_def orInternal_def send_def ref_ZCARD_def ref_ZRANGE_def on_def z c
        read_ids_def sz)
qed (simp add: read_ids_def)

lemma gather_reads: "(\<And>x. x \<in> set xs \<Longrightarrow> F x m = (m, Inr (g x))) \<Longrightarrow> gather (map F xs) m = (m, Inr (map g xs))"
  by (induction xs) auto

lemma ref_load:
  assumes "typed kb (c_redis c)" "c_net c = []"
  shows "RJ_loadMany (RefN tn) kb txt ids c = (c, Inr (read_jobs kb (c_redis c) txt ids))"
proof -
  have "gather (map (\<lambda>i. ref_HGETALL (Job_key kb i)) ids) (c_redis c) =
    (c_redis c, Inr (map (\<lambda>i. case document kb (c_redis c) i of None \<Rightarrow> [] | Some h \<Rightarrow> h) ids))"
    using typed_at(4) [OF assms(1)] by (intro gather_reads) (simp add: ref_HGETALL_def key_render)
  moreover have "read_jobs kb (c_redis c) txt [] = []" by (simp add: read_jobs_def readable_def map_filter_simps)
  ultimately show ?thesis using assms(2)
    by (simp add: RJ_loadMany_def andThenS_def orInternal_def send_def read_jobs_def)
qed

definition of_type :: "JobFilter \<Rightarrow> Job list \<Rightarrow> Job list" where
  "of_type f jobs = (if f_TaskType f \<noteq> '''' then filter (\<lambda>job. j_taskType job = f_TaskType f) jobs else jobs)"

lemma page_bounds: "0 < page_limit f" "page_limit f \<le> 500" "0 \<le> page_offset f"
  by (auto simp: page_limit_def page_offset_def defaultPageSize_def maxPageSize_def Let_def)

definition listed :: "KeyBuilder \<Rightarrow> ref_db \<Rightarrow> decode_texts \<Rightarrow> JobFilter \<Rightarrow> (QueueName \<times> JobState) list \<Rightarrow> Job list" where
  "listed kb m txt f sets =
     sort_key created_rank (of_type f (read_jobs kb m txt (read_ids kb m (page_offset f + page_limit f) sets)))"

definition page_of :: "KeyBuilder \<Rightarrow> ref_db \<Rightarrow> decode_texts \<Rightarrow> JobFilter \<Rightarrow> (QueueName \<times> JobState) list \<Rightarrow> JobPage" where
  "page_of kb m txt f sets =
     \<lparr>pg_Jobs = take (nat (page_limit f)) (drop (nat (page_offset f)) (listed kb m txt f sets)),
      pg_Total = (if f_TaskType f \<noteq> '''' then int (length (listed kb m txt f sets))
                  else sum_list (map (set_size kb m) sets))\<rparr>"

lemma page_slice:
  fixes xs :: "Job list"
  assumes "0 \<le> off" "0 < limit"
  shows "(if off \<ge> int (length xs) then \<lparr>pg_Jobs = [], pg_Total = t\<rparr>
      else \<lparr>pg_Jobs = take (nat ((if off + limit > int (length xs) then int (length xs) else off + limit) - off))
             (drop (nat off) xs), pg_Total = t\<rparr>) =
    \<lparr>pg_Jobs = take (nat limit) (drop (nat off) xs), pg_Total = t\<rparr>"
proof -
  have "drop (nat off) xs = []" if "off \<ge> int (length xs)" using that by simp
  moreover have "take (nat (int (length xs) - off)) (drop (nat off) xs) = take (nat limit) (drop (nat off) xs)"
    if "off < int (length xs)" "off + limit > int (length xs)"
  proof -
    have "length (drop (nat off) xs) \<le> nat (int (length xs) - off)" "length (drop (nat off) xs) \<le> nat limit"
      using that assms by auto
    then show ?thesis by simp
  qed
  ultimately show ?thesis by simp
qed

lemma ref_page:
  assumes "typed kb (c_redis c)" "c_net c = []" "\<And>q. q \<in> set queues \<Longrightarrow> queueNamePattern q" "page_offset f \<le> 2 ^ 40"
  defines "sets \<equiv> List.product queues (resolveStates (f_State f))"
  assumes "sum_list (map (set_size kb (c_redis c)) sets) < 2 ^ 63"
  shows "RJ_page (RefN tn) kb txt f (page_limit f) (page_offset f) queues c = (c, Inr (page_of kb (c_redis c) txt f sets))"
proof -
  let ?l = "page_limit f" and ?o = "page_offset f"
  have w: "wrap64 (?l + ?o) = ?l + ?o" "wrap64 (?o + ?l) = ?o + ?l" "wrap64 (?o + ?l - 1) = ?o + ?l - 1"
    using page_bounds [of f] assms(4) by simp_all
  have ok: "make_strings_ok (?l + ?o)" using page_bounds [of f] assms(4) by (simp add: make_strings_ok_def)
  have v: "queueNamePattern q" if "(q, st) \<in> set sets" for q st using that assms(3) by (auto simp: sets_def)
  have C: "RJ_collect (RefN tn) kb (?o + ?l - 1) sets 0 [] c =
      (c, Inr (sum_list (map (set_size kb (c_redis c)) sets), read_ids kb (c_redis c) (?o + ?l) sets))"
    using ref_collect [OF assms(1,2) v, where n = "?o + ?l" and tot = 0 and ids = "[]"] assms(6) page_bounds [of f] by simp
  show ?thesis
    using C ok ref_load [OF assms(1,2)] page_slice [OF page_bounds(3) [of f] page_bounds(1) [of f]]
    unfolding RJ_page_def w sets_def [symmetric]
    by (simp add: andThenS_def Let_def of_type_def page_of_def listed_def sortJobs_rank)
qed

context redis_server
begin

lemma sim_resolve: "sim (conn_rel L) same_members (RJ_resolveQueues R kb q) (RJ_resolveQueues reference kb q)"
  unfolding RJ_resolveQueues_def
proof (intro sim_if)
  show "sim (conn_rel L) same_members (returnS [q]) (returnS [q])"
    by (rule sim_returnS) (simp add: same_members_def)
  show "sim (conn_rel L) same_members
      (andThenS (orInternal a b (send (r_SMEMBERS R (QueueRegistry kb)))) (\<lambda>names. returnS (valid_queues names)))
      (andThenS (orInternal a b (send (r_SMEMBERS reference (QueueRegistry kb)))) (\<lambda>names. returnS (valid_queues names)))"
    for a b
  proof (rule sim_andThenS)
    show "sim (conn_rel L) same_members (orInternal a b (send (r_SMEMBERS R (QueueRegistry kb))))
      (orInternal a b (send (r_SMEMBERS reference (QueueRegistry kb))))"
      unfolding RefN_simps by (intro sim_orInternal sim_send sim_SMEMBERS)
  next
    fix x y assume "same_members x y"
    then have "same_members (valid_queues x) (valid_queues y)"
      by (simp add: same_members_def valid_queues_def map_filter_def mset_map mset_filter)
    then show "sim (conn_rel L) same_members (returnS (valid_queues x)) (returnS (valid_queues y))" by (rule sim_returnS)
  qed
qed

lemma sim_page:
  "sim (conn_rel L) (=) (RJ_page R kb txt f limit off qs) (RJ_page reference kb txt f limit off qs)"
  unfolding RJ_page_def Let_def case_prod_beta
  by (intro sim_call sim_collect sim_load)

end

lemma valid_queues_pattern: "q \<in> set (valid_queues names) \<Longrightarrow> queueNamePattern q"
  by (auto simp: valid_queues_def set_map_filter kept_value dest: NewQueueName_pattern)

lemma mset_product: "mset xs = mset ys \<Longrightarrow> mset (List.product xs zs) = mset (List.product ys zs)"
proof -
  have "mset (List.product xs zs) = (\<Sum>x\<in>#mset xs. image_mset (Pair x) (mset zs))" for xs :: "'a list"
    by (induction xs) simp_all
  then show "mset xs = mset ys \<Longrightarrow> mset (List.product xs zs) = mset (List.product ys zs)" by simp
qed

lemma ref_resolve:
  assumes "typed kb (c_redis c)" "c_net c = []"
  shows "RJ_resolveQueues (RefN tn) kb q c =
    (c, Inr (if q \<noteq> '''' then [q] else valid_queues (registry kb (c_redis c))))"
  using assms typed_at(3) [OF assms(1)]
  by (simp add: RJ_resolveQueues_def andThenS_def orInternal_def send_def ref_SMEMBERS_def key_render)

text \<open>The listing on any server is the page of the selected sets, taken in some order.\<close>

lemma redis_List:
  assumes "redis_server R L" "L (c_redis c) m" "c_net c = []" "typed kb m"
    "f_Queue f = '''' \<or> queueNamePattern (f_Queue f)" "f_Offset f \<le> 2 ^ 40"
    "sum_list (map (set_size kb m) (selected kb m f)) < 2 ^ 63"
  obtains c' sets where "RJ_List R kb txt f c = (c', Inr (page_of kb m txt f sets))" "L (c_redis c') m"
    "mset sets = mset (selected kb m f)"
proof -
  let ?d = "\<lparr>c_redis = m, c_net = c_net c\<rparr>" and ?sts = "resolveStates (f_State f)"
  let ?qs = "if f_Queue f \<noteq> '''' then [f_Queue f] else valid_queues (registry kb m)"
  have rel: "conn_rel L c ?d" using assms(2) by (simp add: conn_rel_def)
  obtain c1 x where c1: "RJ_resolveQueues R kb (f_Queue f) c = (c1, x)" by fastforce
  have r: "RJ_resolveQueues (RefN (r_tonumber R)) kb (f_Queue f) ?d = (?d, Inr ?qs)"
    using ref_resolve [of kb ?d] assms(3,4) by simp
  obtain qs where qs: "x = Inr qs" "same_members qs ?qs" and r1: "conn_rel L c1 ?d"
    using simD [OF redis_server.sim_resolve [OF assms(1)] rel c1] r by (auto elim!: rel_sum.cases)
  let ?sets = "List.product qs ?sts"
  have sets: "mset ?sets = mset (selected kb m f)"
    unfolding selected_def using qs(2) by (intro mset_product) (simp add: same_members_def)
  have v: "queueNamePattern q" if "q \<in> set qs" for q
  proof -
    have "q \<in> set ?qs" using that mset_eq_setD [of qs ?qs] qs(2) by (simp add: same_members_def)
    then show ?thesis using assms(5) by (auto dest: valid_queues_pattern split: if_splits)
  qed
  have "sum_list (map (set_size kb m) ?sets) = sum_mset (image_mset (set_size kb m) (mset (selected kb m f)))"
    using sets by (metis mset_map sum_mset_sum_list)
  then have "sum_list (map (set_size kb m) ?sets) < 2 ^ 63" using assms(7) by (metis mset_map sum_mset_sum_list)
  moreover have "page_offset f \<le> 2 ^ 40" using assms(6) by (simp add: page_offset_def)
  ultimately have p: "RJ_page (RefN (r_tonumber R)) kb txt f (page_limit f) (page_offset f) qs ?d =
      (?d, Inr (page_of kb m txt f ?sets))"
    using ref_page [of kb ?d qs f] v assms(3,4) by simp
  obtain c2 y where c2: "RJ_page R kb txt f (page_limit f) (page_offset f) qs c1 = (c2, y)" by fastforce
  have "y = Inr (page_of kb m txt f ?sets)" "L (c_redis c2) m"
    using simD [OF redis_server.sim_page [OF assms(1)] r1 c2] p by (auto simp: conn_rel_def elim!: rel_sum.cases)
  moreover have "RJ_List R kb txt f c = (c2, y)" using c1 c2 qs(1) by (simp add: RJ_List_def andThenS_def)
  ultimately show thesis using that sets by blast
qed

text \<open>A job that a filter lists: it is stored under an entry of a selected set, and has the wanted type.\<close>

definition lists_job :: "KeyBuilder \<Rightarrow> ref_db \<Rightarrow> decode_texts \<Rightarrow> JobFilter \<Rightarrow> JobID \<Rightarrow> Job \<Rightarrow> bool" where
  "lists_job kb m txt f i j \<longleftrightarrow>
     (\<exists>h. document kb m i = Some h \<and> h \<noteq> [] \<and> toAggregate txt h = Inr j) \<and>
     (f_TaskType f \<noteq> '''' \<longrightarrow> j_taskType j = f_TaskType f)"

lemma read_jobs_set:
  "j \<in> set (read_jobs kb m txt ids) \<longleftrightarrow> (\<exists>i h. i \<in> set ids \<and> document kb m i = Some h \<and> h \<noteq> [] \<and> toAggregate txt h = Inr j)"
  unfolding read_jobs_def readable_def set_map_filter
  by (auto simp: kept_value split: if_splits option.splits)

lemma listed_set:
  "j \<in> set (listed kb m txt f sets) \<longleftrightarrow>
     (\<exists>i \<in> set (read_ids kb m (page_offset f + page_limit f) sets). lists_job kb m txt f i j)"
  by (auto simp: listed_def of_type_def read_jobs_set lists_job_def)

lemma read_ids_set:
  "i \<in> set (read_ids kb m n sets) \<longleftrightarrow>
     (\<exists>q st x. (q, st) \<in> set sets \<and> x \<in> set (take (nat n) (map snd (members kb m q st))) \<and> NewJobID x = Inr i)"
  by (auto simp: read_ids_def valid_ids_def set_map_filter kept_value)

lemma length_listed:
  "int (length (listed kb m txt f sets)) \<le> sum_list (map (set_size kb m) sets)"
proof -
  have "length (listed kb m txt f sets) \<le> length (read_ids kb m (page_offset f + page_limit f) sets)"
  proof -
    have "length (of_type f js) \<le> length js" for js by (simp add: of_type_def)
    moreover have "length (read_jobs kb m txt ids) \<le> length ids" for ids
      unfolding read_jobs_def readable_def by (rule order_trans [OF length_map_filter]) simp
    ultimately show ?thesis unfolding listed_def length_sort by (meson order_trans)
  qed
  moreover have "int (length (read_ids kb m n sets)) \<le> sum_list (map (set_size kb m) sets)" for n
  proof (induction sets)
    case (Cons s sets)
    obtain q st where s: "s = (q, st)" by (cases s)
    have "length (valid_ids (take (nat n) (map snd (members kb m q st)))) \<le> length (members kb m q st)"
      unfolding valid_ids_def by (rule order_trans [OF length_map_filter]) simp
    then show ?case using Cons.IH unfolding s by (simp add: read_ids_def set_size_def)
  qed (simp add: read_ids_def)
  ultimately show ?thesis by (meson of_nat_mono order_trans)
qed

text \<open>
  The jobs a filter finds under the first \<open>n\<close> entries of a lifecycle set, those with the lowest scores, and how the
  listing puts them together.
\<close>

definition found :: "KeyBuilder \<Rightarrow> ref_db \<Rightarrow> decode_texts \<Rightarrow> JobFilter \<Rightarrow> int \<Rightarrow> QueueName \<times> JobState \<Rightarrow> Job list" where
  "found kb m txt f n s = of_type f (read_jobs kb m txt (valid_ids (take (nat n) (map snd (members kb m (fst s) (snd s))))))"

lemma read_jobs_append: "read_jobs kb m txt (xs @ ys) = read_jobs kb m txt xs @ read_jobs kb m txt ys"
  by (simp add: read_jobs_def readable_def map_filter_def)

lemma found_concat: "of_type f (read_jobs kb m txt (read_ids kb m n sets)) = concat (map (found kb m txt f n) sets)"
proof (induction sets)
  case Nil
  then show ?case by (simp add: read_ids_def read_jobs_def readable_def map_filter_def of_type_def)
next
  case (Cons s sets)
  have "of_type f (xs @ ys) = of_type f xs @ of_type f ys" for xs ys by (simp add: of_type_def)
  then show ?case using Cons by (cases s) (simp add: read_ids_def read_jobs_append found_def)
qed

lemma mset_listed:
  assumes "mset sets = mset sets'"
  shows "mset (listed kb m txt f sets) = mset (concat (map (found kb m txt f (page_offset f + page_limit f)) sets'))"
proof -
  have "mset (concat (map g sets)) = mset (concat (map g sets'))" for g :: "_ \<Rightarrow> Job list"
    using assms unfolding mset_concat by (metis mset_map sum_mset_sum_list)
  then show ?thesis by (simp add: listed_def found_concat)
qed

lemma sort_key_descending:
  fixes g :: "'a \<Rightarrow> 'b :: linorder"
  assumes "sorted_wrt (\<lambda>a b. g b < g a) xs"
  shows "sort_key g xs = rev xs"
proof (rule sort_key_inj_key_eq)
  show "inj_on g (set xs)" using assms
  proof (induction xs)
    case (Cons x xs)
    then show ?case unfolding list.set(2) inj_on_insert by fastforce
  qed simp
  have "sorted_wrt (\<lambda>a b. g b \<le> g a) xs" using assms by (rule sorted_wrt_mono_rel [rotated]) simp
  then show "sorted (map g (rev xs))" by (simp only: sorted_wrt_map sorted_wrt_rev)
qed simp

lemma found_set:
  "j \<in> set (found kb m txt f n s) \<longleftrightarrow>
     (\<exists>x i. x \<in> set (take (nat n) (map snd (members kb m (fst s) (snd s)))) \<and> NewJobID x = Inr i \<and> lists_job kb m txt f i j)"
  by (auto simp: found_def of_type_def read_jobs_set lists_job_def valid_ids_def set_map_filter kept_value)

text \<open>
  C32. The listing on Redis, for a filter on no queue or on a valid one and over a working connection. The page is the slice
  at the offset, of at most the limit and never more than 500 jobs, of a list that is sorted newest first; and that
  list has exactly the stored jobs with the type the filter asks for under the first offset plus limit entries of each
  selected lifecycle set, the entries with the lowest scores. When no selected set is larger than that, these are all the jobs
  that match, so that the pages make up the whole newest-first list; when one is larger, its further entries are
  not looked at, however new their jobs are: of one selected set in the order of creation that has that many
  jobs, every page shows the same oldest ones. The total is the size of the selected sets when the filter is on no type, and
  otherwise the length of the list.
\<close>

theorem redis_list_page:
  assumes "redis_server R L" and "L (c_redis c) m" and "c_net c = []" and "typed kb m"
    and "f_Queue f = '''' \<or> queueNamePattern (f_Queue f)" and "f_Offset f \<le> 2 ^ 40"
    and "sum_list (map (set_size kb m) (selected kb m f)) < 2 ^ 63"
  shows "\<exists>c' page js. RJ_List R kb txt f c = (c', Inr page) \<and> L (c_redis c') m \<and>
    pg_Jobs page = take (nat (page_limit f)) (drop (nat (page_offset f)) js) \<and> page_limit f \<le> 500 \<and>
    sorted (map created_rank js) \<and>
    mset js = mset (concat (map (found kb m txt f (page_offset f + page_limit f)) (selected kb m f))) \<and>
    pg_Total page = (if f_TaskType f = '''' then sum_list (map (set_size kb m) (selected kb m f)) else int (length js)) \<and>
    (\<forall>j \<in> set (pg_Jobs page). \<exists>q st x i. (q, st) \<in> set (selected kb m f) \<and>
       x \<in> set (take (nat (page_offset f + page_limit f)) (map snd (members kb m q st))) \<and>
       NewJobID x = Inr i \<and> lists_job kb m txt f i j) \<and>
    ((\<forall>s \<in> set (selected kb m f). set_size kb m s \<le> page_offset f + page_limit f) \<longrightarrow>
       (\<forall>q st t x i j. (q, st) \<in> set (selected kb m f) \<longrightarrow> (t, x) \<in> set (members kb m q st) \<longrightarrow>
          NewJobID x = Inr i \<longrightarrow> lists_job kb m txt f i j \<longrightarrow> j \<in> set js)) \<and>
    (\<forall>s old. selected kb m f = [s] \<longrightarrow> old = found kb m txt f (page_offset f + page_limit f) s \<longrightarrow>
       length old = nat (page_offset f + page_limit f) \<longrightarrow> sorted_wrt (\<lambda>a b. created_rank b < created_rank a) old \<longrightarrow>
       pg_Jobs page = rev (take (nat (page_limit f)) old))"
proof -
  obtain c' sets where l: "RJ_List R kb txt f c = (c', Inr (page_of kb m txt f sets))" "L (c_redis c') m"
    "mset sets = mset (selected kb m f)"
    using redis_List [OF assms] by blast
  let ?page = "page_of kb m txt f sets" and ?jobs = "listed kb m txt f sets" and ?n = "page_offset f + page_limit f"
  have T: "sum_list (map (set_size kb m) sets) = sum_list (map (set_size kb m) (selected kb m f))"
    using l(3) by (metis mset_map sum_mset_sum_list)
  note M = mset_listed [OF l(3), of kb m "txt" f]
  have J: "j \<in> set ?jobs \<longleftrightarrow> (\<exists>s \<in> set (selected kb m f). j \<in> set (found kb m txt f ?n s))" for j
    using mset_eq_setD [OF M] by auto
  have on: "\<exists>q st x i. (q, st) \<in> set (selected kb m f) \<and> x \<in> set (take (nat ?n) (map snd (members kb m q st))) \<and>
      NewJobID x = Inr i \<and> lists_job kb m txt f i j" if j: "j \<in> set (pg_Jobs ?page)" for j
  proof -
    have "j \<in> set ?jobs" using j by (auto simp: page_of_def dest: in_set_takeD in_set_dropD)
    then show ?thesis unfolding J found_set by fastforce
  qed
  have all: "j \<in> set ?jobs"
    if fits: "\<forall>s \<in> set (selected kb m f). set_size kb m s \<le> ?n"
      and s: "(q, st) \<in> set (selected kb m f)" "(t, x) \<in> set (members kb m q st)" "NewJobID x = Inr i"
        "lists_job kb m txt f i j" for q st t x i j
  proof -
    have "set_size kb m (q, st) \<le> ?n" using fits s(1) by blast
    then have "take (nat ?n) (map snd (members kb m q st)) = map snd (members kb m q st)" by (simp add: set_size_def)
    then have "x \<in> set (take (nat ?n) (map snd (members kb m q st)))" using s(2) by force
    then have "j \<in> set (found kb m txt f ?n (q, st))" unfolding found_set using s(3,4) by auto
    then show ?thesis unfolding J using s(1) by blast
  qed
  have oldest: "pg_Jobs ?page = rev (take (nat (page_limit f)) (found kb m txt f ?n s))"
    if o: "selected kb m f = [s]" "length (found kb m txt f ?n s) = nat ?n"
      "sorted_wrt (\<lambda>a b. created_rank b < created_rank a) (found kb m txt f ?n s)" for s
  proof -
    have "sets = [s]" using l(3) o(1) by simp
    then have "?jobs = rev (found kb m txt f ?n s)"
      using sort_key_descending [OF o(3)] by (simp add: listed_def found_concat)
    then show ?thesis using o(2) page_bounds [of f] by (simp add: page_of_def drop_rev nat_add_distrib)
  qed
  have "sorted (map created_rank ?jobs)" by (simp add: listed_def)
  moreover have "pg_Jobs ?page = take (nat (page_limit f)) (drop (nat (page_offset f)) ?jobs)"
    "pg_Total ?page = (if f_TaskType f = '''' then sum_list (map (set_size kb m) (selected kb m f)) else int (length ?jobs))"
    using T by (simp_all add: page_of_def)
  ultimately show ?thesis
    using l(1,2) M on all oldest page_bounds(2) [of f] by (intro exI [of _ c'] exI [of _ ?page] exI [of _ ?jobs]) blast
qed

theorem redis_list_page_witness:
  "\<exists>c' page. RJ_List Ref sample_kb sample_texts
      \<lparr>f_Queue = ''default'', f_State = Some StatePending, f_TaskType = '''', f_Offset = 0, f_Limit = 10\<rparr>
      \<lparr>c_redis = waiting_db, c_net = []\<rparr> = (c', Inr page) \<and>
    pg_Total page = 1 \<and> stored waiting_job \<in> set (pg_Jobs page)"
proof -
  let ?f = "\<lparr>f_Queue = ''default'', f_State = Some StatePending, f_TaskType = '''', f_Offset = 0, f_Limit = 10\<rparr>"
  have sel: "selected sample_kb waiting_db ?f = [(''default'', StatePending)]"
    by (simp add: selected_def resolveStates_def)
  have size: "set_size sample_kb waiting_db (''default'', StatePending) = 1" by (simp add: set_size_def waiting_db_ok)
  have "document sample_kb waiting_db ''j1'' = Some (job_pairs waiting_job)"
    using insert_job_views(3) [OF typed_empty default_queue] by (simp add: waiting_db_def waiting_job_ok)
  then have l: "lists_job sample_kb waiting_db sample_texts ?f ''j1'' (stored waiting_job)"
    using toAggregate_job_pairs [OF waiting_job_ok(1)] by (simp add: lists_job_def)
  have "NewJobID ''j1'' = Inr ''j1''" using waiting_job_ok by (simp add: storable_def)
  moreover have p: "page_limit ?f = 10" "page_offset ?f = 0" by (simp_all add: page_limit_def page_offset_def maxPageSize_def)
  moreover have "ref_rel (c_redis \<lparr>c_redis = waiting_db, c_net = []\<rparr>) waiting_db" "typed sample_kb waiting_db"
    using waiting_db_ok(1) by (simp_all add: claimable_def)
  moreover have "length js = 1" if "mset js = mset (concat (map (found sample_kb waiting_db sample_texts ?f 10) [(''default'', StatePending)]))"
      "stored waiting_job \<in> set js" for js
  proof -
    have "length js = length (found sample_kb waiting_db sample_texts ?f 10 (''default'', StatePending))"
      using mset_eq_length [OF that(1)] by simp
    also have "\<dots> \<le> 1"
      using waiting_db_ok(3) by (simp add: found_def of_type_def read_jobs_def readable_def map_filter_def valid_ids_def)
    finally show ?thesis using that(2) by (cases js) auto
  qed
  ultimately show ?thesis
    using redis_list_page [OF ref.redis_server_axioms, of "\<lparr>c_redis = waiting_db, c_net = []\<rparr>" waiting_db sample_kb ?f sample_texts]
      waiting_db_ok default_queue l by (auto simp: sel size)
qed

text \<open>
  C33. An offset the address space cannot hold. A listing whose offset is at least \<open>2 ^ 45\<close> panics while it
  allocates the buffer for its identifiers, on every server that answers the request for the queues.\<close>

theorem redis_list_offset_panics:
  assumes "RJ_resolveQueues R kb (f_Queue f) c = (c', Inr queues)" and "2 ^ 45 \<le> f_Offset f" and "f_Offset f < 2 ^ 63"
  shows "RJ_List R kb txt f c = (c', Inl (go_panic ''makeslice: cap out of range''))"
proof -
  have b: "0 < page_limit f" "page_limit f \<le> 500" "page_offset f = f_Offset f"
    using page_bounds [of f] assms(2) by (auto simp: page_offset_def)
  have "\<not> make_strings_ok (wrap64 (page_limit f + page_offset f))"
  proof (cases "page_limit f + page_offset f < 2 ^ 63")
    case True
    then have "wrap64 (page_limit f + page_offset f) = page_limit f + page_offset f" using b assms(2) by simp
    then show ?thesis using b assms(2) by (simp add: make_strings_ok_def)
  next
    case False
    define y where "y = page_limit f + page_offset f - 2 ^ 64"
    have "(y + 2 ^ 63 + 2 ^ 64) mod 2 ^ 64 = (y + 2 ^ 63) mod 2 ^ 64" by (rule mod_add_self2)
    then have "wrap64 (page_limit f + page_offset f) = wrap64 y" by (simp add: wrap64_def y_def add.commute)
    also have "\<dots> = y" using False b assms(3) unfolding y_def by (intro wrap64_id) auto
    finally have "wrap64 (page_limit f + page_offset f) = page_limit f + page_offset f - 2 ^ 64" unfolding y_def .
    then show ?thesis using b assms(3) by (simp add: make_strings_ok_def)
  qed
  then show ?thesis using assms(1) by (simp add: RJ_List_def RJ_page_def andThenS_def)
qed

theorem redis_list_offset_panics_witness:
  "RJ_List Ref sample_kb sample_texts
      \<lparr>f_Queue = ''default'', f_State = None, f_TaskType = '''', f_Offset = 2 ^ 62, f_Limit = 10\<rparr>
      \<lparr>c_redis = waiting_db, c_net = []\<rparr> =
    (\<lparr>c_redis = waiting_db, c_net = []\<rparr>, Inl (go_panic ''makeslice: cap out of range''))"
  by (rule redis_list_offset_panics [where queues = "[''default'']"]) (simp_all add: RJ_resolveQueues_def)

end
