(* ===== verification/Redis_Queues.thy ===== *)
theory Redis_Queues
  imports Redis_Repo
begin

text \<open>
  The queue repository and the idempotency store on Redis
  (\<open>src/pkg/infrastructure/persistence/redis/queue_repo.go\<close> and \<open>idempotency_store.go\<close>): registration, the
  pause flag, statistics, and the claim of a deduplication key with \<open>SET NX\<close>.
\<close>

section \<open>Operations of the queue repository\<close>

definition metaFieldWeight :: string where "metaFieldWeight = ''weight''"

definition metaFieldPaused :: string where "metaFieldPaused = ''paused''"

definition boolToFlag :: "bool \<Rightarrow> string" where
  "boolToFlag v = (if v then ''1'' else ''0'')"

definition RQ_Register :: "'r redis \<Rightarrow> KeyBuilder \<Rightarrow> Queue \<Rightarrow> ('r conn, unit) call" where
  "RQ_Register R kb queue =
     orInternal ''queue_register_failed'' ''failed to register queue''
       (send (pipeline
          [r_SADD R (QueueRegistry kb) (q_name queue),
           r_HSET R (QueueMeta kb (q_name queue)) [(metaFieldWeight, FormatInt (int (unat (q_weight queue))))],
           r_HSETNX R (QueueMeta kb (q_name queue)) metaFieldPaused (boolToFlag (q_paused queue))]))"

definition read_weight :: "hash \<Rightarrow> Weight" where
  "read_weight h =
     (case NewWeight (word_of_nat (parseUint (field h metaFieldWeight) (unat DefaultWeight))) of
        Inl _ \<Rightarrow> DefaultWeight
      | Inr weight \<Rightarrow> weight)"

definition RQ_loadMeta :: "'r redis \<Rightarrow> KeyBuilder \<Rightarrow> QueueName \<Rightarrow> ('r conn, Queue) call" where
  "RQ_loadMeta R kb name =
     andThenS (orInternal ''queue_read_failed'' ''failed to read queue metadata''
         (send (r_HGETALL R (QueueMeta kb name)))) (\<lambda>h.
       returnS (Queue_Reconstitute name (read_weight h) (field h metaFieldPaused = ''1'')))"

definition RQ_FindByName :: "'r redis \<Rightarrow> KeyBuilder \<Rightarrow> QueueName \<Rightarrow> ('r conn, Queue) call" where
  "RQ_FindByName R kb name =
     andThenS (orInternal ''queue_read_failed'' ''failed to read queue''
         (send (r_SISMEMBER R (QueueRegistry kb) name))) (\<lambda>exists.
       if \<not> exists then failS (NotFound EQueueNotFound (''no queue named '' @ name))
       else RQ_loadMeta R kb name)"

text \<open>The loop of \<open>ListAll\<close> skips a name that is no queue name, and ends at the first failure.\<close>

fun RQ_load_all :: "'r redis \<Rightarrow> KeyBuilder \<Rightarrow> string list \<Rightarrow> ('r conn, Queue list) call" where
  "RQ_load_all R kb [] = returnS []"
| "RQ_load_all R kb (raw # names) =
     (case NewQueueName raw of
        Inl _ \<Rightarrow> RQ_load_all R kb names
      | Inr name \<Rightarrow>
          andThenS (RQ_loadMeta R kb name) (\<lambda>queue.
          andThenS (RQ_load_all R kb names) (\<lambda>queues. returnS (queue # queues))))"

definition RQ_ListAll :: "'r redis \<Rightarrow> KeyBuilder \<Rightarrow> ('r conn, Queue list) call" where
  "RQ_ListAll R kb =
     andThenS (orInternal ''queue_list_failed'' ''failed to list queues''
         (send (r_SMEMBERS R (QueueRegistry kb)))) (RQ_load_all R kb)"

definition RQ_SetPaused :: "'r redis \<Rightarrow> KeyBuilder \<Rightarrow> QueueName \<Rightarrow> bool \<Rightarrow> ('r conn, unit) call" where
  "RQ_SetPaused R kb name p =
     orInternal ''queue_pause_failed'' ''failed to update queue pause state''
       (send (r_HSET R (QueueMeta kb name) [(metaFieldPaused, boolToFlag p)]))"

definition RQ_statsFor :: "'r redis \<Rightarrow> KeyBuilder \<Rightarrow> Queue \<Rightarrow> ('r conn, Stats) call" where
  "RQ_statsFor R kb queue =
     (let name = q_name queue
      in andThenS (orInternal ''queue_stats_failed'' ''failed to read queue stats''
           (send (gather (map (r_ZCARD R)
              [Pending_key kb name, Active_key kb name, Scheduled_key kb name, Retrying_key kb name,
               Completed_key kb name, Dead_key kb name])))) (\<lambda>counts.
         returnS \<lparr>s_Queue = name, s_Paused = q_paused queue, s_Weight = q_weight queue,
           s_Pending = counts ! 0, s_Active = counts ! 1, s_Scheduled = counts ! 2, s_Retrying = counts ! 3,
           s_Completed = counts ! 4, s_Dead = counts ! 5\<rparr>))"

definition RQ_Stats :: "'r redis \<Rightarrow> KeyBuilder \<Rightarrow> QueueName \<Rightarrow> ('r conn, Stats) call" where
  "RQ_Stats R kb name = andThenS (RQ_loadMeta R kb name) (RQ_statsFor R kb)"

fun RQ_stats_all :: "'r redis \<Rightarrow> KeyBuilder \<Rightarrow> Queue list \<Rightarrow> ('r conn, Stats list) call" where
  "RQ_stats_all R kb [] = returnS []"
| "RQ_stats_all R kb (queue # queues) =
     andThenS (RQ_statsFor R kb queue) (\<lambda>s.
     andThenS (RQ_stats_all R kb queues) (\<lambda>stats. returnS (s # stats)))"

definition RQ_StatsAll :: "'r redis \<Rightarrow> KeyBuilder \<Rightarrow> ('r conn, Stats list) call" where
  "RQ_StatsAll R kb =
     andThenS (RQ_ListAll R kb) (\<lambda>queues.
     andThenS (RQ_stats_all R kb queues) (\<lambda>stats. returnS (SortStatsByName stats)))"

definition redisQueueRepo :: "'r redis \<Rightarrow> KeyBuilder \<Rightarrow> 'r conn IQueueRepo" where
  "redisQueueRepo R kb =
     \<lparr>queues_Register = RQ_Register R kb, queues_FindByName = RQ_FindByName R kb, queues_ListAll = RQ_ListAll R kb,
      queues_SetPaused = RQ_SetPaused R kb, queues_Stats = RQ_Stats R kb, queues_StatsAll = RQ_StatsAll R kb\<rparr>"

section \<open>Operations of the idempotency store\<close>

definition RI_Claim ::
  "'r redis \<Rightarrow> KeyBuilder \<Rightarrow> IdempotencyKey \<Rightarrow> JobID \<Rightarrow> duration \<Rightarrow> ('r conn, bool \<times> JobID) call" where
  "RI_Claim R kb key jobID ttl =
     (if IsZero key then returnS (True, '''')
      else
        andThenS (orInternal ''idempotency_claim_failed'' ''failed to claim idempotency key''
            (send (r_SETNX R (Idempotency kb key) jobID ttl))) (\<lambda>claimed.
          if claimed then returnS (True, '''')
          else
            andThenS (orInternal ''idempotency_read_failed'' ''failed to read idempotency claim''
                (send (r_GET R (Idempotency kb key)))) (\<lambda>existing.
              case existing of
                None \<Rightarrow> returnS (False, '''')
              | Some raw \<Rightarrow>
                  (case NewJobID raw of
                     Inl _ \<Rightarrow> returnS (False, '''')
                   | Inr existingID \<Rightarrow> returnS (False, existingID)))))"

definition RI_Release :: "'r redis \<Rightarrow> KeyBuilder \<Rightarrow> IdempotencyKey \<Rightarrow> ('r conn, unit) call" where
  "RI_Release R kb key =
     (if IsZero key then returnS ()
      else orInternal ''idempotency_release_failed'' ''failed to release idempotency key''
             (send (r_DEL R (Idempotency kb key))))"

definition redisIdempotency :: "'r redis \<Rightarrow> KeyBuilder \<Rightarrow> 'r conn IIdempotencyStore" where
  "redisIdempotency R kb = \<lparr>idem_Claim = RI_Claim R kb, idem_Release = RI_Release R kb\<rparr>"

section \<open>Refinement\<close>

lemma same_hash_field: "same_hash a b \<Longrightarrow> field a = field b"
  unfolding same_hash_def by (blast intro: field_cong)

context redis_server
begin

lemma sim_register: "sim (conn_rel L) (=) (RQ_Register R kb q) (RQ_Register reference kb q)"
  unfolding RQ_Register_def RefN_simps
  by (intro sim_orInternal sim_send sim_pipeline) (simp add: sim_SADD sim_HSET sim_HSETNX)

lemma sim_set_paused: "sim (conn_rel L) (=) (RQ_SetPaused R kb q p) (RQ_SetPaused reference kb q p)"
  unfolding RQ_SetPaused_def RefN_simps by (intro sim_call sim_HSET)

lemma sim_load_meta: "sim (conn_rel L) (=) (RQ_loadMeta R kb q) (RQ_loadMeta reference kb q)"
  unfolding RQ_loadMeta_def
proof (rule sim_andThenS)
  show "sim (conn_rel L) same_hash (orInternal a b (send (r_HGETALL R (QueueMeta kb q))))
      (orInternal a b (send (r_HGETALL reference (QueueMeta kb q))))" for a b
    unfolding RefN_simps by (intro sim_orInternal sim_send sim_HGETALL)
qed (simp add: same_hash_field read_weight_def sim_returnS_eq)

lemma sim_find_queue: "sim (conn_rel L) (=) (RQ_FindByName R kb q) (RQ_FindByName reference kb q)"
  unfolding RQ_FindByName_def RefN_simps by (intro sim_call sim_SISMEMBER sim_load_meta)

lemma sim_stats_for: "sim (conn_rel L) (=) (RQ_statsFor R kb q) (RQ_statsFor reference kb q)"
  unfolding RQ_statsFor_def Let_def RefN_simps
proof (rule sim_andThenS_eq)
  show "sim (conn_rel L) (=) (orInternal a b (send (gather (map (r_ZCARD R) ks))))
      (orInternal a b (send (gather (map ref_ZCARD ks))))" for a b ks
    using sim_gather [of L "(=)" "map (r_ZCARD R) ks" "map ref_ZCARD ks"] sim_ZCARD
    by (intro sim_orInternal sim_send) (simp add: list.rel_map list_all2_same list.rel_eq)
qed (rule sim_returnS_eq)

lemma sim_stats: "sim (conn_rel L) (=) (RQ_Stats R kb q) (RQ_Stats reference kb q)"
  unfolding RQ_Stats_def by (intro sim_call sim_load_meta sim_stats_for)

lemma sim_load_queues: "sim (conn_rel L) (=) (RQ_load_all R kb names) (RQ_load_all reference kb names)"
proof (induction names)
  case Nil
  show ?case unfolding RQ_load_all.simps by (rule sim_returnS_eq)
next
  case (Cons raw names)
  then show ?case
    by (cases "NewQueueName raw") (auto intro!: sim_call sim_load_meta)
qed

lemma sim_stats_list: "sim (conn_rel L) (=) (RQ_stats_all R kb qs) (RQ_stats_all reference kb qs)"
proof (induction qs)
  case Nil
  show ?case unfolding RQ_stats_all.simps by (rule sim_returnS_eq)
qed (auto intro!: sim_call sim_stats_for)

lemma sim_claim_key: "sim (conn_rel L) (=) (RI_Claim R kb k i ttl) (RI_Claim reference kb k i ttl)"
  unfolding RI_Claim_def RefN_simps by (intro sim_call sim_SETNX sim_GET) (auto split: option.split sum.split intro: sim_returnS_eq)

lemma sim_release: "sim (conn_rel L) (=) (RI_Release R kb k) (RI_Release reference kb k)"
  unfolding RI_Release_def RefN_simps by (intro sim_call sim_DEL)

end

section \<open>Registration and pause\<close>

definition put_meta :: "KeyBuilder \<Rightarrow> QueueName \<Rightarrow> hash \<Rightarrow> ref_db \<Rightarrow> ref_db" where
  "put_meta kb q h m = put_value (render kb (KMeta q)) (RHash h) m"

lemma put_meta_views [simp]:
  assumes "queueNamePattern q"
  shows "typed kb m \<Longrightarrow> typed kb (put_meta kb q h m)"
    and "queueNamePattern q' \<Longrightarrow> members kb (put_meta kb q h m) q' st = members kb m q' st"
    and "document kb (put_meta kb q h m) i = document kb m i"
    and "queueNamePattern q' \<Longrightarrow> meta kb (put_meta kb q h m) q' = (if q' = q then h else meta kb m q')"
    and "registry kb (put_meta kb q h m) = registry kb m" "holder kb (put_meta kb q h m) k = holder kb m k"
  using assms
  by (auto simp: put_meta_def typed_def members_def document_def meta_def registry_def holder_def at_other_value)

definition enlist :: "KeyBuilder \<Rightarrow> QueueName \<Rightarrow> ref_db \<Rightarrow> ref_db" where
  "enlist kb q m = put_value (render kb KRegistry) (RSet (List.insert q (registry kb m))) m"

lemma enlist_views [simp]:
  "typed kb m \<Longrightarrow> typed kb (enlist kb q m)"
  "queueNamePattern q' \<Longrightarrow> members kb (enlist kb q m) q' st = members kb m q' st"
  "document kb (enlist kb q m) i = document kb m i"
  "queueNamePattern q' \<Longrightarrow> meta kb (enlist kb q m) q' = meta kb m q'"
  "registry kb (enlist kb q m) = List.insert q (registry kb m)" "holder kb (enlist kb q m) k = holder kb m k"
  by (auto simp: enlist_def typed_def members_def document_def meta_def registry_def holder_def at_other_value)

text \<open>The metadata after a registration: the weight is the new one, the flag stays when there is one.\<close>

definition registered_meta :: "Queue \<Rightarrow> hash \<Rightarrow> hash" where
  "registered_meta queue h =
     (let h' = AList.update metaFieldWeight (FormatInt (int (unat (q_weight queue)))) h
      in if map_of h' metaFieldPaused = None then AList.update metaFieldPaused (boolToFlag (q_paused queue)) h' else h')"

definition register :: "KeyBuilder \<Rightarrow> Queue \<Rightarrow> ref_db \<Rightarrow> ref_db" where
  "register kb queue m =
     (let m1 = put_meta kb (q_name queue)
            (AList.update metaFieldWeight (FormatInt (int (unat (q_weight queue)))) (meta kb m (q_name queue)))
            (enlist kb (q_name queue) m)
      in if map_of (meta kb m1 (q_name queue)) metaFieldPaused = None
         then put_meta kb (q_name queue) (registered_meta queue (meta kb m (q_name queue))) m1 else m1)"

lemma register_pipeline:
  assumes "typed kb m" "queueNamePattern (q_name queue)"
  shows "pipeline
      [ref_SADD (QueueRegistry kb) (q_name queue),
       ref_HSET (QueueMeta kb (q_name queue)) [(metaFieldWeight, FormatInt (int (unat (q_weight queue))))],
       ref_HSETNX (QueueMeta kb (q_name queue)) metaFieldPaused (boolToFlag (q_paused queue))] m =
    (register kb queue m, Inr ())"
proof -
  let ?q = "q_name queue" and ?w = "FormatInt (int (unat (q_weight queue)))"
  let ?h = "AList.update metaFieldWeight ?w (meta kb m ?q)"
  let ?m1 = "enlist kb ?q m" and ?m2 = "put_meta kb ?q (AList.update metaFieldWeight ?w (meta kb m ?q)) (enlist kb ?q m)"
  have "ref_SADD (QueueRegistry kb) ?q m = (?m1, Inr ())"
    using typed_at(3) [OF assms(1)] by (simp add: ref_SADD_def key_render enlist_def)
  moreover have "ref_HSET (QueueMeta kb ?q) [(metaFieldWeight, ?w)] ?m1 = (?m2, Inr ())"
    using typed_at(2) [of kb ?m1 ?q] assms by (simp add: ref_HSET_def key_render put_meta_def hset_def)
  moreover have "ref_HSETNX (QueueMeta kb ?q) f v m2 =
      (if map_of h f = None then put_meta kb ?q (AList.update f v h) m2 else m2, Inr ())"
    if "hash_at m2 (QueueMeta kb ?q) = Some h" for f v h m2
    using that by (simp add: ref_HSETNX_def put_meta_def key_render)
  from this [of ?m2 ?h] have "ref_HSETNX (QueueMeta kb ?q) f v ?m2 =
      (if map_of ?h f = None then put_meta kb ?q (AList.update f v ?h) ?m2 else ?m2, Inr ())" for f v
    using typed_at(2) [of kb ?m2 ?q] assms by (simp add: key_render)
  ultimately show ?thesis
    using assms by (simp add: register_def Let_def registered_meta_def)
qed

lemma register_views:
  assumes "typed kb m" "queueNamePattern (q_name queue)"
  shows "typed kb (register kb queue m)"
    and "queueNamePattern q \<Longrightarrow> members kb (register kb queue m) q st = members kb m q st"
    and "document kb (register kb queue m) i = document kb m i"
    and "queueNamePattern q \<Longrightarrow> meta kb (register kb queue m) q =
      (if q = q_name queue then registered_meta queue (meta kb m q) else meta kb m q)"
    and "registry kb (register kb queue m) = List.insert (q_name queue) (registry kb m)"
    and "holder kb (register kb queue m) k = holder kb m k"
  using assms by (auto simp: register_def Let_def registered_meta_def)

lemma registered_meta_fields:
  "map_of (registered_meta queue h) metaFieldWeight = Some (FormatInt (int (unat (q_weight queue))))"
  "map_of (registered_meta queue h) metaFieldPaused =
     Some (case map_of h metaFieldPaused of Some v \<Rightarrow> v | None \<Rightarrow> boolToFlag (q_paused queue))"
  by (auto simp: registered_meta_def Let_def update_conv' metaFieldWeight_def metaFieldPaused_def split: option.split)

text \<open>What a registration may change, whether it was carried out once, several times or not at all.\<close>

definition registers :: "KeyBuilder \<Rightarrow> Queue \<Rightarrow> ref_db \<Rightarrow> ref_db \<Rightarrow> bool" where
  "registers kb queue m m' \<longleftrightarrow>
     typed kb m' \<and> document kb m' = document kb m \<and> holder kb m' = holder kb m \<and>
     (\<forall>q st. queueNamePattern q \<longrightarrow> members kb m' q st = members kb m q st) \<and>
     (\<forall>q. queueNamePattern q \<longrightarrow> q \<noteq> q_name queue \<longrightarrow> meta kb m' q = meta kb m q) \<and>
     (\<forall>v. map_of (meta kb m (q_name queue)) metaFieldPaused = Some v \<longrightarrow>
        map_of (meta kb m' (q_name queue)) metaFieldPaused = Some v) \<and>
     (map_of (meta kb m (q_name queue)) metaFieldPaused = None \<longrightarrow>
        map_of (meta kb m' (q_name queue)) metaFieldPaused \<in> {None, Some (boolToFlag (q_paused queue))}) \<and>
     set (registry kb m) \<subseteq> set (registry kb m') \<and> set (registry kb m') \<subseteq> Set.insert (q_name queue) (set (registry kb m))"

lemma registers_refl: "typed kb m \<Longrightarrow> registers kb queue m m"
  by (auto simp: registers_def)

lemma registers_step:
  assumes "registers kb queue m m1" "queueNamePattern (q_name queue)"
  shows "registers kb queue m (register kb queue m1)"
proof -
  have t: "typed kb m1" using assms(1) by (simp add: registers_def)
  show ?thesis
    using assms unfolding registers_def
    by (auto simp: register_views [OF t assms(2)] registered_meta_fields fun_eq_iff)
qed

lemma read_registered:
  assumes "1 \<le> q_weight queue" "q_weight queue \<le> 100"
  shows "read_weight (registered_meta queue h) = q_weight queue"
proof -
  have "field (registered_meta queue h) metaFieldWeight = FormatUint (unat (q_weight queue))"
    by (simp add: field_def registered_meta_fields FormatUint_Int)
  moreover have "unat (q_weight queue) < 2 ^ 64"
    using unsigned_less [of "q_weight queue", where 'a = nat] by simp
  ultimately have "parseUint (field (registered_meta queue h) metaFieldWeight) n = unat (q_weight queue)" for n
    by (simp add: parseUint_def)
  then show ?thesis using assms
    by (auto simp: read_weight_def NewWeight_def weight_limits not_less)
qed

text \<open>A request that always succeeds and keeps an invariant, over any connection.\<close>

lemma send_keeps:
  assumes "I (c_redis c)" "\<And>m. I m \<Longrightarrow> F m = (g m, Inr (v m)) \<and> I (g m)" "send F c = (c', r)"
  shows "I (c_redis c') \<and> (\<forall>x. r = Inr x \<longrightarrow> (\<exists>m. I m \<and> c_redis c' = g m \<and> x = v m)) \<and>
    (c_net c = [] \<longrightarrow> c' = c\<lparr>c_redis := g (c_redis c)\<rparr> \<and> r = Inr (v (c_redis c)))"
proof -
  have ex: "I (executed n F (c_redis c))" for n
    using assms(1,2) by (induction n) (auto simp: executed_def)
  show ?thesis
    using assms(3) ex assms(1,2)
    by (auto simp: send_def Let_def split: list.splits delivery.splits) blast+
qed

lemma ref_loadMeta:
  assumes "typed kb (c_redis c)" "c_net c = []" "queueNamePattern q"
  shows "RQ_loadMeta (RefN tn) kb q c =
    (c, Inr \<lparr>q_name = q, q_weight = read_weight (meta kb (c_redis c) q), q_paused = paused kb (c_redis c) q\<rparr>)"
  using assms typed_at(2) [OF assms(1,3)]
  by (auto simp: RQ_loadMeta_def andThenS_def orInternal_def send_def ref_HGETALL_def key_render paused_def field_def
      Queue_Reconstitute_def metaFieldPaused_def split: option.split)

lemma ref_FindByName:
  assumes "typed kb (c_redis c)" "c_net c = []" "queueNamePattern q" "q \<in> set (registry kb (c_redis c))"
  shows "RQ_FindByName (RefN tn) kb q c =
    (c, Inr \<lparr>q_name = q, q_weight = read_weight (meta kb (c_redis c) q), q_paused = paused kb (c_redis c) q\<rparr>)"
  using assms typed_at(3) [OF assms(1)] ref_loadMeta [OF assms(1-3)]
  by (simp add: RQ_FindByName_def andThenS_def orInternal_def send_def ref_SISMEMBER_def key_render)

lemma ref_Register:
  assumes "typed kb (c_redis c)" "queueNamePattern (q_name queue)" "RQ_Register (RefN tn) kb queue c = (c', r)"
  shows "registers kb queue (c_redis c) (c_redis c')"
    and "r = Inr () \<Longrightarrow> \<exists>m1. registers kb queue (c_redis c) m1 \<and> c_redis c' = register kb queue m1"
    and "c_net c = [] \<Longrightarrow> r = Inr () \<and> c' = c\<lparr>c_redis := register kb queue (c_redis c)\<rparr>"
proof -
  let ?F = "pipeline
      [ref_SADD (QueueRegistry kb) (q_name queue),
       ref_HSET (QueueMeta kb (q_name queue)) [(metaFieldWeight, FormatInt (int (unat (q_weight queue))))],
       ref_HSETNX (QueueMeta kb (q_name queue)) metaFieldPaused (boolToFlag (q_paused queue))]"
  obtain r0 where s: "send ?F c = (c', r0)" "r = Inr () \<longleftrightarrow> r0 = Inr ()"
    using assms(3) unfolding RQ_Register_def orInternal_def RefN_simps
    by (cases "send ?F c") (auto split: sum.splits)
  have "registers kb queue (c_redis c) (c_redis c)" using registers_refl [OF assms(1)] .
  moreover have "?F m = (register kb queue m, Inr ()) \<and> registers kb queue (c_redis c) (register kb queue m)"
    if "registers kb queue (c_redis c) m" for m
    using register_pipeline [OF _ assms(2)] registers_step [OF that assms(2)] that by (simp add: registers_def)
  ultimately have K: "registers kb queue (c_redis c) (c_redis c') \<and>
      (\<forall>x. r0 = Inr x \<longrightarrow> (\<exists>m. registers kb queue (c_redis c) m \<and> c_redis c' = register kb queue m \<and> x = ())) \<and>
      (c_net c = [] \<longrightarrow> c' = c\<lparr>c_redis := register kb queue (c_redis c)\<rparr> \<and> r0 = Inr ())"
    using send_keeps [where I = "registers kb queue (c_redis c)" and g = "register kb queue" and v = "\<lambda>_. ()", OF _ _ s(1)]
    by blast
  then show "registers kb queue (c_redis c) (c_redis c')"
    "r = Inr () \<Longrightarrow> \<exists>m1. registers kb queue (c_redis c) m1 \<and> c_redis c' = register kb queue m1"
    "c_net c = [] \<Longrightarrow> r = Inr () \<and> c' = c\<lparr>c_redis := register kb queue (c_redis c)\<rparr>"
    using s(2) by blast+
qed

text \<open>
  C40. Registration keeps a pause. Whatever the connection loses or repeats, registering a queue leaves
  every pause flag that is set as it is, and touches no document, lifecycle set, claim or other queue.
  When the call succeeds the queue is registered, with the weight it asked for, and paused as it
  was, or as it asked for when it had no flag. Over a working connection it succeeds, and reading the
  queue gives just that.\<close>

theorem redis_register_keeps_pause:
  assumes "redis_server R L" and "L (c_redis c) m" and "typed kb m" and "queueNamePattern (q_name queue)"
    and "1 \<le> q_weight queue" and "q_weight queue \<le> 100" and "RQ_Register R kb queue c = (c', r)"
  defines "expected \<equiv> queue\<lparr>q_paused := (case map_of (meta kb m (q_name queue)) metaFieldPaused of
      Some v \<Rightarrow> v = ''1'' | None \<Rightarrow> q_paused queue)\<rparr>"
  shows "\<exists>m'. L (c_redis c') m' \<and> registers kb queue m m' \<and>
    (r = Inr () \<longrightarrow> q_name queue \<in> set (registry kb m') \<and> read_weight (meta kb m' (q_name queue)) = q_weight queue \<and>
       paused kb m' (q_name queue) = q_paused expected) \<and>
    (c_net c = [] \<longrightarrow> r = Inr () \<and> (\<exists>c2. RQ_FindByName R kb (q_name queue) c' = (c2, Inr expected)))"
proof -
  let ?d = "\<lparr>c_redis = m, c_net = c_net c\<rparr>" and ?q = "q_name queue"
  have rel: "conn_rel L c ?d" using assms(2) by (simp add: conn_rel_def)
  obtain d' where d': "RQ_Register (RefN (r_tonumber R)) kb queue ?d = (d', r)" "conn_rel L c' d'"
    using simD [OF redis_server.sim_register [OF assms(1)] rel assms(7)] by (metis (full_types) sum.rel_eq)
  have t: "typed kb (c_redis ?d)" using assms(3) by simp
  note K = ref_Register [OF t assms(4) d'(1), unfolded conn.select_convs]
  have post: "?q \<in> set (registry kb m') \<and> read_weight (meta kb m' ?q) = q_weight queue \<and> paused kb m' ?q = q_paused expected"
    if m1: "registers kb queue m m1" and m': "m' = register kb queue m1" for m1 m'
  proof -
    have t1: "typed kb m1" using m1 by (simp add: registers_def)
    note V = register_views [OF t1 assms(4)]
    have "paused kb m' ?q = q_paused expected"
      using V(4) [OF assms(4)] m1 unfolding m' registers_def expected_def paused_def
      by (auto simp: registered_meta_fields [unfolded metaFieldPaused_def] metaFieldPaused_def boolToFlag_def split: option.splits)
    then show ?thesis using V(4,5) assms(4) read_registered [OF assms(5,6)] unfolding m' by simp
  qed
  have "\<exists>c2. RQ_FindByName R kb ?q c' = (c2, Inr expected)" if net: "c_net c = []"
  proof -
    have d: "r = Inr ()" "d' = ?d\<lparr>c_redis := register kb queue m\<rparr>" using K(3) net by auto
    note P = post [OF registers_refl [OF assms(3)] refl]
    have "typed kb (register kb queue m)" using register_views(1) [OF assms(3,4)] .
    then have "RQ_FindByName (RefN (r_tonumber R)) kb ?q d' = (d', Inr expected)"
      using ref_FindByName [of kb d' ?q] P assms(4) net by (simp add: d expected_def)
    moreover obtain c2 y where c2: "RQ_FindByName R kb ?q c' = (c2, y)" by fastforce
    ultimately show ?thesis
      using simD [OF redis_server.sim_find_queue [OF assms(1)] d'(2) c2] by (auto elim!: rel_sum.cases)
  qed
  then show ?thesis
    using K post d'(2) by (intro exI [of _ "c_redis d'"]) (auto simp: conn_rel_def)
qed

theorem redis_register_keeps_pause_witness:
  "\<exists>c2. RQ_FindByName Ref sample_kb ''default''
      (fst (RQ_Register Ref sample_kb \<lparr>q_name = ''default'', q_weight = 7, q_paused = False\<rparr> \<lparr>c_redis = Map.empty, c_net = []\<rparr>)) =
    (c2, Inr \<lparr>q_name = ''default'', q_weight = 7, q_paused = False\<rparr>)"
proof -
  let ?q = "\<lparr>q_name = ''default'', q_weight = 7, q_paused = False\<rparr> :: Queue"
  let ?c = "\<lparr>c_redis = Map.empty, c_net = []\<rparr> :: ref_db conn"
  obtain c' r where r: "RQ_Register Ref sample_kb ?q ?c = (c', r)" by fastforce
  have "ref_rel (c_redis ?c) Map.empty" "queueNamePattern (q_name ?q)" "1 \<le> q_weight ?q" "q_weight ?q \<le> 100"
    using default_queue by simp_all
  from redis_register_keeps_pause [OF ref.redis_server_axioms this(1) typed_empty this(2-4) r] show ?thesis
    using r by auto
qed

lemma claimable_put_meta:
  assumes "claimable kb fuel m" "queueNamePattern q" "keys_distinct h" "h \<noteq> []"
  shows "claimable kb fuel (put_meta kb q h m)"
proof -
  have "ref_ok (put_meta kb q h m)"
    using assms unfolding put_meta_def claimable_def by (intro ref_ok_put) (auto simp: rvalue_ok_def)
  then show ?thesis
    using assms unfolding claimable_def by (auto simp: waiting_def)
qed

lemma ref_SetPaused:
  assumes "typed kb (c_redis c)" "c_net c = []" "queueNamePattern q"
  shows "RQ_SetPaused (RefN tn) kb q p c =
    (c\<lparr>c_redis := put_meta kb q (AList.update metaFieldPaused (boolToFlag p) (meta kb (c_redis c) q)) (c_redis c)\<rparr>, Inr ())"
  using assms typed_at(2) [OF assms(1,3)]
  by (simp add: RQ_SetPaused_def orInternal_def send_def ref_HSET_def key_render put_meta_def hset_def)

text \<open>
  C31. Pausing a queue on Redis. Over a working connection \<open>SetPaused\<close> succeeds; after a pause no poll, by
  any worker and in any polling order, hands out a job that was waiting in the queue, and after a
  resumption the queue is not paused. No document and no waiting job is touched.\<close>

theorem redis_pause_stops_dequeue:
  assumes "redis_server R L" and "L (c_redis c) m" and "c_net c = []" and "claimable kb fuel m" and "queueNamePattern q"
  shows "\<exists>c1 m1. RQ_SetPaused R kb q p c = (c1, Inr ()) \<and> L (c_redis c1) m1 \<and> claimable kb fuel m1 \<and>
    paused kb m1 q = p \<and> document kb m1 = document kb m \<and>
    (\<forall>q' st. queueNamePattern q' \<longrightarrow> members kb m1 q' st = members kb m q' st) \<and>
    (p \<longrightarrow> (\<forall>order now w d c2 j. list_all queueNamePattern order \<longrightarrow>
       RB_Dequeue R kb txt fuel now order w d c1 = (c2, Inr (Some j)) \<longrightarrow> j_id j \<notin> waiting kb m q))"
proof -
  let ?d = "\<lparr>c_redis = m, c_net = c_net c\<rparr>"
  let ?h = "AList.update metaFieldPaused (boolToFlag p) (meta kb m q)"
  let ?m1 = "put_meta kb q ?h m"
  have t: "typed kb m" "ref_ok m" using assms(4) by (auto simp: claimable_def)
  have rel: "conn_rel L c ?d" using assms(2) by (simp add: conn_rel_def)
  obtain c1 x where c1: "RQ_SetPaused R kb q p c = (c1, x)" by fastforce
  have s: "x = Inr ()" "conn_rel L c1 \<lparr>c_redis = ?m1, c_net = []\<rparr>"
    using simD [OF redis_server.sim_set_paused [OF assms(1)] rel c1] ref_SetPaused [of kb ?d q] assms(3,5) t(1)
    by (auto elim!: rel_sum.cases)
  have "keys_distinct (meta kb m q)" using ref_ok_at(1) [OF t(2) typed_at(2) [OF t(1) assms(5)]] .
  then have cl: "claimable kb fuel ?m1"
    using assms(4,5) by (intro claimable_put_meta) (simp_all add: distinct_update update_nonempty)
  have p: "paused kb ?m1 q = p" using assms(5) by (simp add: paused_def update_conv' metaFieldPaused_def boolToFlag_def)
  have "j_id j \<notin> waiting kb m q"
    if pt: p and o: "list_all queueNamePattern order" and D: "RB_Dequeue R kb txt fuel now order w d c1 = (c2, Inr (Some j))"
    for order now w d c2 j
  proof -
    have L1: "L (c_redis c1) ?m1" and n1: "c_net c1 = []" using s(2) by (auto simp: conn_rel_def)
    obtain q' s' h m2 where q': "q' \<in> set order" "(s', j_id j) \<in> set (members kb ?m1 q' StatePending)"
      "claims kb w (fl64 (toMillis (now + wrap64 (d + leaseGrace)))) (fl64 (toMillis now)) (dedupeQueues order) ?m1 m2 q' (j_id j) h"
      using redis_dequeue_spec [OF assms(1) L1 cl n1 o D] by auto
    have v: "queueNamePattern q'" using q'(1) o by (auto simp: list_all_iff)
    have "\<not> paused kb ?m1 q'" using q'(3) unfolding claims_def by blast
    then have "q' \<noteq> q" using p pt by auto
    then have "waiting kb m q \<inter> waiting kb m q' = {}" using assms(4,5) v unfolding claimable_def by metis
    moreover have "j_id j \<in> waiting kb m q'" using q'(2) v assms(5) by (force simp: waiting_def)
    ultimately show ?thesis by blast
  qed
  then show ?thesis
    using c1 s cl p assms(5) by (intro exI [of _ c1] exI [of _ ?m1]) (auto simp: conn_rel_def fun_eq_iff)
qed

theorem redis_pause_stops_dequeue_witness:
  "\<exists>c1. RQ_SetPaused Ref sample_kb ''default'' True \<lparr>c_redis = waiting_db, c_net = []\<rparr> = (c1, Inr ()) \<and>
     paused sample_kb (c_redis c1) ''default''"
  using redis_pause_stops_dequeue [OF ref.redis_server_axioms, of "\<lparr>c_redis = waiting_db, c_net = []\<rparr>" waiting_db sample_kb 5
      "''default''" True sample_texts] waiting_db_ok(1) default_queue
  by (auto simp: claimable_def)

section \<open>Claims\<close>

lemma holder_None: "typed kb m \<Longrightarrow> holder kb m k = None \<longleftrightarrow> m (render kb (KClaim k)) = None"
proof (cases "m (render kb (KClaim k))")
  case (Some e)
  assume "typed kb m"
  then obtain v where "e_value e = RString v" using Some unfolding typed_def by blast
  then show ?thesis using Some by (simp add: holder_def)
qed (simp add: holder_def)

lemma ref_GET_view: "typed kb m \<Longrightarrow> ref_GET (Idempotency kb k) m = (m, Inr (holder kb m k))"
proof (cases "m (render kb (KClaim k))")
  case (Some e)
  assume "typed kb m"
  then obtain v where "e_value e = RString v" using Some unfolding typed_def by blast
  then show ?thesis using Some by (simp add: holder_def ref_GET_def key_render)
qed (simp add: holder_def ref_GET_def key_render)

lemma ref_SETNX_view:
  assumes "typed kb m" "-1 \<le> ttl"
  shows "holder kb m k \<noteq> None \<Longrightarrow> fst (ref_SETNX (Idempotency kb k) i ttl m) = m"
    and "snd (ref_SETNX (Idempotency kb k) i ttl m) = Inr (holder kb m k = None)"
    and "typed kb (fst (ref_SETNX (Idempotency kb k) i ttl m))"
    and "holder kb (fst (ref_SETNX (Idempotency kb k) i ttl m)) k' =
      (if k' = k \<and> holder kb m k = None then Some i else holder kb m k')"
    and "document kb (fst (ref_SETNX (Idempotency kb k) i ttl m)) x = document kb m x"
proof -
  note h = holder_None [OF assms(1), of k]
  show "snd (ref_SETNX (Idempotency kb k) i ttl m) = Inr (holder kb m k = None)"
    "holder kb m k \<noteq> None \<Longrightarrow> fst (ref_SETNX (Idempotency kb k) i ttl m) = m"
    using assms(2) h by (auto simp: ref_SETNX_def key_render)
  show "typed kb (fst (ref_SETNX (Idempotency kb k) i ttl m))"
    using assms by (auto simp: ref_SETNX_def key_render typed_def hash_at_def zset_at_def set_at_def)
  show "holder kb (fst (ref_SETNX (Idempotency kb k) i ttl m)) k' =
      (if k' = k \<and> holder kb m k = None then Some i else holder kb m k')"
    using assms(2) h by (auto simp: ref_SETNX_def key_render holder_def)
  show "document kb (fst (ref_SETNX (Idempotency kb k) i ttl m)) x = document kb m x"
    by (auto simp: ref_SETNX_def key_render document_def hash_at_def)
qed

text \<open>What may have become of the key during one claim: nothing, or it was free and stands for the caller now.\<close>

definition claim_step :: "KeyBuilder \<Rightarrow> IdempotencyKey \<Rightarrow> JobID \<Rightarrow> ref_db \<Rightarrow> ref_db \<Rightarrow> bool" where
  "claim_step kb k i m m' \<longleftrightarrow>
     typed kb m' \<and> document kb m' = document kb m \<and>
     (holder kb m' = holder kb m \<or> holder kb m k = None \<and> holder kb m' = (holder kb m)(k \<mapsto> i))"

abbreviation won :: "(bool \<times> JobID) result \<Rightarrow> bool" where
  "won r \<equiv> case r of Inl _ \<Rightarrow> False | Inr x \<Rightarrow> fst x"

definition taken_by :: "string \<Rightarrow> bool \<times> JobID" where
  "taken_by v = (False, case NewJobID v of Inl _ \<Rightarrow> '''' | Inr x \<Rightarrow> x)"

lemma send_SETNX:
  assumes "typed kb (c_redis c)" "-1 \<le> ttl" "send (ref_SETNX (Idempotency kb k) i ttl) c = (c', r)"
  shows "claim_step kb k i (c_redis c) (c_redis c')"
    and "r = Inr True \<Longrightarrow> holder kb (c_redis c) k = None \<and> holder kb (c_redis c') k = Some i"
    and "c_net c = [] \<Longrightarrow> c_net c' = [] \<and> r = Inr (holder kb (c_redis c) k = None) \<and>
      holder kb (c_redis c') k = (case holder kb (c_redis c) k of None \<Rightarrow> Some i | Some v \<Rightarrow> Some v)"
proof -
  let ?F = "ref_SETNX (Idempotency kb k) i ttl" and ?I = "claim_step kb k i (c_redis c)"
  have step: "?F m = (fst (?F m), Inr (holder kb m k = None)) \<and> ?I (fst (?F m))" if I: "?I m" for m
  proof -
    have t: "typed kb m" using I by (simp add: claim_step_def)
    note S = ref_SETNX_view [OF t assms(2), where k = k and i = i]
    have "holder kb (fst (?F m)) = (if holder kb m k = None then (holder kb m)(k \<mapsto> i) else holder kb m)"
      using S(4) by (auto simp: fun_eq_iff)
    moreover have "document kb (fst (?F m)) = document kb m" using S(5) by (simp add: fun_eq_iff)
    ultimately have "?I (fst (?F m))" using I S(3) unfolding claim_step_def by auto
    then show ?thesis using S(2) by (metis prod.collapse)
  qed
  have I: "?I (c_redis c)" using assms(1) by (simp add: claim_step_def)
  have K: "?I (c_redis c') \<and> (\<forall>x. r = Inr x \<longrightarrow> (\<exists>m. ?I m \<and> c_redis c' = fst (?F m) \<and> x = (holder kb m k = None))) \<and>
    (c_net c = [] \<longrightarrow> c' = c\<lparr>c_redis := fst (?F (c_redis c))\<rparr> \<and> r = Inr (holder kb (c_redis c) k = None))"
    using send_keeps [where I = ?I and g = "\<lambda>m. fst (?F m)" and v = "\<lambda>m. holder kb m k = None", OF I step assms(3)] .
  then show "?I (c_redis c')" by blast
  note V = ref_SETNX_view(4) [OF assms(1,2), of k i k]
  show "r = Inr True \<Longrightarrow> holder kb (c_redis c) k = None \<and> holder kb (c_redis c') k = Some i"
  proof -
    assume "r = Inr True"
    then obtain m where m: "?I m" "c_redis c' = fst (?F m)" "holder kb m k = None" using K by auto
    have "typed kb m" using m(1) by (simp add: claim_step_def)
    then show ?thesis using m ref_SETNX_view(4) [of kb m ttl k i k] assms(2) unfolding claim_step_def by auto
  qed
  show "c_net c = [] \<Longrightarrow> c_net c' = [] \<and> r = Inr (holder kb (c_redis c) k = None) \<and>
      holder kb (c_redis c') k = (case holder kb (c_redis c) k of None \<Rightarrow> Some i | Some v \<Rightarrow> Some v)"
    using K V by (auto split: option.split)
qed

lemma send_GET:
  assumes "typed kb (c_redis c)" "send (ref_GET (Idempotency kb k)) c = (c', r)"
  shows "c_redis c' = c_redis c" "c_net c = [] \<Longrightarrow> c_net c' = [] \<and> r = Inr (holder kb (c_redis c) k)"
    "\<And>x. r = Inr x \<Longrightarrow> x = holder kb (c_redis c) k"
proof -
  let ?F = "ref_GET (Idempotency kb k)" and ?I = "\<lambda>m. m = c_redis c"
  have "?F m = (m, Inr (holder kb m k)) \<and> ?I m" if "?I m" for m
    using ref_GET_view [OF assms(1), of k] that by simp
  note K = send_keeps [where I = ?I and g = "\<lambda>m. m" and v = "\<lambda>m. holder kb m k", OF refl this assms(2)]
  show "c_redis c' = c_redis c" using K by blast
  show "c_net c' = [] \<and> r = Inr (holder kb (c_redis c) k)" if n: "c_net c = []"
  proof -
    have "c' = c\<lparr>c_redis := c_redis c\<rparr>" "r = Inr (holder kb (c_redis c) k)" using K n by blast+
    then show ?thesis using n by simp
  qed
  show "\<And>x. r = Inr x \<Longrightarrow> x = holder kb (c_redis c) k" using K by blast
qed

lemma ref_Claim:
  assumes "typed kb (c_redis c)" "k \<noteq> ''''" "-1 \<le> ttl" "RI_Claim (RefN tn) kb k i ttl c = (c', r)"
  shows "claim_step kb k i (c_redis c) (c_redis c')"
    and "won r \<Longrightarrow> holder kb (c_redis c) k = None \<and> holder kb (c_redis c') k = Some i"
    and "c_net c = [] \<Longrightarrow> c_net c' = [] \<and>
      r = Inr (case holder kb (c_redis c) k of None \<Rightarrow> (True, '''') | Some v \<Rightarrow> taken_by v) \<and>
      holder kb (c_redis c') k = (case holder kb (c_redis c) k of None \<Rightarrow> Some i | Some v \<Rightarrow> Some v)"
proof -
  obtain c1 r1 where s: "send (ref_SETNX (Idempotency kb k) i ttl) c = (c1, r1)" by fastforce
  note S = send_SETNX [OF assms(1,3) s]
  have t1: "typed kb (c_redis c1)" using S(1) by (simp add: claim_step_def)
  obtain c2 r2 where g: "send (ref_GET (Idempotency kb k)) c1 = (c2, r2)" by fastforce
  note G = send_GET [OF t1 g]
  show "claim_step kb k i (c_redis c) (c_redis c')"
    using assms(2,4) S(1) G(1) s g unfolding RI_Claim_def RefN_simps
    by (auto simp: IsZero_def andThenS_def orInternal_def split: sum.splits if_splits option.splits prod.splits)
  show "won r \<Longrightarrow> holder kb (c_redis c) k = None \<and> holder kb (c_redis c') k = Some i"
    using assms(2,4) S(2) G(1) s g unfolding RI_Claim_def RefN_simps
    by (auto simp: IsZero_def andThenS_def orInternal_def split: sum.splits if_splits option.splits prod.splits)
  show "c_net c = [] \<Longrightarrow> c_net c' = [] \<and>
      r = Inr (case holder kb (c_redis c) k of None \<Rightarrow> (True, '''') | Some v \<Rightarrow> taken_by v) \<and>
      holder kb (c_redis c') k = (case holder kb (c_redis c) k of None \<Rightarrow> Some i | Some v \<Rightarrow> Some v)"
    using assms(2,4) S(3) G(1,2) s g unfolding RI_Claim_def RefN_simps
    by (auto simp: IsZero_def andThenS_def orInternal_def taken_by_def split: sum.splits if_splits option.splits prod.splits)
qed

text \<open>
  How long a claim stands: a time to live of zero or -1 is none, and any other one counts in whole
  milliseconds, at least one. \<open>held_over kb m k v d\<close> says that the key stands for \<open>v\<close> and still will when \<open>d\<close>
  milliseconds have passed.
\<close>

definition claim_lasts :: "duration \<Rightarrow> int \<Rightarrow> bool" where
  "claim_lasts ttl d \<longleftrightarrow> ttl = 0 \<or> ttl = -1 \<or> d < max 1 (ttl div millisecond)"

definition claim_entry :: "duration \<Rightarrow> JobID \<Rightarrow> entry" where
  "claim_entry ttl i = \<lparr>e_value = RString i, e_ttl = (if ttl = 0 \<or> ttl = -1 then None else Some (max 1 (ttl div millisecond)))\<rparr>"

definition held_over :: "KeyBuilder \<Rightarrow> ref_db \<Rightarrow> IdempotencyKey \<Rightarrow> string \<Rightarrow> int \<Rightarrow> bool" where
  "held_over kb m k v d \<longleftrightarrow>
     (\<exists>e. m (render kb (KClaim k)) = Some e \<and> e_value e = RString v \<and> (\<forall>t. e_ttl e = Some t \<longrightarrow> d < t))"

lemma held_over_elapse: "0 \<le> d' \<Longrightarrow> held_over kb m k v (d + d') \<Longrightarrow> held_over kb (ref_elapse d m) k v d'"
  by (force simp: held_over_def ref_elapse_def split: option.splits)

lemma holder_elapse: "holder kb (ref_elapse d m) k = Some v \<longleftrightarrow> held_over kb m k v d"
  by (auto simp: held_over_def holder_def ref_elapse_def split: option.splits rvalue.splits)

lemma held_over_entry: "m (render kb (KClaim k)) = Some (claim_entry ttl i) \<Longrightarrow> held_over kb m k v d \<longleftrightarrow> v = i \<and> claim_lasts ttl d"
  by (auto simp: held_over_def claim_entry_def claim_lasts_def)

text \<open>What one claim does to the database, whatever the connection: nothing, or it creates the key.\<close>

lemma send_executed: "send f c = (c', r) \<Longrightarrow> \<exists>n. c_redis c' = executed n f (c_redis c)"
proof -
  assume a: "send f c = (c', r)"
  have e: "fst (f (executed n f m)) = executed (Suc n) f m" "m = executed 0 f m" for n m by (simp_all add: executed_def)
  show ?thesis
  proof (cases "c_net c")
    case Nil
    then have "c_redis c' = executed 1 f (c_redis c)" using a by (auto simp: send_def executed_def)
    then show ?thesis by blast
  next
    case (Cons x net)
    then show ?thesis using a e(1) by (cases x) (auto simp: send_def Let_def)
  qed
qed

lemma ref_Claim_entry:
  assumes "k \<noteq> ''''" "-1 \<le> ttl" "RI_Claim (RefN tn) kb k i ttl c = (c', r)"
  shows "c_redis c' = c_redis c \<or>
    c_redis c (render kb (KClaim k)) = None \<and> c_redis c' = (c_redis c)(render kb (KClaim k) \<mapsto> claim_entry ttl i)"
proof -
  let ?I = "\<lambda>m. m = c_redis c \<or>
    c_redis c (render kb (KClaim k)) = None \<and> m = (c_redis c)(render kb (KClaim k) \<mapsto> claim_entry ttl i)"
  let ?F = "ref_SETNX (Idempotency kb k) i ttl" and ?G = "ref_GET (Idempotency kb k)"
  have "?I (fst (?F m))" if "?I m" for m
    using that assms(2) by (auto simp: ref_SETNX_def key_render claim_entry_def)
  then have F: "?I m \<Longrightarrow> ?I (executed n ?F m)" for m n by (induction n) (simp_all add: executed_def)
  have "fst (?G m) = m" for m by (simp add: ref_GET_def split: option.split rvalue.split)
  then have G: "executed n ?G m = m" for m n by (induction n) (simp_all add: executed_def)
  have S: "?I (c_redis c1)" if "send ?F c = (c1, r1)" for c1 r1
    using send_executed [OF that] F [of "c_redis c"] by metis
  have T: "c_redis c2 = c_redis c1" if "send ?G c1 = (c2, r2)" for c1 c2 :: "ref_db conn" and r2
    using send_executed [OF that] G by metis
  obtain c1 r1 where s: "send ?F c = (c1, r1)" by fastforce
  obtain c2 r2 where g: "send ?G c1 = (c2, r2)" by fastforce
  have "c_redis c' \<in> {c_redis c1, c_redis c2}"
    using assms(1,3) s g unfolding RI_Claim_def RefN_simps
    by (auto simp: IsZero_def andThenS_def orInternal_def split: sum.splits if_splits option.splits prod.splits)
  then show ?thesis using S [OF s] T [OF g] by auto
qed

lemma claim_keeps_held:
  assumes "k \<noteq> ''''" "-1 \<le> ttl" "RI_Claim (RefN tn) kb k i ttl c = (c', r)" "held_over kb (c_redis c) k v d"
  shows "held_over kb (c_redis c') k v d"
  using ref_Claim_entry [OF assms(1-3)] assms(4) by (auto simp: held_over_def)

lemma claim_granted_entry:
  assumes "typed kb (c_redis c)" "k \<noteq> ''''" "-1 \<le> ttl" "RI_Claim (RefN tn) kb k i ttl c = (c', r)" "won r"
  shows "c_redis c' = (c_redis c)(render kb (KClaim k) \<mapsto> claim_entry ttl i)"
  using ref_Claim(2) [OF assms(1-4) assms(5)] ref_Claim_entry [OF assms(2-4)] by auto

text \<open>A sequence of claims on one key, each with the pause before it, and their answers.\<close>

fun RI_claims ::
  "'r redis \<Rightarrow> KeyBuilder \<Rightarrow> IdempotencyKey \<Rightarrow> (int \<times> JobID \<times> duration) list \<Rightarrow> 'r conn \<Rightarrow>
     'r conn \<times> (bool \<times> JobID) result list" where
  "RI_claims R kb k [] c = (c, [])"
| "RI_claims R kb k ((d, i, ttl) # as) c =
     (case RI_Claim R kb k i ttl (elapse R d c) of
        (c', r) \<Rightarrow> (case RI_claims R kb k as c' of (c'', rs) \<Rightarrow> (c'', r # rs)))"

abbreviation claims_ok :: "(int \<times> JobID \<times> duration) list \<Rightarrow> bool" where
  "claims_ok \<equiv> list_all (\<lambda>(d, i, ttl). 0 \<le> d \<and> -1 \<le> ttl)"

text \<open>The time from the start of a sequence of claims until its claim number \<open>b\<close> is made.\<close>

definition waited :: "(int \<times> JobID \<times> duration) list \<Rightarrow> nat \<Rightarrow> int" where
  "waited as b = sum_list (map fst (take (Suc b) as))"

lemma waited_simps [simp]: "waited (a # as) 0 = fst a" "waited (a # as) (Suc b) = fst a + waited as b"
  by (simp_all add: waited_def)

lemma waited_nonneg: "claims_ok as \<Longrightarrow> 0 \<le> waited as b"
proof -
  assume "claims_ok as"
  then have "\<forall>x \<in> set (map fst (take (Suc b) as)). 0 \<le> x" by (fastforce simp: list_all_iff dest: in_set_takeD)
  then show ?thesis unfolding waited_def by (intro sum_list_nonneg) blast
qed

lemma length_claims: "RI_claims R kb k as c = (c', rs) \<Longrightarrow> length rs = length as"
  by (induction R kb k as c arbitrary: c' rs rule: RI_claims.induct) (auto split: prod.splits)

text \<open>While the key stands for \<open>v\<close>, nobody else gets it.\<close>

lemma ref_claims_held:
  assumes "typed kb (c_redis c)" "k \<noteq> ''''" "claims_ok as" "RI_claims (RefN tn) kb k as c = (c', rs)"
    "b < length as" "held_over kb (c_redis c) k v (waited as b)"
  shows "\<not> won (rs ! b) \<and> (c_net c = [] \<longrightarrow> rs ! b = Inr (taken_by v))"
  using assms(1,3-6)
proof (induction as arbitrary: c c' rs b)
  case (Cons a as)
  obtain d i ttl where a: "a = (d, i, ttl)" by (cases a)
  let ?c = "elapse (RefN tn) d c"
  obtain c1 r where c1: "RI_Claim (RefN tn) kb k i ttl ?c = (c1, r)" by fastforce
  obtain rs' where rs: "RI_claims (RefN tn) kb k as c1 = (c', rs')" "rs = r # rs'"
    using Cons.prems(3) a c1 by (auto split: prod.splits)
  have ttl: "-1 \<le> ttl" "0 \<le> d" "claims_ok as" using Cons.prems(2) a by simp_all
  have t: "typed kb (c_redis ?c)" using Cons.prems(1) by (simp add: typed_elapse)
  note C = ref_Claim [OF t assms(2) ttl(1) c1]
  show ?case
  proof (cases b)
    case 0
    then have "holder kb (c_redis ?c) k = Some v" using Cons.prems(5) a by (simp add: holder_elapse)
    then show ?thesis using C(2,3) 0 rs(2) by auto
  next
    case (Suc b')
    have "held_over kb (c_redis ?c) k v (waited as b')"
      using Cons.prems(5) waited_nonneg [OF ttl(3)] by (simp add: Suc a held_over_elapse)
    then have "held_over kb (c_redis c1) k v (waited as b')" by (rule claim_keeps_held [OF assms(2) ttl(1) c1])
    moreover have "typed kb (c_redis c1)" using C(1) by (simp add: claim_step_def)
    ultimately have "\<not> won (rs' ! b') \<and> (c_net c1 = [] \<longrightarrow> rs' ! b' = Inr (taken_by v))"
      using Cons.IH [OF _ ttl(3) rs(1)] Cons.prems(4) Suc by simp
    moreover have "c_net c = [] \<Longrightarrow> c_net c1 = []" using C(3) by simp
    ultimately show ?thesis using Suc rs(2) by auto
  qed
qed simp

text \<open>Two claims that are granted are at least the first one's time to live apart.\<close>

lemma ref_claims_apart:
  assumes "typed kb (c_redis c)" "k \<noteq> ''''" "claims_ok as" "RI_claims (RefN tn) kb k as c = (c', rs)"
    "a < b" "b < length as" "won (rs ! a)" "won (rs ! b)"
  shows "\<not> claim_lasts (snd (snd (as ! a))) (waited as b - waited as a)"
  using assms(1,3-8)
proof (induction as arbitrary: c c' rs a b)
  case (Cons x as)
  obtain d i ttl where x: "x = (d, i, ttl)" by (cases x)
  let ?c = "elapse (RefN tn) d c"
  obtain c1 r where c1: "RI_Claim (RefN tn) kb k i ttl ?c = (c1, r)" by fastforce
  obtain rs' where rs: "RI_claims (RefN tn) kb k as c1 = (c', rs')" "rs = r # rs'"
    using Cons.prems(3) x c1 by (auto split: prod.splits)
  have ttl: "-1 \<le> ttl" "claims_ok as" using Cons.prems(2) x by simp_all
  have t: "typed kb (c_redis ?c)" using Cons.prems(1) by (simp add: typed_elapse)
  have t1: "typed kb (c_redis c1)" using ref_Claim(1) [OF t assms(2) ttl(1) c1] by (simp add: claim_step_def)
  obtain b' where b: "b = Suc b'" "b' < length as" using Cons.prems(4,5) by (cases b) auto
  show ?case
  proof (cases a)
    case 0
    then have "c_redis c1 = (c_redis ?c)(render kb (KClaim k) \<mapsto> claim_entry ttl i)"
      using claim_granted_entry [OF t assms(2) ttl(1) c1] Cons.prems(6) rs(2) by simp
    then have "held_over kb (c_redis c1) k i d' \<longleftrightarrow> claim_lasts ttl d'" for d'
      using held_over_entry [of "c_redis c1" kb k ttl i i d'] by simp
    then show ?thesis
      using ref_claims_held [OF t1 assms(2) ttl(2) rs(1) b(2)] Cons.prems(7) rs(2) by (auto simp: 0 b x)
  next
    case (Suc a')
    then show ?thesis using Cons.IH [OF t1 ttl(2) rs(1), of a' b'] Cons.prems(4,6,7) rs(2) b by simp
  qed
qed simp

text \<open>The first claim on a free key, over a working connection, and what the later ones are told.\<close>

lemma first_claim:
  assumes "typed kb (c_redis c)" "k \<noteq> ''''" "c_net c = []" "holder kb (c_redis c) k = None" "NewJobID i = Inr i"
    "claims_ok ((d, i, ttl) # rest)" "RI_claims (RefN tn) kb k ((d, i, ttl) # rest) c = (c', rs)"
  shows "rs ! 0 = Inr (True, '''') \<and>
    (\<forall>b < length rest. claim_lasts ttl (waited rest b) \<longrightarrow> rs ! Suc b = Inr (False, i)) \<and>
    (rest \<noteq> [] \<longrightarrow> \<not> claim_lasts ttl (waited rest 0) \<longrightarrow> rs ! 1 = Inr (True, ''''))"
proof -
  let ?c = "elapse (RefN tn) d c"
  have ttl: "-1 \<le> ttl" and as: "claims_ok rest" using assms(6) by auto
  have t: "typed kb (c_redis ?c)" "holder kb (c_redis ?c) k = None"
    using assms(1,4) holder_elapse_cases [of kb d "c_redis c" k] by (auto simp: typed_elapse)
  obtain c1 r where r: "RI_Claim (RefN tn) kb k i ttl ?c = (c1, r)" by fastforce
  obtain rs' where rs: "RI_claims (RefN tn) kb k rest c1 = (c', rs')" "rs = r # rs'"
    using assms(7) r by (auto split: prod.splits)
  note C = ref_Claim [OF t(1) assms(2) ttl r]
  have c1: "c_net c1 = []" "r = Inr (True, '''')" using C(3) assms(3) t(2) by auto
  have t1: "typed kb (c_redis c1)" using C(1) by (simp add: claim_step_def)
  have e: "c_redis c1 (render kb (KClaim k)) = Some (claim_entry ttl i)"
    using claim_granted_entry [OF t(1) assms(2) ttl r] c1(2) by simp
  note h = held_over_entry [where m = "c_redis c1" and kb = kb and k = k, OF e]
  have "rs ! Suc b = Inr (False, i)" if "b < length rest" "claim_lasts ttl (waited rest b)" for b
    using ref_claims_held [OF t1 assms(2) as rs(1) that(1), of i] h that(2) c1(1) rs(2) assms(5) by (simp add: taken_by_def)
  moreover have "rs ! 1 = Inr (True, '''')" if rest: "rest \<noteq> []" "\<not> claim_lasts ttl (waited rest 0)"
  proof -
    obtain d1 j ttl1 as1 where x: "rest = (d1, j, ttl1) # as1" using rest(1) by (cases rest) auto
    obtain c2 r2 where r2: "RI_Claim (RefN tn) kb k j ttl1 (elapse (RefN tn) d1 c1) = (c2, r2)" by fastforce
    have "holder kb (c_redis (elapse (RefN tn) d1 c1)) k \<noteq> Some v" for v
      using h [of v d1] rest(2) x by (simp add: holder_elapse)
    then have "holder kb (c_redis (elapse (RefN tn) d1 c1)) k = None" by (metis not_None_eq)
    then have "r2 = Inr (True, '''')"
      using ref_Claim(3) [OF _ assms(2) _ r2] t1 c1(1) as x by (simp add: typed_elapse)
    then show ?thesis using rs r2 x by (auto split: prod.splits)
  qed
  ultimately show ?thesis using c1(2) rs(2) by simp
qed

context redis_server
begin

lemma conn_elapse: "conn_rel L c d \<Longrightarrow> 0 \<le> t \<Longrightarrow> conn_rel L (elapse R t c) (elapse reference t d)"
  using elapses by (simp add: conn_rel_def)

lemma sim_claims:
  "claims_ok as \<Longrightarrow> conn_rel L c d \<Longrightarrow> snd (RI_claims R kb k as c) = snd (RI_claims reference kb k as d)"
proof (induction as arbitrary: c d)
  case (Cons a as)
  obtain t i ttl where a: "a = (t, i, ttl)" by (cases a)
  obtain c1 r where f: "RI_Claim R kb k i ttl (elapse R t c) = (c1, r)" by fastforce
  have "conn_rel L (elapse R t c) (elapse reference t d)" using Cons.prems a by (intro conn_elapse) simp_all
  then obtain d1 r' where g: "RI_Claim reference kb k i ttl (elapse reference t d) = (d1, r')" "conn_rel L c1 d1"
      "rel_sum (=) (=) r r'"
    using simD [OF sim_claim_key _ f] by metis
  then have "r' = r" by (simp add: sum.rel_eq)
  then show ?case using f g Cons.IH [OF _ g(2)] Cons.prems(1) unfolding a by (auto split: prod.split)
qed simp

end

text \<open>
  C26. One winner per idempotency key at a time. For any sequence of claims on a key, with any pauses between
  them and whatever the connection loses or repeats: two claims that are both granted are at least the first
  one's time to live apart (never, when it has none), and no claim is granted while the key is held. Over a working connection a
  claim on a free key is granted, every later one is told the identifier of the winner while that
  winner's time to live has not passed, and a second claim that comes after it is granted again.
\<close>

theorem redis_claim_single_winner:
  assumes "redis_server R L" and "L (c_redis c) m" and "typed kb m" and "k \<noteq> ''''"
    and "claims_ok attempts" and "RI_claims R kb k attempts c = (c', rs)"
  shows "length rs = length attempts \<and>
    (\<forall>a b. a < b \<longrightarrow> b < length rs \<longrightarrow> won (rs ! a) \<longrightarrow> won (rs ! b) \<longrightarrow>
       \<not> claim_lasts (snd (snd (attempts ! a))) (waited attempts b - waited attempts a)) \<and>
    (\<forall>v b. b < length rs \<longrightarrow> held_over kb m k v (waited attempts b) \<longrightarrow>
       \<not> won (rs ! b) \<and> (c_net c = [] \<longrightarrow> rs ! b = Inr (taken_by v))) \<and>
    (\<forall>d i ttl rest. c_net c = [] \<longrightarrow> holder kb m k = None \<longrightarrow> attempts = (d, i, ttl) # rest \<longrightarrow> NewJobID i = Inr i \<longrightarrow>
       rs ! 0 = Inr (True, '''') \<and>
       (\<forall>b < length rest. claim_lasts ttl (waited rest b) \<longrightarrow> rs ! Suc b = Inr (False, i)) \<and>
       (rest \<noteq> [] \<longrightarrow> \<not> claim_lasts ttl (waited rest 0) \<longrightarrow> rs ! 1 = Inr (True, '''')))"
proof -
  let ?d = "\<lparr>c_redis = m, c_net = c_net c\<rparr>" and ?tn = "r_tonumber R"
  have "conn_rel L c ?d" using assms(2) by (simp add: conn_rel_def)
  then have "snd (RI_claims (RefN ?tn) kb k attempts ?d) = rs"
    using redis_server.sim_claims [OF assms(1,5)] assms(6) by (metis snd_conv)
  then obtain d' where d': "RI_claims (RefN ?tn) kb k attempts ?d = (d', rs)" by (metis prod.collapse)
  have t: "typed kb (c_redis ?d)" using assms(3) by simp
  have "rs ! 0 = Inr (True, '''') \<and> (\<forall>b < length rest. claim_lasts ttl (waited rest b) \<longrightarrow> rs ! Suc b = Inr (False, i)) \<and>
       (rest \<noteq> [] \<longrightarrow> \<not> claim_lasts ttl (waited rest 0) \<longrightarrow> rs ! 1 = Inr (True, ''''))"
    if n: "c_net c = []" "holder kb m k = None" "attempts = (d, i, ttl) # rest" "NewJobID i = Inr i" for d i ttl rest
    using first_claim [where d = d and i = i and ttl = ttl and rest = rest and tn = ?tn and c' = d' and rs = rs, OF t assms(4)] n assms(5) d' by simp
  then show ?thesis
    using ref_claims_apart [OF t assms(4,5) d'] ref_claims_held [OF t assms(4,5) d'] length_claims [OF d']
    by (auto simp del: waited_simps)
qed

theorem redis_claim_single_winner_witness:
  "\<exists>rs. snd (RI_claims Ref sample_kb ''order-7'' [(0, ''j1'', second), (999, ''j2'', 24 * hour), (1, ''j3'', 0)]
      \<lparr>c_redis = Map.empty, c_net = []\<rparr>) = rs \<and> length rs = 3 \<and>
    rs ! 0 = Inr (True, '''') \<and> rs ! 1 = Inr (False, ''j1'')"
proof -
  let ?as = "[(0, ''j1'', second), (999, ''j2'', 24 * hour), (1, ''j3'', 0)]"
  let ?c = "\<lparr>c_redis = Map.empty, c_net = []\<rparr> :: ref_db conn"
  obtain c' rs where r: "RI_claims Ref sample_kb ''order-7'' ?as ?c = (c', rs)" by fastforce
  have "claims_ok ?as" "ref_rel (c_redis ?c) Map.empty" by (simp_all add: duration_units)
  moreover have "holder sample_kb Map.empty ''order-7'' = None" by (simp add: holder_def)
  moreover have "NewJobID ''j1'' = Inr ''j1''" using waiting_job_ok by (simp add: storable_def)
  moreover have "claim_lasts second (waited [(999, ''j2'', 24 * hour), (1, ''j3'', 0)] 0)"
    by (simp add: claim_lasts_def duration_units)
  ultimately have "length rs = 3 \<and> rs ! 0 = Inr (True, '''') \<and> rs ! Suc 0 = Inr (False, ''j1'')"
    using redis_claim_single_winner [OF ref.redis_server_axioms _ typed_empty _ _ r] by simp
  then show ?thesis using r by simp
qed

section \<open>A lost reply\<close>

text \<open>
  When the reply to the first \<open>SET NX\<close> is lost and the client sends it again, the second execution finds
  the key taken: the caller is told that the key is held, by the identifier it has just offered.
\<close>

lemma claim_lost_reply:
  assumes "typed kb (c_redis c)" "k \<noteq> ''''" "-1 \<le> ttl" "NewJobID i = Inr i" "holder kb (c_redis c) k = None"
    "c_net c = Delivered (Suc n) # net" "net = [] \<or> (\<exists>n' net'. net = Delivered n' # net')"
    "RI_Claim (RefN tn) kb k i ttl c = (c', r)"
  shows "r = Inr (False, i) \<and> typed kb (c_redis c') \<and> holder kb (c_redis c') = (holder kb (c_redis c))(k \<mapsto> i) \<and>
    document kb (c_redis c') = document kb (c_redis c) \<and> (net = [] \<longrightarrow> c_net c' = [])"
proof -
  let ?F = "ref_SETNX (Idempotency kb k) i ttl" and ?m = "c_redis c"
  let ?m1 = "fst (?F ?m)"
  note S = ref_SETNX_view [OF assms(1,3), where k = k and i = i]
  note S1 = ref_SETNX_view(1,2) [OF S(3) assms(3), where k = k and i = i]
  have h: "holder kb ?m1 k = Some i" using S(4) assms(5) by simp
  have again: "fst (?F ?m1) = ?m1" "snd (?F ?m1) = Inr False" using S1 h by simp_all
  have "executed (Suc n) ?F ?m = ?m1" using again(1) by (induction n) (simp_all add: executed_def)
  then have s: "send ?F c = (c\<lparr>c_redis := ?m1, c_net := net\<rparr>, Inr False)"
    using assms(6) again by (simp add: send_def Let_def)
  have "ref_GET (Idempotency kb k) ?m1 = (?m1, Inr (Some i))" using ref_GET_view [OF S(3)] h by simp
  moreover from this have "executed n' (ref_GET (Idempotency kb k)) ?m1 = ?m1" for n'
    by (induction n') (simp_all add: executed_def)
  ultimately have "send (ref_GET (Idempotency kb k)) (c\<lparr>c_redis := ?m1, c_net := net\<rparr>) =
      (c\<lparr>c_redis := ?m1, c_net := tl net\<rparr>, Inr (Some i))"
    using assms(7) by (auto simp: send_def Let_def)
  then have "r = Inr (False, i)" "c' = c\<lparr>c_redis := ?m1, c_net := tl net\<rparr>"
    using assms(2,4,8) s by (auto simp: RI_Claim_def IsZero_def andThenS_def orInternal_def)
  moreover have "document kb ?m1 = document kb ?m" using S(5) by (simp add: fun_eq_iff)
  moreover have "holder kb ?m1 = (holder kb ?m)(k \<mapsto> i)" using S(4) assms(5) by (auto simp: fun_eq_iff)
  ultimately show ?thesis using S(3) by simp
qed

end
