(* ===== verification/Redis_Service.thy ===== *)
theory Redis_Service
  imports Enqueuer Redis_Queues
begin

text \<open>
  The enqueuer over Redis: the service of \<open>src/pkg/application/enqueuer/service.go\<close> with the broker, the
  repository and the idempotency store of \<open>src/pkg/infrastructure/persistence/redis\<close>, as the process wires
  them. Over a working connection the three ports keep the contract \<open>enqueue_ports\<close>, so what is proved
  of the service for every such store holds of Redis. Over a connection that loses replies it does
  not: the client library repeats a command it has no reply for, and neither the claim of a key nor
  the enqueue script can tell its own first execution from somebody else's.
\<close>

section \<open>The ports keep their contract\<close>

definition redis_docs :: "KeyBuilder \<Rightarrow> decode_texts \<Rightarrow> ref_db conn \<Rightarrow> JobID \<Rightarrow> Job option" where
  "redis_docs kb dt c i =
     (case document kb (c_redis c) i of
        None \<Rightarrow> None
      | Some h \<Rightarrow> (case toAggregate dt h of Inl _ \<Rightarrow> None | Inr j \<Rightarrow> Some j))"

definition redis_held :: "KeyBuilder \<Rightarrow> ref_db conn \<Rightarrow> IdempotencyKey \<Rightarrow> JobID option" where
  "redis_held kb c k = (if k = '''' then None else holder kb (c_redis c) k)"

definition holders_valid :: "KeyBuilder \<Rightarrow> ref_db \<Rightarrow> bool" where
  "holders_valid kb m \<longleftrightarrow> (\<forall>k v. holder kb m k = Some v \<longrightarrow> NewJobID v = Inr v)"

definition redis_ok :: "KeyBuilder \<Rightarrow> ref_db conn \<Rightarrow> bool" where
  "redis_ok kb c \<longleftrightarrow> c_net c = [] \<and> typed kb (c_redis c) \<and> holders_valid kb (c_redis c)"

lemma storable_queue: "storable j \<Longrightarrow> queueNamePattern (j_queue j)"
  unfolding storable_def by (blast dest: NewQueueName_pattern)

lemma toAggregate_Nil: "\<exists>e. toAggregate dt [] = Inl e"
  by (simp add: toAggregate_def)

lemma redis_find:
  assumes "redis_ok kb c"
  shows "\<exists>r. RJ_FindByID (RefN tn) kb dt i c = (c, r) \<and> (\<forall>j. r = Inr j \<longleftrightarrow> redis_docs kb dt c i = Some j)"
  using assms ref_find [of kb c tn dt i] toAggregate_Nil [of dt]
  by (auto simp: redis_ok_def redis_docs_def split: option.splits sum.splits)

lemma redis_insert_writes:
  assumes "redis_ok kb c" "storable j" "RB_insert (RefN tn) kb j (StateSet kb (j_queue j) st) score c = (c', r)"
  shows "redis_ok kb c' \<and> redis_held kb c' = redis_held kb c \<and>
    (case r of
       Inr _ \<Rightarrow> redis_docs kb dt c' = (redis_docs kb dt c)(j_id j \<mapsto> stored j)
     | Inl _ \<Rightarrow> c' = c)"
proof -
  have t: "typed kb (c_redis c)" "c_net c = []" using assms(1) by (auto simp: redis_ok_def)
  note q = storable_queue [OF assms(2)]
  note V = insert_job_views [OF t(1) q, where st = st and weight = "FormatUint (unat defWeight)" and score = score and i = "j_id j"
    and h = "job_pairs j"]
  note I = ref_insert [OF t(1) q assms(3)]
  have n: "c_net c' = []" using RB_insert_net [OF t(2), of "RefN tn" kb j "StateSet kb (j_queue j) st" score] assms(3) by simp
  show ?thesis
  proof (cases r)
    case (Inr u)
    then have m': "c_redis c' = stored_in kb j st score (c_redis c)" using I by simp
    have "redis_docs kb dt c' = (redis_docs kb dt c)(j_id j \<mapsto> stored j)"
      unfolding redis_docs_def m' V(3) by (rule ext) (simp add: toAggregate_job_pairs [OF assms(2)])
    then show ?thesis
      using Inr V(1) n assms(1) unfolding redis_ok_def redis_held_def holders_valid_def m' V(6) by simp
  next
    case (Inl e)
    have "document kb (c_redis c) (j_id j) = None \<Longrightarrow> r = Inr ()" using I t(2) by blast
    then have "document kb (c_redis c) (j_id j) \<noteq> None" using Inl by blast
    then have "c_redis c' = c_redis c" using conjunct1 [OF I] by metis
    then have "c' = c" using n t(2) by (cases c, cases c') simp
    then show ?thesis using Inl assms(1) by simp
  qed
qed

lemma redis_claim:
  assumes "redis_ok kb c" "k \<noteq> ''''" "RI_Claim (RefN tn) kb k i ttl c = (c', r)"
  shows "ttl < -1 \<Longrightarrow> c' = c \<and> (\<exists>e. r = Inl e)"
    and "-1 \<le> ttl \<Longrightarrow> redis_held kb c k = Some v \<Longrightarrow> c' = c \<and> r = Inr (False, v)"
    and "-1 \<le> ttl \<Longrightarrow> redis_held kb c k = None \<Longrightarrow> NewJobID i = Inr i \<Longrightarrow>
      redis_ok kb c' \<and> r = Inr (True, '''') \<and> redis_held kb c' = (redis_held kb c)(k \<mapsto> i) \<and>
      redis_docs kb dt c' = redis_docs kb dt c"
proof -
  have t: "typed kb (c_redis c)" "c_net c = []" "holders_valid kb (c_redis c)" using assms(1) by (auto simp: redis_ok_def)
  show "ttl < -1 \<Longrightarrow> c' = c \<and> (\<exists>e. r = Inl e)"
    using assms(2,3) t(2)
    by (auto simp: RI_Claim_def IsZero_def andThenS_def orInternal_def send_def ref_SETNX_def)
  show "c' = c \<and> r = Inr (False, v)" if ttl: "-1 \<le> ttl" and h: "redis_held kb c k = Some v"
  proof -
    have h': "holder kb (c_redis c) k = Some v" using h assms(2) by (simp add: redis_held_def)
    note S = ref_SETNX_view(1,2) [OF t(1) ttl, where k = k and i = i]
    have "ref_SETNX (Idempotency kb k) i ttl (c_redis c) = (c_redis c, Inr False)"
      using S h' by (metis option.discI prod.collapse)
    moreover have "NewJobID v = Inr v" using t(3) h' by (auto simp: holders_valid_def)
    ultimately show ?thesis
      using assms(2,3) t(2) ref_GET_view [OF t(1), of k] h'
      by (auto simp: RI_Claim_def IsZero_def andThenS_def orInternal_def send_def)
  qed
  show "redis_ok kb c' \<and> r = Inr (True, '''') \<and> redis_held kb c' = (redis_held kb c)(k \<mapsto> i) \<and>
      redis_docs kb dt c' = redis_docs kb dt c"
    if ttl: "-1 \<le> ttl" and h: "redis_held kb c k = None" and i: "NewJobID i = Inr i"
  proof -
    have h': "holder kb (c_redis c) k = None" using h assms(2) by (simp add: redis_held_def)
    note C = ref_Claim [OF t(1) assms(2) ttl assms(3)]
    have r: "c_net c' = []" "r = Inr (True, '''')" "holder kb (c_redis c') k = Some i" using C(3) [OF t(2)] h' by auto
    have s: "typed kb (c_redis c')" "document kb (c_redis c') = document kb (c_redis c)"
      "holder kb (c_redis c') = (holder kb (c_redis c))(k \<mapsto> i)"
      using C(1) r(3) h' unfolding claim_step_def by auto
    then show ?thesis
      using r t(3) i assms(2) by (auto simp: redis_ok_def redis_held_def redis_docs_def holders_valid_def fun_eq_iff)
  qed
qed

lemma DEL_claim_views:
  assumes "typed kb m"
  shows "typed kb (m(render kb (KClaim k) := None))"
    and "holder kb (m(render kb (KClaim k) := None)) = (holder kb m)(k := None)"
    and "document kb (m(render kb (KClaim k) := None)) = document kb m"
  using assms by (auto simp: typed_def holder_def document_def hash_at_def zset_at_def set_at_def fun_eq_iff)

lemma redis_release:
  assumes "redis_ok kb c" "RI_Release (RefN tn) kb k c = (c', r)"
  shows "redis_ok kb c' \<and> r = Inr () \<and> redis_held kb c' = (redis_held kb c)(k := None) \<and>
    redis_docs kb dt c' = redis_docs kb dt c"
proof (cases "k = ''''")
  case True
  then show ?thesis using assms by (auto simp: RI_Release_def IsZero_def redis_held_def fun_eq_iff)
next
  case False
  have c: "c_net c = []" "typed kb (c_redis c)" "holders_valid kb (c_redis c)" using assms(1) by (auto simp: redis_ok_def)
  have e: "c' = c\<lparr>c_redis := (c_redis c)(render kb (KClaim k) := None)\<rparr>" "r = Inr ()"
    using assms(2) False c(1) by (auto simp: RI_Release_def IsZero_def orInternal_def send_def ref_DEL_def key_render)
  show ?thesis
    using c False unfolding e redis_ok_def redis_held_def redis_docs_def
    by (auto simp: DEL_claim_views holders_valid_def)
qed

lemma claim_cases:
  assumes "redis_ok kb c" "k \<noteq> ''''" "RI_Claim (RefN tn) kb k i ttl c = (c', Inr (b, x))"
  shows "-1 \<le> ttl" "b \<longleftrightarrow> redis_held kb c k = None"
proof -
  note C = redis_claim [OF assms]
  show t: "-1 \<le> ttl" using C(1) by fastforce
  show "b \<longleftrightarrow> redis_held kb c k = None"
  proof (cases "redis_held kb c k")
    case None
    have "won (Inr (b, x))"
      using ref_Claim(3) [OF _ assms(2) t assms(3)] assms(1,2) None by (auto simp: redis_ok_def redis_held_def)
    then show ?thesis using None by simp
  next
    case (Some v)
    then show ?thesis using C(2) [OF t Some] by simp
  qed
qed

interpretation redis_view: document_view "redis_ok kb" "redis_docs kb dt" "redis_held kb" stored
  for kb dt
  by unfold_locales (simp_all add: stored_def)

interpretation redis_reader: document_reader "redis_ok kb" "redis_docs kb dt" "redis_held kb" stored
  "RJ_FindByID (RefN tn) kb dt"
  for kb dt tn
proof
  show "s' = s \<and> redis_docs kb dt s i = Some j" if "redis_ok kb s" "RJ_FindByID (RefN tn) kb dt i s = (s', Inr j)"
    for s i s' j using redis_find [OF that(1), of tn dt i] that(2) by auto
  show "s' = s \<and> (redis_docs kb dt s i = None \<or> KindOf e \<noteq> KindNotFound)"
    if "redis_ok kb s" "RJ_FindByID (RefN tn) kb dt i s = (s', Inl e)"
    for s i s' e using redis_find [OF that(1), of tn dt i] that(2) by (cases "redis_docs kb dt s i") auto
qed

lemma redis_insert_writes_on:
  "redis_view.writes_on kb dt storable (\<lambda>j. RB_insert (RefN tn) kb j (StateSet kb (j_queue j) st) (score j))"
  unfolding redis_view.writes_on_def
proof (intro allI impI)
  fix s j s' r
  assume "redis_ok kb s" "storable j" "RB_insert (RefN tn) kb j (StateSet kb (j_queue j) st) (score j) s = (s', r)"
  from redis_insert_writes [OF this, of dt]
  show "redis_ok kb s' \<and> redis_held kb s' = redis_held kb s \<and>
      (case r of
         Inr _ \<Rightarrow> redis_docs kb dt s' = (redis_docs kb dt s)(j_id j \<mapsto> stored j)
       | Inl _ \<Rightarrow> redis_docs kb dt s' = redis_docs kb dt s \<or>
           redis_docs kb dt s' = (redis_docs kb dt s)(j_id j \<mapsto> stored j))"
    by (cases r) auto
qed

lemma redis_writes:
  "redis_view.writes_on kb dt storable (RB_Enqueue (RefN tn) kb)"
  "redis_view.writes_on kb dt storable (RB_Schedule (RefN tn) kb)"
  using redis_insert_writes_on [where st = StatePending] redis_insert_writes_on [where st = StateScheduled]
  unfolding StateSet_def RB_Enqueue_def [abs_def] RB_Schedule_def [abs_def] by simp_all

interpretation redis_enqueue: enqueue_ports "redis_ok kb" "redis_docs kb dt" "redis_held kb" stored
  "RJ_FindByID (RefN tn) kb dt" storable "redisBroker (RefN tn) kb dt fuel now" "redisIdempotency (RefN tn) kb"
  for kb dt tn fuel now
proof (unfold_locales, unfold redisBroker_def redisIdempotency_def IJobBroker.select_convs IIdempotencyStore.select_convs)
  fix s k i ttl s' x e u
  show "redis_view.writes_on kb dt storable (RB_Enqueue (RefN tn) kb)"
    "redis_view.writes_on kb dt storable (RB_Schedule (RefN tn) kb)" by (rule redis_writes)+
  note claim = redis_claim(1,2) redis_claim(3) [where dt = dt] and release = redis_release [where dt = dt]
  { assume c: "redis_ok kb s" "k \<noteq> ''''" "NewJobID i = Inr i" "RI_Claim (RefN tn) kb k i ttl s = (s', Inr (True, x))"
    show "redis_ok kb s' \<and> redis_held kb s k = None \<and> redis_held kb s' = (redis_held kb s)(k \<mapsto> i) \<and>
        redis_docs kb dt s' = redis_docs kb dt s"
      using claim_cases [OF c(1,2,4)] claim(3) [OF c(1,2,4) _ _ c(3)] by auto }
  { assume c: "redis_ok kb s" "k \<noteq> ''''" "NewJobID i = Inr i" "RI_Claim (RefN tn) kb k i ttl s = (s', Inr (False, x))"
    show "redis_ok kb s' \<and> s' = s \<and> (x = '''' \<or> redis_held kb s k = Some x)"
      using claim_cases [OF c(1,2,4)] claim(2) [OF c(1,2,4)] c(1) by auto }
  { assume c: "redis_ok kb s" "k \<noteq> ''''" "NewJobID i = Inr i" "RI_Claim (RefN tn) kb k i ttl s = (s', Inl e)"
    show "redis_ok kb s' \<and> redis_docs kb dt s' = redis_docs kb dt s"
      using claim [OF c(1,2,4)] c(1,3) by (cases "redis_held kb s k"; cases "ttl < -1") auto }
  { assume c: "redis_ok kb s" "RI_Release (RefN tn) kb k s = (s', Inr u)"
    show "redis_ok kb s' \<and> redis_held kb s' = (redis_held kb s)(k := None) \<and> redis_docs kb dt s' = redis_docs kb dt s"
      using release [OF c] by blast }
  { assume c: "redis_ok kb s" "RI_Release (RefN tn) kb k s = (s', Inl e)"
    show "redis_ok kb s' \<and> redis_docs kb dt s' = redis_docs kb dt s" using release [OF c] by blast }
qed

section \<open>The service over any server\<close>

abbreviation redis_enqueuer ::
  "'r redis \<Rightarrow> KeyBuilder \<Rightarrow> decode_texts \<Rightarrow> nat \<Rightarrow> duration \<Rightarrow> string \<Rightarrow> time \<Rightarrow> EnqueueJobReq \<Rightarrow> ('r conn, EnqueueJobRes) call" where
  "redis_enqueuer R kb dt fuel ttl newID now \<equiv>
     Enqueue_service (redisJobRepo R kb dt now) (redisBroker R kb dt fuel now) (redisIdempotency R kb) ttl newID now"

text \<open>The calls of the service that look at the outcome of another, as one construct.\<close>

definition after :: "('s, 'a) call \<Rightarrow> ('a result \<Rightarrow> ('s, 'b) call) \<Rightarrow> ('s, 'b) call" where
  "after f k s = (case f s of (s', r) \<Rightarrow> k r s')"

lemma sim_after:
  assumes "sim L (=) f g" "\<And>r. sim L (=) (k r) (h r)"
  shows "sim L (=) (after f k) (after g h)"
  using assms unfolding sim_def after_def by (simp add: case_prod_unfold sum.rel_eq)

lemma sim_undone: "sim L (=) f g \<Longrightarrow> sim L (=) (\<lambda>s. (fst (f s), Inl e)) (\<lambda>s. (fst (g s), Inl e))"
  by (simp add: sim_def)

lemma resolveDuplicate_after:
  "resolveDuplicate repo key x =
     (if IsZero x then failS (duplicate_error key)
      else after (repo_FindByID repo x) (\<lambda>r. case r of
          Inl e \<Rightarrow> failS (if KindOf e = KindNotFound then duplicate_error key else e)
        | Inr existing \<Rightarrow> returnS (ToEnqueueJobRes existing True)))"
  by (auto simp: resolveDuplicate_def after_def fun_eq_iff split: prod.split sum.split)

lemma persist_or_release_after:
  "persist_or_release broker idem job =
     after (persist broker job) (\<lambda>r. case r of
         Inr _ \<Rightarrow> returnS (ToEnqueueJobRes job False)
       | Inl e \<Rightarrow> if \<not> IsZero (j_idempotencyKey job)
                then (\<lambda>s. (fst (idem_Release idem (j_idempotencyKey job) s), Inl e)) else failS e)"
  by (auto simp: persist_or_release_def after_def fun_eq_iff split: prod.split sum.split)

lemma Enqueue_service_after:
  "Enqueue_service repo broker idem ttl newID now req =
     (case buildJob newID now req of
        Inl e \<Rightarrow> failS e
      | Inr job \<Rightarrow>
          if \<not> IsZero (j_idempotencyKey job)
          then after (idem_Claim idem (j_idempotencyKey job) (j_id job) (effectiveTTL ttl)) (\<lambda>r. case r of
                   Inl e \<Rightarrow> failS e
                 | Inr (claimed, existingID) \<Rightarrow>
                     if \<not> claimed then resolveDuplicate repo (j_idempotencyKey job) existingID
                     else persist_or_release broker idem job)
          else persist_or_release broker idem job)"
  by (auto simp: Enqueue_service_def after_def fun_eq_iff split: prod.split sum.split)

context redis_server
begin

lemma sim_enqueuer:
  "sim (conn_rel L) (=) (redis_enqueuer R kb dt fuel ttl newID now req) (redis_enqueuer reference kb dt fuel ttl newID now req)"
proof -
  have insert: "sim (conn_rel L) (=) (persist (redisBroker R kb dt fuel now) job) (persist (redisBroker reference kb dt fuel now) job)" for job
    unfolding persist_def redisBroker_def RB_Enqueue_def RB_Schedule_def by (simp add: sim_insert)
  have release: "sim (conn_rel L) (=) (\<lambda>s. (fst (idem_Release (redisIdempotency R kb) k s), Inl e))
      (\<lambda>s. (fst (idem_Release (redisIdempotency reference kb) k s), Inl e))" for k e
    unfolding redisIdempotency_def by (intro sim_undone) (simp add: sim_release)
  have save: "sim (conn_rel L) (=) (persist_or_release (redisBroker R kb dt fuel now) (redisIdempotency R kb) job)
      (persist_or_release (redisBroker reference kb dt fuel now) (redisIdempotency reference kb) job)" for job
    unfolding persist_or_release_after
    by (intro sim_after insert) (auto split: sum.split intro: sim_returnS_eq sim_failS release)
  have look: "sim (conn_rel L) (=) (resolveDuplicate (redisJobRepo R kb dt now) k x) (resolveDuplicate (redisJobRepo reference kb dt now) k x)" for k x
    unfolding resolveDuplicate_after redisJobRepo_def IJobRepo.select_convs
    by (intro sim_if sim_failS sim_after sim_find_job) (auto split: sum.split intro: sim_returnS_eq sim_failS)
  show ?thesis
    unfolding Enqueue_service_after
    by (auto simp: redisIdempotency_def split: sum.split prod.split intro!: sim_failS sim_after sim_claim_key look
        save [unfolded redisIdempotency_def])
qed

text \<open>A request over the server, and the same request over the reference server that it is related to.\<close>

lemma enqueuer_reference:
  assumes "L (c_redis c) m" "redis_enqueuer R kb dt fuel ttl newID now req c = (c', r)"
  obtains d' where "redis_enqueuer reference kb dt fuel ttl newID now req \<lparr>c_redis = m, c_net = c_net c\<rparr> = (d', r)"
    "L (c_redis c') (c_redis d')" "c_net c' = c_net d'"
proof -
  have "conn_rel L c \<lparr>c_redis = m, c_net = c_net c\<rparr>" using assms(1) by (simp add: conn_rel_def)
  from simD [OF sim_enqueuer this assms(2)] show ?thesis
    using that by (auto simp: sum.rel_eq conn_rel_def)
qed

end

section \<open>Requests over a working connection\<close>

text \<open>The delays that fit a Go \<open>time.Duration\<close>: the conversion to nanoseconds does not overflow.\<close>

definition small_delays :: "EnqueueJobReq \<Rightarrow> bool" where
  "small_delays req \<longleftrightarrow>
     (\<forall>d \<in> set_option (rq_RetryBaseDelaySeconds req) \<union> set_option (rq_RetryMaxDelaySeconds req). d \<le> 9223372036)"

lemma secondsOr_whole:
  assumes "\<forall>d \<in> set_option v. d \<le> 9223372036" "whole_millis dflt" "dflt < 2 ^ 63"
  shows "whole_millis (secondsOr v dflt)" "secondsOr v dflt < 2 ^ 63"
proof -
  have "wrap64 (x * second) = x * second" if "0 < x" "x \<le> 9223372036" for x
    using that by (intro wrap64_id) (auto simp: duration_units)
  then show "whole_millis (secondsOr v dflt)" "secondsOr v dflt < 2 ^ 63"
    using assms by (auto simp: secondsOr_def whole_millis_def duration_units not_le split: option.split)
qed

lemma NewRetryPolicy_delays:
  assumes "NewRetryPolicy n b m name = Inr p"
  shows "rp_baseDelay p \<in> {b, DefaultBaseDelay}" "rp_maxDelay p \<in> {m, DefaultMaxDelay}"
  using assms by (force simp: NewRetryPolicy_def Let_def andThen_eq_Inr split: if_splits)+

lemma buildJob_storable:
  assumes "buildJob newID now req = Inr job" "small_delays req"
  shows "storable job"
proof -
  obtain p raw raw2 raw3 where p: "NewJob p = Inr job" "NewTaskType raw = Inr (p_TaskType p)"
    "NewQueueName raw2 = Inr (p_Queue p)" "ParsePriority raw3 = Inr (p_Priority p)"
    "NewIdempotencyKey (rq_IdempotencyKey req) = Inr (p_IdempotencyKey p)" "NewJobID newID = Inr (p_ID p)"
    "NewRetryPolicy (derefOr (rq_MaxRetries req) DefaultMaxRetries)
         (secondsOr (rq_RetryBaseDelaySeconds req) DefaultBaseDelay)
         (secondsOr (rq_RetryMaxDelaySeconds req) DefaultMaxDelay) (rq_BackoffStrategy req) = Inr (p_RetryPolicy p)"
    using assms(1) unfolding buildJob_def by (fastforce simp: andThen_eq_Inr)
  note valid = NewRetryPolicy_valid [OF p(7)]
  have d: "whole_millis DefaultBaseDelay" "whole_millis DefaultMaxDelay" "DefaultBaseDelay < 2 ^ 63" "DefaultMaxDelay < 2 ^ 63"
    by (simp_all add: whole_millis_def policy_limits duration_units)
  have s: "\<forall>d \<in> set_option (rq_RetryBaseDelaySeconds req). d \<le> 9223372036"
    "\<forall>d \<in> set_option (rq_RetryMaxDelaySeconds req). d \<le> 9223372036" using assms(2) by (auto simp: small_delays_def)
  have w: "whole_millis (rp_baseDelay (p_RetryPolicy p))" "whole_millis (rp_maxDelay (p_RetryPolicy p))"
    "rp_maxDelay (p_RetryPolicy p) < 2 ^ 63"
    using NewRetryPolicy_delays [OF p(7)] d secondsOr_whole [OF s(1) d(1,3)] secondsOr_whole [OF s(2) d(2,4)] by auto
  have job: "j_id job = p_ID p" "j_taskType job = p_TaskType p" "j_idempotencyKey job = p_IdempotencyKey p"
    "j_retryPolicy job = p_RetryPolicy p" using NewJob_lifecycle [OF p(1)] by simp_all
  have q: "queueNamePattern (p_Queue p)" using NewQueueName_pattern [OF p(3)] .
  have j2: "j_queue job = (if p_Queue p = '''' then DefaultQueueName else p_Queue p)"
    "j_priority job = (if p_Priority p = 0 then PriorityNormal else p_Priority p)"
    "0 \<le> j_timeout job" "j_timeout job \<le> MaxTimeout"
    using p(1) by (auto simp: NewJob_def Let_def split: if_splits)
  have "NewQueueName (j_queue job) = Inr (j_queue job)"
    using q pattern_NewQueueName DefaultQueueName_matches j2(1) by auto
  moreover have "NewPriority (j_priority job) = Inr (j_priority job)"
    using p(4) j2(2) by (auto simp: ParsePriority_def Let_def priority_levels NewPriority_def MinPriority_def MaxPriority_def split: if_splits)
  moreover have "NewTaskType (p_TaskType p) = Inr (p_TaskType p)"
    using p(2) by (blast intro: pattern_NewTaskType dest: NewTaskType_pattern)
  ultimately show ?thesis
    using job valid w j2 NewJobID_idem [OF p(6)] NewIdempotencyKey_idem [OF p(5)]
    by (simp add: storable_def MaxTimeout_def duration_units)
qed

definition entry_score :: "Job \<Rightarrow> int" where
  "entry_score job = (if j_state job = StateScheduled then fl64 (toMillis (j_processAt job))
     else PendingScore (j_priority job) (toMillis (j_processAt job)))"

lemma persist_insert:
  "j_state job \<in> {StatePending, StateScheduled} \<Longrightarrow>
     persist (redisBroker R kb dt fuel now) job = RB_insert R kb job (StateSet kb (j_queue job) (j_state job)) (entry_score job)"
  by (auto simp: persist_def redisBroker_def RB_Enqueue_def RB_Schedule_def entry_score_def StateSet_def)

lemma effectiveTTL_pos: "-1 \<le> effectiveTTL ttl"
  by (simp add: effectiveTTL_def duration_units)

lemma ref_enqueuer_held:
  assumes "redis_ok kb c" "buildJob newID now req = Inr job" "j_idempotencyKey job \<noteq> ''''"
    "holder kb (c_redis c) (j_idempotencyKey job) = Some i"
  shows "\<exists>r. redis_enqueuer (RefN tn) kb dt fuel ttl newID now req c = (c, r) \<and>
    (\<forall>res. r = Inr res \<longleftrightarrow> (\<exists>j. redis_docs kb dt c i = Some j \<and> res = ToEnqueueJobRes j True)) \<and>
    (document kb (c_redis c) i = None \<longrightarrow> r = Inl (duplicate_error (j_idempotencyKey job)))"
proof -
  let ?k = "j_idempotencyKey job"
  have h: "redis_held kb c ?k = Some i" using assms(3,4) by (simp add: redis_held_def)
  have i: "NewJobID i = Inr i" "i \<noteq> ''''"
    using assms(1,4) NewJobID_idem [of i i] by (auto simp: redis_ok_def holders_valid_def)
  obtain c1 r1 where C: "RI_Claim (RefN tn) kb ?k (j_id job) (effectiveTTL ttl) c = (c1, r1)" by fastforce
  have c: "c1 = c" "r1 = Inr (False, i)" using redis_claim(2) [OF assms(1,3) C effectiveTTL_pos h] by auto
  obtain r where f: "RJ_FindByID (RefN tn) kb dt i c = (c, r)" "\<forall>j. r = Inr j \<longleftrightarrow> redis_docs kb dt c i = Some j"
    using redis_find [OF assms(1)] by metis
  have n: "document kb (c_redis c) i = None \<Longrightarrow> r = Inl (NotFound EJobNotFound (''no job found with id '' @ i))"
    using ref_find [of kb c tn dt i] f(1) assms(1) by (simp add: redis_ok_def)
  have e: "redis_enqueuer (RefN tn) kb dt fuel ttl newID now req c =
      (c, case r of Inl e \<Rightarrow> Inl (if KindOf e = KindNotFound then duplicate_error ?k else e)
                  | Inr j \<Rightarrow> Inr (ToEnqueueJobRes j True))"
    using assms(2,3) C c f(1) i(2)
    by (auto simp: Enqueue_service_def IsZero_def redisIdempotency_def redisJobRepo_def resolveDuplicate_def split: sum.split)
  have d: "redis_docs kb dt c i = (case r of Inl _ \<Rightarrow> None | Inr j \<Rightarrow> Some j)"
  proof (cases r)
    case (Inl e)
    have "redis_docs kb dt c i \<noteq> Some j" for j using spec [OF f(2), of j] Inl by simp
    then show ?thesis using Inl by (cases "redis_docs kb dt c i") auto
  next
    case (Inr j)
    then show ?thesis using spec [OF f(2), of j] by simp
  qed
  show ?thesis using n unfolding e d by (cases r) auto
qed

lemma ref_insert_new:
  assumes "redis_ok kb c" "storable job" "document kb (c_redis c) (j_id job) = None"
  shows "\<exists>c'. RB_insert (RefN tn) kb job (StateSet kb (j_queue job) st) score c = (c', Inr ()) \<and> redis_ok kb c' \<and>
    c_redis c' = stored_in kb job st score (c_redis c)"
proof -
  obtain c' r where I: "RB_insert (RefN tn) kb job (StateSet kb (j_queue job) st) score c = (c', r)" by fastforce
  have t: "typed kb (c_redis c)" "c_net c = []" using assms(1) by (auto simp: redis_ok_def)
  note R = ref_insert [OF t(1) storable_queue [OF assms(2)] I]
  have r: "r = Inr ()" using R t(2) assms(3) by blast
  moreover have "c_redis c' = stored_in kb job st score (c_redis c)" using R r by blast
  moreover have "redis_ok kb c'" using redis_insert_writes [OF assms(1,2) I] by blast
  ultimately show ?thesis using I by blast
qed

text \<open>Storing a new job leaves the claims alone, and the new document has no time to live.\<close>

lemma insert_job_entries:
  assumes "queueNamePattern q"
  shows "insert_job kb q st weight score i h m (render kb (KClaim k)) = m (render kb (KClaim k))"
    and "typed kb m \<Longrightarrow> document kb m i = None \<Longrightarrow>
      insert_job kb q st weight score i h m (render kb (KJob i)) = Some \<lparr>e_value = RHash h, e_ttl = None\<rparr>"
proof -
  show "insert_job kb q st weight score i h m (render kb (KClaim k)) = m (render kb (KClaim k))"
    using assms by (simp add: insert_job_def announce_def put_members_def put_document_def put_zset_def put_value_def Let_def)
  assume "typed kb m" "document kb m i = None"
  then have "m (render kb (KJob i)) = None" unfolding document_def typed_def by (metis option.discI)
  then show "insert_job kb q st weight score i h m (render kb (KJob i)) = Some \<lparr>e_value = RHash h, e_ttl = None\<rparr>"
    using assms by (simp add: insert_job_def announce_def put_members_def put_document_def put_zset_def put_value_def Let_def)
qed

lemma ref_enqueuer_new:
  assumes "redis_ok kb c" "buildJob newID now req = Inr job" "storable job" "document kb (c_redis c) (j_id job) = None"
    "j_idempotencyKey job \<noteq> ''''" "holder kb (c_redis c) (j_idempotencyKey job) = None"
  shows "\<exists>c'. redis_enqueuer (RefN tn) kb dt fuel ttl newID now req c = (c', Inr (ToEnqueueJobRes job False)) \<and>
    redis_ok kb c' \<and> document kb (c_redis c') = (document kb (c_redis c))(j_id job \<mapsto> job_pairs job) \<and>
    holder kb (c_redis c') = (holder kb (c_redis c))(j_idempotencyKey job \<mapsto> j_id job) \<and>
    (entry_score job, j_id job) \<in> set (members kb (c_redis c') (j_queue job) (j_state job)) \<and>
    c_redis c' (render kb (KClaim (j_idempotencyKey job))) = Some (claim_entry (effectiveTTL ttl) (j_id job)) \<and>
    c_redis c' (render kb (KJob (j_id job))) = Some \<lparr>e_value = RHash (job_pairs job), e_ttl = None\<rparr>"
proof -
  let ?k = "j_idempotencyKey job"
  have t: "typed kb (c_redis c)" "c_net c = []" using assms(1) by (auto simp: redis_ok_def)
  have h: "redis_held kb c ?k = None" using assms(5,6) by (simp add: redis_held_def)
  have id: "NewJobID (j_id job) = Inr (j_id job)" using assms(3) by (simp add: storable_def)
  obtain c1 r1 where C: "RI_Claim (RefN tn) kb ?k (j_id job) (effectiveTTL ttl) c = (c1, r1)" by fastforce
  have c1: "redis_ok kb c1" "r1 = Inr (True, '''')" using redis_claim(3) [OF assms(1,5) C effectiveTTL_pos h id] by auto
  have s: "document kb (c_redis c1) = document kb (c_redis c)"
    "holder kb (c_redis c1) = (holder kb (c_redis c))(?k \<mapsto> j_id job)"
    using ref_Claim(1,2) [OF t(1) assms(5) effectiveTTL_pos C] assms(6) c1(2) unfolding claim_step_def by auto
  have d1: "document kb (c_redis c1) (j_id job) = None" using s(1) assms(4) by simp
  obtain c2 where I: "RB_insert (RefN tn) kb job (StateSet kb (j_queue job) (j_state job)) (entry_score job) c1 = (c2, Inr ())"
    "redis_ok kb c2" "c_redis c2 = stored_in kb job (j_state job) (entry_score job) (c_redis c1)"
    using ref_insert_new [OF c1(1) assms(3) d1] by metis
  have t1: "typed kb (c_redis c1)" using c1(1) by (simp add: redis_ok_def)
  note q = storable_queue [OF assms(3)]
  note V = insert_job_views [OF t1 q]
  have st: "j_state job \<in> {StatePending, StateScheduled}" using buildJob_Inr(3) [OF assms(2)] .
  have "redis_enqueuer (RefN tn) kb dt fuel ttl newID now req c = (c2, Inr (ToEnqueueJobRes job False))"
    using assms(2,5) C c1(2) I(1) persist_insert [OF st, of "RefN tn" kb dt fuel now]
    by (simp add: Enqueue_service_def IsZero_def redisIdempotency_def persist_or_release_def)
  moreover have "document kb (c_redis c2) = (document kb (c_redis c))(j_id job \<mapsto> job_pairs job)"
    "holder kb (c_redis c2) = (holder kb (c_redis c))(?k \<mapsto> j_id job)"
    unfolding I(3) by (rule ext, simp add: V s)+
  moreover have "(entry_score job, j_id job) \<in> set (members kb (c_redis c2) (j_queue job) (j_state job))"
    unfolding I(3) using V(2) [OF q] by (simp add: zput_def set_insort_key)
  moreover have "c_redis c2 (render kb (KClaim ?k)) = Some (claim_entry (effectiveTTL ttl) (j_id job))"
    unfolding I(3) insert_job_entries(1) [OF q]
    using claim_granted_entry [OF t(1) assms(5) effectiveTTL_pos C] c1(2) by simp
  moreover have "c_redis c2 (render kb (KJob (j_id job))) = Some \<lparr>e_value = RHash (job_pairs job), e_ttl = None\<rparr>"
    unfolding I(3) by (rule insert_job_entries(2) [OF q t1 d1])
  ultimately show ?thesis using I(2) by blast
qed

section \<open>Properties\<close>

lemma holders_valid_elapse: "holders_valid kb m \<Longrightarrow> holders_valid kb (ref_elapse d m)"
  unfolding holders_valid_def using holder_elapse_cases [of kb d m] by (metis empty_iff insertE option.discI)

text \<open>A request with a free key over a working connection, and what becomes of its claim and its document as time passes.\<close>

lemma redis_enqueue_spec:
  assumes "redis_server R L" and "L (c_redis c) m" and "c_net c = []" and "typed kb m" and "holders_valid kb m"
    and "buildJob newID now req = Inr job" and "small_delays req" and "j_idempotencyKey job \<noteq> ''''"
    and "document kb m (j_id job) = None" and "holder kb m (j_idempotencyKey job) = None"
  shows "\<exists>c1 m1. redis_enqueuer R kb dt fuel ttl newID now req c = (c1, Inr (ToEnqueueJobRes job False)) \<and>
    L (c_redis c1) m1 \<and> c_net c1 = [] \<and> typed kb m1 \<and> holders_valid kb m1 \<and>
    document kb m1 = (document kb m)(j_id job \<mapsto> job_pairs job) \<and>
    holder kb m1 = (holder kb m)(j_idempotencyKey job \<mapsto> j_id job) \<and>
    (entry_score job, j_id job) \<in> set (members kb m1 (j_queue job) (j_state job)) \<and>
    (\<forall>d. holder kb (ref_elapse d m1) (j_idempotencyKey job) = (if claim_lasts (effectiveTTL ttl) d then Some (j_id job) else None) \<and>
       document kb (ref_elapse d m1) (j_id job) = Some (job_pairs job))"
proof -
  let ?d = "\<lparr>c_redis = m, c_net = c_net c\<rparr>" and ?tn = "r_tonumber R" and ?k = "j_idempotencyKey job"
  have st: "storable job" using buildJob_storable [OF assms(6,7)] .
  have ok: "redis_ok kb ?d" using assms(3-5) by (simp add: redis_ok_def)
  have "document kb (c_redis ?d) (j_id job) = None" "holder kb (c_redis ?d) ?k = None"
    using assms(9,10) by simp_all
  from ref_enqueuer_new [OF ok assms(6) st this(1) assms(8) this(2), of ?tn dt fuel ttl, unfolded conn.select_convs]
  obtain d1 where d1: "redis_enqueuer (RefN ?tn) kb dt fuel ttl newID now req ?d = (d1, Inr (ToEnqueueJobRes job False))"
    "redis_ok kb d1" "document kb (c_redis d1) = (document kb m)(j_id job \<mapsto> job_pairs job)"
    "holder kb (c_redis d1) = (holder kb m)(?k \<mapsto> j_id job)"
    "(entry_score job, j_id job) \<in> set (members kb (c_redis d1) (j_queue job) (j_state job))"
    "c_redis d1 (render kb (KClaim ?k)) = Some (claim_entry (effectiveTTL ttl) (j_id job))"
    "c_redis d1 (render kb (KJob (j_id job))) = Some \<lparr>e_value = RHash (job_pairs job), e_ttl = None\<rparr>" by blast
  obtain c1 r where c1: "redis_enqueuer R kb dt fuel ttl newID now req c = (c1, r)" by fastforce
  have e1: "r = Inr (ToEnqueueJobRes job False)" "L (c_redis c1) (c_redis d1)" "c_net c1 = c_net d1"
    using redis_server.enqueuer_reference [OF assms(1,2) c1] d1(1) by (metis prod.inject)+
  have "holder kb (ref_elapse d (c_redis d1)) ?k = (if claim_lasts (effectiveTTL ttl) d then Some (j_id job) else None)" for d
    using holder_elapse [of kb d "c_redis d1" ?k] held_over_entry [where m = "c_redis d1" and kb = kb and k = ?k, OF d1(6)]
    by (cases "holder kb (ref_elapse d (c_redis d1)) ?k") auto
  moreover have "document kb (ref_elapse d (c_redis d1)) (j_id job) = Some (job_pairs job)" for d
    using d1(7) by (simp add: document_def hash_at_def ref_elapse_def)
  moreover have "typed kb (c_redis d1)" "holders_valid kb (c_redis d1)" "c_net c1 = []"
    using d1(2) e1(3) by (simp_all add: redis_ok_def)
  ultimately show ?thesis using c1 e1(1,2) d1(3-5) by blast
qed

text \<open>A request whose key is held, over a working connection.\<close>

lemma redis_enqueue_held:
  assumes "redis_server R L" and "L (c_redis c) m" and "c_net c = []" and "typed kb m" and "holders_valid kb m"
    and "buildJob newID now req = Inr job" and "j_idempotencyKey job \<noteq> ''''" and "holder kb m (j_idempotencyKey job) = Some i"
    and "document kb m i = Some h" and "toAggregate dt h = Inr j"
  shows "\<exists>c'. redis_enqueuer R kb dt fuel ttl newID now req c = (c', Inr (ToEnqueueJobRes j True)) \<and> L (c_redis c') m"
proof -
  let ?d = "\<lparr>c_redis = m, c_net = c_net c\<rparr>" and ?tn = "r_tonumber R"
  have ok: "redis_ok kb ?d" using assms(3-5) by (simp add: redis_ok_def)
  have "holder kb (c_redis ?d) (j_idempotencyKey job) = Some i" "redis_docs kb dt ?d i = Some j"
    using assms(8-10) by (simp_all add: redis_docs_def)
  then have d: "redis_enqueuer (RefN ?tn) kb dt fuel ttl newID now req ?d = (?d, Inr (ToEnqueueJobRes j True))"
    using ref_enqueuer_held [OF ok assms(6,7), of i ?tn dt fuel ttl] by metis
  obtain c' r where c': "redis_enqueuer R kb dt fuel ttl newID now req c = (c', r)" by fastforce
  from redis_server.enqueuer_reference [OF assms(1,2) this] d show ?thesis using c' by (metis conn.select_convs(1) prod.inject)
qed

text \<open>A repetition after a pause: the stored job while the claim lasts, a new job afterwards.\<close>

lemma redis_enqueue_repeated:
  assumes "redis_server R L" and "L (c_redis c1) m1" and "c_net c1 = []" and "typed kb m1" and "holders_valid kb m1"
    and "storable job" and "j_idempotencyKey job \<noteq> ''''" and "0 \<le> d"
    and "holder kb (ref_elapse d m1) (j_idempotencyKey job) = (if claim_lasts (effectiveTTL ttl) d then Some (j_id job) else None)"
    and "document kb (ref_elapse d m1) (j_id job) = Some (job_pairs job)"
    and "buildJob newID' now' req' = Inr job'" and "j_idempotencyKey job' = j_idempotencyKey job"
  shows "if claim_lasts (effectiveTTL ttl) d
    then \<exists>c2. redis_enqueuer R kb dt fuel ttl newID' now' req' (elapse R d c1) = (c2, Inr (ToEnqueueJobRes (stored job) True)) \<and>
      L (c_redis c2) (ref_elapse d m1)
    else small_delays req' \<longrightarrow> document kb (ref_elapse d m1) (j_id job') = None \<longrightarrow>
      (\<exists>c2 m2. redis_enqueuer R kb dt fuel ttl newID' now' req' (elapse R d c1) = (c2, Inr (ToEnqueueJobRes job' False)) \<and>
         L (c_redis c2) m2 \<and> document kb m2 (j_id job') = Some (job_pairs job'))"
proof -
  let ?c = "elapse R d c1" and ?m = "ref_elapse d m1"
  have e: "L (c_redis ?c) ?m" "c_net ?c = []" "typed kb ?m" "holders_valid kb ?m"
    using redis_server.elapses [OF assms(1,2,8)] assms(3-5) by (simp_all add: typed_elapse holders_valid_elapse)
  have k: "j_idempotencyKey job' \<noteq> ''''" using assms(7,12) by simp
  show ?thesis
  proof (cases "claim_lasts (effectiveTTL ttl) d")
    case True
    then have "holder kb ?m (j_idempotencyKey job') = Some (j_id job)" using assms(9,12) by simp
    from redis_enqueue_held [OF assms(1) e assms(11) k this assms(10) toAggregate_job_pairs [OF assms(6)]] True
    show ?thesis by simp
  next
    case False
    then have h: "holder kb ?m (j_idempotencyKey job') = None" using assms(9,12) by simp
    show ?thesis using False redis_enqueue_spec [OF assms(1) e assms(11) _ k _ h] by (simp, metis fun_upd_same)
  qed
qed

text \<open>
  C12. One job per idempotency key while the key is held, on Redis. Over a working connection, a request whose key is free and
  whose identifier is new stores the job: its document, its entry in the set of its state, and the key,
  which now stands for it. When \<open>d\<close> milliseconds have passed, a request with the same key and whatever identifier is
  answered with the stored job, marked as deduplicated, and leaves Redis as it is, exactly while the time to live of the claim
  has not passed; afterwards the key is free, and the request stores a job of its own under a new identifier. More generally,
  in every later state in which the key still stands for the job, whatever has become of the job
  in the meantime, such a request is answered with the job as it is then and stores nothing.
\<close>

theorem redis_enqueue_idempotent:
  assumes "redis_server R L" and "L (c_redis c) m" and "c_net c = []" and "typed kb m" and "holders_valid kb m"
    and "buildJob newID now req = Inr job" and "small_delays req" and "j_idempotencyKey job \<noteq> ''''"
    and "document kb m (j_id job) = None" and "holder kb m (j_idempotencyKey job) = None"
  shows "\<exists>c1 m1. redis_enqueuer R kb dt fuel ttl newID now req c = (c1, Inr (ToEnqueueJobRes job False)) \<and>
    L (c_redis c1) m1 \<and> typed kb m1 \<and> document kb m1 = (document kb m)(j_id job \<mapsto> job_pairs job) \<and>
    holder kb m1 = (holder kb m)(j_idempotencyKey job \<mapsto> j_id job) \<and>
    (entry_score job, j_id job) \<in> set (members kb m1 (j_queue job) (j_state job)) \<and>
    (\<forall>d newID' now' req' job'. 0 \<le> d \<longrightarrow> buildJob newID' now' req' = Inr job' \<longrightarrow> j_idempotencyKey job' = j_idempotencyKey job \<longrightarrow>
       (if claim_lasts (effectiveTTL ttl) d
        then \<exists>c2. redis_enqueuer R kb dt fuel ttl newID' now' req' (elapse R d c1) = (c2, Inr (ToEnqueueJobRes (stored job) True)) \<and>
          L (c_redis c2) (ref_elapse d m1)
        else small_delays req' \<longrightarrow> document kb (ref_elapse d m1) (j_id job') = None \<longrightarrow>
          (\<exists>c2 m2. redis_enqueuer R kb dt fuel ttl newID' now' req' (elapse R d c1) = (c2, Inr (ToEnqueueJobRes job' False)) \<and>
             L (c_redis c2) m2 \<and> document kb m2 (j_id job') = Some (job_pairs job')))) \<and>
    (\<forall>c' m' h j newID' now' req' job'. L (c_redis c') m' \<longrightarrow> c_net c' = [] \<longrightarrow> typed kb m' \<longrightarrow> holders_valid kb m' \<longrightarrow>
       holder kb m' (j_idempotencyKey job) = Some (j_id job) \<longrightarrow> document kb m' (j_id job) = Some h \<longrightarrow> toAggregate dt h = Inr j \<longrightarrow>
       buildJob newID' now' req' = Inr job' \<longrightarrow> j_idempotencyKey job' = j_idempotencyKey job \<longrightarrow>
       (\<exists>c2. redis_enqueuer R kb dt fuel ttl newID' now' req' c' = (c2, Inr (ToEnqueueJobRes j True)) \<and> L (c_redis c2) m'))"
proof -
  have st: "storable job" using buildJob_storable [OF assms(6,7)] .
  obtain c1 m1 where E: "redis_enqueuer R kb dt fuel ttl newID now req c = (c1, Inr (ToEnqueueJobRes job False))"
    "L (c_redis c1) m1" "c_net c1 = []" "typed kb m1" "holders_valid kb m1" "document kb m1 = (document kb m)(j_id job \<mapsto> job_pairs job)"
    "holder kb m1 = (holder kb m)(j_idempotencyKey job \<mapsto> j_id job)"
    "(entry_score job, j_id job) \<in> set (members kb m1 (j_queue job) (j_state job))"
    and later: "\<And>d. holder kb (ref_elapse d m1) (j_idempotencyKey job) = (if claim_lasts (effectiveTTL ttl) d then Some (j_id job) else None)"
      "\<And>d. document kb (ref_elapse d m1) (j_id job) = Some (job_pairs job)"
    using redis_enqueue_spec [OF assms, of dt fuel ttl] by blast
  note again = redis_enqueue_repeated [OF assms(1) E(2-5) st assms(8) _ later]
  have while_held: "\<exists>c2. redis_enqueuer R kb dt fuel ttl newID' now' req' c' = (c2, Inr (ToEnqueueJobRes j True)) \<and> L (c_redis c2) m'"
    if a: "L (c_redis c') m'" "c_net c' = []" "typed kb m'" "holders_valid kb m'"
      "holder kb m' (j_idempotencyKey job) = Some (j_id job)" "document kb m' (j_id job) = Some h" "toAggregate dt h = Inr j"
      "buildJob newID' now' req' = Inr job'" "j_idempotencyKey job' = j_idempotencyKey job"
    for c' m' h j newID' now' req' job'
    by (rule redis_enqueue_held [OF assms(1) a(1-4,8) _ _ a(6,7)]) (use a(5,9) assms(8) in simp_all)
  show ?thesis
    by (rule exI [of _ c1], rule exI [of _ m1], intro conjI E(1,2,4,6-8) allI impI)
       (blast intro: again while_held)+
qed

section \<open>Requests over a connection that loses replies\<close>

lemma claim_delivered:
  assumes "typed kb (c_redis c)" "k \<noteq> ''''" "-1 \<le> ttl" "holder kb (c_redis c) k = None" "c_net c = Delivered 0 # net"
    "RI_Claim (RefN tn) kb k i ttl c = (c', r)"
  shows "r = Inr (True, '''') \<and> c_net c' = net \<and> typed kb (c_redis c') \<and>
    holder kb (c_redis c') = (holder kb (c_redis c))(k \<mapsto> i) \<and> document kb (c_redis c') = document kb (c_redis c)"
proof -
  let ?m1 = "fst (ref_SETNX (Idempotency kb k) i ttl (c_redis c))"
  note S = ref_SETNX_view [OF assms(1,3), where k = k and i = i]
  have "snd (ref_SETNX (Idempotency kb k) i ttl (c_redis c)) = Inr True" using S(2) assms(4) by simp
  then have "r = Inr (True, '''')" "c' = c\<lparr>c_redis := ?m1, c_net := net\<rparr>"
    using assms(2,5,6) by (auto simp: RI_Claim_def IsZero_def andThenS_def orInternal_def send_def executed_def Let_def)
  moreover have "document kb ?m1 = document kb (c_redis c)" "holder kb ?m1 = (holder kb (c_redis c))(k \<mapsto> i)"
    using S(4,5) assms(4) by (auto simp: fun_eq_iff)
  ultimately show ?thesis using S(3) by simp
qed

lemma insert_lost_reply:
  assumes "typed kb (c_redis c)" "queueNamePattern (j_queue job)" "document kb (c_redis c) (j_id job) = None"
    "c_net c = Delivered (Suc n) # net"
  shows "RB_insert (RefN tn) kb job (StateSet kb (j_queue job) st) score c =
    (c\<lparr>c_redis := stored_in kb job st score (c_redis c), c_net := net\<rparr>,
     Inl (Conflict ''duplicate_job_id'' ''a job with this id already exists''))"
proof -
  let ?i = "j_id job" and ?q = "j_queue job" and ?m = "c_redis c"
  let ?m' = "stored_in kb job st score ?m"
  define F where "F = enqueue_lua (RefN tn) (Job_key kb ?i) (StateSet kb ?q st) (QueueRegistry kb) (QueueMeta kb ?q) ?i score ?q
    (FormatUint (unat defWeight)) (flatten (job_pairs job))"
  have F: "F m = (if document kb m ?i = None then (stored_in kb job st score m, Inr 1) else (m, Inr 0))"
    if "typed kb m" for m
    unfolding F_def using assms(2) that by (intro enqueue_lua_spec) simp_all
  have again: "F ?m' = (?m', Inr 0)" using insert_job_views(1,3) [OF assms(1,2)] by (simp add: F)
  have "executed (Suc n) F ?m = ?m'"
    using F [OF assms(1)] assms(3) again by (induction n) (simp_all add: executed_def)
  then have "send F c = (c\<lparr>c_redis := ?m', c_net := net\<rparr>, Inr 0)" using assms(4) again by (simp add: send_def)
  then show ?thesis
    unfolding RB_insert_def F_def toJobFields_pairs by (simp add: andThenS_def orInternal_def)
qed

lemma ref_lost_claim:
  assumes "typed kb m" "holders_valid kb m" "buildJob newID now req = Inr job" "j_idempotencyKey job \<noteq> ''''"
    "document kb m (j_id job) = None" "holder kb m (j_idempotencyKey job) = None"
  shows "\<exists>c1. redis_enqueuer (RefN tn) kb dt fuel ttl newID now req \<lparr>c_redis = m, c_net = [Delivered (Suc n)]\<rparr> =
      (c1, Inl (duplicate_error (j_idempotencyKey job))) \<and> redis_ok kb c1 \<and> document kb (c_redis c1) = document kb m \<and>
    holder kb (c_redis c1) = (holder kb m)(j_idempotencyKey job \<mapsto> j_id job)"
proof -
  let ?k = "j_idempotencyKey job" and ?c = "\<lparr>c_redis = m, c_net = [Delivered (Suc n)]\<rparr>"
  have id: "NewJobID (j_id job) = Inr (j_id job)" "j_id job \<noteq> ''''" using NewJobID_idem buildJob_Inr(4) [OF assms(3)] by blast+
  obtain c1 r where C: "RI_Claim (RefN tn) kb ?k (j_id job) (effectiveTTL ttl) ?c = (c1, r)" by fastforce
  have c1: "r = Inr (False, j_id job)" "typed kb (c_redis c1)" "holder kb (c_redis c1) = (holder kb m)(?k \<mapsto> j_id job)"
    "document kb (c_redis c1) = document kb m" "c_net c1 = []"
    using claim_lost_reply [OF _ assms(4) effectiveTTL_pos id(1) _ _ _ C] assms(1,6) by simp_all
  have ok: "redis_ok kb c1" using c1 assms(2) id(1) by (auto simp: redis_ok_def holders_valid_def)
  have "RJ_FindByID (RefN tn) kb dt (j_id job) c1 = (c1, Inl (NotFound EJobNotFound (''no job found with id '' @ j_id job)))"
    using ref_find [OF c1(2,5)] c1(4) assms(5) by simp
  then have "redis_enqueuer (RefN tn) kb dt fuel ttl newID now req ?c = (c1, Inl (duplicate_error ?k))"
    using assms(3,4) C c1(1) id(2)
    by (simp add: Enqueue_service_def IsZero_def redisIdempotency_def redisJobRepo_def resolveDuplicate_def)
  then show ?thesis using ok c1(3,4) by blast
qed

lemma ref_lost_insert:
  assumes "typed kb m" "holders_valid kb m" "buildJob newID now req = Inr job" "storable job" "j_idempotencyKey job \<noteq> ''''"
    "document kb m (j_id job) = None" "holder kb m (j_idempotencyKey job) = None"
  shows "\<exists>c1. redis_enqueuer (RefN tn) kb dt fuel ttl newID now req
      \<lparr>c_redis = m, c_net = [Delivered 0, Delivered (Suc n)]\<rparr> =
      (c1, Inl (Conflict ''duplicate_job_id'' ''a job with this id already exists'')) \<and> redis_ok kb c1 \<and>
    document kb (c_redis c1) = (document kb m)(j_id job \<mapsto> job_pairs job) \<and> holder kb (c_redis c1) = holder kb m"
proof -
  let ?k = "j_idempotencyKey job" and ?c = "\<lparr>c_redis = m, c_net = [Delivered 0, Delivered (Suc n)]\<rparr>"
  let ?e = "Conflict ''duplicate_job_id'' ''a job with this id already exists''"
  have id: "NewJobID (j_id job) = Inr (j_id job)" using assms(4) by (simp add: storable_def)
  obtain c1 r where C: "RI_Claim (RefN tn) kb ?k (j_id job) (effectiveTTL ttl) ?c = (c1, r)" by fastforce
  have c1: "r = Inr (True, '''')" "c_net c1 = [Delivered (Suc n)]" "typed kb (c_redis c1)"
    "holder kb (c_redis c1) = (holder kb m)(?k \<mapsto> j_id job)" "document kb (c_redis c1) = document kb m"
    using claim_delivered [OF _ assms(5) effectiveTTL_pos _ _ C] assms(1,7) by simp_all
  note q = storable_queue [OF assms(4)]
  let ?m2 = "stored_in kb job (j_state job) (entry_score job) (c_redis c1)"
  let ?c2 = "c1\<lparr>c_redis := ?m2, c_net := []\<rparr>"
  note V = insert_job_views [OF c1(3) q]
  have "document kb (c_redis c1) (j_id job) = None" using c1(5) assms(6) by simp
  from insert_lost_reply [OF c1(3) q this c1(2), of tn "j_state job" "entry_score job"]
  have P: "persist (redisBroker (RefN tn) kb dt fuel now) job c1 = (?c2, Inl ?e)"
    using persist_insert [OF buildJob_Inr(3) [OF assms(3)], of "RefN tn" kb dt fuel now] by simp
  have ok2: "redis_ok kb ?c2"
    using V(1,6) c1(4) assms(2) id by (auto simp: redis_ok_def holders_valid_def split: if_splits)
  obtain c3 r3 where Rel: "RI_Release (RefN tn) kb ?k ?c2 = (c3, r3)" by fastforce
  have c3: "c_redis c3 = ?m2(render kb (KClaim ?k) := None)"
    using Rel assms(5) by (auto simp: RI_Release_def IsZero_def orInternal_def send_def ref_DEL_def key_render)
  have "redis_ok kb c3" using redis_release [OF ok2 Rel] by blast
  moreover have "redis_enqueuer (RefN tn) kb dt fuel ttl newID now req ?c = (c3, Inl ?e)"
    using assms(3,5) C c1(1) P Rel
    by (simp add: Enqueue_service_def IsZero_def redisIdempotency_def persist_or_release_def)
  moreover have "document kb (c_redis c3) = (document kb m)(j_id job \<mapsto> job_pairs job)" "holder kb (c_redis c3) = holder kb m"
    unfolding c3 DEL_claim_views [OF V(1)] by (rule ext, simp add: V c1(4,5) assms(7))+
  ultimately show ?thesis by blast
qed

text \<open>
  C28. A lost reply to the claim blocks the key. When the reply to \<open>SET NX\<close> is lost, the client repeats the
  command, which finds the key taken by its own first execution: the request is refused as a duplicate,
  no job is stored, and the key stays held by an identifier that no job has. Every later request
  with that key is refused too, until the key expires.
\<close>

theorem redis_lost_claim_blocks_key:
  assumes "redis_server R L" and "L (c_redis c) m" and "c_net c = [Delivered (Suc n)]" and "typed kb m"
    and "holders_valid kb m" and "buildJob newID now req = Inr job" and "j_idempotencyKey job \<noteq> ''''"
    and "document kb m (j_id job) = None" and "holder kb m (j_idempotencyKey job) = None"
  shows "\<exists>c1 m1. redis_enqueuer R kb dt fuel ttl newID now req c = (c1, Inl (duplicate_error (j_idempotencyKey job))) \<and>
    L (c_redis c1) m1 \<and> document kb m1 = document kb m \<and> holder kb m1 (j_idempotencyKey job) = Some (j_id job) \<and>
    (\<forall>newID' now' req' job'. buildJob newID' now' req' = Inr job' \<longrightarrow> j_idempotencyKey job' = j_idempotencyKey job \<longrightarrow>
       (\<exists>c2. redis_enqueuer R kb dt fuel ttl newID' now' req' c1 = (c2, Inl (duplicate_error (j_idempotencyKey job))) \<and>
          L (c_redis c2) m1))"
proof -
  let ?k = "j_idempotencyKey job" and ?tn = "r_tonumber R"
  obtain d1 where d1: "redis_enqueuer (RefN ?tn) kb dt fuel ttl newID now req \<lparr>c_redis = m, c_net = c_net c\<rparr> =
      (d1, Inl (duplicate_error ?k))" "redis_ok kb d1" "document kb (c_redis d1) = document kb m"
      "holder kb (c_redis d1) = (holder kb m)(?k \<mapsto> j_id job)"
    using ref_lost_claim [OF assms(4-9), of ?tn dt fuel ttl n] assms(3) by metis
  obtain c1 r where c1: "redis_enqueuer R kb dt fuel ttl newID now req c = (c1, r)" by fastforce
  have e1: "r = Inl (duplicate_error ?k)" "L (c_redis c1) (c_redis d1)" "c_net c1 = c_net d1"
    using redis_server.enqueuer_reference [OF assms(1,2) c1] d1(1) by (metis prod.inject)+
  have "\<exists>c2. redis_enqueuer R kb dt fuel ttl newID' now' req' c1 = (c2, Inl (duplicate_error ?k)) \<and> L (c_redis c2) (c_redis d1)"
    if b: "buildJob newID' now' req' = Inr job'" "j_idempotencyKey job' = ?k" for newID' now' req' job'
  proof -
    have h: "j_idempotencyKey job' \<noteq> ''''" "holder kb (c_redis d1) (j_idempotencyKey job') = Some (j_id job)"
      using d1(4) b(2) assms(7) by simp_all
    have d2: "redis_enqueuer (RefN ?tn) kb dt fuel ttl newID' now' req' d1 = (d1, Inl (duplicate_error ?k))"
      using ref_enqueuer_held [OF d1(2) b(1) h, of ?tn dt fuel ttl] d1(3) assms(8) b(2) by metis
    have eq: "\<lparr>c_redis = c_redis d1, c_net = c_net c1\<rparr> = d1" using e1(3) by simp
    obtain c2 r2 where c2: "redis_enqueuer R kb dt fuel ttl newID' now' req' c1 = (c2, r2)" by fastforce
    then show ?thesis
      using redis_server.enqueuer_reference [OF assms(1) e1(2) c2] d2 unfolding eq by (metis prod.inject)
  qed
  moreover have "holder kb (c_redis d1) ?k = Some (j_id job)" using d1(4) by simp
  ultimately show ?thesis using c1 e1 d1(3) by blast
qed

text \<open>
  C27. A lost reply to the enqueue script breaks the one-job-per-key rule. The script has stored the job; its
  repetition finds the document and reports a conflict, which the service takes for a failed write: it
  answers with an error and gives up the key. When the client sends the request again, as the error
  invites it to, a second job is stored for the same key, beside the first.
\<close>

theorem redis_lost_enqueue_reply_duplicates:
  assumes "redis_server R L" and "L (c_redis c) m" and "c_net c = [Delivered 0, Delivered (Suc n)]" and "typed kb m"
    and "holders_valid kb m" and "buildJob newID now req = Inr job" and "small_delays req" and "j_idempotencyKey job \<noteq> ''''"
    and "document kb m (j_id job) = None" and "holder kb m (j_idempotencyKey job) = None"
    and "buildJob newID' now' req = Inr job'" and "j_id job' \<noteq> j_id job" and "document kb m (j_id job') = None"
  shows "\<exists>c1 c2 m2. redis_enqueuer R kb dt fuel ttl newID now req c =
      (c1, Inl (Conflict ''duplicate_job_id'' ''a job with this id already exists'')) \<and>
    redis_enqueuer R kb dt fuel ttl newID' now' req c1 = (c2, Inr (ToEnqueueJobRes job' False)) \<and> L (c_redis c2) m2 \<and>
    document kb m2 = (document kb m)(j_id job \<mapsto> job_pairs job, j_id job' \<mapsto> job_pairs job') \<and>
    j_idempotencyKey job' = j_idempotencyKey job"
proof -
  let ?k = "j_idempotencyKey job" and ?tn = "r_tonumber R"
  let ?e = "Conflict ''duplicate_job_id'' ''a job with this id already exists''"
  have st: "storable job" "storable job'" using buildJob_storable assms(6,7,11) by blast+
  have k: "j_idempotencyKey job' = ?k" using buildJob_Inr(5) [OF assms(6)] buildJob_Inr(5) [OF assms(11)] by simp
  obtain d1 where d1: "redis_enqueuer (RefN ?tn) kb dt fuel ttl newID now req \<lparr>c_redis = m, c_net = c_net c\<rparr> = (d1, Inl ?e)"
      "redis_ok kb d1" "document kb (c_redis d1) = (document kb m)(j_id job \<mapsto> job_pairs job)" "holder kb (c_redis d1) = holder kb m"
    using ref_lost_insert [OF assms(4-6) st(1) assms(8-10), of ?tn dt fuel ttl n] assms(3) by metis
  obtain c1 r where c1: "redis_enqueuer R kb dt fuel ttl newID now req c = (c1, r)" by fastforce
  have e1: "r = Inl ?e" "L (c_redis c1) (c_redis d1)" "c_net c1 = c_net d1"
    using redis_server.enqueuer_reference [OF assms(1,2) c1] d1(1) by (metis prod.inject)+
  have fresh: "document kb (c_redis d1) (j_id job') = None" "j_idempotencyKey job' \<noteq> ''''"
    "holder kb (c_redis d1) (j_idempotencyKey job') = None" using d1(3,4) assms(8,10,12,13) k by simp_all
  obtain d2 where d2: "redis_enqueuer (RefN ?tn) kb dt fuel ttl newID' now' req d1 = (d2, Inr (ToEnqueueJobRes job' False))"
    "document kb (c_redis d2) = (document kb (c_redis d1))(j_id job' \<mapsto> job_pairs job')"
    using ref_enqueuer_new [OF d1(2) assms(11) st(2) fresh, of ?tn dt fuel ttl] by blast
  have eq: "\<lparr>c_redis = c_redis d1, c_net = c_net c1\<rparr> = d1" using e1(3) by simp
  obtain c2 r2 where c2: "redis_enqueuer R kb dt fuel ttl newID' now' req c1 = (c2, r2)" by fastforce
  have "r2 = Inr (ToEnqueueJobRes job' False)" "L (c_redis c2) (c_redis d2)"
    using redis_server.enqueuer_reference [OF assms(1) e1(2) c2] d2(1) unfolding eq by (metis prod.inject)+
  moreover have "document kb (c_redis d2) = (document kb m)(j_id job \<mapsto> job_pairs job, j_id job' \<mapsto> job_pairs job')"
    using d1(3) d2(2) by simp
  ultimately show ?thesis using c1 c2 e1(1) k by blast
qed

section \<open>Witnesses\<close>

lemma sample_small: "small_delays sample_req"
  by (simp add: small_delays_def sample_req_def)

lemma sample_key: "j_idempotencyKey sample_built = ''k1''" "j_id sample_built = ''a1''" "j_queue sample_built = ''default''"
  by (simp_all add: sample_built_def)

lemma empty_holder: "holder kb Map.empty k = None" "holders_valid kb Map.empty"
  by (simp_all add: holder_def holders_valid_def)

lemma sample_again: "buildJob ''a2'' 1000 sample_req = Inr (sample_built\<lparr>j_id := ''a2''\<rparr>)"
proof -
  have "NewJobID ''a2'' = Inr ''a2''"
    by (simp add: NewJobID_def Let_def TrimSpace_id space_free_def ContainsAny_def maxJobIDLength_def)
  moreover have "NewJobID ''a1'' = Inr ''a1''" using buildJob_Inr(4) [OF sample_buildJob] by (simp add: sample_built_def)
  ultimately show ?thesis
    using sample_buildJob
    by (auto simp: buildJob_def andThen_eq_Inr NewJob_def Let_def IsZero_def sample_built_def split: if_splits)
qed

theorem redis_enqueue_idempotent_witness:
  "\<exists>c1 c2. redis_enqueuer Ref sample_kb sample_texts 5 0 ''a1'' 1000 sample_req \<lparr>c_redis = Map.empty, c_net = []\<rparr> =
       (c1, Inr (ToEnqueueJobRes sample_built False)) \<and>
     redis_enqueuer Ref sample_kb sample_texts 5 0 ''a2'' 1000 sample_req (elapse Ref 60000 c1) =
       (c2, Inr (ToEnqueueJobRes (stored sample_built) True))"
proof -
  have l: "claim_lasts (effectiveTTL 0) 60000" by (simp add: claim_lasts_def effectiveTTL_def duration_units)
  obtain job' where j: "buildJob ''a2'' 1000 sample_req = Inr job'" "j_idempotencyKey job' = j_idempotencyKey sample_built"
    using sample_again sample_key by force
  have k: "j_idempotencyKey sample_built \<noteq> ''''" using sample_key by simp
  have e: "document sample_kb Map.empty (j_id sample_built) = None" "holder sample_kb Map.empty (j_idempotencyKey sample_built) = None"
    "holders_valid sample_kb Map.empty" "ref_rel (c_redis \<lparr>c_redis = Map.empty, c_net = []\<rparr>) Map.empty"
    using empty_holder by simp_all
  note T = redis_enqueue_idempotent [where R = Ref and L = ref_rel and c = "\<lparr>c_redis = Map.empty, c_net = []\<rparr>" and m = Map.empty and
      kb = sample_kb and newID = "''a1''" and now = 1000 and req = sample_req and job = sample_built and dt = sample_texts and
      fuel = 5 and ttl = 0, OF ref.redis_server_axioms e(4) conn.select_convs(2) typed_empty e(3) sample_buildJob sample_small k e(1,2)]
  then obtain c1 m1 where c1: "redis_enqueuer Ref sample_kb sample_texts 5 0 ''a1'' 1000 sample_req \<lparr>c_redis = Map.empty, c_net = []\<rparr> =
       (c1, Inr (ToEnqueueJobRes sample_built False))"
    and r: "\<forall>d newID' now' req' job'. 0 \<le> d \<longrightarrow> buildJob newID' now' req' = Inr job' \<longrightarrow>
       j_idempotencyKey job' = j_idempotencyKey sample_built \<longrightarrow>
       (if claim_lasts (effectiveTTL 0) d
        then \<exists>c2. redis_enqueuer Ref sample_kb sample_texts 5 0 newID' now' req' (elapse Ref d c1) =
               (c2, Inr (ToEnqueueJobRes (stored sample_built) True)) \<and> ref_rel (c_redis c2) (ref_elapse d m1)
        else small_delays req' \<longrightarrow> document sample_kb (ref_elapse d m1) (j_id job') = None \<longrightarrow>
          (\<exists>c2 m2. redis_enqueuer Ref sample_kb sample_texts 5 0 newID' now' req' (elapse Ref d c1) =
             (c2, Inr (ToEnqueueJobRes job' False)) \<and> ref_rel (c_redis c2) m2 \<and>
             document sample_kb m2 (j_id job') = Some (job_pairs job')))"
    by (elim exE conjE) (erule (1) that)
  show ?thesis using c1 r [rule_format, OF _ j, of 60000] l by auto
qed

theorem redis_lost_claim_blocks_key_witness:
  "\<exists>c1 c2. redis_enqueuer Ref sample_kb sample_texts 5 0 ''a1'' 1000 sample_req
       \<lparr>c_redis = Map.empty, c_net = [Delivered (Suc 0)]\<rparr> = (c1, Inl (duplicate_error ''k1'')) \<and>
     redis_enqueuer Ref sample_kb sample_texts 5 0 ''a2'' 1000 sample_req c1 = (c2, Inl (duplicate_error ''k1''))"
  using redis_lost_claim_blocks_key [OF ref.redis_server_axioms, of "\<lparr>c_redis = Map.empty, c_net = [Delivered (Suc 0)]\<rparr>"
      Map.empty 0 sample_kb "''a1''" 1000 sample_req sample_built sample_texts 5 0] sample_again sample_buildJob
  by (fastforce simp: sample_key empty_holder)

theorem redis_lost_enqueue_reply_duplicates_witness:
  "\<exists>c1 c2 m2. redis_enqueuer Ref sample_kb sample_texts 5 0 ''a1'' 1000 sample_req
       \<lparr>c_redis = Map.empty, c_net = [Delivered 0, Delivered (Suc 0)]\<rparr> =
       (c1, Inl (Conflict ''duplicate_job_id'' ''a job with this id already exists'')) \<and>
     redis_enqueuer Ref sample_kb sample_texts 5 0 ''a2'' 1000 sample_req c1 =
       (c2, Inr (ToEnqueueJobRes (sample_built\<lparr>j_id := ''a2''\<rparr>) False)) \<and>
     c_redis c2 = m2 \<and> document sample_kb m2 ''a1'' \<noteq> None \<and> document sample_kb m2 ''a2'' \<noteq> None"
  using redis_lost_enqueue_reply_duplicates [OF ref.redis_server_axioms,
      of "\<lparr>c_redis = Map.empty, c_net = [Delivered 0, Delivered (Suc 0)]\<rparr>" Map.empty 0 sample_kb "''a1''" 1000 sample_req
      sample_built "''a2''" 1000 "sample_built\<lparr>j_id := ''a2''\<rparr>" sample_texts 5 0] sample_again sample_buildJob sample_small
  by (fastforce simp: sample_key empty_holder)

end
