(* ===== verification/Inspector.thy ===== *)
theory Inspector
  imports Fake_Store Hydrator
begin

text \<open>
  The read and operate side of the API (\<open>src/pkg/application/inspector/service.go\<close>): single jobs,
  listings, statistics, and the operator's actions on single jobs, on the dead jobs of a queue, and on
  queues. The repositories and the broker are arguments, as is the one instant a call reads.
  Log output is left out.

  The actions are analysed for every store that satisfies the contracts \<open>operator_ports\<close>.
\<close>

section \<open>Requests and responses\<close>

record ListJobsQuery =
  lj_Queue :: string
  lj_State :: string
  lj_TaskType :: string
  lj_Offset :: int
  lj_Limit :: int

record ListJobsRes =
  lr_Jobs :: "JobSummaryRes list"
  lr_Total :: int
  lr_Offset :: int
  lr_Limit :: int

record JobActionRes =
  ja_ID :: string
  ja_State :: string

record BulkActionRes =
  ba_Affected :: int

record QueueActionRes =
  qa_Queue :: string
  qa_Paused :: bool

section \<open>The service\<close>

definition maxBulkRetry :: int where "maxBulkRetry = 1000"

definition toFilter :: "ListJobsQuery \<Rightarrow> JobFilter result" where
  "toFilter query =
     andThen (if lj_Queue query \<noteq> '''' then NewQueueName (lj_Queue query) else Inr '''') (\<lambda>queue.
     andThen (if lj_State query \<noteq> '''' then andThen (NewJobState (lj_State query)) (\<lambda>st. Inr (Some st))
              else Inr None) (\<lambda>state.
     andThen (if lj_TaskType query \<noteq> '''' then NewTaskType (lj_TaskType query) else Inr '''') (\<lambda>taskType.
     Inr \<lparr>f_Queue = queue, f_State = state, f_TaskType = taskType, f_Offset = lj_Offset query,
          f_Limit = (if lj_Limit query \<le> 0 then 50 else lj_Limit query)\<rparr>)))"

definition GetJob :: "'s IJobRepo \<Rightarrow> string \<Rightarrow> ('s, JobRes) call" where
  "GetJob repo rawID s =
     (case NewJobID rawID of
        Inl e \<Rightarrow> (s, Inl e)
      | Inr i \<Rightarrow>
          (case repo_FindByID repo i s of
             (s', Inl e) \<Rightarrow> (s', Inl e)
           | (s', Inr job) \<Rightarrow> (s', Inr (ToJobRes job))))"

definition ListJobs :: "'s IJobRepo \<Rightarrow> ListJobsQuery \<Rightarrow> ('s, ListJobsRes) call" where
  "ListJobs repo query s =
     (case toFilter query of
        Inl e \<Rightarrow> (s, Inl e)
      | Inr f \<Rightarrow>
          (case repo_List repo f s of
             (s', Inl e) \<Rightarrow> (s', Inl e)
           | (s', Inr page) \<Rightarrow>
               (s', Inr \<lparr>lr_Jobs = ToJobSummaryResList (pg_Jobs page), lr_Total = pg_Total page,
                         lr_Offset = f_Offset f, lr_Limit = f_Limit f\<rparr>)))"

definition RetryJob :: "'s IJobRepo \<Rightarrow> 's IJobBroker \<Rightarrow> time \<Rightarrow> string \<Rightarrow> ('s, JobActionRes) call" where
  "RetryJob repo broker now rawID s =
     (case NewJobID rawID of
        Inl e \<Rightarrow> (s, Inl e)
      | Inr i \<Rightarrow>
          (case repo_FindByID repo i s of
             (s1, Inl e) \<Rightarrow> (s1, Inl e)
           | (s1, Inr job) \<Rightarrow>
               (case Requeue now job of
                  Inl e \<Rightarrow> (s1, Inl e)
                | Inr job' \<Rightarrow>
                    (case broker_Requeue broker job' s1 of
                       (s2, Inl e) \<Rightarrow> (s2, Inl e)
                     | (s2, Inr _) \<Rightarrow>
                         (s2, Inr \<lparr>ja_ID = j_id job', ja_State = JobState_String (j_state job')\<rparr>)))))"

definition KillJob :: "'s IJobRepo \<Rightarrow> 's IJobBroker \<Rightarrow> time \<Rightarrow> string \<Rightarrow> ('s, JobActionRes) call" where
  "KillJob repo broker now rawID s =
     (case NewJobID rawID of
        Inl e \<Rightarrow> (s, Inl e)
      | Inr i \<Rightarrow>
          (case repo_FindByID repo i s of
             (s1, Inl e) \<Rightarrow> (s1, Inl e)
           | (s1, Inr job) \<Rightarrow>
               (case Kill ''killed by operator'' now job of
                  Inl e \<Rightarrow> (s1, Inl e)
                | Inr job' \<Rightarrow>
                    (case broker_Kill broker job' s1 of
                       (s2, Inl e) \<Rightarrow> (s2, Inl e)
                     | (s2, Inr _) \<Rightarrow>
                         (s2, Inr \<lparr>ja_ID = j_id job', ja_State = JobState_String (j_state job')\<rparr>)))))"

definition DeleteJob :: "'s IJobRepo \<Rightarrow> string \<Rightarrow> ('s, unit) call" where
  "DeleteJob repo rawID s =
     (case NewJobID rawID of
        Inl e \<Rightarrow> (s, Inl e)
      | Inr i \<Rightarrow> repo_Delete repo i s)"

text \<open>The loop of \<open>RetryAllDead\<close>: a job that cannot be requeued is skipped and not counted.\<close>

fun requeue_loop :: "'s IJobBroker \<Rightarrow> time \<Rightarrow> Job list \<Rightarrow> int \<Rightarrow> 's \<Rightarrow> 's \<times> int" where
  "requeue_loop broker now [] affected s = (s, affected)"
| "requeue_loop broker now (job # jobs) affected s =
     (case Requeue now job of
        Inl e \<Rightarrow> requeue_loop broker now jobs affected s
      | Inr job' \<Rightarrow>
          (case broker_Requeue broker job' s of
             (s', Inl e) \<Rightarrow> requeue_loop broker now jobs affected s'
           | (s', Inr _) \<Rightarrow> requeue_loop broker now jobs (affected + 1) s'))"

definition RetryAllDead :: "'s IJobRepo \<Rightarrow> 's IJobBroker \<Rightarrow> time \<Rightarrow> string \<Rightarrow> ('s, BulkActionRes) call" where
  "RetryAllDead repo broker now rawQueue s =
     (case NewQueueName rawQueue of
        Inl e \<Rightarrow> (s, Inl e)
      | Inr queue \<Rightarrow>
          (case repo_List repo \<lparr>f_Queue = queue, f_State = Some StateDead, f_TaskType = '''',
                  f_Offset = 0, f_Limit = maxBulkRetry\<rparr> s of
             (s1, Inl e) \<Rightarrow> (s1, Inl e)
           | (s1, Inr page) \<Rightarrow>
               let (s2, affected) = requeue_loop broker now (pg_Jobs page) 0 s1
               in (s2, Inr \<lparr>ba_Affected = affected\<rparr>)))"

definition ListQueueStats :: "'s IQueueRepo \<Rightarrow> ('s, ListQueueStatsRes) call" where
  "ListQueueStats queues s =
     (case queues_StatsAll queues s of
        (s', Inl e) \<Rightarrow> (s', Inl e)
      | (s', Inr stats) \<Rightarrow> (s', Inr (ToListQueueStatsRes stats)))"

definition SetQueuePaused :: "'s IQueueRepo \<Rightarrow> string \<Rightarrow> bool \<Rightarrow> ('s, QueueActionRes) call" where
  "SetQueuePaused queues rawQueue paused s =
     (case NewQueueName rawQueue of
        Inl e \<Rightarrow> (s, Inl e)
      | Inr queue \<Rightarrow>
          (case queues_FindByName queues queue s of
             (s1, Inl e) \<Rightarrow> (s1, Inl e)
           | (s1, Inr _) \<Rightarrow>
               (case queues_SetPaused queues queue paused s1 of
                  (s2, Inl e) \<Rightarrow> (s2, Inl e)
                | (s2, Inr _) \<Rightarrow> (s2, Inr \<lparr>qa_Queue = queue, qa_Paused = paused\<rparr>))))"

section \<open>Acting on one job\<close>

text \<open>Both actions have one shape: read, apply an operation of the aggregate, write through the broker.\<close>

definition act :: "'s IJobRepo \<Rightarrow> (Job \<Rightarrow> Job result) \<Rightarrow> (Job \<Rightarrow> ('s, unit) call) \<Rightarrow> JobID \<Rightarrow> ('s, JobActionRes) call" where
  "act repo op put i s =
     (case repo_FindByID repo i s of
        (s1, Inl e) \<Rightarrow> (s1, Inl e)
      | (s1, Inr job) \<Rightarrow>
          (case op job of
             Inl e \<Rightarrow> (s1, Inl e)
           | Inr job' \<Rightarrow>
               (case put job' s1 of
                  (s2, Inl e) \<Rightarrow> (s2, Inl e)
                | (s2, Inr _) \<Rightarrow>
                    (s2, Inr \<lparr>ja_ID = j_id job', ja_State = JobState_String (j_state job')\<rparr>))))"

lemma actions_act:
  assumes "NewJobID rawID = Inr i"
  shows "RetryJob repo broker now rawID = act repo (Requeue now) (broker_Requeue broker) i"
    and "KillJob repo broker now rawID = act repo (Kill ''killed by operator'' now) (broker_Kill broker) i"
  using assms by (simp_all add: fun_eq_iff RetryJob_def KillJob_def act_def)

lemma Kill_lastError: "Kill r now j = Inr j' \<Longrightarrow> r \<noteq> '''' \<Longrightarrow> j_lastError j' = r"
  by (auto simp: Kill_def andThen_eq_Inr Let_def closeCurrentAttempt_def split: if_splits list.splits)

context operator_ports
begin

text \<open>The effect of an action: the new version is stored, or nothing but possibly this job has changed.\<close>

definition acted :: "(Job \<Rightarrow> Job result) \<Rightarrow> JobID \<Rightarrow> 's \<Rightarrow> 's \<Rightarrow> JobActionRes result \<Rightarrow> bool" where
  "acted op i s s' r \<longleftrightarrow> inv s' \<and>
     (case r of
        Inr res \<Rightarrow> \<exists>j j'. docs s i = Some j \<and> op j = Inr j' \<and> docs s' = (docs s)(i \<mapsto> norm j') \<and>
          res = \<lparr>ja_ID = i, ja_State = JobState_String (j_state j')\<rparr>
      | Inl e \<Rightarrow> docs s' = docs s \<or>
          (\<exists>j j'. docs s i = Some j \<and> op j = Inr j' \<and> docs s' = (docs s)(i \<mapsto> norm j')))"

lemma act_acted:
  assumes "inv s" "writes put" "act repo op put i s = (s', r)"
    and op: "\<And>j j'. job_ok j \<Longrightarrow> op j = Inr j' \<Longrightarrow> job_ok j' \<and> j_id j' = j_id j"
  shows "acted op i s s' r"
proof -
  obtain s1 r1 where F: "repo_FindByID repo i s = (s1, r1)" by fastforce
  show ?thesis
  proof (cases r1)
    case (Inl e)
    with F find_err [OF assms(1)] have "s1 = s" by blast
    with F Inl assms(1,3) show ?thesis by (auto simp: act_def acted_def)
  next
    case (Inr j)
    with F find_ok [OF assms(1)] have s1: "s1 = s" "docs s i = Some j" by auto
    then have j: "j_id j = i" "job_ok j" using docs_ok [OF assms(1)] by auto
    show ?thesis
    proof (cases "op j")
      case (Inl e)
      with F Inr s1 assms(1,3) show ?thesis by (auto simp: act_def acted_def)
    next
      case (Inr j')
      then have j': "job_ok j'" "j_id j' = i" using op [OF j(2)] j(1) by auto
      obtain s2 r2 where P: "put j' s = (s2, r2)" by fastforce
      have "inv s2 \<and> held s2 = held s \<and> (case r2 of Inr _ \<Rightarrow> docs s2 = (docs s)(j_id j' \<mapsto> norm j')
          | Inl _ \<Rightarrow> docs s2 = docs s \<or> docs s2 = (docs s)(j_id j' \<mapsto> norm j'))"
        using assms(1,2) j'(1) P unfolding writes_on_def by blast
      then show ?thesis
        using F \<open>r1 = Inr j\<close> Inr s1 P j' assms(3) by (cases r2) (auto simp: act_def acted_def)
    qed
  qed
qed

text \<open>
  The bulk loop: only the listed jobs can change, each to its requeued version, and when every one of
  them was counted every one has changed.
\<close>

lemma requeue_loop_effect:
  assumes "inv s" "\<forall>j \<in> set jobs. docs s (j_id j) = Some j \<and> j_state j = StateDead"
    "distinct (map j_id jobs)" "requeue_loop broker now jobs n s = (s', m)"
  shows "inv s' \<and> n \<le> m \<and> m \<le> n + int (length jobs) \<and>
    (\<forall>i. i \<notin> j_id ` set jobs \<longrightarrow> docs s' i = docs s i) \<and>
    (\<forall>j \<in> set jobs. docs s' (j_id j) \<in> {Some j, Some (norm (projr (Requeue now j)))}) \<and>
    (m = n + int (length jobs) \<longrightarrow> (\<forall>j \<in> set jobs. docs s' (j_id j) = Some (norm (projr (Requeue now j)))))"
  using assms
proof (induction jobs arbitrary: n s)
  case (Cons j jobs)
  have j: "docs s (j_id j) = Some j" "j_state j = StateDead" using Cons.prems(2) by auto
  then obtain j' where R: "Requeue now j = Inr j'" by (simp add: Requeue_def)
  then have j': "job_ok j'" "j_id j' = j_id j"
    using docs_ok [OF Cons.prems(1) j(1)] Requeue_ok same_identity_ops(6) by (auto simp: same_identity_def)
  obtain s1 r1 where P: "broker_Requeue broker j' s = (s1, r1)" by fastforce
  have W: "inv s1 \<and> held s1 = held s \<and> (case r1 of Inr _ \<Rightarrow> docs s1 = (docs s)(j_id j' \<mapsto> norm j')
      | Inl _ \<Rightarrow> docs s1 = docs s \<or> docs s1 = (docs s)(j_id j' \<mapsto> norm j'))"
    using requeue_writes Cons.prems(1) j'(1) P unfolding writes_on_def by blast
  define n1 where "n1 = (case r1 of Inr _ \<Rightarrow> n + 1 | Inl _ \<Rightarrow> n)"
  have L: "requeue_loop broker now jobs n1 s1 = (s', m)"
    using Cons.prems(4) R P by (cases r1) (simp_all add: n1_def)
  have keep: "docs s1 i = docs s i" if "i \<noteq> j_id j" for i
    using W j'(2) that by (cases r1) auto
  have d: "distinct (map j_id jobs)" "j_id j \<notin> j_id ` set jobs" using Cons.prems(3) by auto
  have jobs: "\<forall>k \<in> set jobs. docs s1 (j_id k) = Some k \<and> j_state k = StateDead"
  proof
    fix k assume k: "k \<in> set jobs"
    then have "j_id k \<noteq> j_id j" using d(2) by (metis imageI)
    with k keep Cons.prems(2) show "docs s1 (j_id k) = Some k \<and> j_state k = StateDead" by simp
  qed
  have "inv s1" using W by blast
  note IH = Cons.IH [OF this jobs d(1) L]
  have n1: "n \<le> n1" "n1 \<le> n + 1" by (cases r1; simp add: n1_def)+
  have s': "docs s' (j_id j) = docs s1 (j_id j)" using IH d(2) by blast
  have s1: "docs s1 (j_id j) \<in> {Some j, Some (norm j')}" "n1 = n + 1 \<longrightarrow> docs s1 (j_id j) = Some (norm j')"
    using W j'(2) j(1) by (cases r1; auto simp: n1_def)+
  have full: "n1 = n + 1 \<and> m = n1 + int (length jobs)" if "m = n + int (length (j # jobs))"
    using that IH n1 by simp
  have "n \<le> m \<and> m \<le> n + int (length (j # jobs))" using IH n1 by simp
  moreover have "docs s' i = docs s i" if "i \<notin> j_id ` set (j # jobs)" for i
    using that IH keep by simp
  moreover have "docs s' (j_id k) \<in> {Some k, Some (norm (projr (Requeue now k)))}" if "k \<in> set (j # jobs)" for k
    using that IH s' s1(1) R by (cases "k = j") simp_all
  moreover have "docs s' (j_id k) = Some (norm (projr (Requeue now k)))"
    if "m = n + int (length (j # jobs))" "k \<in> set (j # jobs)" for k
    using that(2) full [OF that(1)] IH s' s1(2) R by (cases "k = j") simp_all
  ultimately show ?case using IH by blast
qed simp

end

section \<open>Acting on the dead jobs of a queue\<close>

lemma requeue_loop_counts:
  assumes "st_FailNext s = None" "\<forall>j \<in> set jobs. j_state j = StateDead"
  shows "snd (requeue_loop (fakeBroker t) now jobs n s) = n + int (length jobs)"
  using assms
proof (induction jobs arbitrary: n s)
  case (Cons j jobs)
  then obtain j' where R: "Requeue now j = Inr j'" by (auto simp: Requeue_def)
  obtain s1 where "Save j' s = (s1, Inr ())" "st_FailNext s1 = None"
    using Cons.prems(1) by (auto simp: Save_def takeFailure_def)
  with Cons.IH [of s1 "n + 1"] Cons.prems(2) R show ?case by (simp add: fakeBroker_def Requeue_job_def)
qed simp

lemma List_dead:
  assumes "q \<noteq> ''''"
  shows "\<exists>page. List_jobs \<lparr>f_Queue = q, f_State = Some StateDead, f_TaskType = '''', f_Offset = 0, f_Limit = maxBulkRetry\<rparr> s =
      (s, Inr page) \<and> length (pg_Jobs page) = min 1000 (nat (count_state q StateDead (map snd (st_jobs s)))) \<and>
      (\<forall>j \<in> set (pg_Jobs page). j_queue j = q \<and> j_state j = StateDead)"
proof -
  let ?f = "\<lparr>f_Queue = q, f_State = Some StateDead, f_TaskType = '''', f_Offset = 0, f_Limit = maxBulkRetry\<rparr>"
  have m: "filter_matches ?f = (\<lambda>j. j_queue j = q \<and> j_state j = StateDead)"
    using assms by (auto simp: filter_matches_def fun_eq_iff)
  show ?thesis
    using List_jobs_eq [of ?f s, unfolded m]
    by (auto simp: maxBulkRetry_def Let_def count_state_def min.commute dest!: in_set_takeD)
qed

section \<open>Properties\<close>

lemma RetryJob_acts:
  assumes ports: "operator_ports ok docs held norm repo broker" and "ok s" and now: "\<not> time_IsZero now"
    and i: "NewJobID rawID = Inr i"
    and run: "RetryJob repo broker now rawID s = (s', r)"
  shows "ok s' \<and> (\<forall>k. k \<noteq> i \<longrightarrow> docs s' k = docs s k) \<and>
      (case r of
         Inr res \<Rightarrow> \<exists>j j'. docs s i = Some j \<and> j_state j = StateDead \<and> Requeue now j = Inr j' \<and>
           docs s' i = Some (norm j') \<and> res = \<lparr>ja_ID = i, ja_State = ''pending''\<rparr>
       | Inl e \<Rightarrow> (\<forall>j. docs s i = Some j \<longrightarrow> j_state j \<noteq> StateDead) \<longrightarrow> docs s' = docs s)"
proof -
  have "operator_ports.acted ok docs norm (Requeue now) i s s' r"
    using operator_ports.act_acted [OF ports assms(2) operator_ports.requeue_writes [OF ports], of "Requeue now" i s' r]
      run Requeue_ok same_identity_ops(6)
    by (auto simp: actions_act(1) [OF i] same_identity_def)
  moreover have "Requeue now j = Inr j' \<Longrightarrow> j_state j = StateDead \<and> JobState_String (j_state j') = ''pending''" for j j'
    using op_states(6) [of now j j'] by (simp add: JobState_String_def)
  ultimately show ?thesis unfolding operator_ports.acted_def [OF ports] by (cases r) fastforce+
qed

lemma KillJob_acts:
  assumes ports: "operator_ports ok docs held norm repo broker" and "ok s" and now: "\<not> time_IsZero now"
    and i: "NewJobID rawID = Inr i"
    and run: "KillJob repo broker now rawID s = (s', r)"
  shows "ok s' \<and> (\<forall>k. k \<noteq> i \<longrightarrow> docs s' k = docs s k) \<and>
      (case r of
         Inr res \<Rightarrow> \<exists>j j'. docs s i = Some j \<and> \<not> IsTerminal (j_state j) \<and>
           Kill ''killed by operator'' now j = Inr j' \<and> j_lastError j' = ''killed by operator'' \<and>
           docs s' i = Some (norm j') \<and> res = \<lparr>ja_ID = i, ja_State = ''dead''\<rparr>
       | Inl e \<Rightarrow> (\<forall>j. docs s i = Some j \<longrightarrow> IsTerminal (j_state j)) \<longrightarrow> docs s' = docs s)"
proof -
  have fin: "IsTerminal st \<longleftrightarrow> st \<in> {StateCompleted, StateDead}" for st by (cases st) (simp_all add: IsTerminal_def)
  have "operator_ports.acted ok docs norm (Kill ''killed by operator'' now) i s s' r"
    using operator_ports.act_acted [OF ports assms(2) operator_ports.kill_writes [OF ports],
        of "Kill ''killed by operator'' now" i s' r] run Kill_ok [OF _ now] same_identity_ops(5)
    by (auto simp: actions_act(2) [OF i] same_identity_def)
  moreover have "Kill ''killed by operator'' now j = Inr j' \<Longrightarrow> \<not> IsTerminal (j_state j) \<and>
      JobState_String (j_state j') = ''dead'' \<and> j_lastError j' = ''killed by operator''" for j j'
    using op_states(5) [of "''killed by operator''" now j j'] Kill_lastError [of "''killed by operator''" now j j']
    by (simp add: JobState_String_def fin)
  ultimately show ?thesis unfolding operator_ports.acted_def [OF ports] by (cases r) fastforce+
qed

lemma DeleteJob_acts:
  assumes ports: "operator_ports ok docs held norm repo broker" and "ok s"
    and i: "NewJobID rawID = Inr i"
    and run: "DeleteJob repo rawID s = (s', r)"
  shows "ok s' \<and> (case r of Inr _ \<Rightarrow> docs s i \<noteq> None \<and> docs s' = (docs s)(i := None) | Inl e \<Rightarrow> docs s' = docs s)"
  using run i operator_ports.delete_ok [OF ports assms(2)] operator_ports.delete_err [OF ports assms(2)]
  by (cases r) (auto simp: DeleteJob_def)

text \<open>
  C34. The operator's actions. Over any store that keeps its contracts, an action on one job changes no
  other document. A successful retry found a dead job and stored it requeued with a fresh budget; a
  successful kill found a job that was neither completed nor dead and stored it dead, with the reason; the answer
  names the job and its new state. An action on a job in any other state is refused and changes
  nothing. A deletion removes exactly that document, or reports an error and removes nothing.
\<close>

theorem operator_actions:
  assumes ports: "operator_ports ok docs held norm repo broker" and "ok s" and now: "\<not> time_IsZero now"
    and i: "NewJobID rawID = Inr i"
  shows "(case RetryJob repo broker now rawID s of (s', r) \<Rightarrow>
      ok s' \<and> (\<forall>k. k \<noteq> i \<longrightarrow> docs s' k = docs s k) \<and>
      (case r of
         Inr res \<Rightarrow> \<exists>j j'. docs s i = Some j \<and> j_state j = StateDead \<and> Requeue now j = Inr j' \<and>
           docs s' i = Some (norm j') \<and> res = \<lparr>ja_ID = i, ja_State = ''pending''\<rparr>
       | Inl e \<Rightarrow> (\<forall>j. docs s i = Some j \<longrightarrow> j_state j \<noteq> StateDead) \<longrightarrow> docs s' = docs s)) \<and>
    (case KillJob repo broker now rawID s of (s', r) \<Rightarrow>
      ok s' \<and> (\<forall>k. k \<noteq> i \<longrightarrow> docs s' k = docs s k) \<and>
      (case r of
         Inr res \<Rightarrow> \<exists>j j'. docs s i = Some j \<and> \<not> IsTerminal (j_state j) \<and>
           Kill ''killed by operator'' now j = Inr j' \<and> j_lastError j' = ''killed by operator'' \<and>
           docs s' i = Some (norm j') \<and> res = \<lparr>ja_ID = i, ja_State = ''dead''\<rparr>
       | Inl e \<Rightarrow> (\<forall>j. docs s i = Some j \<longrightarrow> IsTerminal (j_state j)) \<longrightarrow> docs s' = docs s)) \<and>
    (case DeleteJob repo rawID s of (s', r) \<Rightarrow>
      ok s' \<and> (case r of Inr _ \<Rightarrow> docs s i \<noteq> None \<and> docs s' = (docs s)(i := None) | Inl e \<Rightarrow> docs s' = docs s))"
  using RetryJob_acts [OF assms] KillJob_acts [OF assms] DeleteJob_acts [OF assms(1,2,4)]
  by (intro conjI; split prod.split; intro allI impI; assumption?; blast)

theorem operator_actions_witness:
  "store_ok (fst (KillJob fakeRepo (fakeBroker 0) 7 ''job-1'' sample_store)) \<and>
   (\<exists>j'. Kill ''killed by operator'' 7 sample_job = Inr j' \<and>
     store_docs (fst (KillJob fakeRepo (fakeBroker 0) 7 ''job-1'' sample_store)) ''job-1'' = Some j') \<and>
   store_docs (fst (DeleteJob fakeRepo ''job-1'' sample_store)) ''job-1'' = None"
proof -
  have i: "NewJobID ''job-1'' = Inr ''job-1''" "\<not> time_IsZero 7"
    by (simp_all add: NewJobID_def Let_def TrimSpace_id space_free_def ContainsAny_def time_IsZero_def zero_time_def maxJobIDLength_def)
  have k: "snd (KillJob fakeRepo (fakeBroker 0) 7 ''job-1'' sample_store) = Inr \<lparr>ja_ID = ''job-1'', ja_State = ''dead''\<rparr>"
    by (simp add: KillJob_def i fakeRepo_def fakeBroker_def FindByID_def sample_store_jobs sample_job_def Kill_def
        guard_def CanTransitionTo_iff closeCurrentAttempt_def Kill_job_def Save_def takeFailure_def sample_store_ok JobState_String_def)
  have d: "snd (DeleteJob fakeRepo ''job-1'' sample_store) = Inr ()"
    by (simp add: DeleteJob_def i fakeRepo_def Delete_def sample_store_jobs Let_def)
  show ?thesis
    using operator_actions [OF fake_operator.operator_ports_axioms sample_store_ok(1) i(2,1), of 0] k d
    by (auto simp: sample_store_jobs split: prod.splits)
qed

lemma RetryAllDead_runs:
  assumes "store_ok s" "st_FailNext s = None" "NewQueueName rawQueue = Inr q"
  obtains s' jobs where
    "RetryAllDead fakeRepo (fakeBroker t) now rawQueue s = (s', Inr \<lparr>ba_Affected = int (length jobs)\<rparr>)"
    "store_ok s'" "int (length jobs) = min 1000 (jobs_in s q StateDead)" "distinct (map j_id jobs)"
    "\<forall>j \<in> set jobs. store_docs s (j_id j) = Some j \<and> j_queue j = q \<and> j_state j = StateDead \<and>
       store_docs s' (j_id j) = Some (projr (Requeue now j))"
    "\<forall>i. i \<notin> j_id ` set jobs \<longrightarrow> store_docs s' i = store_docs s i"
proof -
  let ?f = "\<lparr>f_Queue = q, f_State = Some StateDead, f_TaskType = '''', f_Offset = 0, f_Limit = maxBulkRetry\<rparr>"
  have q: "q \<noteq> ''''" using NewQueueName_pattern [OF assms(3)] by (auto simp: queueNamePattern_def dest: matches_name_length)
  obtain page where P: "List_jobs ?f s = (s, Inr page)"
      "length (pg_Jobs page) = min 1000 (nat (count_state q StateDead (map snd (st_jobs s))))"
      "\<forall>j \<in> set (pg_Jobs page). j_queue j = q \<and> j_state j = StateDead"
    using List_dead [OF q] by blast
  have L: "distinct (map j_id (pg_Jobs page))" "\<forall>j \<in> set (pg_Jobs page). store_docs s (j_id j) = Some j"
    using List_jobs_page [OF assms(1) P(1)] by auto
  obtain s' m where R: "requeue_loop (fakeBroker t) now (pg_Jobs page) 0 s = (s', m)" by fastforce
  have m: "m = 0 + int (length (pg_Jobs page))"
    using requeue_loop_counts [OF assms(2), of "pg_Jobs page" t now 0] P(3) R by simp
  note E = fake_operator.requeue_loop_effect [OF assms(1) _ L(1) R]
  show thesis
  proof (rule that)
    show "RetryAllDead fakeRepo (fakeBroker t) now rawQueue s = (s', Inr \<lparr>ba_Affected = int (length (pg_Jobs page))\<rparr>)"
      using assms(3) P(1) R m by (simp add: RetryAllDead_def fakeRepo_def)
    show "int (length (pg_Jobs page)) = min 1000 (jobs_in s q StateDead)"
      using P(2) count_state_docs [OF assms(1), of q StateDead] by (simp add: jobs_in_def)
  qed (use E P(3) L m in simp_all)
qed

text \<open>
  C35. Bulk retry over the in-memory store. Without an injected fault, retrying all dead jobs of a queue requeues as many of them as
  the cap of one thousand allows, answers with exactly that number, and changes nothing else; the
  dead jobs of the queue decrease by that number. The Redis repository caps a page at 500 jobs, so that there
  one call retries no more than that, and its broker counts a job whose document is gone.
\<close>

theorem retry_all_dead_sweep:
  assumes "store_ok s" and "st_FailNext s = None" and "NewQueueName rawQueue = Inr q"
  shows "\<exists>s' M. RetryAllDead fakeRepo (fakeBroker t) now rawQueue s =
      (s', Inr \<lparr>ba_Affected = min 1000 (jobs_in s q StateDead)\<rparr>) \<and> store_ok s' \<and>
    finite M \<and> int (card M) = min 1000 (jobs_in s q StateDead) \<and>
    (\<forall>i \<in> M. \<exists>j j'. store_docs s i = Some j \<and> j_queue j = q \<and> j_state j = StateDead \<and>
       Requeue now j = Inr j' \<and> store_docs s' i = Some j') \<and>
    (\<forall>i. i \<notin> M \<longrightarrow> store_docs s' i = store_docs s i) \<and>
    jobs_in s' q StateDead = jobs_in s q StateDead - min 1000 (jobs_in s q StateDead)"
proof -
  obtain s' jobs where R: "RetryAllDead fakeRepo (fakeBroker t) now rawQueue s = (s', Inr \<lparr>ba_Affected = int (length jobs)\<rparr>)"
    "store_ok s'" "int (length jobs) = min 1000 (jobs_in s q StateDead)" "distinct (map j_id jobs)"
    "\<forall>j \<in> set jobs. store_docs s (j_id j) = Some j \<and> j_queue j = q \<and> j_state j = StateDead \<and>
       store_docs s' (j_id j) = Some (projr (Requeue now j))"
    "\<forall>i. i \<notin> j_id ` set jobs \<longrightarrow> store_docs s' i = store_docs s i"
    by (rule RetryAllDead_runs [OF assms])
  define M where "M = j_id ` set jobs"
  have card: "card M = length jobs" using distinct_card [OF R(4)] by (simp add: M_def)
  have moved: "\<exists>j j'. store_docs s i = Some j \<and> j_queue j = q \<and> j_state j = StateDead \<and>
      Requeue now j = Inr j' \<and> store_docs s' i = Some j' \<and> j_state j' \<noteq> StateDead" if "i \<in> M" for i
    using that R(5) by (auto simp: M_def Requeue_def)
  let ?dead = "\<lambda>s. {i. \<exists>j. store_docs s i = Some j \<and> j_queue j = q \<and> j_state j = StateDead}"
  have "?dead s' = ?dead s - M" using R(6) moved unfolding M_def [symmetric] by fastforce
  moreover have "M \<subseteq> ?dead s" "finite M" using moved by (auto simp: M_def)
  ultimately have "int (card (?dead s')) = int (card (?dead s)) - int (card M)"
    using card_mono [OF finite_docs] by (simp add: card_Diff_subset of_nat_diff)
  then have "jobs_in s' q StateDead = jobs_in s q StateDead - min 1000 (jobs_in s q StateDead)"
    using card R(3) by (simp add: jobs_in_def)
  moreover have "\<forall>i \<in> M. \<exists>j j'. store_docs s i = Some j \<and> j_queue j = q \<and> j_state j = StateDead \<and>
      Requeue now j = Inr j' \<and> store_docs s' i = Some j'" using moved by blast
  ultimately show ?thesis
    using R(1-3,6) card \<open>finite M\<close> unfolding M_def [symmetric] by (intro exI [of _ s'] exI [of _ M]) simp
qed

definition dead_store :: Store where
  "dead_store = fst (Save (projr (Kill ''x'' 7 sample_job)) sample_store)"

theorem retry_all_dead_sweep_witness:
  "\<exists>s'. RetryAllDead fakeRepo (fakeBroker 0) 9 ''default'' dead_store = (s', Inr \<lparr>ba_Affected = 1\<rparr>) \<and>
     jobs_in s' ''default'' StateDead = 0"
proof -
  obtain j where K: "Kill ''x'' 7 sample_job = Inr j" "j_state j = StateDead" "j_queue j = ''default''" "j_id j = ''job-1''"
    by (simp add: Kill_def guard_def CanTransitionTo_iff sample_job_def closeCurrentAttempt_def DefaultQueueName_def)
  have "job_ok j"
    by (rule Kill_ok [OF NewJob_ok [OF sample_created] _ K(1)]) (simp add: time_IsZero_def zero_time_def)
  then have ok: "store_ok dead_store"
    using Save_ok [OF sample_store_ok(1), of j "fst (Save j sample_store)"] K(1)
    by (simp add: dead_store_def prod_eq_iff)
  have jobs: "st_jobs dead_store = [(''job-1'', j)]" "st_FailNext dead_store = None"
    using K by (simp_all add: dead_store_def Save_def takeFailure_def sample_store_ok sample_store_jobs)
  have "jobs_in dead_store ''default'' StateDead = 1"
    using K count_state_docs [OF ok, of "''default''" StateDead] by (simp add: jobs count_state_def)
  then show ?thesis
    using retry_all_dead_sweep [OF ok jobs(2) pattern_NewQueueName, of "''default''" 0 9] DefaultQueueName_matches
    by (auto simp: DefaultQueueName_def)
qed

end
