(* ===== verification/Metrics.thy ===== *)
theory Metrics
  imports Ports
begin

text \<open>
  The observability port (\<open>src/pkg/domain/metrics/recorder.go\<close>). A recorder returns nothing and may
  not fail, so recording is appending to a log; the state a service works on is the store together
  with that log. \<open>NopRecorder\<close> discards everything: it is the log that is never read.
\<close>

datatype Outcome = OutcomeSuccess | OutcomeFailure | OutcomeDead

definition Outcome_String :: "Outcome \<Rightarrow> string" where
  "Outcome_String out =
     (case out of OutcomeSuccess \<Rightarrow> ''success'' | OutcomeFailure \<Rightarrow> ''failure'' | OutcomeDead \<Rightarrow> ''dead'')"

datatype Metric =
    RecordJobProcessed QueueName TaskType Outcome
  | RecordJobDuration QueueName TaskType duration
  | RecordJobRetry QueueName TaskType
  | RecordJobFailed QueueName TaskType string
  | SetQueueDepth QueueName JobState int
  | SetActiveWorkers int

record 's world =
  w_store :: 's
  w_metrics :: "Metric list"

definition emit :: "Metric \<Rightarrow> 's world \<Rightarrow> 's world" where
  "emit m w = w\<lparr>w_metrics := w_metrics w @ [m]\<rparr>"

definition onStore :: "('s, 'a) call \<Rightarrow> ('s world, 'a) call" where
  "onStore c w = (case c (w_store w) of (s, r) \<Rightarrow> (w\<lparr>w_store := s\<rparr>, r))"

lemma emit_select [simp]: "w_store (emit m w) = w_store w" "w_metrics (emit m w) = w_metrics w @ [m]"
  by (simp_all add: emit_def)

lemma onStore_eq: "onStore c w = (w', r) \<longleftrightarrow> (\<exists>s. c (w_store w) = (s, r) \<and> w' = w\<lparr>w_store := s\<rparr>)"
  by (auto simp: onStore_def split: prod.splits)

end
