(* ===== verification/Processor.thy ===== *)
theory Processor
  imports Fake_Store Metrics Go_Time
begin

text \<open>
  The execution of one leased job (\<open>src/pkg/application/processor/service.go\<close> and
  \<open>handler_registry.go\<close>): the lease is saved, the handler resolved and run under a timeout and a
  panic barrier, and exactly one outcome recorded.

  A handler is code the program only calls: it is a function from the job context to what is seen
  of its run, a return value together with whether its deadline had passed, or a panic with the text
  of the panic value. A handler that never returns is outside the model. The three readings of the
  clock are arguments, in the order the code makes them, as is the random jitter of a retry.
\<close>

section \<open>Handlers\<close>

record JobContext =
  c_ID :: JobID
  c_Queue :: QueueName
  c_TaskType :: TaskType
  c_Payload :: string
  c_Attempt :: uint32
  c_MaxRetries :: uint32

datatype HandlerRun = Returned "go_error option" bool | Panicked string

type_synonym Handler = "JobContext \<Rightarrow> HandlerRun"
type_synonym HandlerRegistry = "(TaskType \<times> Handler) list"

definition NewHandlerRegistry :: HandlerRegistry where "NewHandlerRegistry = []"

definition Register_handler ::
  "TaskType \<Rightarrow> Handler option \<Rightarrow> HandlerRegistry \<Rightarrow> HandlerRegistry \<times> unit result" where
  "Register_handler taskType handler r =
     (if taskType = ''''
      then (r, Inl (Invalid EInvalidTaskType ''task type is required to register a handler''))
      else case handler of
             None \<Rightarrow> (r, Inl (Invalid EHandlerNotFound ''handler must not be nil''))
           | Some h \<Rightarrow>
               if map_of r taskType \<noteq> None
               then (r, Inl (Conflict ''duplicate_handler''
                      (''a handler is already registered for task type '' @ taskType)))
               else (AList.update taskType h r, Inr ()))"

definition Resolve :: "HandlerRegistry \<Rightarrow> TaskType \<Rightarrow> Handler result" where
  "Resolve r taskType =
     (case map_of r taskType of
        None \<Rightarrow> Inl (NotFound EHandlerNotFound (''no handler registered for task type '' @ taskType))
      | Some h \<Rightarrow> Inr h)"

definition RegisteredTypes :: "HandlerRegistry \<Rightarrow> TaskType list" where
  "RegisteredTypes r = SliceStable (\<lambda>a b. a < b) (map fst r)"

section \<open>The service\<close>

definition effectiveRetention :: "duration \<Rightarrow> duration" where
  "effectiveRetention d = (if d \<le> 0 then hour else d)"

definition failureReason :: "go_error \<Rightarrow> string" where
  "failureReason e = (case errors_As e of Some (k, code, msg) \<Rightarrow> code | None \<Rightarrow> ''handler_error'')"

definition runHandler :: "Job \<Rightarrow> Handler \<Rightarrow> go_error option" where
  "runHandler job handler =
     (case handler \<lparr>c_ID = j_id job, c_Queue = j_queue job, c_TaskType = j_taskType job,
             c_Payload = j_payload job, c_Attempt = j_attemptsMade job,
             c_MaxRetries = rp_maxRetries (j_retryPolicy job)\<rparr> of
        Panicked text \<Rightarrow> Some (New KindInternal EHandlerPanic (''handler panicked: '' @ text))
      | Returned err expired \<Rightarrow>
          if expired
          then Some (New KindInternal EJobTimeout
                 (''handler exceeded its '' @ Duration_String (j_timeout job) @ '' timeout''))
          else err)"

definition complete ::
  "'s IJobBroker \<Rightarrow> duration \<Rightarrow> time \<Rightarrow> Job \<Rightarrow> ('s world, unit) call" where
  "complete broker retention now job w =
     (case Complete now job of
        Inl e \<Rightarrow> (w, Inl e)
      | Inr job' \<Rightarrow>
          (case onStore (broker_Complete broker job' (effectiveRetention retention)) w of
             (w', Inl e) \<Rightarrow> (w', Inl e)
           | (w', Inr _) \<Rightarrow>
               (emit (RecordJobProcessed (j_queue job') (j_taskType job') OutcomeSuccess) w', Inr ())))"

definition fail ::
  "'s IJobBroker \<Rightarrow> nat \<Rightarrow> time \<Rightarrow> go_error \<Rightarrow> Job \<Rightarrow> ('s world, unit) call" where
  "fail broker k now cause job w =
     (case Fail k (Some cause) now job of
        Inl e \<Rightarrow> (w, Inl e)
      | Inr (job', outcome) \<Rightarrow>
          let w1 = emit (RecordJobFailed (j_queue job') (j_taskType job') (failureReason cause)) w
          in if fo_ShouldRetry outcome
             then (case onStore (broker_Retry broker job' (fo_RetryAt outcome)) w1 of
                     (w2, Inl e) \<Rightarrow> (w2, Inl e)
                   | (w2, Inr _) \<Rightarrow>
                       (emit (RecordJobProcessed (j_queue job') (j_taskType job') OutcomeFailure)
                          (emit (RecordJobRetry (j_queue job') (j_taskType job')) w2), Inr ()))
             else (case onStore (broker_Kill broker job') w1 of
                     (w2, Inl e) \<Rightarrow> (w2, Inl e)
                   | (w2, Inr _) \<Rightarrow>
                       (emit (RecordJobProcessed (j_queue job') (j_taskType job') OutcomeDead) w2, Inr ())))"

definition kill :: "'s IJobBroker \<Rightarrow> time \<Rightarrow> go_error \<Rightarrow> Job \<Rightarrow> ('s world, unit) call" where
  "kill broker now cause job w =
     (case Kill (Error_string cause) now job of
        Inl e \<Rightarrow> (w, Inl e)
      | Inr job' \<Rightarrow>
          (case onStore (broker_Kill broker job') w of
             (w1, Inl e) \<Rightarrow> (w1, Inl e)
           | (w1, Inr _) \<Rightarrow>
               (emit (RecordJobProcessed (j_queue job') (j_taskType job') OutcomeDead)
                  (emit (RecordJobFailed (j_queue job') (j_taskType job') (failureReason cause)) w1), Inr ())))"

definition Process ::
  "'s IJobRepo \<Rightarrow> 's IJobBroker \<Rightarrow> HandlerRegistry \<Rightarrow> duration \<Rightarrow> nat \<Rightarrow> time \<Rightarrow> time \<Rightarrow> time \<Rightarrow> Job \<Rightarrow>
   ('s world, unit) call" where
  "Process repo broker registry retention k t0 t1 t2 job w =
     (case onStore (repo_Save repo job) w of
        (w1, Inl e) \<Rightarrow> (w1, Inl e)
      | (w1, Inr _) \<Rightarrow>
          (case Resolve registry (j_taskType job) of
             Inl e \<Rightarrow> kill broker t0 e job w1
           | Inr handler \<Rightarrow>
               let handlerErr = runHandler job handler;
                   w2 = emit (RecordJobDuration (j_queue job) (j_taskType job) (sat64 (t1 - t0))) w1
               in (case handlerErr of
                     None \<Rightarrow> complete broker retention t2 job w2
                   | Some e \<Rightarrow> fail broker k t2 e job w2)))"

text \<open>The part of \<open>Process\<close> after the lease is saved: it makes one call to the broker.\<close>

definition execute ::
  "'s IJobBroker \<Rightarrow> HandlerRegistry \<Rightarrow> duration \<Rightarrow> nat \<Rightarrow> time \<Rightarrow> time \<Rightarrow> time \<Rightarrow> Job \<Rightarrow> ('s world, unit) call" where
  "execute broker registry retention k t0 t1 t2 job w =
     (case Resolve registry (j_taskType job) of
        Inl e \<Rightarrow> kill broker t0 e job w
      | Inr handler \<Rightarrow>
          let handlerErr = runHandler job handler;
              w2 = emit (RecordJobDuration (j_queue job) (j_taskType job) (sat64 (t1 - t0))) w
          in (case handlerErr of
                None \<Rightarrow> complete broker retention t2 job w2
              | Some e \<Rightarrow> fail broker k t2 e job w2))"

lemma Process_execute:
  "Process repo broker registry retention k t0 t1 t2 job w =
     (case onStore (repo_Save repo job) w of
        (w1, Inl e) \<Rightarrow> (w1, Inl e)
      | (w1, Inr _) \<Rightarrow> execute broker registry retention k t0 t1 t2 job w1)"
  by (simp add: Process_def execute_def split: prod.split sum.split)

section \<open>The outcome of an execution\<close>

text \<open>
  The abstract view: an execution takes the leased job to its next version in one step, and yields
  the outcome to report. The store may keep less of a job than the aggregate has (\<open>norm\<close>).
\<close>

definition next_version :: "HandlerRegistry \<Rightarrow> nat \<Rightarrow> time \<Rightarrow> time \<Rightarrow> Job \<Rightarrow> (Job \<times> Outcome) result" where
  "next_version registry k t0 t2 job =
     (case Resolve registry (j_taskType job) of
        Inl e \<Rightarrow> andThen (Kill (Error_string e) t0 job) (\<lambda>j. Inr (j, OutcomeDead))
      | Inr handler \<Rightarrow>
          (case runHandler job handler of
             None \<Rightarrow> andThen (Complete t2 job) (\<lambda>j. Inr (j, OutcomeSuccess))
           | Some e \<Rightarrow> andThen (Fail k (Some e) t2 job) (\<lambda>(j, out).
               Inr (j, if fo_ShouldRetry out then OutcomeFailure else OutcomeDead))))"

lemma active_operations:
  assumes "j_state job = StateActive"
  shows "\<exists>j. Complete now job = Inr j" and "\<exists>j. Kill reason now job = Inr j"
    and "\<exists>j out. Fail k c now job = Inr (j, out)"
  using assms by (simp_all add: Kill_def Complete_def Fail_def guard_def CanTransitionTo_iff Let_def)

lemma next_version_defined:
  assumes "j_state job = StateActive"
  obtains j out where "next_version registry k t0 t2 job = Inr (j, out)"
proof (cases "Resolve registry (j_taskType job)")
  case (Inl e)
  then show ?thesis
    using that active_operations(2) [OF assms, of "Error_string e" t0] by (auto simp: next_version_def)
next
  case (Inr h)
  show ?thesis
  proof (cases "runHandler job h")
    case None
    then show ?thesis using that Inr active_operations(1) [OF assms, of t2] by (auto simp: next_version_def)
  next
    case (Some e)
    then show ?thesis
      using that Inr active_operations(3) [OF assms, of k "Some e" t2] by (auto simp: next_version_def)
  qed
qed

lemma next_version_ok:
  assumes "job_ok job" "\<not> time_IsZero t0" "\<not> time_IsZero t2" "next_version registry k t0 t2 job = Inr (j, out)"
  shows "job_ok j" and "same_identity job j" and "j_state j = (case out of
    OutcomeSuccess \<Rightarrow> StateCompleted | OutcomeFailure \<Rightarrow> StateRetrying | OutcomeDead \<Rightarrow> StateDead)"
  using assms unfolding next_version_def
  by (auto simp: andThen_eq_Inr split: sum.splits option.splits if_splits
      dest: Kill_ok Complete_ok Fail_ok same_identity_ops op_states)


section \<open>Execution over any store that keeps the contracts\<close>

context outcome_ports
begin

text \<open>
  The last write of an execution: it stores the next version of the job or reports an error, and on
  an error the document is the one before, the next version, or unchanged.
\<close>

lemma write_step:
  assumes "writes op" "inv (w_store w)" "job_ok j" "onStore (op j) w = (w', r)"
  shows "inv (w_store w') \<and> w_metrics w' = w_metrics w \<and>
    (case r of
       Inr _ \<Rightarrow> docs (w_store w') = (docs (w_store w))(j_id j \<mapsto> norm j)
     | Inl _ \<Rightarrow> docs (w_store w') = docs (w_store w) \<or> docs (w_store w') = (docs (w_store w))(j_id j \<mapsto> norm j))"
proof -
  obtain s where s: "op j (w_store w) = (s, r)" "w' = w\<lparr>w_store := s\<rparr>" using assms(4) by (auto simp: onStore_eq)
  with assms(1-3) show ?thesis unfolding writes_on_def by fastforce
qed

text \<open>The three ways to end, seen from the state after the lease was saved.\<close>

definition ends :: "'s world \<Rightarrow> 's world \<Rightarrow> unit result \<Rightarrow> Job \<Rightarrow> Outcome \<Rightarrow> bool" where
  "ends w w' r j out \<longleftrightarrow>
     inv (w_store w') \<and>
     (case r of
        Inr _ \<Rightarrow> docs (w_store w') = (docs (w_store w))(j_id j \<mapsto> norm j) \<and>
          last (w_metrics w') = RecordJobProcessed (j_queue j) (j_taskType j) out
      | Inl _ \<Rightarrow> docs (w_store w') = docs (w_store w) \<or> docs (w_store w') = (docs (w_store w))(j_id j \<mapsto> norm j))"

lemma complete_ends:
  assumes "inv (w_store w)" "job_ok j" "Complete now job = Inr j" "complete broker ret now job w = (w', r)"
  shows "ends w w' r j OutcomeSuccess"
proof -
  obtain w1 r1 where O: "onStore (broker_Complete broker j (effectiveRetention ret)) w = (w1, r1)" by fastforce
  from write_step [OF complete_writes assms(1,2) O] assms(3,4) O show ?thesis
    by (cases r1) (auto simp: complete_def ends_def)
qed

lemma kill_ends:
  assumes "inv (w_store w)" "job_ok j" "Kill (Error_string e) now job = Inr j" "kill broker now e job w = (w', r)"
  shows "ends w w' r j OutcomeDead"
proof -
  obtain w1 r1 where O: "onStore (broker_Kill broker j) w = (w1, r1)" by fastforce
  from write_step [OF kill_writes assms(1,2) O] assms(3,4) O show ?thesis
    by (cases r1) (auto simp: kill_def ends_def)
qed

lemma fail_ends:
  assumes "inv (w_store w)" "job_ok j" "Fail k (Some e) now job = Inr (j, out)" "fail broker k now e job w = (w', r)"
  shows "ends w w' r j (if fo_ShouldRetry out then OutcomeFailure else OutcomeDead)"
proof -
  let ?w = "emit (RecordJobFailed (j_queue j) (j_taskType j) (failureReason e)) w"
  have inv: "inv (w_store ?w)" using assms(1) by simp
  show ?thesis
  proof (cases "fo_ShouldRetry out")
    case True
    obtain w1 r1 where O: "onStore (broker_Retry broker j (fo_RetryAt out)) ?w = (w1, r1)" by fastforce
    from write_step [OF retry_writes inv assms(2) O] True assms(3,4) O show ?thesis
      by (cases r1) (auto simp: fail_def ends_def)
  next
    case False
    obtain w1 r1 where O: "onStore (broker_Kill broker j) ?w = (w1, r1)" by fastforce
    from write_step [OF kill_writes inv assms(2) O] False assms(3,4) O show ?thesis
      by (cases r1) (auto simp: fail_def ends_def)
  qed
qed

lemma ends_emit [simp]: "ends (emit m w) w' r j out = ends w w' r j out"
  by (cases r) (simp_all add: ends_def)

lemma execute_ends:
  assumes "inv (w_store w)" "job_ok job" "\<not> time_IsZero t0" "\<not> time_IsZero t2"
    and next_v: "next_version registry k t0 t2 job = Inr (j, out)"
    and run: "execute broker registry ret k t0 t1 t2 job w = (w', r)"
  shows "ends w w' r j out"
proof -
  have ok: "job_ok j" using next_version_ok(1) [OF assms(2-4) next_v] .
  show ?thesis
  proof (cases "Resolve registry (j_taskType job)")
    case (Inl e)
    then have "Kill (Error_string e) t0 job = Inr j" "out = OutcomeDead"
      using next_v by (auto simp: next_version_def andThen_eq_Inr)
    with kill_ends [OF assms(1) ok] Inl run show ?thesis by (simp add: execute_def)
  next
    case (Inr h)
    show ?thesis
    proof (cases "runHandler job h")
      case None
      then have "Complete t2 job = Inr j" "out = OutcomeSuccess"
        using next_v Inr by (auto simp: next_version_def andThen_eq_Inr)
      with complete_ends [of "emit _ w", OF _ ok] assms(1) Inr None run show ?thesis
        by (fastforce simp: execute_def)
    next
      case (Some e)
      then obtain fo where "Fail k (Some e) t2 job = Inr (j, fo)"
          "out = (if fo_ShouldRetry fo then OutcomeFailure else OutcomeDead)"
        using next_v Inr by (auto simp: next_version_def andThen_eq_Inr split: prod.splits)
      with fail_ends [of "emit _ w", OF _ ok] assms(1) Inr Some run show ?thesis
        by (fastforce simp: execute_def)
    qed
  qed
qed

lemma Process_ends:
  assumes "inv (w_store w)" "job_ok job" "\<not> time_IsZero t0" "\<not> time_IsZero t2"
    and next_v: "next_version registry k t0 t2 job = Inr (j, out)"
    and S: "onStore (repo_Save repo job) w = (w1, Inr u)"
    and "Process repo broker registry ret k t0 t1 t2 job w = (w', r)"
  shows "ends w1 w' r j out"
proof -
  have "inv (w_store w1)" using write_step [OF save_writes assms(1,2) S] by simp
  moreover have "execute broker registry ret k t0 t1 t2 job w1 = (w', r)"
    using assms(7) S by (simp add: Process_execute)
  ultimately show ?thesis using execute_ends assms(2-4) next_v by blast
qed

lemma Process_success:
  assumes "inv (w_store w)" and job: "job_ok job" "j_state job = StateActive"
    and clock: "\<not> time_IsZero t0" "\<not> time_IsZero t2"
    and run: "Process repo broker registry retention k t0 t1 t2 job w = (w', Inr ())"
  shows "\<exists>j out. next_version registry k t0 t2 job = Inr (j, out) \<and> job_ok j \<and>
    docs (w_store w') = (docs (w_store w))(j_id job \<mapsto> norm j) \<and>
    last (w_metrics w') = RecordJobProcessed (j_queue job) (j_taskType job) out \<and>
    j_state j = (case out of OutcomeSuccess \<Rightarrow> StateCompleted | OutcomeFailure \<Rightarrow> StateRetrying
      | OutcomeDead \<Rightarrow> StateDead)"
proof -
  obtain j out where v: "next_version registry k t0 t2 job = Inr (j, out)"
    using next_version_defined [OF job(2)] .
  note nv = next_version_ok [OF job(1) clock v]
  obtain w1 where S: "onStore (repo_Save repo job) w = (w1, Inr ())"
    using run by (cases "onStore (repo_Save repo job) w") (auto simp: Process_def split: sum.splits)
  have "docs (w_store w1) = (docs (w_store w))(j_id job \<mapsto> norm job)"
    using write_step [OF save_writes assms(1) job(1) S] by simp
  moreover have "ends w1 w' (Inr ()) j out"
    using Process_ends [OF assms(1) job(1) clock v S run] .
  ultimately show ?thesis
    using v nv unfolding ends_def by (auto simp: same_identity_def)
qed

end

section \<open>Execution over the in-memory store\<close>

lemma onStore_Save:
  assumes "st_FailNext (w_store w) = None"
  shows "\<exists>w1. onStore (Save j) w = (w1, Inr ()) \<and> st_FailNext (w_store w1) = None"
  using assms by (simp add: onStore_def Save_def takeFailure_def ensureQueue_def split: option.split)

lemma complete_runs:
  assumes "st_FailNext (w_store w) = None" "j_state job = StateActive"
  shows "\<exists>w'. complete (fakeBroker t) ret now job w = (w', Inr ())"
proof -
  obtain j where "Complete now job = Inr j" using active_operations(1) [OF assms(2)] by blast
  moreover obtain w1 where "onStore (Save j) w = (w1, Inr ())" using onStore_Save [OF assms(1)] by blast
  ultimately show ?thesis by (simp add: complete_def fakeBroker_def Complete_job_def [abs_def])
qed

lemma kill_runs:
  assumes "st_FailNext (w_store w) = None" "j_state job = StateActive"
  shows "\<exists>w'. kill (fakeBroker t) now e job w = (w', Inr ())"
proof -
  obtain j where "Kill (Error_string e) now job = Inr j" using active_operations(2) [OF assms(2)] by blast
  moreover obtain w1 where "onStore (Save j) w = (w1, Inr ())" using onStore_Save [OF assms(1)] by blast
  ultimately show ?thesis by (simp add: kill_def fakeBroker_def Kill_job_def [abs_def])
qed

lemma fail_runs:
  assumes "st_FailNext (w_store w) = None" "j_state job = StateActive"
  shows "\<exists>w'. fail (fakeBroker t) k now e job w = (w', Inr ())"
proof -
  obtain j out where F: "Fail k (Some e) now job = Inr (j, out)" using active_operations(3) [OF assms(2)] by blast
  define w0 where "w0 = emit (RecordJobFailed (j_queue j) (j_taskType j) (failureReason e)) w"
  obtain w1 where "onStore (Save j) w0 = (w1, Inr ())"
    using onStore_Save [of w0 j] assms(1) by (auto simp: w0_def)
  with F show ?thesis
    by (simp add: fail_def fakeBroker_def Kill_job_def [abs_def] Retry_job_def [abs_def] w0_def Let_def)
qed

lemma Process_runs:
  assumes "st_FailNext (w_store w) = None" and "j_state job = StateActive"
  shows "\<exists>w'. Process fakeRepo (fakeBroker t) registry retention k t0 t1 t2 job w = (w', Inr ())"
proof -
  obtain w1 where w1: "onStore (Save job) w = (w1, Inr ())" "st_FailNext (w_store w1) = None"
    using onStore_Save [OF assms(1)] by blast
  have w2: "st_FailNext (w_store (emit m w1)) = None" for m using w1(2) by simp
  note ends = complete_runs [OF w2 assms(2)] fail_runs [OF w2 assms(2)] kill_runs [OF w1(2) assms(2)]
  show ?thesis
    using w1(1) ends by (simp add: Process_def fakeRepo_def Let_def split: sum.split option.split)
qed

lemma Resolve_error: "Resolve registry t = Inl e \<Longrightarrow> Error_string e \<noteq> ''''"
  by (auto simp: Resolve_def NotFound_def New_def split: option.splits)

text \<open>The next version on each branch: what the job becomes and the error it keeps.\<close>

lemma next_version_cases:
  assumes "next_version registry k t0 t2 job = Inr (j, out)"
  shows "case Resolve registry (j_taskType job) of
       Inl e \<Rightarrow> j_state j = StateDead \<and> j_lastError j = Error_string e \<and> out = OutcomeDead
     | Inr handler \<Rightarrow>
         (case runHandler job handler of
            None \<Rightarrow> j_state j = StateCompleted \<and> out = OutcomeSuccess
          | Some e \<Rightarrow> j_lastError j = Error_string e \<and>
              (if j_attemptsMade job \<le> rp_maxRetries (j_retryPolicy job)
               then j_state j = StateRetrying \<and> out = OutcomeFailure
               else j_state j = StateDead \<and> out = OutcomeDead))"
  using assms unfolding next_version_def
  by (auto simp: andThen_eq_Inr Kill_def Complete_def Fail_def guard_def AllowsRetry_def Let_def
      dest: Resolve_error split: sum.splits option.splits if_splits)

section \<open>Properties\<close>

text \<open>
  C4. An execution is one transition. Over any store that keeps its contracts, when \<open>Process\<close> reports
  success for a leased job, the store holds the next version of that job and no other change: dead
  if no handler is registered, completed if the handler returned without error in time, and
  otherwise retrying or dead as the retry policy says, a panic and a timeout being failures like any
  other. The last measurement reports exactly that outcome.
\<close>

theorem process_implements_next_version:
  assumes ports: "outcome_ports ok docs held norm repo broker" and "ok (w_store w)"
    and job: "job_ok job" "j_state job = StateActive" and clock: "\<not> time_IsZero t0" "\<not> time_IsZero t2"
    and run: "Process repo broker registry retention k t0 t1 t2 job w = (w', Inr ())"
  shows "\<exists>j out. next_version registry k t0 t2 job = Inr (j, out) \<and> job_ok j \<and>
    docs (w_store w') = (docs (w_store w))(j_id job \<mapsto> norm j) \<and>
    last (w_metrics w') = RecordJobProcessed (j_queue job) (j_taskType job) out \<and>
    j_state j = (case out of OutcomeSuccess \<Rightarrow> StateCompleted | OutcomeFailure \<Rightarrow> StateRetrying
      | OutcomeDead \<Rightarrow> StateDead)"
  using outcome_ports.Process_success [OF assms] .

definition echo_registry :: HandlerRegistry where
  "echo_registry = [(''email:send'', \<lambda>c. Returned None False)]"

lemma leased_run:
  "Process fakeRepo (fakeBroker 0) echo_registry 0 0 3000 4000 5000 sample_leased
      \<lparr>w_store = sample_store, w_metrics = []\<rparr> =
     (\<lparr>w_store = fst (Save (projr (Complete 5000 sample_leased)) (fst (Save sample_leased sample_store))),
       w_metrics = [RecordJobDuration ''default'' ''email:send'' 1000,
         RecordJobProcessed ''default'' ''email:send'' OutcomeSuccess]\<rparr>, Inr ())"
  by (simp add: Process_def onStore_def fakeRepo_def fakeBroker_def Complete_job_def echo_registry_def Resolve_def
      runHandler_def complete_def Complete_def guard_def CanTransitionTo_iff Save_def takeFailure_def
      sample_store_ok sample_leased_def sample_job_def emit_def sat64_def DefaultQueueName_def)

theorem process_implements_next_version_witness:
  "\<exists>j. store_docs (w_store (fst (Process fakeRepo (fakeBroker 0) echo_registry 0 0 3000 4000 5000 sample_leased
      \<lparr>w_store = sample_store, w_metrics = []\<rparr>))) = (store_docs sample_store)(''job-1'' \<mapsto> j) \<and>
     j_state j = StateCompleted"
proof -
  have "outcome_ports store_ok store_docs store_held (\<lambda>j. j) fakeRepo (fakeBroker 0)"
    by (rule fake_outcome.outcome_ports_axioms)
  moreover have "store_ok (w_store \<lparr>w_store = sample_store, w_metrics = []\<rparr>)" using sample_store_ok by simp
  moreover have "\<not> time_IsZero 3000" "\<not> time_IsZero 5000" "j_state sample_leased = StateActive" "j_id sample_leased = ''job-1''"
    by (simp_all add: time_IsZero_def zero_time_def sample_leased_def sample_job_def)
  ultimately show ?thesis
    using process_implements_next_version [OF _ _ job_in_service_ok [OF sample_in_service] _ _ _ leased_run]
    unfolding leased_run by (fastforce split: Outcome.splits)
qed

text \<open>
  C21. An error of the machinery is safe. When \<open>Process\<close> reports an error, the store still keeps its
  invariant, no other job has changed, and the document of the job is the one stored before, the leased job, or its
  next version: never anything else, so the lease that is stored lets the job be reclaimed.
\<close>

theorem process_error_is_safe:
  assumes ports: "outcome_ports ok docs held norm repo broker" and "ok (w_store w)"
    and job: "job_ok job" "j_state job = StateActive" and clock: "\<not> time_IsZero t0" "\<not> time_IsZero t2"
    and run: "Process repo broker registry retention k t0 t1 t2 job w = (w', Inl e)"
  shows "\<exists>j out. next_version registry k t0 t2 job = Inr (j, out) \<and> ok (w_store w') \<and>
    (\<forall>i. i \<noteq> j_id job \<longrightarrow> docs (w_store w') i = docs (w_store w) i) \<and>
    docs (w_store w') (j_id job) \<in> {docs (w_store w) (j_id job), Some (norm job), Some (norm j)}"
proof -
  obtain j out where v: "next_version registry k t0 t2 job = Inr (j, out)"
    using next_version_defined [OF job(2)] .
  have i: "j_id j = j_id job" using next_version_ok(2) [OF job(1) clock v] by (simp add: same_identity_def)
  obtain w1 r1 where S: "onStore (repo_Save repo job) w = (w1, r1)" by fastforce
  note st = outcome_ports.write_step [OF ports outcome_ports.save_writes [OF ports] assms(2) job(1) S]
  show ?thesis
  proof (cases r1)
    case (Inl e1)
    with S run have "w' = w1" by (simp add: Process_def)
    with st Inl v show ?thesis by auto
  next
    case (Inr u)
    with S have S': "onStore (repo_Save repo job) w = (w1, Inr u)" by simp
    have "outcome_ports.ends ok docs norm w1 w' (Inl e) j out"
      using outcome_ports.Process_ends [OF ports assms(2) job(1) clock v S' run] .
    then have "ok (w_store w')" "docs (w_store w') = docs (w_store w1) \<or>
        docs (w_store w') = (docs (w_store w1))(j_id j \<mapsto> norm j)"
      using outcome_ports.ends_def [OF ports] by auto
    with st Inr v i show ?thesis by auto
  qed
qed

lemma failing_store_run:
  "Process fakeRepo (fakeBroker 0) echo_registry 0 0 3000 4000 5000 sample_leased
      \<lparr>w_store = sample_store\<lparr>st_FailNext := Some (Internal ''x'' ''y'' None)\<rparr>, w_metrics = []\<rparr> =
     (\<lparr>w_store = sample_store, w_metrics = []\<rparr>, Inl (Internal ''x'' ''y'' None))"
  using sample_store_ok(2) by (simp add: Process_def onStore_def fakeRepo_def Save_def takeFailure_def)

theorem process_error_is_safe_witness:
  "\<exists>e. snd (Process fakeRepo (fakeBroker 0) echo_registry 0 0 3000 4000 5000 sample_leased
      \<lparr>w_store = sample_store\<lparr>st_FailNext := Some (Internal ''x'' ''y'' None)\<rparr>, w_metrics = []\<rparr>) = Inl e \<and>
     store_ok (w_store (fst (Process fakeRepo (fakeBroker 0) echo_registry 0 0 3000 4000 5000 sample_leased
      \<lparr>w_store = sample_store\<lparr>st_FailNext := Some (Internal ''x'' ''y'' None)\<rparr>, w_metrics = []\<rparr>)))"
proof -
  have "\<not> time_IsZero 3000" "\<not> time_IsZero 5000" "j_state sample_leased = StateActive"
    by (simp_all add: time_IsZero_def zero_time_def sample_leased_def sample_job_def)
  moreover have "store_ok (w_store \<lparr>w_store = sample_store\<lparr>st_FailNext := Some (Internal ''x'' ''y'' None)\<rparr>, w_metrics = []\<rparr>)"
    using sample_store_ok by simp
  ultimately show ?thesis
    using process_error_is_safe [OF fake_outcome.outcome_ports_axioms _ job_in_service_ok [OF sample_in_service]
        _ _ _ failing_store_run]
    unfolding failing_store_run by auto
qed

text \<open>
  C22. A bad handler never stops a worker. Over the in-memory store without an injected failure,
  \<open>Process\<close> returns without error for every leased job and every handler, and the outcome is recorded
  in the store: dead with the resolution error when no handler is registered, completed when the
  handler returned no error in time, and otherwise (an error, a panic or a timeout) retrying while the
  executions made do not exceed the retries allowed and dead afterwards, with the text of the error.
  No other document changes, and the last measurement reports that outcome.
\<close>

theorem process_always_succeeds:
  assumes "store_ok (w_store w)" and "st_FailNext (w_store w) = None" and "job_ok job" and "j_state job = StateActive"
    and "\<not> time_IsZero t0" and "\<not> time_IsZero t2"
  shows "\<exists>w' j out. Process fakeRepo (fakeBroker t) registry retention k t0 t1 t2 job w = (w', Inr ()) \<and>
    store_docs (w_store w') = (store_docs (w_store w))(j_id job \<mapsto> j) \<and> job_ok j \<and>
    (case Resolve registry (j_taskType job) of
       Inl e \<Rightarrow> j_state j = StateDead \<and> j_lastError j = Error_string e \<and> out = OutcomeDead
     | Inr handler \<Rightarrow>
         (case runHandler job handler of
            None \<Rightarrow> j_state j = StateCompleted \<and> out = OutcomeSuccess
          | Some e \<Rightarrow> j_lastError j = Error_string e \<and>
              (if j_attemptsMade job \<le> rp_maxRetries (j_retryPolicy job)
               then j_state j = StateRetrying \<and> out = OutcomeFailure
               else j_state j = StateDead \<and> out = OutcomeDead))) \<and>
    last (w_metrics w') = RecordJobProcessed (j_queue job) (j_taskType job) out"
proof -
  obtain w' where run: "Process fakeRepo (fakeBroker t) registry retention k t0 t1 t2 job w = (w', Inr ())"
    using Process_runs [OF assms(2,4)] by blast
  then obtain j out where v: "next_version registry k t0 t2 job = Inr (j, out)" and rest: "job_ok j"
    "store_docs (w_store w') = (store_docs (w_store w))(j_id job \<mapsto> j)"
    "last (w_metrics w') = RecordJobProcessed (j_queue job) (j_taskType job) out"
    using fake_outcome.Process_success [OF assms(1,3-6) run] by auto
  show ?thesis
    by (rule exI [of _ w'], rule exI [of _ j], rule exI [of _ out])
       (use run rest next_version_cases [OF v] in simp)
qed

lemma panicking_run:
  "store_ok (w_store \<lparr>w_store = sample_store, w_metrics = []\<rparr>)"
  "st_FailNext (w_store \<lparr>w_store = sample_store, w_metrics = []\<rparr>) = None" "j_state sample_leased = StateActive"
  "\<not> time_IsZero 3000" "\<not> time_IsZero 5000"
  using sample_store_ok by (simp_all add: sample_leased_def time_IsZero_def zero_time_def)

theorem process_always_succeeds_witness:
  "\<exists>w' j. Process fakeRepo (fakeBroker 0) [(''email:send'', \<lambda>c. Panicked ''index out of range'')] 0 0 3000 4000 5000
     sample_leased \<lparr>w_store = sample_store, w_metrics = []\<rparr> = (w', Inr ()) \<and>
     store_docs (w_store w') ''job-1'' = Some j \<and> j_state j = StateRetrying"
proof -
  have "Resolve [(''email:send'', \<lambda>c. Panicked ''index out of range'')] (j_taskType sample_leased) =
      Inr (\<lambda>c. Panicked ''index out of range'')"
    "\<exists>e. runHandler sample_leased (\<lambda>c. Panicked ''index out of range'') = Some e"
    "j_attemptsMade sample_leased \<le> rp_maxRetries (j_retryPolicy sample_leased)" "j_id sample_leased = ''job-1''"
    by (simp_all add: Resolve_def runHandler_def sample_leased_def sample_job_def sample_params_def)
  then show ?thesis
    using process_always_succeeds [OF panicking_run(1,2) job_in_service_ok [OF sample_in_service] panicking_run(3-5),
        of 0 "[(''email:send'', \<lambda>c. Panicked ''index out of range'')]" 0 0 4000]
    by fastforce
qed

end
