(* ===== verification/Uid.thy ===== *)
theory Uid
  imports Value_Objects
begin

text \<open>
  Identifiers (\<open>src/pkg/common/uid/uid.go\<close>): sixteen random bytes in hexadecimal, and the counting
  generator of the tests. The random bytes are an argument. A generated identifier is accepted
  unchanged by \<open>NewJobID\<close>, and different random bytes give different identifiers.
\<close>

definition hex_digit :: "nat \<Rightarrow> char" where
  "hex_digit n = (if n < 10 then char_of (48 + n) else char_of (87 + n))"

definition EncodeToString :: "uint8 list \<Rightarrow> string" where
  "EncodeToString bytes = concat (map (\<lambda>b. [hex_digit (unat b div 16), hex_digit (unat b mod 16)]) bytes)"

text \<open>\<open>buf\<close> is what the entropy source fills in; a broken source is a panic that ends the process.\<close>

definition RandomGenerator_New :: "uint8 list \<Rightarrow> string" where
  "RandomGenerator_New buf = EncodeToString buf"

record SequenceGenerator =
  sg_prefix :: string
  sg_n :: nat

definition NewSequenceGenerator :: "string \<Rightarrow> SequenceGenerator" where
  "NewSequenceGenerator pre = \<lparr>sg_prefix = pre, sg_n = 0\<rparr>"

definition SequenceGenerator_New :: "SequenceGenerator \<Rightarrow> SequenceGenerator \<times> string" where
  "SequenceGenerator_New s =
     (let s' = s\<lparr>sg_n := sg_n s + 1\<rparr> in (s', sg_prefix s' @ ''-'' @ show_nat (sg_n s')))"

section \<open>Lemmas\<close>

lemma hex_digit_of: "n < 16 \<Longrightarrow> of_char (hex_digit n) = (if n < 10 then 48 + n else 87 + n)"
  by (simp add: hex_digit_def)

lemma hex_code_disjoint: "(if m < 10 then 48 + m else 87 + m) = (if n < 10 then 48 + n else 87 + n) \<Longrightarrow> m = (n::nat)"
  by (simp split: if_splits)

lemma hex_digit_inj: "m < 16 \<Longrightarrow> n < 16 \<Longrightarrow> hex_digit m = hex_digit n \<longleftrightarrow> m = n"
  using hex_code_disjoint [of m n] hex_digit_of [of m, symmetric] hex_digit_of [of n, symmetric] by metis

lemma length_EncodeToString [simp]: "length (EncodeToString bytes) = 2 * length bytes"
  by (induction bytes) (simp_all add: EncodeToString_def)

lemma byte_halves: "unat (b :: uint8) div 16 < 16"
  using unsigned_less [of b, where ?'a = nat] by simp

lemma EncodeToString_inj: "EncodeToString xs = EncodeToString ys \<longleftrightarrow> xs = ys"
proof (induction xs arbitrary: ys)
  case (Cons x xs)
  show ?case
  proof (cases ys)
    case (Cons y ys')
    have "unat x div 16 = unat y div 16 \<and> unat x mod 16 = unat y mod 16 \<longleftrightarrow> x = y"
      by (metis div_mult_mod_eq word_unat_eq_iff)
    then show ?thesis
      using Cons.IH [of ys'] Cons byte_halves [of x] byte_halves [of y]
      by (auto simp: EncodeToString_def hex_digit_inj)
  qed (simp add: EncodeToString_def)
qed (auto simp: EncodeToString_def dest: sym)

text \<open>The characters of an identifier are digits and the letters a to f.\<close>

lemma EncodeToString_chars:
  assumes "c \<in> set (EncodeToString bytes)"
  obtains n where "n < 16" "c = hex_digit n"
proof -
  obtain b :: uint8 where "c = hex_digit (unat b div 16) \<or> c = hex_digit (unat b mod 16)"
    using assms by (auto simp: EncodeToString_def)
  with that byte_halves [of b] show thesis by (metis mod_less_divisor zero_less_numeral)
qed

lemma EncodeToString_plain:
  assumes "c \<in> set (EncodeToString bytes)"
  shows "space_free c" "c \<notin> {CHR '' '', CHR 0x09, CHR 0x0A, CHR ''{'', CHR ''}'', CHR '':''}"
proof -
  obtain n where n: "n < 16" "c = hex_digit n" using assms by (rule EncodeToString_chars)
  then have b: "of_char c = (if n < 10 then 48 + n else 87 + n)" using hex_digit_of by blast
  then show "space_free c" using n(1) by (auto simp: space_free_def)
  show "c \<notin> {CHR '' '', CHR 0x09, CHR 0x0A, CHR ''{'', CHR ''}'', CHR '':''}"
    using b n(1) by (auto split: if_splits)
qed

lemma NewJobID_generated:
  assumes "length buf = 16"
  shows "NewJobID (RandomGenerator_New buf) = Inr (RandomGenerator_New buf)"
proof -
  let ?s = "EncodeToString buf"
  have t: "TrimSpace ?s = ?s" using EncodeToString_plain(1) by (intro TrimSpace_id) (auto simp: list_all_iff)
  have "\<not> ContainsAny ?s [CHR '' '', CHR 0x09, CHR 0x0A, CHR ''{'', CHR ''}'', CHR '':'']"
    using EncodeToString_plain(2) by (auto simp: ContainsAny_def list_ex_iff)
  moreover have "?s \<noteq> ''''" "length ?s \<le> maxJobIDLength"
    using assms length_EncodeToString [of buf] by (auto simp: maxJobIDLength_def simp del: length_EncodeToString)
  ultimately show ?thesis by (simp add: NewJobID_def RandomGenerator_New_def t)
qed

end
