(* ===== verification/Worker_Pool.thy ===== *)
theory Worker_Pool
  imports Processor Uid
begin

text \<open>
  The worker pool (\<open>src/pkg/infrastructure/worker/pool.go\<close>). A pool is its shared fields (the started
  flag, the polling order, the gauge of executing jobs), the contexts its runs were started with, and one
  entry per goroutine with the point its loop has reached. One step advances one worker by one
  action on shared state: a check of its context, a call of the broker or the repository, an update
  or a reading of the gauge. Steps of different workers, calls of \<open>Start\<close> and \<open>Stop\<close>, and steps of the
  rest of the system on the store interleave freely.

  Waiting is not timed: a sleeping worker may wake at any moment, and \<open>Stop\<close> may give up
  waiting at any moment. Log output is left out.
\<close>

section \<open>Configuration\<close>

text \<open>The map of queues is listed in the order in which one iteration visits it.\<close>

record PoolConfig =
  pc_Concurrency :: int
  pc_Queues :: "(string \<times> uint8) list"
  pc_PollInterval :: duration
  pc_ShutdownTimeout :: duration
  pc_LeaseDuration :: duration

definition PoolConfig_withDefaults :: "PoolConfig \<Rightarrow> PoolConfig" where
  "PoolConfig_withDefaults c =
     (let c1 = (if pc_Concurrency c \<le> 0 then c\<lparr>pc_Concurrency := 10\<rparr> else c);
          c2 = (if pc_PollInterval c1 \<le> 0 then c1\<lparr>pc_PollInterval := 500 * millisecond\<rparr> else c1);
          c3 = (if pc_ShutdownTimeout c2 \<le> 0 then c2\<lparr>pc_ShutdownTimeout := 30 * second\<rparr> else c2);
          c4 = (if pc_LeaseDuration c3 \<le> 0 then c3\<lparr>pc_LeaseDuration := 60 * second\<rparr> else c3)
      in if length (pc_Queues c4) = 0 then c4\<lparr>pc_Queues := [(DefaultQueueName, 1)]\<rparr> else c4)"

section \<open>The state of a pool\<close>

text \<open>
  Where a worker is in its loop: at the check of its context, about to poll, asleep, holding a job
  that is not yet counted, counted but not yet published, about to be saved, or being executed,
  about to leave the gauge, about to publish it, or returned.
\<close>

datatype phase =
    Top | Polling | Sleeping
  | Claimed Job | Counted Job | Saving Job | Executing Job
  | Finishing | Leaving | Stopped

record worker =
  wk_ID :: string
  wk_run :: nat
  wk_phase :: phase

record 's Pool =
  pl_started :: bool
  pl_dequeueOrder :: "QueueName list"
  pl_runs :: nat
  pl_cancelled :: "nat list"
  pl_workers :: "worker list"
  pl_activeJobs :: int
  pl_world :: "'s world"

definition NewPool :: "'s world \<Rightarrow> 's Pool" where
  "NewPool w = \<lparr>pl_started = False, pl_dequeueOrder = [], pl_runs = 0, pl_cancelled = [],
     pl_workers = [], pl_activeJobs = 0, pl_world = w\<rparr>"

text \<open>What the pool and its processor hold: the ports, the handlers and the retention of completed jobs.\<close>

record 's PoolPorts =
  pp_repo :: "'s IJobRepo"
  pp_broker :: "time \<Rightarrow> 's IJobBroker"
  pp_queues :: "'s IQueueRepo"
  pp_registry :: HandlerRegistry
  pp_retention :: duration

section \<open>Starting and stopping\<close>

definition dedupe :: "QueueName list \<Rightarrow> QueueName list" where
  "dedupe order = keep_first {} order"

definition Queues :: "'s Pool \<Rightarrow> QueueName list" where
  "Queues p = dedupe (pl_dequeueOrder p)"

definition ActiveJobs :: "'s Pool \<Rightarrow> int" where
  "ActiveJobs p = pl_activeJobs p"

fun register_loop :: "'s IQueueRepo \<Rightarrow> (string \<times> uint8) list \<Rightarrow> Queue list \<Rightarrow> ('s, Queue list) call" where
  "register_loop queueRepo [] queues s = (s, Inr queues)"
| "register_loop queueRepo ((rawName, rawWeight) # rest) queues s =
     (case NewQueueName rawName of
        Inl e \<Rightarrow> (s, Inl e)
      | Inr name \<Rightarrow>
          (case NewWeight rawWeight of
             Inl e \<Rightarrow> (s, Inl e)
           | Inr weight \<Rightarrow>
               let queue = NewQueue name weight
               in (case queues_Register queueRepo queue s of
                     (s', Inl e) \<Rightarrow> (s', Inl e)
                   | (s', Inr _) \<Rightarrow> register_loop queueRepo rest (queues @ [queue]) s')))"

definition registerQueues :: "'s PoolPorts \<Rightarrow> PoolConfig \<Rightarrow> ('s Pool, unit) call" where
  "registerQueues P cfg p =
     (case onStore (register_loop (pp_queues P) (pc_Queues cfg) []) (pl_world p) of
        (w', Inl e) \<Rightarrow> (p\<lparr>pl_world := w'\<rparr>, Inl e)
      | (w', Inr queues) \<Rightarrow>
          let p' = p\<lparr>pl_world := w', pl_dequeueOrder := BuildDequeueOrder (map Some queues)\<rparr>
          in (p', if length (pl_dequeueOrder p') = 0
                  then Inl (Invalid ''no_queues_configured'' ''worker pool has no queues to drain'')
                  else Inr ()))"

text \<open>The random bytes of the worker identifiers are arguments, sixteen for each worker.\<close>

definition workerID :: "uint8 list \<Rightarrow> nat \<Rightarrow> string" where
  "workerID buf i = ''worker-'' @ take 8 (RandomGenerator_New buf) @ ''-'' @ show_nat i"

definition Start :: "'s PoolPorts \<Rightarrow> PoolConfig \<Rightarrow> (nat \<Rightarrow> uint8 list) \<Rightarrow> ('s Pool, unit) call" where
  "Start P cfg bufs p =
     (if pl_started p then (p, Inl (Conflict ''pool_already_started'' ''worker pool is already running''))
      else
        (case registerQueues P cfg (p\<lparr>pl_started := True\<rparr>) of
           (p1, Inl e) \<Rightarrow> (p1\<lparr>pl_started := False\<rparr>, Inl e)
         | (p1, Inr _) \<Rightarrow>
             (p1\<lparr>pl_runs := pl_runs p1 + 1,
                 pl_workers := pl_workers p1 @
                   map (\<lambda>i. \<lparr>wk_ID = workerID (bufs i) i, wk_run = pl_runs p1, wk_phase = Top\<rparr>)
                     [0..<nat (pc_Concurrency cfg)]\<rparr>, Inr ())))"

text \<open>
  \<open>Stop\<close> cancels the context of the last run, waits until every worker has returned or the timeout
  has passed, and reports no error either way.
\<close>

definition Stop_signal :: "'s Pool \<Rightarrow> 's Pool" where
  "Stop_signal p =
     (if \<not> pl_started p \<or> pl_runs p = 0 then p else p\<lparr>pl_cancelled := (pl_runs p - 1) # pl_cancelled p\<rparr>)"

definition Stop_return :: "'s Pool \<Rightarrow> 's Pool" where
  "Stop_return p = p\<lparr>pl_started := False\<rparr>"

section \<open>The worker loop\<close>

text \<open>The choices of one step: clock readings, jitter, and whether a sleeping worker's timer fired first.\<close>

record tick =
  tk_now :: time
  tk_t0 :: time
  tk_t1 :: time
  tk_t2 :: time
  tk_jitter :: nat
  tk_timer :: bool

definition sleep :: "bool \<Rightarrow> bool \<Rightarrow> bool" where
  "sleep cancelled timer = (\<not> cancelled \<or> timer)"

text \<open>One step of \<open>run\<close>, given whether the worker's context is cancelled.\<close>

definition run_step ::
  "'s PoolPorts \<Rightarrow> PoolConfig \<Rightarrow> tick \<Rightarrow> bool \<Rightarrow> QueueName list \<Rightarrow> string \<Rightarrow>
   phase \<Rightarrow> int \<Rightarrow> 's world \<Rightarrow> phase \<times> int \<times> 's world" where
  "run_step P cfg tk cancelled order wid ph active w =
     (case ph of
        Top \<Rightarrow> (if cancelled then Stopped else Polling, active, w)
      | Polling \<Rightarrow>
          (case onStore (broker_Dequeue (pp_broker P (tk_now tk)) order wid (pc_LeaseDuration cfg)) w of
             (w', Inl e) \<Rightarrow> (if cancelled then Stopped else Sleeping, active, w')
           | (w', Inr None) \<Rightarrow> (Sleeping, active, w')
           | (w', Inr (Some job)) \<Rightarrow> (Claimed job, active, w'))
      | Sleeping \<Rightarrow> (if sleep cancelled (tk_timer tk) then Top else Stopped, active, w)
      | Claimed job \<Rightarrow> (Counted job, active + 1, w)
      | Counted job \<Rightarrow> (Saving job, active, emit (SetActiveWorkers active) w)
      | Saving job \<Rightarrow>
          (case onStore (repo_Save (pp_repo P) job) w of
             (w', Inl e) \<Rightarrow> (Finishing, active, w')
           | (w', Inr _) \<Rightarrow> (Executing job, active, w'))
      | Executing job \<Rightarrow>
          (case execute (pp_broker P (tk_now tk)) (pp_registry P) (pp_retention P) (tk_jitter tk)
                  (tk_t0 tk) (tk_t1 tk) (tk_t2 tk) job w of
             (w', r) \<Rightarrow> (Finishing, active, w'))
      | Finishing \<Rightarrow> (Leaving, active - 1, w)
      | Leaving \<Rightarrow> (Top, active, emit (SetActiveWorkers active) w)
      | Stopped \<Rightarrow> (Stopped, active, w))"

definition advance :: "'s PoolPorts \<Rightarrow> PoolConfig \<Rightarrow> tick \<Rightarrow> nat \<Rightarrow> 's Pool \<Rightarrow> 's Pool" where
  "advance P cfg tk n p =
     (let wk = pl_workers p ! n;
          (ph, active, w) = run_step P cfg tk (wk_run wk \<in> set (pl_cancelled p)) (pl_dequeueOrder p)
            (wk_ID wk) (wk_phase wk) (pl_activeJobs p) (pl_world p)
      in p\<lparr>pl_workers := (pl_workers p)[n := wk\<lparr>wk_phase := ph\<rparr>], pl_activeJobs := active, pl_world := w\<rparr>)"

section \<open>Executions\<close>

text \<open>
  One step of the whole system: a worker advances at readings of a clock that is set, \<open>Start\<close> or
  \<open>Stop\<close> is called, or the rest of the system (enqueuers, sweeps, operators, handlers) changes the store by \<open>env\<close>.
\<close>

definition clock_set :: "tick \<Rightarrow> bool" where
  "clock_set tk \<longleftrightarrow> \<not> time_IsZero (tk_now tk) \<and> \<not> time_IsZero (tk_t0 tk) \<and> \<not> time_IsZero (tk_t2 tk)"

inductive pool_step :: "'s PoolPorts \<Rightarrow> PoolConfig \<Rightarrow> ('s \<Rightarrow> 's \<Rightarrow> bool) \<Rightarrow> 's Pool \<Rightarrow> 's Pool \<Rightarrow> bool"
  for P cfg env where
  start: "Start P cfg bufs p = (p', r) \<Longrightarrow> pool_step P cfg env p p'"
| worker: "n < length (pl_workers p) \<Longrightarrow> clock_set tk \<Longrightarrow> pool_step P cfg env p (advance P cfg tk n p)"
| signal: "pool_step P cfg env p (Stop_signal p)"
| return: "pool_step P cfg env p (Stop_return p)"
| outside: "env (w_store (pl_world p)) s \<Longrightarrow>
    pool_step P cfg env p (p\<lparr>pl_world := (pl_world p)\<lparr>w_store := s\<rparr>\<rparr>)"

inductive pool_reachable :: "'s PoolPorts \<Rightarrow> PoolConfig \<Rightarrow> ('s \<Rightarrow> 's \<Rightarrow> bool) \<Rightarrow> 's world \<Rightarrow> 's Pool \<Rightarrow> bool"
  for P cfg env w where
  fresh: "pool_reachable P cfg env w (NewPool w)"
| stepped: "pool_reachable P cfg env w p \<Longrightarrow> pool_step P cfg env p p' \<Longrightarrow> pool_reachable P cfg env w p'"

inductive_cases pool_stepE: "pool_step P cfg env p p'"

text \<open>The job a worker holds, and whether it is counted in the gauge.\<close>

definition holds :: "phase \<Rightarrow> Job option" where
  "holds ph = (case ph of Claimed j \<Rightarrow> Some j | Counted j \<Rightarrow> Some j | Saving j \<Rightarrow> Some j | Executing j \<Rightarrow> Some j | _ \<Rightarrow> None)"

definition counted :: "phase \<Rightarrow> nat" where
  "counted ph = (case ph of Counted j \<Rightarrow> 1 | Saving j \<Rightarrow> 1 | Executing j \<Rightarrow> 1 | Finishing \<Rightarrow> 1 | _ \<Rightarrow> 0)"

definition gauge_ok :: "'s Pool \<Rightarrow> bool" where
  "gauge_ok p \<longleftrightarrow> pl_activeJobs p = int (sum_list (map (counted \<circ> wk_phase) (pl_workers p)))"

lemma registerQueues_frame:
  assumes "registerQueues P cfg p = (p', r)"
  shows "pl_workers p' = pl_workers p \<and> pl_activeJobs p' = pl_activeJobs p \<and> pl_runs p' = pl_runs p \<and>
    pl_started p' = pl_started p \<and> pl_cancelled p' = pl_cancelled p \<and> w_metrics (pl_world p') = w_metrics (pl_world p) \<and>
    (\<exists>r'. register_loop (pp_queues P) (pc_Queues cfg) [] (w_store (pl_world p)) = (w_store (pl_world p'), r'))"
  using assms by (auto simp: registerQueues_def onStore_def Let_def split: prod.splits sum.splits)

lemma Start_frame:
  assumes "Start P cfg bufs p = (p', r)"
  shows "pl_activeJobs p' = pl_activeJobs p"
    and "\<exists>new. pl_workers p' = pl_workers p @ new \<and> (\<forall>wk \<in> set new. wk_phase wk = Top)"
    and "p' = p \<or> (\<exists>r'. register_loop (pp_queues P) (pc_Queues cfg) [] (w_store (pl_world p)) = (w_store (pl_world p'), r'))"
proof -
  obtain p1 r1 where R: "registerQueues P cfg (p\<lparr>pl_started := True\<rparr>) = (p1, r1)" by fastforce
  note f = registerQueues_frame [OF R]
  show "pl_activeJobs p' = pl_activeJobs p"
    "\<exists>new. pl_workers p' = pl_workers p @ new \<and> (\<forall>wk \<in> set new. wk_phase wk = Top)"
    "p' = p \<or> (\<exists>r'. register_loop (pp_queues P) (pc_Queues cfg) [] (w_store (pl_world p)) = (w_store (pl_world p'), r'))"
    using assms R f by (auto simp: Start_def split: if_splits sum.splits)
qed

lemma run_step_gauge:
  assumes "run_step P cfg tk cancelled order wid ph active w = (ph', active', w')"
  shows "active' - int (counted ph') = active - int (counted ph)"
  using assms by (cases ph) (auto simp: run_step_def counted_def split: prod.splits sum.splits option.splits if_splits)

lemma sum_list_replace:
  fixes g :: "'a \<Rightarrow> nat"
  assumes "n < length xs"
  shows "sum_list (map g (xs[n := x])) + g (xs ! n) = sum_list (map g xs) + g x"
  using assms
proof (induction xs arbitrary: n)
  case (Cons y ys)
  then show ?case by (cases n) auto
qed simp

lemma advance_gauge:
  assumes "n < length (pl_workers p)" "gauge_ok p"
  shows "gauge_ok (advance P cfg tk n p)"
proof -
  define wk where "wk = pl_workers p ! n"
  obtain ph active w where R: "run_step P cfg tk (wk_run wk \<in> set (pl_cancelled p)) (pl_dequeueOrder p)
      (wk_ID wk) (wk_phase wk) (pl_activeJobs p) (pl_world p) = (ph, active, w)" by (metis prod_cases3)
  have "advance P cfg tk n p =
      p\<lparr>pl_workers := (pl_workers p)[n := wk\<lparr>wk_phase := ph\<rparr>], pl_activeJobs := active, pl_world := w\<rparr>"
    using R by (simp add: advance_def wk_def [symmetric])
  moreover have "sum_list (map (counted \<circ> wk_phase) ((pl_workers p)[n := wk\<lparr>wk_phase := ph\<rparr>])) + counted (wk_phase wk) =
      sum_list (map (counted \<circ> wk_phase) (pl_workers p)) + counted ph"
    using sum_list_replace [OF assms(1), of "counted \<circ> wk_phase"] by (simp add: wk_def)
  ultimately show ?thesis
    using run_step_gauge [OF R] assms(2) by (simp add: gauge_ok_def)
qed

lemma pool_step_gauge: "pool_step P cfg env p p' \<Longrightarrow> gauge_ok p \<Longrightarrow> gauge_ok p'"
proof (induction rule: pool_step.induct)
  case (start bufs p p' r)
  obtain new where "pl_workers p' = pl_workers p @ new" "\<forall>wk \<in> set new. wk_phase wk = Top"
    using Start_frame(2) [OF start(1)] by blast
  then have "sum_list (map (counted \<circ> wk_phase) new) = 0" by (simp add: counted_def)
  with start \<open>pl_workers p' = _\<close> Start_frame(1) [OF start(1)] show ?case by (simp add: gauge_ok_def)
qed (simp_all add: advance_gauge, simp_all add: gauge_ok_def Stop_signal_def Stop_return_def)

section \<open>No job is executed by two workers\<close>

text \<open>
  The rest of the system may do anything to the store that keeps its invariant. Some of it takes a job
  away from the worker it is leased to: reclaiming a lapsed lease, the operator's kill, requeue and
  delete. A job that was taken away while a worker held it is in dispute until no worker holds it any
  more: \<open>pool_run docs P cfg env w T p\<close> says that the pool \<open>p\<close> is reached from a fresh one over the world \<open>w\<close>
  and that \<open>T\<close> are the jobs then in dispute.
\<close>

definition leased_to :: "('s \<Rightarrow> JobID \<Rightarrow> Job option) \<Rightarrow> 's \<Rightarrow> JobID \<Rightarrow> string \<Rightarrow> bool" where
  "leased_to docs s i wid \<longleftrightarrow> (\<exists>j. docs s i = Some j \<and> j_state j = StateActive \<and> j_workerID j = wid)"

definition taken_away :: "('s \<Rightarrow> JobID \<Rightarrow> Job option) \<Rightarrow> 's \<Rightarrow> 's \<Rightarrow> JobID set" where
  "taken_away docs s s' = {i. \<exists>wid. leased_to docs s i wid \<and> \<not> leased_to docs s' i wid}"

definition held_ids :: "'s Pool \<Rightarrow> JobID set" where
  "held_ids p = {j_id j |j n. n < length (pl_workers p) \<and> holds (wk_phase (pl_workers p ! n)) = Some j}"

inductive pool_run ::
  "('s \<Rightarrow> JobID \<Rightarrow> Job option) \<Rightarrow> 's PoolPorts \<Rightarrow> PoolConfig \<Rightarrow> ('s \<Rightarrow> 's \<Rightarrow> bool) \<Rightarrow> 's world \<Rightarrow>
   JobID set \<Rightarrow> 's Pool \<Rightarrow> bool"
  for docs P cfg env w where
  fresh: "pool_run docs P cfg env w {} (NewPool w)"
| inside: "pool_run docs P cfg env w T p \<Longrightarrow> pool_step P cfg (\<lambda>_ _. False) p p' \<Longrightarrow>
    pool_run docs P cfg env w (T \<inter> held_ids p') p'"
| outside: "pool_run docs P cfg env w T p \<Longrightarrow> env (w_store (pl_world p)) s \<Longrightarrow>
    pool_run docs P cfg env w ((T \<union> taken_away docs (w_store (pl_world p)) s) \<inter> held_ids p)
      (p\<lparr>pl_world := (pl_world p)\<lparr>w_store := s\<rparr>\<rparr>)"

text \<open>The runs are all the executions of the pool.\<close>

lemma pool_step_inner:
  "pool_step P cfg env p p' \<Longrightarrow>
    pool_step P cfg (\<lambda>_ _. False) p p' \<or> (\<exists>s. env (w_store (pl_world p)) s \<and> p' = p\<lparr>pl_world := (pl_world p)\<lparr>w_store := s\<rparr>\<rparr>)"
  by (induction rule: pool_step.induct) (blast intro: pool_step.intros)+

lemma pool_reachable_run: "pool_reachable P cfg env w p \<Longrightarrow> \<exists>T. pool_run docs P cfg env w T p"
proof (induction rule: pool_reachable.induct)
  case (stepped p p')
  then show ?case using pool_step_inner [OF stepped(2)] by (blast intro: pool_run.intros)
qed (blast intro: pool_run.fresh)

text \<open>What is known of a job in the hands of a worker, and of a pool with the jobs \<open>T\<close> in dispute.\<close>

definition in_hand :: "string \<Rightarrow> Job \<Rightarrow> bool" where
  "in_hand wid j \<longleftrightarrow> job_ok j \<and> j_state j = StateActive \<and> j_workerID j = wid"

definition pool_ok :: "('s \<Rightarrow> bool) \<Rightarrow> ('s \<Rightarrow> JobID \<Rightarrow> Job option) \<Rightarrow> JobID set \<Rightarrow> 's Pool \<Rightarrow> bool" where
  "pool_ok ok docs T p \<longleftrightarrow>
     ok (w_store (pl_world p)) \<and>
     (\<forall>n < length (pl_workers p). \<forall>j. holds (wk_phase (pl_workers p ! n)) = Some j \<longrightarrow>
        in_hand (wk_ID (pl_workers p ! n)) j \<and>
        (j_id j \<notin> T \<longrightarrow> leased_to docs (w_store (pl_world p)) (j_id j) (wk_ID (pl_workers p ! n)))) \<and>
     (\<forall>n < length (pl_workers p). \<forall>m < length (pl_workers p). \<forall>j k.
        holds (wk_phase (pl_workers p ! n)) = Some j \<longrightarrow> holds (wk_phase (pl_workers p ! m)) = Some k \<longrightarrow>
        n \<noteq> m \<longrightarrow> j_id j = j_id k \<longrightarrow> j_id j \<in> T)"

lemma held_idsI: "n < length (pl_workers p) \<Longrightarrow> holds (wk_phase (pl_workers p ! n)) = Some j \<Longrightarrow> j_id j \<in> held_ids p"
  unfolding held_ids_def by blast

text \<open>Forgetting the jobs nobody holds loses nothing, and neither does a step that leaves the workers alone.\<close>

lemma pool_ok_held: "pool_ok ok docs T p \<Longrightarrow> pool_ok ok docs (T \<inter> held_ids p) p"
  unfolding pool_ok_def by (meson IntI held_idsI)

lemma pool_ok_outside:
  assumes "pool_ok ok docs T p" and "ok s"
  shows "pool_ok ok docs (T \<union> taken_away docs (w_store (pl_world p)) s) (p\<lparr>pl_world := (pl_world p)\<lparr>w_store := s\<rparr>\<rparr>)"
  using assms unfolding pool_ok_def taken_away_def by simp

lemma register_loop_invariant:
  assumes "\<And>q s s' r. q_weight q \<noteq> 0 \<Longrightarrow> I s \<Longrightarrow> queues_Register queues q s = (s', r) \<Longrightarrow> I s'"
    and "I s" "register_loop queues cfg acc s = (s', r)"
  shows "I s'"
  using assms(2,3)
proof (induction cfg arbitrary: acc s)
  case (Cons e cfg)
  obtain rawName rawWeight where e: "e = (rawName, rawWeight)" by (cases e)
  show ?case
  proof (cases "NewQueueName rawName")
    case (Inr name)
    show ?thesis
    proof (cases "NewWeight rawWeight")
      case (Inr weight)
      obtain s1 r1 where R: "queues_Register queues (NewQueue name weight) s = (s1, r1)" by fastforce
      have "I s1"
        by (rule assms(1) [OF _ Cons.prems(1) R]) (simp add: NewQueue_def weight_limits)
      then show ?thesis
        using Cons.IH Cons.prems(2) e R Inr \<open>NewQueueName rawName = Inr name\<close>
        by (cases r1) (auto simp: Let_def)
    qed (use Cons.prems e Inr in auto)
  qed (use Cons.prems e in auto)
qed simp

context pool_ports
begin

lemma execute_step:
  assumes "inv (w_store w)" "job_ok job" "j_state job = StateActive" "\<not> time_IsZero t0" "\<not> time_IsZero t2"
    and run: "execute (broker t) registry ret k t0 t1 t2 job w = (w', r)"
  shows "inv (w_store w') \<and> (\<forall>i. i \<noteq> j_id job \<longrightarrow> docs (w_store w') i = docs (w_store w) i)"
proof -
  obtain j out where v: "next_version registry k t0 t2 job = Inr (j, out)"
    using next_version_defined [OF assms(3)] .
  have "j_id j = j_id job" using next_version_ok(2) [OF assms(2,4,5) v] by (simp add: same_identity_def)
  with outcome_ports.execute_ends [OF outcome assms(1,2,4,5) v run] show ?thesis
    unfolding outcome_ports.ends_def [OF outcome] by (auto split: sum.splits)
qed

lemma save_step:
  assumes "inv (w_store w)" "in_hand wid job" "onStore (repo_Save repo job) w = (w', r)"
  shows "inv (w_store w') \<and> (\<forall>i. i \<noteq> j_id job \<longrightarrow> docs (w_store w') i = docs (w_store w) i) \<and>
    (leased_to docs (w_store w) (j_id job) wid \<longrightarrow> leased_to docs (w_store w') (j_id job) wid)"
proof -
  note keeps = document_view.norm_keeps [OF outcome_ports.axioms(1) [OF outcome]]
  have "job_ok job" using assms(2) by (simp add: in_hand_def)
  from outcome_ports.write_step [OF outcome outcome_ports.save_writes [OF outcome] assms(1) this assms(3)]
  show ?thesis using assms(2) keeps(2,5) [of job]
    by (auto simp: leased_to_def in_hand_def split: sum.splits)
qed

text \<open>
  One step of a worker, seen from the store and from the other workers: it disturbs no lease on
  another job, and a job it takes up was leased to nobody.
\<close>

lemma run_step_inv:
  assumes "inv (w_store w)" "clock_set tk" "pp_repo P = repo" "pp_broker P = broker"
    and ph: "\<And>j. holds ph = Some j \<Longrightarrow> in_hand wid j"
    and run: "run_step P cfg tk cancelled order wid ph active w = (ph', active', w')"
  shows "inv (w_store w') \<and>
    (\<forall>i v. leased_to docs (w_store w) i v \<longrightarrow> (\<forall>j. holds ph = Some j \<longrightarrow> j_id j \<noteq> i) \<longrightarrow> leased_to docs (w_store w') i v) \<and>
    (\<forall>j. holds ph' = Some j \<longrightarrow> in_hand wid j \<and>
       (holds ph = Some j \<and> (leased_to docs (w_store w) (j_id j) wid \<longrightarrow> leased_to docs (w_store w') (j_id j) wid) \<or>
        holds ph = None \<and> leased_to docs (w_store w') (j_id j) wid \<and> (\<forall>v. \<not> leased_to docs (w_store w) (j_id j) v)))"
proof (cases ph)
  case Polling
  obtain s r where D: "broker_Dequeue (broker (tk_now tk)) order wid (pc_LeaseDuration cfg) (w_store w) = (s, r)"
    by fastforce
  have now: "\<not> time_IsZero (tk_now tk)" using assms(2) by (simp add: clock_set_def)
  consider e where "r = Inl e" | "r = Inr None" | j where "r = Inr (Some j)"
    by (metis option.exhaust sum.exhaust)
  then show ?thesis
  proof cases
    case 1
    with D dequeue_err [OF assms(1) now] run Polling assms(4) show ?thesis
      by (auto simp: run_step_def onStore_def holds_def leased_to_def split: if_splits)
  next
    case 2
    with D dequeue_none [OF assms(1) now] run Polling assms(4) show ?thesis
      by (auto simp: run_step_def onStore_def holds_def leased_to_def)
  next
    case (3 j)
    then have "ph' = Claimed j" "w_store w' = s"
      using D run Polling assms(4) by (auto simp: run_step_def onStore_def)
    with dequeue_some [OF assms(1) now D [unfolded 3]] Polling show ?thesis
      by (auto simp: holds_def leased_to_def in_hand_def)
  qed
next
  case (Saving job)
  then have h: "in_hand wid job" using ph by (simp add: holds_def)
  obtain w1 r1 where S: "onStore (repo_Save repo job) w = (w1, r1)" by fastforce
  have "ph' = (case r1 of Inl e \<Rightarrow> Finishing | Inr _ \<Rightarrow> Executing job)" "w' = w1"
    using run Saving S assms(3) by (auto simp: run_step_def split: sum.splits)
  then show ?thesis
    using save_step [OF assms(1) h S] h Saving by (cases r1) (auto simp: holds_def leased_to_def)
next
  case (Executing job)
  then have h: "in_hand wid job" using ph by (simp add: holds_def)
  obtain w1 r1 where E: "execute (broker (tk_now tk)) (pp_registry P) (pp_retention P) (tk_jitter tk)
      (tk_t0 tk) (tk_t1 tk) (tk_t2 tk) job w = (w1, r1)" by fastforce
  then have "ph' = Finishing" "w' = w1" using run Executing assms(4) by (auto simp: run_step_def)
  then show ?thesis
    using execute_step [OF assms(1) _ _ _ _ E] h Executing assms(2)
    by (auto simp: holds_def in_hand_def clock_set_def leased_to_def)
qed (use run ph assms(1) in \<open>auto simp: run_step_def holds_def split: if_splits\<close>)

lemma advance_ok:
  assumes "n < length (pl_workers p)" "clock_set tk" "pp_repo P = repo" "pp_broker P = broker"
    and "pool_ok inv docs T p" "T \<subseteq> held_ids p"
  shows "pool_ok inv docs T (advance P cfg tk n p)"
proof -
  define wk where "wk = pl_workers p ! n"
  obtain ph active w where R: "run_step P cfg tk (wk_run wk \<in> set (pl_cancelled p)) (pl_dequeueOrder p)
      (wk_ID wk) (wk_phase wk) (pl_activeJobs p) (pl_world p) = (ph, active, w)" by (metis prod_cases3)
  define ws where "ws = (pl_workers p)[n := wk\<lparr>wk_phase := ph\<rparr>]"
  have A: "advance P cfg tk n p = p\<lparr>pl_workers := ws, pl_activeJobs := active, pl_world := w\<rparr>"
    using R by (simp add: advance_def ws_def wk_def [symmetric])
  have ws: "length ws = length (pl_workers p)" "ws ! n = wk\<lparr>wk_phase := ph\<rparr>" "\<And>m. m \<noteq> n \<Longrightarrow> ws ! m = pl_workers p ! m"
    using assms(1) by (simp_all add: ws_def)
  let ?s = "w_store (pl_world p)"
  have inv: "inv ?s" and hand: "\<And>m j. m < length (pl_workers p) \<Longrightarrow> holds (wk_phase (pl_workers p ! m)) = Some j \<Longrightarrow>
      in_hand (wk_ID (pl_workers p ! m)) j \<and> (j_id j \<notin> T \<longrightarrow> leased_to docs ?s (j_id j) (wk_ID (pl_workers p ! m)))"
    and apart: "\<And>l m j k. l < length (pl_workers p) \<Longrightarrow> m < length (pl_workers p) \<Longrightarrow>
      holds (wk_phase (pl_workers p ! l)) = Some j \<Longrightarrow> holds (wk_phase (pl_workers p ! m)) = Some k \<Longrightarrow> l \<noteq> m \<Longrightarrow>
      j_id j = j_id k \<Longrightarrow> j_id j \<in> T"
    using assms(5) unfolding pool_ok_def by blast+
  have "holds (wk_phase wk) = Some j \<Longrightarrow> in_hand (wk_ID wk) j" for j
    using hand [OF assms(1)] by (simp add: wk_def)
  from run_step_inv [OF inv assms(2-4) this R]
  have step: "inv (w_store w)"
    "\<And>i v. leased_to docs ?s i v \<Longrightarrow> (\<And>j. holds (wk_phase wk) = Some j \<Longrightarrow> j_id j \<noteq> i) \<Longrightarrow> leased_to docs (w_store w) i v"
    and mine: "\<And>j. holds ph = Some j \<Longrightarrow> in_hand (wk_ID wk) j \<and>
       (holds (wk_phase wk) = Some j \<and> (leased_to docs ?s (j_id j) (wk_ID wk) \<longrightarrow> leased_to docs (w_store w) (j_id j) (wk_ID wk)) \<or>
        holds (wk_phase wk) = None \<and> leased_to docs (w_store w) (j_id j) (wk_ID wk) \<and> (\<forall>v. \<not> leased_to docs ?s (j_id j) v))"
    by blast+
  have own: "in_hand (wk_ID wk) j \<and> (j_id j \<notin> T \<longrightarrow> leased_to docs (w_store w) (j_id j) (wk_ID wk))"
    if "holds ph = Some j" for j
    using mine [OF that] hand [OF assms(1), of j] by (auto simp: wk_def)
  have other: "in_hand (wk_ID (pl_workers p ! m)) k \<and>
      (j_id k \<notin> T \<longrightarrow> leased_to docs (w_store w) (j_id k) (wk_ID (pl_workers p ! m)) \<and>
        (\<forall>j. holds ph = Some j \<longrightarrow> j_id j \<noteq> j_id k))"
    if m: "m < length (pl_workers p)" "m \<noteq> n" "holds (wk_phase (pl_workers p ! m)) = Some k" for m k
  proof -
    have ne: "j_id k \<notin> T \<Longrightarrow> holds (wk_phase wk) = Some j \<Longrightarrow> j_id j \<noteq> j_id k" for j
      using apart [OF assms(1) m(1) _ m(3)] m(2) by (auto simp: wk_def)
    then show ?thesis using hand [OF m(1,3)] step(2) [of "j_id k"] mine by metis
  qed
  have "in_hand (wk_ID (ws ! m)) j \<and> (j_id j \<notin> T \<longrightarrow> leased_to docs (w_store w) (j_id j) (wk_ID (ws ! m)))"
    if "m < length ws" "holds (wk_phase (ws ! m)) = Some j" for m j
    using that own other ws by (cases "m = n") auto
  moreover have "j_id j \<in> T"
    if a: "l < length ws" "m < length ws" "holds (wk_phase (ws ! l)) = Some j" "holds (wk_phase (ws ! m)) = Some k"
      "l \<noteq> m" "j_id j = j_id k" for l m j k
  proof -
    consider "l = n" "m \<noteq> n" | "l \<noteq> n" "m = n" | "l \<noteq> n" "m \<noteq> n" using a(5) by blast
    then show ?thesis
    proof cases
      case 1
      with a ws other [of m k] show ?thesis by auto
    next
      case 2
      with a ws other [of l j] show ?thesis by auto
    next
      case 3
      with a ws apart [of l m j k] show ?thesis by simp
    qed
  qed
  ultimately show ?thesis unfolding A pool_ok_def using step(1) by simp
qed

lemma pool_step_ok:
  assumes "pool_step P cfg (\<lambda>_ _. False) p p'" "pp_repo P = repo" "pp_broker P = broker" "pp_queues P = queues"
    and "pool_ok inv docs T p" "T \<subseteq> held_ids p"
  shows "pool_ok inv docs T p'"
  using assms
proof (induction rule: pool_step.induct)
  case (start bufs p p' r)
  obtain new where new: "pl_workers p' = pl_workers p @ new" "\<forall>wk \<in> set new. wk_phase wk = Top"
    using Start_frame(2) [OF start(1)] by blast
  let ?I = "\<lambda>s. inv s \<and> docs s = docs (w_store (pl_world p))"
  have I: "?I (w_store (pl_world p))" using start.prems(4) by (simp add: pool_ok_def)
  have reg: "q_weight q \<noteq> 0 \<Longrightarrow> ?I s \<Longrightarrow> queues_Register queues q s = (s', r) \<Longrightarrow> ?I s'" for q s s' r
    using register_keeps by metis
  have "?I s'" if "register_loop queues c acc (w_store (pl_world p)) = (s', r)" for c acc s' r
    by (rule register_loop_invariant [where I = ?I and queues = queues, OF _ I that]) (erule (2) reg)
  then have "?I (w_store (pl_world p'))"
    using Start_frame(3) [OF start(1)] I start.prems(3) by blast
  moreover have "holds (wk_phase (pl_workers p' ! n)) = Some j \<Longrightarrow> n < length (pl_workers p') \<Longrightarrow>
      n < length (pl_workers p) \<and> pl_workers p' ! n = pl_workers p ! n" for n j
    using new by (auto simp: nth_append holds_def split: if_splits)
  ultimately show ?case
    using start.prems(4) unfolding pool_ok_def leased_to_def by metis
qed (auto simp: advance_ok, auto simp: pool_ok_def Stop_signal_def Stop_return_def)

lemma pool_run_ok:
  assumes "pool_run docs P cfg env w T p" "pp_repo P = repo" "pp_broker P = broker" "pp_queues P = queues"
    and "inv (w_store w)" "\<And>s s'. env s s' \<Longrightarrow> inv s \<Longrightarrow> inv s'"
  shows "pool_ok inv docs T p \<and> T \<subseteq> held_ids p"
  using assms(1)
proof (induction rule: pool_run.induct)
  case fresh
  then show ?case using assms(5) by (simp add: NewPool_def pool_ok_def)
next
  case (inside T p p')
  then show ?case using pool_ok_held [OF pool_step_ok [OF inside(2) assms(2-4)]] by blast
next
  case (outside T p s)
  then have "inv s" using assms(6) by (auto simp: pool_ok_def)
  moreover have "held_ids (p\<lparr>pl_world := x\<rparr>) = held_ids p" for x by (simp add: held_ids_def)
  ultimately show ?case using outside pool_ok_held [OF pool_ok_outside [of inv docs T p s]] by auto
qed

end

section \<open>Shutdown\<close>

text \<open>How many steps a worker whose context is cancelled can still take.\<close>

definition steps_left :: "phase \<Rightarrow> nat" where
  "steps_left ph =
     (case ph of
        Stopped \<Rightarrow> 0 | Top \<Rightarrow> 1 | Sleeping \<Rightarrow> 2 | Leaving \<Rightarrow> 2 | Finishing \<Rightarrow> 3 | Executing j \<Rightarrow> 4
      | Saving j \<Rightarrow> 5 | Counted j \<Rightarrow> 6 | Claimed j \<Rightarrow> 7 | Polling \<Rightarrow> 8)"

text \<open>What happens while \<open>Stop\<close> waits: steps of the workers and of the rest of the system.\<close>

datatype 's event = Work nat tick | Outside 's

fun play :: "'s PoolPorts \<Rightarrow> PoolConfig \<Rightarrow> 's event list \<Rightarrow> 's Pool \<Rightarrow> 's Pool" where
  "play P cfg [] p = p"
| "play P cfg (Work n tk # es) p = play P cfg es (if n < length (pl_workers p) then advance P cfg tk n p else p)"
| "play P cfg (Outside s # es) p = play P cfg es (p\<lparr>pl_world := (pl_world p)\<lparr>w_store := s\<rparr>\<rparr>)"

definition turns :: "nat \<Rightarrow> 's event list \<Rightarrow> nat" where
  "turns n es = length (filter (\<lambda>e. case e of Work m tk \<Rightarrow> m = n | Outside s \<Rightarrow> False) es)"

lemma turns_simps [simp]:
  "turns n [] = 0" "turns n (Work m tk # es) = (if m = n then Suc (turns n es) else turns n es)"
  "turns n (Outside s # es) = turns n es"
  by (simp_all add: turns_def)

definition all_cancelled :: "'s Pool \<Rightarrow> bool" where
  "all_cancelled p \<longleftrightarrow> (\<forall>wk \<in> set (pl_workers p). wk_run wk \<in> set (pl_cancelled p))"

lemma run_step_cancelled:
  assumes "run_step P cfg tk True order wid ph active w = (ph', active', w')"
  shows "steps_left ph' \<le> steps_left ph - 1" and "holds ph = None \<Longrightarrow> ph \<noteq> Polling \<Longrightarrow> holds ph' = None \<and> ph' \<noteq> Polling"
  using assms by (cases ph; auto simp: run_step_def steps_left_def holds_def split: prod.splits sum.splits option.splits if_splits)+

lemma advance_workers:
  assumes "n < length (pl_workers p)"
  shows "length (pl_workers (advance P cfg tk n p)) = length (pl_workers p)"
    and "pl_cancelled (advance P cfg tk n p) = pl_cancelled p"
    and "m \<noteq> n \<Longrightarrow> pl_workers (advance P cfg tk n p) ! m = pl_workers p ! m"
    and "wk_run (pl_workers (advance P cfg tk n p) ! n) = wk_run (pl_workers p ! n)"
    and "\<exists>active w. run_step P cfg tk (wk_run (pl_workers p ! n) \<in> set (pl_cancelled p)) (pl_dequeueOrder p)
      (wk_ID (pl_workers p ! n)) (wk_phase (pl_workers p ! n)) (pl_activeJobs p) (pl_world p) =
      (wk_phase (pl_workers (advance P cfg tk n p) ! n), active, w)"
  using assms by (auto simp: advance_def Let_def split: prod.splits)

lemma advance_cancelled:
  assumes "n < length (pl_workers p)" "all_cancelled p"
  shows "all_cancelled (advance P cfg tk n p)"
    and "steps_left (wk_phase (pl_workers (advance P cfg tk n p) ! n)) \<le> steps_left (wk_phase (pl_workers p ! n)) - 1"
    and "holds (wk_phase (pl_workers p ! n)) = None \<Longrightarrow> wk_phase (pl_workers p ! n) \<noteq> Polling \<Longrightarrow>
      holds (wk_phase (pl_workers (advance P cfg tk n p) ! n)) = None \<and>
      wk_phase (pl_workers (advance P cfg tk n p) ! n) \<noteq> Polling"
proof -
  have c: "wk_run (pl_workers p ! n) \<in> set (pl_cancelled p)" using assms by (simp add: all_cancelled_def)
  note a = advance_workers [where P = P and cfg = cfg and tk = tk, OF assms(1)]
  have "wk_run (pl_workers (advance P cfg tk n p) ! m) \<in> set (pl_cancelled p)" if "m < length (pl_workers p)" for m
    using that a(3) [of m] a(4) c assms(2) by (cases "m = n") (simp_all add: all_cancelled_def)
  then show "all_cancelled (advance P cfg tk n p)"
    unfolding all_cancelled_def a(2) by (auto simp: in_set_conv_nth a(1))
  from a(5) c obtain active w where R: "run_step P cfg tk True (pl_dequeueOrder p)
      (wk_ID (pl_workers p ! n)) (wk_phase (pl_workers p ! n)) (pl_activeJobs p) (pl_world p) =
      (wk_phase (pl_workers (advance P cfg tk n p) ! n), active, w)" by auto
  show "steps_left (wk_phase (pl_workers (advance P cfg tk n p) ! n)) \<le> steps_left (wk_phase (pl_workers p ! n)) - 1"
    by (rule run_step_cancelled(1) [OF R])
  show "holds (wk_phase (pl_workers p ! n)) = None \<Longrightarrow> wk_phase (pl_workers p ! n) \<noteq> Polling \<Longrightarrow>
      holds (wk_phase (pl_workers (advance P cfg tk n p) ! n)) = None \<and>
      wk_phase (pl_workers (advance P cfg tk n p) ! n) \<noteq> Polling"
    by (rule run_step_cancelled(2) [OF R])
qed

lemma play_cancelled:
  assumes "all_cancelled p" "n < length (pl_workers p)"
  shows "length (pl_workers (play P cfg es p)) = length (pl_workers p) \<and>
    steps_left (wk_phase (pl_workers (play P cfg es p) ! n)) \<le> steps_left (wk_phase (pl_workers p ! n)) - turns n es \<and>
    (holds (wk_phase (pl_workers p ! n)) = None \<longrightarrow> wk_phase (pl_workers p ! n) \<noteq> Polling \<longrightarrow>
       holds (wk_phase (pl_workers (play P cfg es p) ! n)) = None)"
  using assms
proof (induction P cfg es p rule: play.induct)
  case (2 P cfg m tk es p)
  show ?case
  proof (cases "m < length (pl_workers p)")
    case True
    note a = advance_workers [where P = P and cfg = cfg and tk = tk, OF True] and c = advance_cancelled [where P = P and cfg = cfg and tk = tk, OF True "2.prems"(1)]
    have "all_cancelled (if m < length (pl_workers p) then advance P cfg tk m p else p)" using True c(1) by simp
    moreover have "n < length (pl_workers (if m < length (pl_workers p) then advance P cfg tk m p else p))"
      using True a(1) "2.prems"(2) by simp
    ultimately have IH: "length (pl_workers (play P cfg es (advance P cfg tk m p))) = length (pl_workers p) \<and>
      steps_left (wk_phase (pl_workers (play P cfg es (advance P cfg tk m p)) ! n)) \<le>
        steps_left (wk_phase (pl_workers (advance P cfg tk m p) ! n)) - turns n es \<and>
      (holds (wk_phase (pl_workers (advance P cfg tk m p) ! n)) = None \<longrightarrow>
         wk_phase (pl_workers (advance P cfg tk m p) ! n) \<noteq> Polling \<longrightarrow>
         holds (wk_phase (pl_workers (play P cfg es (advance P cfg tk m p)) ! n)) = None)"
      using "2.IH" a(1) True by simp
    show ?thesis
      using IH True c(2,3) a(3) [of n] by (cases "m = n") (simp_all, linarith?)
  next
    case False
    with 2 show ?thesis by simp
  qed
next
  case (3 P cfg s es p)
  then show ?case by (simp add: all_cancelled_def)
qed simp

section \<open>Starting\<close>

lemma show_nat_inj: "show_nat m = show_nat n \<longleftrightarrow> m = n"
proof (induction m arbitrary: n rule: less_induct)
  case (less m)
  have d: "char_of (48 + a) = (char_of (48 + b) :: char) \<longleftrightarrow> a = b" if "a < 10" "b < 10" for a b :: nat
    using that by (simp add: char_of_eq_iff take_bit_eq_mod)
  have eq: "m div 10 = n div 10 \<Longrightarrow> m mod 10 = n mod 10 \<Longrightarrow> m = n" by (metis div_mult_mod_eq)
  note long = show_nat_nonempty [THEN not_sym]
  show ?case
  proof (cases "m < 10 \<or> n < 10")
    case True
    then show ?thesis
      using d [of m n] by (auto simp: show_nat.simps [of m] show_nat.simps [of n] long)
  next
    case False
    then have "show_nat m = show_nat (m div 10) @ [char_of (48 + m mod 10)]"
      "show_nat n = show_nat (n div 10) @ [char_of (48 + n mod 10)]"
      by (simp_all add: show_nat.simps [of m] show_nat.simps [of n])
    then show ?thesis
      using less.IH [of "m div 10" "n div 10"] d [of "m mod 10" "n mod 10"] eq False by auto
  qed
qed

lemma workerID_inj:
  assumes "length b = 16" "length b' = 16" "workerID b i = workerID b' j"
  shows "i = j"
proof -
  have "length (take 8 (RandomGenerator_New b)) = length (take 8 (RandomGenerator_New b'))"
    using assms(1,2) by (simp add: RandomGenerator_New_def)
  then show ?thesis using assms(3) by (simp add: workerID_def show_nat_inj)
qed

lemma register_loop_queues:
  assumes "register_loop queueRepo qs acc s = (s', Inr queues)"
  shows "\<exists>new. queues = acc @ new \<and> length new = length qs \<and> (\<forall>q \<in> set new. \<not> q_paused q \<and> q_weight q \<noteq> 0)"
  using assms
proof (induction qs arbitrary: acc s)
  case (Cons e qs)
  obtain rawName rawWeight where e: "e = (rawName, rawWeight)" by (cases e)
  obtain name weight s1 where "register_loop queueRepo qs (acc @ [NewQueue name weight]) s1 = (s', Inr queues)"
    using Cons.prems unfolding e by (auto simp: Let_def split: sum.splits prod.splits)
  with Cons.IH obtain new where "queues = (acc @ [NewQueue name weight]) @ new" "length new = length qs"
      "\<forall>q \<in> set new. \<not> q_paused q \<and> q_weight q \<noteq> 0" by blast
  then show ?case
    by (intro exI [of _ "NewQueue name weight # new"]) (simp add: NewQueue_def weight_limits)
qed simp

lemma registered_order:
  assumes "qs \<noteq> []" "register_loop queueRepo qs [] s = (s', Inr queues)"
  shows "BuildDequeueOrder (map Some queues) \<noteq> []"
proof -
  obtain new where new: "queues = [] @ new" "length new = length qs" "\<forall>q \<in> set new. \<not> q_paused q \<and> q_weight q \<noteq> 0"
    using register_loop_queues [OF assms(2)] by blast
  with assms(1) obtain q where "q \<in> set queues" "\<not> q_paused q" "q_weight q \<noteq> 0" by (cases new) auto
  then have "q_name q \<in> set (BuildDequeueOrder (map Some queues))"
    unfolding set_BuildDequeueOrder by (force simp: unat_gt_0)
  then show ?thesis by auto
qed

lemma withDefaults_positive:
  "0 < pc_Concurrency (PoolConfig_withDefaults c)" "pc_Queues (PoolConfig_withDefaults c) \<noteq> []"
  by (simp_all add: PoolConfig_withDefaults_def Let_def)

text \<open>
  Starting. A pool that runs refuses to be started again and is not changed. Otherwise the only
  errors are those of registering a configured queue: then nothing runs and the pool can be started
  again. On success it has a polling order and exactly as many new workers as configured,
  at least one, at the top of their loops, all with the new context and with different names.
\<close>

theorem pool_start:
  assumes "\<forall>i. length (bufs i) = 16"
  shows "case Start P (PoolConfig_withDefaults cfg) bufs p of (p', r) \<Rightarrow>
    if pl_started p then p' = p \<and> r = Inl (Conflict ''pool_already_started'' ''worker pool is already running'')
    else case r of
        Inl e \<Rightarrow> \<not> pl_started p' \<and> pl_workers p' = pl_workers p \<and>
          (\<exists>s'. register_loop (pp_queues P) (pc_Queues (PoolConfig_withDefaults cfg)) [] (w_store (pl_world p)) = (s', Inl e))
      | Inr _ \<Rightarrow> pl_started p' \<and> pl_dequeueOrder p' \<noteq> [] \<and>
          (\<exists>new. pl_workers p' = pl_workers p @ new \<and> int (length new) = pc_Concurrency (PoolConfig_withDefaults cfg) \<and>
             0 < length new \<and> distinct (map wk_ID new) \<and>
             (\<forall>wk \<in> set new. wk_phase wk = Top \<and> wk_run wk = pl_runs p))"
proof -
  let ?cfg = "PoolConfig_withDefaults cfg"
  obtain s1 r1 where L: "register_loop (pp_queues P) (pc_Queues ?cfg) [] (w_store (pl_world p)) = (s1, r1)" by fastforce
  have d: "distinct (map (\<lambda>i. workerID (bufs i) i) [0..<k])" for k
    using workerID_inj [of "bufs x" "bufs y" x y for x y] assms by (simp add: distinct_map inj_on_def)
  show ?thesis
  proof (cases r1)
    case (Inl e)
    with L show ?thesis by (simp add: Start_def registerQueues_def onStore_def)
  next
    case (Inr queues)
    with L registered_order [OF withDefaults_positive(2), of "pp_queues P" cfg "w_store (pl_world p)"]
    show ?thesis
      using d withDefaults_positive(1) [of cfg]
      by (simp add: Start_def registerQueues_def onStore_def Let_def o_def)
  qed
qed

text \<open>
  C3. The workers, for every interleaving of their steps with calls of \<open>Start\<close> and \<open>Stop\<close> and with a rest
  of the system that may do anything that keeps the store's invariant: enqueue, promote, reclaim, kill,
  requeue, delete. From the moment \<open>Dequeue\<close> hands a job out until its outcome is recorded, the job a
  worker holds is a well-formed active job in that worker's name. While nobody outside the pool has taken
  the job away from a worker that held it, it is moreover stored as active and leased to that very worker,
  and no other worker holds it. The jobs in dispute \<open>T\<close> are exactly those held jobs that the rest of the
  system has taken away, and without such interference there are none. This holds over any store that
  keeps its contracts.
\<close>

theorem pool_no_double_processing:
  assumes ports: "pool_ports ok docs held norm (pp_repo P) (pp_broker P) (pp_queues P)"
    and "ok (w_store w)" and "\<And>s s'. env s s' \<Longrightarrow> ok s \<Longrightarrow> ok s'" and "pool_run docs P cfg env w T p"
  shows "(\<forall>n < length (pl_workers p). \<forall>j. holds (wk_phase (pl_workers p ! n)) = Some j \<longrightarrow>
      job_ok j \<and> j_state j = StateActive \<and> j_workerID j = wk_ID (pl_workers p ! n) \<and>
      (j_id j \<notin> T \<longrightarrow>
         leased_to docs (w_store (pl_world p)) (j_id j) (wk_ID (pl_workers p ! n)) \<and>
         (\<forall>m < length (pl_workers p). \<forall>k. m \<noteq> n \<longrightarrow> holds (wk_phase (pl_workers p ! m)) = Some k \<longrightarrow>
            j_id k \<noteq> j_id j))) \<and>
    T \<subseteq> held_ids p \<and>
    ((\<forall>s s'. env s s' \<longrightarrow> taken_away docs s s' = {}) \<longrightarrow> T = {})"
proof -
  have "pool_ok ok docs T p \<and> T \<subseteq> held_ids p"
    by (rule pool_ports.pool_run_ok [OF ports assms(4) refl refl refl assms(2)]) (rule assms(3))
  moreover have "T = {}" if "\<forall>s s'. env s s' \<longrightarrow> taken_away docs s s' = {}"
    using assms(4) by (induction rule: pool_run.induct) (use that in auto)
  ultimately show ?thesis unfolding pool_ok_def in_hand_def by metis
qed

text \<open>
  The gauge. At every moment \<open>ActiveJobs\<close> is the number of workers between the two updates of the
  counter: it is never negative and never exceeds the number of workers.
\<close>

theorem pool_gauge_counts:
  assumes "pool_reachable P cfg env w p"
  shows "ActiveJobs p = int (length (filter (\<lambda>wk. counted (wk_phase wk) = 1) (pl_workers p))) \<and>
    0 \<le> ActiveJobs p \<and> ActiveJobs p \<le> int (length (pl_workers p))"
proof -
  have "gauge_ok p"
    using assms by (induction rule: pool_reachable.induct) (simp add: gauge_ok_def NewPool_def, rule pool_step_gauge)
  moreover have "counted ph = (if counted ph = 1 then 1 else 0)" for ph by (simp add: counted_def split: phase.split)
  then have "sum_list (map (counted \<circ> wk_phase) ws) = length (filter (\<lambda>wk. counted (wk_phase wk) = 1) ws)" for ws
    by (induction ws) (simp_all, metis zero_neq_one)
  ultimately have a: "ActiveJobs p = int (length (filter (\<lambda>wk. counted (wk_phase wk) = 1) (pl_workers p)))"
    by (simp add: gauge_ok_def ActiveJobs_def)
  moreover have "length (filter (\<lambda>wk. counted (wk_phase wk) = 1) (pl_workers p)) \<le> length (pl_workers p)"
    by (rule length_filter_le)
  ultimately show ?thesis by simp
qed

text \<open>
  C20. Graceful shutdown. Once the context of every worker is cancelled, each worker returns within
  eight of its own steps, whatever the other workers and the rest of the system do and whatever the
  calls it makes return: the drain ends. A worker that was neither polling nor holding a job
  when the context was cancelled takes no job any more.
\<close>

theorem pool_shutdown_drains:
  assumes "all_cancelled p" and "n < length (pl_workers p)"
  shows "(8 \<le> turns n es \<longrightarrow> wk_phase (pl_workers (play P cfg es p) ! n) = Stopped) \<and>
    (holds (wk_phase (pl_workers p ! n)) = None \<longrightarrow> wk_phase (pl_workers p ! n) \<noteq> Polling \<longrightarrow>
       holds (wk_phase (pl_workers (play P cfg es p) ! n)) = None)"
proof -
  have "steps_left ph \<le> 8" "steps_left ph = 0 \<Longrightarrow> ph = Stopped" for ph
    by (auto simp: steps_left_def split: phase.splits)
  then show ?thesis
    using play_cancelled [OF assms, of P cfg es] by (metis diff_is_0_eq le_trans le_zero_eq)
qed

section \<open>A pool over the in-memory store\<close>

definition sample_ports :: "Store PoolPorts" where
  "sample_ports = \<lparr>pp_repo = fakeRepo, pp_broker = fakeBroker, pp_queues = fakeQueues, pp_registry = echo_registry,
     pp_retention = 0\<rparr>"

definition sample_cfg :: PoolConfig where
  "sample_cfg = PoolConfig_withDefaults \<lparr>pc_Concurrency = 1, pc_Queues = [(''default'', 1)], pc_PollInterval = 0,
     pc_ShutdownTimeout = 0, pc_LeaseDuration = 30 * second\<rparr>"

definition sample_tick :: tick where
  "sample_tick = \<lparr>tk_now = 2000, tk_t0 = 3000, tk_t1 = 4000, tk_t2 = 5000, tk_jitter = 0, tk_timer = True\<rparr>"

definition sample_pool :: "Store Pool" where
  "sample_pool = advance sample_ports sample_cfg sample_tick 0 (advance sample_ports sample_cfg sample_tick 0
     (fst (Start sample_ports sample_cfg (\<lambda>i. replicate 16 0) (NewPool \<lparr>w_store = sample_store, w_metrics = []\<rparr>))))"

lemma sample_cfg_eq: "pc_Concurrency sample_cfg = 1" "pc_Queues sample_cfg = [(''default'', 1)]"
    "pc_LeaseDuration sample_cfg = 30 * second"
  by (simp_all add: sample_cfg_def PoolConfig_withDefaults_def Let_def duration_units)

lemma sample_started:
  "\<exists>q wid. Start sample_ports sample_cfg (\<lambda>i. replicate 16 0) (NewPool \<lparr>w_store = sample_store, w_metrics = []\<rparr>) =
     (\<lparr>pl_started = True, pl_dequeueOrder = [''default''], pl_runs = 1, pl_cancelled = [],
       pl_workers = [\<lparr>wk_ID = wid, wk_run = 0, wk_phase = Top\<rparr>], pl_activeJobs = 0,
       pl_world = \<lparr>w_store = sample_store\<lparr>st_queues := q\<rparr>, w_metrics = []\<rparr>\<rparr>, Inr ()) \<and>
     map_of q ''default'' = Some \<lparr>q_name = ''default'', q_weight = 1, q_paused = False\<rparr> \<and> wid \<noteq> ''''"
proof -
  have "NewQueueName ''default'' = Inr ''default''"
    using pattern_NewQueueName DefaultQueueName_matches by (simp add: DefaultQueueName_def)
  moreover have "NewWeight 1 = Inr 1" by (simp add: NewWeight_def weight_limits)
  moreover have "map_of (st_queues sample_store) ''default'' = Some \<lparr>q_name = ''default'', q_weight = 1, q_paused = False\<rparr>"
    by (simp add: sample_store_def Save_def takeFailure_def NewStore_def ensureQueue_def sample_job_def NewQueue_def
        weight_limits DefaultQueueName_def)
  moreover have "BuildDequeueOrder [Some \<lparr>q_name = ''default'', q_weight = 1, q_paused = False\<rparr>] = [''default'']"
    by (simp add: BuildDequeueOrder_def SliceStable_def)
  moreover have "workerID (replicate 16 0) 0 \<noteq> ''''" by (simp add: workerID_def)
  ultimately show ?thesis
    by (intro exI [of _ "AList.update ''default'' \<lparr>q_name = ''default'', q_weight = 1, q_paused = False\<rparr> (st_queues sample_store)"]
          exI [of _ "workerID (replicate 16 0) 0"])
       (simp add: Start_def sample_ports_def sample_cfg_eq Let_def registerQueues_def onStore_def
        fakeQueues_def Register_def NewPool_def NewQueue_def weight_limits Queue_Reconstitute_def update_conv')
qed

lemma sample_polls:
  "\<exists>q wid active. pl_workers sample_pool = [\<lparr>wk_ID = wid, wk_run = 0, wk_phase = Claimed (projr (Lease wid 2000 (30 * second) sample_job))\<rparr>] \<and>
     j_id (projr (Lease wid 2000 (30 * second) sample_job)) = ''job-1''"
proof -
  obtain q wid where S: "Start sample_ports sample_cfg (\<lambda>i. replicate 16 0) (NewPool \<lparr>w_store = sample_store, w_metrics = []\<rparr>) =
     (\<lparr>pl_started = True, pl_dequeueOrder = [''default''], pl_runs = 1, pl_cancelled = [],
       pl_workers = [\<lparr>wk_ID = wid, wk_run = 0, wk_phase = Top\<rparr>], pl_activeJobs = 0,
       pl_world = \<lparr>w_store = sample_store\<lparr>st_queues := q\<rparr>, w_metrics = []\<rparr>\<rparr>, Inr ())"
     "map_of q ''default'' = Some \<lparr>q_name = ''default'', q_weight = 1, q_paused = False\<rparr>" "wid \<noteq> ''''"
    using sample_started by blast
  obtain j where L: "Lease wid 2000 (30 * second) sample_job = Inr j" "j_id j = ''job-1''"
    using S(3) Lease_pending [of wid sample_job 2000 "30 * second"] same_identity_ops(2) [of wid 2000 "30 * second" sample_job]
    by (fastforce simp: sample_job_def same_identity_def)
  have "select_best ''default'' None (st_jobs sample_store) = Some (''job-1'', sample_job)"
    by (simp add: sample_store_jobs sample_job_def DefaultQueueName_def)
  then show ?thesis
    using S L sample_store_ok(2)
    by (simp add: sample_pool_def advance_def run_step_def onStore_def sample_ports_def fakeBroker_def Dequeue_def
        takeFailure_def sample_cfg_eq sample_tick_def)
qed

lemma sample_pool_reachable:
  "pool_reachable sample_ports sample_cfg (\<lambda>s s'. False) \<lparr>w_store = sample_store, w_metrics = []\<rparr> sample_pool"
proof -
  have c: "clock_set sample_tick" by (simp add: clock_set_def sample_tick_def time_IsZero_def zero_time_def)
  obtain p where S: "Start sample_ports sample_cfg (\<lambda>i. replicate 16 0) (NewPool \<lparr>w_store = sample_store, w_metrics = []\<rparr>) = (p, Inr ())"
    "length (pl_workers p) = 1" using sample_started by fastforce
  then show ?thesis
    unfolding sample_pool_def
    using pool_reachable.stepped [OF pool_reachable.stepped [OF pool_reachable.stepped [OF pool_reachable.fresh
        pool_step.start [OF S(1)]] pool_step.worker [OF _ c, of 0]] pool_step.worker [OF _ c, of 0]]
    by (simp add: advance_workers(1))
qed

lemma sample_pool_run:
  "pool_run store_docs sample_ports sample_cfg (\<lambda>s s'. store_ok s') \<lparr>w_store = sample_store, w_metrics = []\<rparr> {} sample_pool"
proof -
  have "pool_run docs P cfg env w {} p" if "pool_reachable P cfg (\<lambda>s s'. False) w p"
    for docs and P :: "Store PoolPorts" and cfg env w p
    using that
  proof (induction rule: pool_reachable.induct)
    case (stepped p p')
    then show ?case using pool_run.inside [OF stepped.IH stepped.hyps(2)] by simp
  qed (rule pool_run.fresh)
  then show ?thesis using sample_pool_reachable by blast
qed

theorem pool_no_double_processing_witness:
  "\<exists>j. holds (wk_phase (pl_workers sample_pool ! 0)) = Some j \<and> j_id j = ''job-1'' \<and>
     leased_to store_docs (w_store (pl_world sample_pool)) ''job-1'' (wk_ID (pl_workers sample_pool ! 0))"
proof -
  have "pool_ports store_ok store_docs store_held (\<lambda>j. j) (pp_repo sample_ports) (pp_broker sample_ports) (pp_queues sample_ports)"
    using fake_pool.pool_ports_axioms by (simp add: sample_ports_def)
  from pool_no_double_processing [OF this _ _ sample_pool_run] sample_polls sample_store_ok(1) show ?thesis
    by (fastforce simp: holds_def)
qed

theorem pool_gauge_counts_witness: "ActiveJobs sample_pool \<le> int (length (pl_workers sample_pool)) \<and> ActiveJobs sample_pool = 0"
  using pool_gauge_counts [OF sample_pool_reachable] sample_polls by (auto simp: counted_def)

theorem pool_start_witness:
  "\<exists>p' new. Start sample_ports sample_cfg (\<lambda>i. replicate 16 0) (NewPool \<lparr>w_store = sample_store, w_metrics = []\<rparr>) = (p', Inr ()) \<and>
     pl_workers p' = new \<and> length new = 1 \<and> distinct (map wk_ID new)"
proof -
  let ?p = "NewPool \<lparr>w_store = sample_store, w_metrics = []\<rparr>"
  obtain p' where "Start sample_ports sample_cfg (\<lambda>i. replicate 16 0) ?p = (p', Inr ())" using sample_started by blast
  moreover have "\<not> pl_started ?p" "pl_workers ?p = []" by (simp_all add: NewPool_def)
  ultimately show ?thesis
    using pool_start [where bufs = "\<lambda>i. replicate 16 0" and p = ?p and P = sample_ports and
        cfg = "\<lparr>pc_Concurrency = 1, pc_Queues = [(''default'', 1)], pc_PollInterval = 0,
          pc_ShutdownTimeout = 0, pc_LeaseDuration = 30 * second\<rparr>", folded sample_cfg_def] sample_cfg_eq(1)
    by auto
qed

theorem pool_shutdown_drains_witness:
  "\<exists>j. holds (wk_phase (pl_workers (Stop_signal sample_pool) ! 0)) = Some j \<and>
     wk_phase (pl_workers (play sample_ports sample_cfg (replicate 8 (Work 0 sample_tick)) (Stop_signal sample_pool)) ! 0) = Stopped"
proof -
  have w: "length (pl_workers sample_pool) = 1" "wk_run (pl_workers sample_pool ! 0) = 0"
    and h: "\<exists>j. holds (wk_phase (pl_workers sample_pool ! 0)) = Some j"
    using sample_polls by (auto simp: holds_def)
  have f: "pl_started (advance P cfg tk n p) = pl_started p \<and> pl_runs (advance P cfg tk n p) = pl_runs p" for P cfg tk n
    and p :: "Store Pool" by (simp add: advance_def Let_def split: prod.split)
  have "pl_started sample_pool" "pl_runs sample_pool = 1"
    using sample_started by (auto simp: sample_pool_def f)
  then have p: "Stop_signal sample_pool = sample_pool\<lparr>pl_cancelled := 0 # pl_cancelled sample_pool\<rparr>"
    by (simp add: Stop_signal_def)
  have "all_cancelled (Stop_signal sample_pool)"
    using w unfolding p by (auto simp: all_cancelled_def in_set_conv_nth)
  moreover have "turns 0 (replicate 8 (Work 0 sample_tick) :: Store event list) = 8" by (simp add: turns_def)
  ultimately show ?thesis
    using pool_shutdown_drains [of "Stop_signal sample_pool" 0 "replicate 8 (Work 0 sample_tick)" sample_ports sample_cfg] h w
    unfolding p by simp
qed

end
