(* ===== verification/Scheduler.thy ===== *)
theory Scheduler
  imports Fake_Store Metrics
begin

text \<open>
  The periodic maintenance (\<open>src/pkg/infrastructure/scheduler/scheduler.go\<close>): promotion of due jobs,
  recovery of lapsed leases, retention, and the sampling of queue depths. A scheduler is the flag
  under its mutex and the loops that run; one tick of a loop applies its sweep to every
  registered queue, and an error on one queue does not keep the sweep from the others. The clock is
  read once per queue. The intervals between ticks and log output are left out.
\<close>

section \<open>Configuration\<close>

record SchedulerConfig =
  sc_PromoteInterval :: duration
  sc_ReclaimInterval :: duration
  sc_JanitorInterval :: duration
  sc_MetricsInterval :: duration
  sc_BatchLimit :: int

definition SchedulerConfig_withDefaults :: "SchedulerConfig \<Rightarrow> SchedulerConfig" where
  "SchedulerConfig_withDefaults c =
     (let c1 = (if sc_PromoteInterval c \<le> 0 then c\<lparr>sc_PromoteInterval := second\<rparr> else c);
          c2 = (if sc_ReclaimInterval c1 \<le> 0 then c1\<lparr>sc_ReclaimInterval := 30 * second\<rparr> else c1);
          c3 = (if sc_JanitorInterval c2 \<le> 0 then c2\<lparr>sc_JanitorInterval := minute\<rparr> else c2);
          c4 = (if sc_MetricsInterval c3 \<le> 0 then c3\<lparr>sc_MetricsInterval := 5 * second\<rparr> else c3)
      in if sc_BatchLimit c4 \<le> 0 then c4\<lparr>sc_BatchLimit := 500\<rparr> else c4)"

section \<open>The sweeps\<close>

definition promoteDue :: "'s IJobBroker \<Rightarrow> SchedulerConfig \<Rightarrow> time \<Rightarrow> QueueName \<Rightarrow> ('s world, unit) call" where
  "promoteDue broker cfg now queue w =
     (case onStore (broker_PromoteDue broker queue now (sc_BatchLimit cfg)) w of
        (w', Inl e) \<Rightarrow> (w', Inl e)
      | (w', Inr moved) \<Rightarrow> (w', Inr ()))"

definition reclaimExpired :: "'s IJobBroker \<Rightarrow> SchedulerConfig \<Rightarrow> time \<Rightarrow> QueueName \<Rightarrow> ('s world, unit) call" where
  "reclaimExpired broker cfg now queue w =
     (case onStore (broker_ReclaimExpired broker queue now (sc_BatchLimit cfg)) w of
        (w', Inl e) \<Rightarrow> (w', Inl e)
      | (w', Inr reclaimed) \<Rightarrow> (w', Inr ()))"

definition purgeCompleted :: "'s IJobRepo \<Rightarrow> SchedulerConfig \<Rightarrow> QueueName \<Rightarrow> ('s world, unit) call" where
  "purgeCompleted repo cfg queue w =
     (case onStore (repo_PurgeCompleted repo queue (sc_BatchLimit cfg)) w of
        (w', Inl e) \<Rightarrow> (w', Inl e)
      | (w', Inr removed) \<Rightarrow> (w', Inr ()))"

definition sampleQueueDepth :: "'s IQueueRepo \<Rightarrow> QueueName \<Rightarrow> ('s world, unit) call" where
  "sampleQueueDepth queueRepo queue w =
     (case onStore (queues_Stats queueRepo queue) w of
        (w', Inl e) \<Rightarrow> (w', Inl e)
      | (w', Inr stats) \<Rightarrow>
          let w1 = emit (SetQueueDepth queue StatePending (s_Pending stats)) w';
              w2 = emit (SetQueueDepth queue StateActive (s_Active stats)) w1;
              w3 = emit (SetQueueDepth queue StateScheduled (s_Scheduled stats)) w2;
              w4 = emit (SetQueueDepth queue StateRetrying (s_Retrying stats)) w3;
              w5 = emit (SetQueueDepth queue StateCompleted (s_Completed stats)) w4;
              w6 = emit (SetQueueDepth queue StateDead (s_Dead stats)) w5
          in (w6, Inr ()))"

text \<open>The loop of \<open>runSweep\<close>: an error is only logged.\<close>

fun sweep_queues :: "(QueueName \<Rightarrow> ('s world, unit) call) \<Rightarrow> Queue list \<Rightarrow> 's world \<Rightarrow> 's world" where
  "sweep_queues fn [] w = w"
| "sweep_queues fn (queue # queues) w =
     (case fn (q_name queue) w of
        (w', Inl e) \<Rightarrow> sweep_queues fn queues w'
      | (w', Inr _) \<Rightarrow> sweep_queues fn queues w')"

definition runSweep :: "'s IQueueRepo \<Rightarrow> (QueueName \<Rightarrow> ('s world, unit) call) \<Rightarrow> 's world \<Rightarrow> 's world" where
  "runSweep queueRepo fn w =
     (case onStore (queues_ListAll queueRepo) w of
        (w', Inl e) \<Rightarrow> w'
      | (w', Inr queues) \<Rightarrow> sweep_queues fn queues w')"

section \<open>The loops\<close>

datatype sweep_name = Promote_loop | Reclaim_loop | Janitor_loop | Metrics_loop

record 's Scheduler =
  sd_started :: bool
  sd_loops :: "sweep_name list"
  sd_world :: "'s world"

record 's SchedulerPorts =
  sp_broker :: "'s IJobBroker"
  sp_repo :: "'s IJobRepo"
  sp_queues :: "'s IQueueRepo"

definition NewScheduler :: "'s world \<Rightarrow> 's Scheduler" where
  "NewScheduler w = \<lparr>sd_started = False, sd_loops = [], sd_world = w\<rparr>"

definition spawn :: "sweep_name \<Rightarrow> 's Scheduler \<Rightarrow> 's Scheduler" where
  "spawn name d = d\<lparr>sd_loops := sd_loops d @ [name]\<rparr>"

definition Scheduler_Start :: "('s Scheduler, unit) call" where
  "Scheduler_Start d =
     (if sd_started d then (d, Inl (Conflict ''scheduler_already_started'' ''scheduler is already running''))
      else (spawn Metrics_loop (spawn Janitor_loop (spawn Reclaim_loop (spawn Promote_loop
              (d\<lparr>sd_started := True\<rparr>)))), Inr ()))"

text \<open>\<open>Stop\<close> waits for every loop to return, so none runs once it has returned.\<close>

definition Scheduler_Stop :: "('s Scheduler, unit) call" where
  "Scheduler_Stop d =
     (if \<not> sd_started d then (d, Inr ()) else (d\<lparr>sd_loops := [], sd_started := False\<rparr>, Inr ()))"

text \<open>What one tick of a loop does; \<open>now\<close> gives the reading of the clock for each queue.\<close>

definition sweep_of ::
  "'s SchedulerPorts \<Rightarrow> SchedulerConfig \<Rightarrow> (QueueName \<Rightarrow> time) \<Rightarrow> sweep_name \<Rightarrow> QueueName \<Rightarrow> ('s world, unit) call" where
  "sweep_of S cfg now name queue =
     (case name of
        Promote_loop \<Rightarrow> promoteDue (sp_broker S) cfg (now queue) queue
      | Reclaim_loop \<Rightarrow> reclaimExpired (sp_broker S) cfg (now queue) queue
      | Janitor_loop \<Rightarrow> purgeCompleted (sp_repo S) cfg queue
      | Metrics_loop \<Rightarrow> sampleQueueDepth (sp_queues S) queue)"

definition loop_tick ::
  "'s SchedulerPorts \<Rightarrow> SchedulerConfig \<Rightarrow> (QueueName \<Rightarrow> time) \<Rightarrow> sweep_name \<Rightarrow> 's Scheduler \<Rightarrow> 's Scheduler" where
  "loop_tick S cfg now name d =
     (if name \<in> set (sd_loops d)
      then d\<lparr>sd_world := runSweep (sp_queues S) (sweep_of S cfg now name) (sd_world d)\<rparr> else d)"

fun loop_ticks ::
  "'s SchedulerPorts \<Rightarrow> SchedulerConfig \<Rightarrow> sweep_name \<Rightarrow> (QueueName \<Rightarrow> time) list \<Rightarrow> 's Scheduler \<Rightarrow> 's Scheduler" where
  "loop_ticks S cfg name [] d = d"
| "loop_ticks S cfg name (now # ticks) d = loop_ticks S cfg name ticks (loop_tick S cfg now name d)"

section \<open>Draining a backlog\<close>

lemma withDefaults_limit: "0 < sc_BatchLimit (SchedulerConfig_withDefaults c)"
  by (simp add: SchedulerConfig_withDefaults_def Let_def)

context sweep_port
begin

fun over :: "(QueueName \<Rightarrow> time) \<Rightarrow> int \<Rightarrow> QueueName list \<Rightarrow> 's \<Rightarrow> 's" where
  "over now limit [] s = s"
| "over now limit (q # qs) s = over now limit qs (fst (sweep (now q) q limit s))"

lemma over_fold: "over now limit qs s = fold (\<lambda>q s. fst (sweep (now q) q limit s)) qs s"
  by (induction qs arbitrary: s) simp_all

lemma sweep_once:
  assumes "inv s" "0 < limit" "\<not> time_IsZero t"
  shows "inv (fst (sweep t q limit s))" "names (fst (sweep t q limit s)) = names s"
    and "work (fst (sweep t q limit s)) p \<le> work s p"
    and "late u (fst (sweep t q limit s)) p \<Longrightarrow> late u s p"
    and "int (work (fst (sweep t q limit s)) q) + limit \<le> int (work s q) \<or> \<not> late t (fst (sweep t q limit s)) q"
proof -
  obtain s' n where S: "sweep t q limit s = (s', Inr n)" "inv s'" "names s' = names s" "0 \<le> n" "n \<le> limit"
    "int (work s' q) = int (work s q) - n" "n = limit \<or> \<not> late t s' q"
    "\<forall>p. p \<noteq> q \<longrightarrow> work s' p = work s p" "\<forall>u p. late u s' p \<longrightarrow> late u s p"
    using sweep_ok [OF assms] by blast
  show "inv (fst (sweep t q limit s))" "names (fst (sweep t q limit s)) = names s" using S by simp_all
  show "work (fst (sweep t q limit s)) p \<le> work s p" using S(1,4,6,8) by (cases "p = q") auto
  show "late u (fst (sweep t q limit s)) p \<Longrightarrow> late u s p" using S(1,9) by simp
  show "int (work (fst (sweep t q limit s)) q) + limit \<le> int (work s q) \<or> \<not> late t (fst (sweep t q limit s)) q"
    using S(1,6,7) by auto
qed

text \<open>One tick over a list of queues: each of them either loses a full batch or has nothing late left.\<close>

lemma over_once:
  assumes "inv s" "0 < limit" "\<And>q. \<not> time_IsZero (now q)"
  shows "inv (over now limit qs s)" "names (over now limit qs s) = names s"
    and "work (over now limit qs s) p \<le> work s p" and "late u (over now limit qs s) p \<Longrightarrow> late u s p"
    and "p \<in> set qs \<Longrightarrow> int (work (over now limit qs s) p) + limit \<le> int (work s p) \<or> \<not> late (now p) (over now limit qs s) p"
proof -
  have "inv (over now limit qs s) \<and> names (over now limit qs s) = names s \<and>
      work (over now limit qs s) p \<le> work s p \<and> (late u (over now limit qs s) p \<longrightarrow> late u s p) \<and>
      (p \<in> set qs \<longrightarrow> int (work (over now limit qs s) p) + limit \<le> int (work s p) \<or> \<not> late (now p) (over now limit qs s) p)" for u
    using assms(1)
  proof (induction qs arbitrary: s u)
    case (Cons q qs)
    define s1 where "s1 = fst (sweep (now q) q limit s)"
    note S = sweep_once [where t = "now q" and q = q, OF Cons.prems assms(2,3), folded s1_def]
    have w: "work s1 p \<le> work s p" "late u s1 p \<Longrightarrow> late u s p" for u
      using S(3,4) by simp_all
    have IH: "inv (over now limit qs s1) \<and> names (over now limit qs s1) = names s1 \<and>
      work (over now limit qs s1) p \<le> work s1 p \<and> (late u (over now limit qs s1) p \<longrightarrow> late u s1 p) \<and>
      (p \<in> set qs \<longrightarrow> int (work (over now limit qs s1) p) + limit \<le> int (work s1 p) \<or> \<not> late (now p) (over now limit qs s1) p)" for u
      by (rule Cons.IH [OF S(1)])
    have "int (work (over now limit qs s1) p) + limit \<le> int (work s p) \<or> \<not> late (now p) (over now limit qs s1) p"
      if "p \<in> set (q # qs)"
    proof (cases "p \<in> set qs")
      case True
      with IH w(1) show ?thesis by (meson of_nat_mono order_trans)
    next
      case False
      with that have "p = q" by simp
      then have "int (work s1 p) + limit \<le> int (work s p) \<or> \<not> late (now p) s1 p"
        using S(5) by simp
      with IH [of "now p"] show ?thesis by (smt (verit) of_nat_mono)
    qed
    then show ?case using IH w S(2) by (auto simp: s1_def intro: order_trans)
  qed simp
  then show "inv (over now limit qs s)" "names (over now limit qs s) = names s"
    "work (over now limit qs s) p \<le> work s p" "late u (over now limit qs s) p \<Longrightarrow> late u s p"
    "p \<in> set qs \<Longrightarrow> int (work (over now limit qs s) p) + limit \<le> int (work s p) \<or> \<not> late (now p) (over now limit qs s) p"
    by blast+
qed

text \<open>
  A sequence of ticks at or after the instant \<open>t\<close>: with as many batches as there was work to begin
  with, nothing that was late at \<open>t\<close> is left. \<open>tick\<close> is any transformation that visits all queues.
\<close>

lemma drained:
  assumes "inv s" "0 < limit" "p \<in> names s"
    and tick: "\<And>now s. inv s \<Longrightarrow> \<exists>qs. set qs = names s \<and> tick now s = over now limit qs s"
    and clock: "\<forall>now \<in> set ticks. \<forall>q. \<not> time_IsZero (now q) \<and> t \<le> now q"
    and enough: "int (work s p) \<le> int (length ticks) * limit"
  shows "\<not> late t (fold tick ticks s) p"
proof -
  have "inv (fold tick ticks s) \<and> (late t (fold tick ticks s) p \<longrightarrow> late t s p \<and>
      int (work (fold tick ticks s) p) + int (length ticks) * limit \<le> int (work s p))"
    using assms(1,3) clock
  proof (induction ticks arbitrary: s)
    case (Cons now ticks)
    obtain qs where qs: "set qs = names s" "tick now s = over now limit qs s" using tick [OF Cons.prems(1)] by blast
    have c: "\<And>q. \<not> time_IsZero (now q)" "t \<le> now p" using Cons.prems(3) by auto
    note o = over_once [where now = now and qs = qs, OF Cons.prems(1) assms(2) c(1)]
    have IH: "inv (fold tick ticks (tick now s)) \<and> (late t (fold tick ticks (tick now s)) p \<longrightarrow> late t (tick now s) p \<and>
      int (work (fold tick ticks (tick now s)) p) + int (length ticks) * limit \<le> int (work (tick now s) p))"
      by (rule Cons.IH) (use o(1,2) qs Cons.prems in auto)
    have "late t (tick now s) p \<Longrightarrow> int (work (tick now s) p) + limit \<le> int (work s p)"
      using o(5) late_mono [OF c(2)] qs Cons.prems(2) by auto
    moreover have "late t (tick now s) p \<Longrightarrow> late t s p" using o(4) qs(2) by simp
    ultimately show ?case using IH by (auto simp: algebra_simps)
  qed simp
  then have "late t (fold tick ticks s) p \<Longrightarrow> work (fold tick ticks s) p = 0" using enough by linarith
  then show ?thesis
    using late_work \<open>inv (fold tick ticks s) \<and> _\<close> by fastforce
qed

end

section \<open>The loops over the in-memory store\<close>

definition fake_scheduler :: "time \<Rightarrow> Store SchedulerPorts" where
  "fake_scheduler b = \<lparr>sp_broker = fakeBroker b, sp_repo = fakeRepo, sp_queues = fakeQueues\<rparr>"

definition listed :: "Store \<Rightarrow> QueueName list" where
  "listed s = map q_name (SliceStable (\<lambda>a b. q_name a < q_name b) (map snd (st_queues s)))"

lemma set_listed:
  assumes "store_ok s"
  shows "set (listed s) = store_names s"
proof -
  have "map fst (st_queues s) = map q_name (map snd (st_queues s))"
    using assms by (auto simp: store_ok_def queues_ok_def)
  then have "store_names s = q_name ` set (map snd (st_queues s))" by (simp add: image_image)
  moreover have "set (listed s) = q_name ` set (map snd (st_queues s))"
    using SliceStable_key [of "\<lambda>a b. q_name a < q_name b" "q_name :: Queue \<Rightarrow> QueueName"] by (simp add: listed_def)
  ultimately show ?thesis by simp
qed

lemma sweep_queues_store:
  assumes "\<And>q w. w_store (fst (fn q w)) = fst (op q (w_store w))"
  shows "w_store (sweep_queues fn queues w) = fold (\<lambda>q s. fst (op q s)) (map q_name queues) (w_store w)"
proof (induction queues arbitrary: w)
  case (Cons q queues)
  obtain w' r where F: "fn (q_name q) w = (w', r)" by fastforce
  then have "w_store w' = fst (op (q_name q) (w_store w))" using assms [of "q_name q" w] by simp
  with F Cons.IH [of w'] show ?case by (cases r) simp_all
qed simp

lemma runSweep_store:
  assumes "\<And>q w. w_store (fst (fn q w)) = fst (op q (w_store w))"
  shows "w_store (runSweep fakeQueues fn w) = fold (\<lambda>q s. fst (op q s)) (listed (w_store w)) (w_store w)"
  using sweep_queues_store [of fn op, OF assms]
  by (simp add: runSweep_def onStore_def fakeQueues_def ListAll_def listed_def)

lemma onStore_fst [simp]: "w_store (fst (onStore c w)) = fst (c (w_store w))"
  by (simp add: onStore_def split: prod.split)

lemma sweep_effects:
  "w_store (fst (promoteDue broker cfg t q w)) = fst (broker_PromoteDue broker q t (sc_BatchLimit cfg) (w_store w))"
  "w_store (fst (reclaimExpired broker cfg t q w)) = fst (broker_ReclaimExpired broker q t (sc_BatchLimit cfg) (w_store w))"
  "w_store (fst (purgeCompleted repo cfg q w)) = fst (repo_PurgeCompleted repo q (sc_BatchLimit cfg) (w_store w))"
  by (auto simp: promoteDue_def reclaimExpired_def purgeCompleted_def onStore_def split: prod.split sum.split)

lemma loop_ticks_store:
  assumes "name \<in> set (sd_loops d)"
    and "\<And>now w. w_store (runSweep (sp_queues S) (sweep_of S cfg now name) w) = tick now (w_store w)"
  shows "w_store (sd_world (loop_ticks S cfg name ticks d)) = fold tick ticks (w_store (sd_world d))"
  using assms(1)
proof (induction ticks arbitrary: d)
  case (Cons now ticks)
  then show ?case using Cons.IH [of "loop_tick S cfg now name d"] assms(2) by (simp add: loop_tick_def)
qed simp

lemma loop_drained:
  assumes port: "sweep_port store_ok store_names sweep work late"
    and "store_ok (w_store (sd_world d))" "name \<in> set (sd_loops d)" "q \<in> store_names (w_store (sd_world d))"
    and l: "0 < sc_BatchLimit cfg" and clock: "\<forall>now \<in> set ticks. \<forall>q. \<not> time_IsZero (now q) \<and> t \<le> now q"
    and effect: "\<And>now q w. w_store (fst (sweep_of (fake_scheduler b) cfg now name q w)) =
      fst (sweep (now q) q (sc_BatchLimit cfg) (w_store w))"
    and enough: "int (work (w_store (sd_world d)) q) \<le> int (length ticks) * sc_BatchLimit cfg"
  shows "\<not> late t (w_store (sd_world (loop_ticks (fake_scheduler b) cfg name ticks d))) q"
proof -
  define tick where "tick now s = sweep_port.over sweep now (sc_BatchLimit cfg) (listed s) s" for now s
  have "w_store (runSweep fakeQueues (sweep_of (fake_scheduler b) cfg now name) w) = tick now (w_store w)" for now w
    using runSweep_store [where op = "\<lambda>q. sweep (now q) q (sc_BatchLimit cfg)" and fn = "sweep_of (fake_scheduler b) cfg now name", OF effect]
    by (simp add: tick_def sweep_port.over_fold [OF port])
  then have "w_store (sd_world (loop_ticks (fake_scheduler b) cfg name ticks d)) = fold tick ticks (w_store (sd_world d))"
    using loop_ticks_store [OF assms(3), of "fake_scheduler b"] by (simp add: fake_scheduler_def)
  moreover have "\<exists>qs. set qs = store_names s \<and> tick now s = sweep_port.over sweep now (sc_BatchLimit cfg) qs s"
    if "store_ok s" for now s using set_listed [OF that] by (auto simp: tick_def)
  ultimately show ?thesis
    using sweep_port.drained [OF port assms(2) l assms(4) _ clock enough, of tick] by simp
qed

text \<open>The jobs a loop is responsible for, and the ones it should have moved by an instant.\<close>

definition in_charge_of :: "sweep_name \<Rightarrow> JobState set" where
  "in_charge_of name =
     (case name of Promote_loop \<Rightarrow> {StateScheduled, StateRetrying} | Reclaim_loop \<Rightarrow> {StateActive}
      | Janitor_loop \<Rightarrow> {StateCompleted} | Metrics_loop \<Rightarrow> {})"

definition overdue :: "sweep_name \<Rightarrow> time \<Rightarrow> QueueName \<Rightarrow> Job \<Rightarrow> bool" where
  "overdue name t q j =
     (case name of Promote_loop \<Rightarrow> promotable q t j | Reclaim_loop \<Rightarrow> lapsed q t j
      | Janitor_loop \<Rightarrow> awaiting {StateCompleted} q j | Metrics_loop \<Rightarrow> False)"

text \<open>
  C8. The sweeps catch up, over the in-memory store. However large a backlog is, a loop that keeps running clears it: after
  ticks at or after the instant \<open>t\<close> that have room for all the jobs of a queue the loop is in
  charge of, no job that was due at \<open>t\<close> is still waiting to be promoted, no lease that had lapsed
  at \<open>t\<close> is left, and no completed job is left to purge. A batch limit therefore only delays. The in-memory
  store has no retention: its \<open>PurgeCompleted\<close> takes every completed job of the queue, so that the janitor clears all of
  them, where the port promises only those past their retention and the Redis repository keeps the promise.
\<close>

theorem scheduler_drains:
  assumes ok: "store_ok (w_store (sd_world d))" and running: "name \<in> set (sd_loops d)"
    and q: "q \<in> store_names (w_store (sd_world d))" and cfg: "cfg = SchedulerConfig_withDefaults c"
    and clock: "\<forall>now \<in> set ticks. \<forall>q. \<not> time_IsZero (now q) \<and> t \<le> now q"
    and enough: "int (count_docs (awaiting (in_charge_of name) q) (w_store (sd_world d))) \<le> int (length ticks) * sc_BatchLimit cfg"
  shows "\<not> some_doc (overdue name t q) (w_store (sd_world (loop_ticks (fake_scheduler b) cfg name ticks d)))"
proof -
  have l: "0 < sc_BatchLimit cfg" using withDefaults_limit cfg by simp
  note drained = loop_drained [OF _ ok running q l clock]
  note eqs = fake_scheduler_def sweep_of_def sweep_effects in_charge_of_def
  show ?thesis
  proof (cases name)
    case Promote_loop
    with drained [OF fake_promote.sweep_port_axioms, of b b] enough show ?thesis
      by (simp add: eqs overdue_def [abs_def])
  next
    case Reclaim_loop
    with drained [OF fake_reclaim.sweep_port_axioms, of b b] enough show ?thesis
      by (simp add: eqs overdue_def [abs_def])
  next
    case Janitor_loop
    with drained [OF fake_purge.sweep_port_axioms, of b] enough show ?thesis
      by (simp add: eqs overdue_def [abs_def])
  next
    case Metrics_loop
    then show ?thesis by (simp add: overdue_def [abs_def] some_doc_def)
  qed
qed

definition busy_store :: Store where
  "busy_store = fst (Save sample_leased sample_store)"

lemma busy_store_facts:
  "store_ok busy_store" "st_jobs busy_store = [(''job-1'', sample_leased)]" "''default'' \<in> store_names busy_store"
proof -
  show "store_ok busy_store" using leased_store_ok by (simp add: busy_store_def)
  show "st_jobs busy_store = [(''job-1'', sample_leased)]"
    by (simp add: busy_store_def Save_def takeFailure_def sample_store_ok sample_store_jobs sample_leased_def sample_job_def)
  show "''default'' \<in> store_names busy_store"
    using ensureQueue_queues(1) [of "''default''"]
    by (auto simp: busy_store_def Save_def takeFailure_def sample_store_ok sample_leased_def sample_job_def
        DefaultQueueName_def map_of_eq_None_iff)
qed

theorem scheduler_drains_witness:
  "some_doc (overdue Reclaim_loop (hour * 100) ''default'') busy_store \<and>
   \<not> some_doc (overdue Reclaim_loop (hour * 100) ''default'')
      (w_store (sd_world (loop_ticks (fake_scheduler 0)
        (SchedulerConfig_withDefaults \<lparr>sc_PromoteInterval = 0, sc_ReclaimInterval = 0, sc_JanitorInterval = 0,
           sc_MetricsInterval = 0, sc_BatchLimit = 1\<rparr>) Reclaim_loop [\<lambda>q. hour * 100]
        (fst (Scheduler_Start (NewScheduler \<lparr>w_store = busy_store, w_metrics = []\<rparr>))))))"
proof -
  let ?d = "fst (Scheduler_Start (NewScheduler \<lparr>w_store = busy_store, w_metrics = []\<rparr>))"
  let ?c = "\<lparr>sc_PromoteInterval = 0, sc_ReclaimInterval = 0, sc_JanitorInterval = 0, sc_MetricsInterval = 0, sc_BatchLimit = 1\<rparr>"
  have d: "w_store (sd_world ?d) = busy_store" "Reclaim_loop \<in> set (sd_loops ?d)"
    by (simp_all add: Scheduler_Start_def NewScheduler_def spawn_def)
  have "count_docs C busy_store \<le> 1" for C
    unfolding count_docs_def busy_store_facts(2)
    by (rule order_trans [OF card_mono [of "{''job-1''}"]]) (auto split: if_splits)
  then have "int (count_docs (awaiting (in_charge_of Reclaim_loop) ''default'') (w_store (sd_world ?d)))
      \<le> int (length [\<lambda>q :: QueueName. hour * 100]) * sc_BatchLimit (SchedulerConfig_withDefaults ?c)"
    by (simp add: d SchedulerConfig_withDefaults_def Let_def)
  moreover have "\<forall>now \<in> set [\<lambda>q :: QueueName. hour * 100]. \<forall>q. \<not> time_IsZero (now q) \<and> hour * 100 \<le> now q"
    by (simp add: time_IsZero_def zero_time_def duration_units)
  moreover have "some_doc (overdue Reclaim_loop (hour * 100) ''default'') busy_store"
    by (simp add: some_doc_def busy_store_facts overdue_def lapsed_def IsLeaseExpired_def sample_leased_def sample_job_def
        duration_units DefaultQueueName_def)
  ultimately show ?thesis
    using scheduler_drains [of ?d Reclaim_loop "''default''" _ ?c "[\<lambda>q. hour * 100]" "hour * 100" 0] d busy_store_facts by simp
qed

section \<open>Depth sampling\<close>

lemma sampleQueueDepth_counts:
  assumes "store_ok (w_store w)"
  shows "sampleQueueDepth fakeQueues q w =
    (w\<lparr>w_metrics := w_metrics w @ map (\<lambda>st. SetQueueDepth q st (jobs_in (w_store w) q st))
       [StatePending, StateActive, StateScheduled, StateRetrying, StateCompleted, StateDead]\<rparr>, Inr ())"
  using count_state_docs [OF assms, of q]
  by (simp add: sampleQueueDepth_def onStore_def fakeQueues_def Stats_of_def statsFor_def foldl_count_job Let_def emit_def)

end
