(* ===== verification/Config.thy ===== *)
theory Config
  imports Worker_Pool Scheduler Redis_Keys Go_Text
begin

text \<open>
  Configuration (\<open>src/pkg/infrastructure/config/config.go\<close>, \<open>providers.go\<close>) and the construction of the Redis
  client (\<open>src/pkg/infrastructure/persistence/redis/client.go\<close>). The file system, the YAML decoder, the
  environment and the client library are arguments: \<open>os.ReadFile\<close> gives the bytes of a path or an error,
  \<open>yaml.Unmarshal\<close> overlays a document on a configuration, \<open>os.Getenv\<close> gives the value of a variable, empty
  when it is not set.
\<close>

section \<open>The document\<close>

record ServerConfig =
  srv_Name :: string
  srv_Version :: string
  srv_PublicPort :: int
  srv_PrivatePort :: int
  srv_ReadTimeout :: duration
  srv_WriteTimeout :: duration
  srv_ShutdownTimeout :: duration

record LoggerConfig =
  lg_Level :: string

record RedisConfig =
  rd_Addrs :: "string list"
  rd_Username :: string
  rd_Password :: string
  rd_DB :: int
  rd_Namespace :: string
  rd_PoolSize :: int
  rd_MinIdleConns :: int
  rd_DialTimeout :: duration
  rd_ReadTimeout :: duration
  rd_WriteTimeout :: duration

text \<open>As in the pool, a map of queues is listed in the order of one iteration.\<close>

record WorkerConfig =
  wc_Enabled :: bool
  wc_Concurrency :: int
  wc_Queues :: "(string \<times> uint8) list"
  wc_PollInterval :: duration
  wc_ShutdownTimeout :: duration
  wc_LeaseDuration :: duration

record SchedulerSection =
  ss_Enabled :: bool
  ss_PromoteInterval :: duration
  ss_ReclaimInterval :: duration
  ss_JanitorInterval :: duration
  ss_MetricsInterval :: duration
  ss_BatchLimit :: int

record JobConfig =
  jc_CompletedRetention :: duration
  jc_IdempotencyTTL :: duration

record AppConfig =
  cfg_Env :: string
  cfg_Server :: ServerConfig
  cfg_Logger :: LoggerConfig
  cfg_Redis :: RedisConfig
  cfg_Worker :: WorkerConfig
  cfg_Scheduler :: SchedulerSection
  cfg_Job :: JobConfig

definition Default :: AppConfig where
  "Default =
     \<lparr>cfg_Env = ''local'',
      cfg_Server = \<lparr>srv_Name = ''goqueue'', srv_Version = ''1.0.0'', srv_PublicPort = 8080, srv_PrivatePort = 9090,
        srv_ReadTimeout = 15 * second, srv_WriteTimeout = 30 * second, srv_ShutdownTimeout = 20 * second\<rparr>,
      cfg_Logger = \<lparr>lg_Level = ''info''\<rparr>,
      cfg_Redis = \<lparr>rd_Addrs = [''127.0.0.1:6379''], rd_Username = '''', rd_Password = '''', rd_DB = 0,
        rd_Namespace = ''goqueue'', rd_PoolSize = 20, rd_MinIdleConns = 4, rd_DialTimeout = 5 * second,
        rd_ReadTimeout = 3 * second, rd_WriteTimeout = 3 * second\<rparr>,
      cfg_Worker = \<lparr>wc_Enabled = True, wc_Concurrency = 10,
        wc_Queues = [(''critical'', 6), (''default'', 3), (''low'', 1)],
        wc_PollInterval = 500 * millisecond, wc_ShutdownTimeout = 30 * second, wc_LeaseDuration = 60 * second\<rparr>,
      cfg_Scheduler = \<lparr>ss_Enabled = True, ss_PromoteInterval = second, ss_ReclaimInterval = 30 * second,
        ss_JanitorInterval = minute, ss_MetricsInterval = 5 * second, ss_BatchLimit = 500\<rparr>,
      cfg_Job = \<lparr>jc_CompletedRetention = hour, jc_IdempotencyTTL = 24 * hour\<rparr>\<rparr>"

section \<open>The environment\<close>

type_synonym environment = "string \<Rightarrow> string"

definition EnvPrefix :: string where "EnvPrefix = ''GOQUEUE_''"

definition envString :: "environment \<Rightarrow> string \<Rightarrow> string \<Rightarrow> string" where
  "envString env key target = (if env (EnvPrefix @ key) \<noteq> '''' then env (EnvPrefix @ key) else target)"

definition envInt :: "environment \<Rightarrow> string \<Rightarrow> int \<Rightarrow> int" where
  "envInt env key target =
     (let raw = env (EnvPrefix @ key)
      in if raw = '''' then target else case strconv_ParseInt raw of Some v \<Rightarrow> v | None \<Rightarrow> target)"

definition strconv_ParseBool :: "string \<Rightarrow> bool option" where
  "strconv_ParseBool s =
     (if s \<in> set [''1'', ''t'', ''T'', ''true'', ''TRUE'', ''True''] then Some True
      else if s \<in> set [''0'', ''f'', ''F'', ''false'', ''FALSE'', ''False''] then Some False
      else None)"

definition envBool :: "environment \<Rightarrow> string \<Rightarrow> bool \<Rightarrow> bool" where
  "envBool env key target =
     (let raw = env (EnvPrefix @ key)
      in if raw = '''' then target else case strconv_ParseBool raw of Some v \<Rightarrow> v | None \<Rightarrow> target)"

text \<open>\<open>strings.Split\<close> at a one-byte separator.\<close>

fun strings_Split :: "char \<Rightarrow> string \<Rightarrow> string list" where
  "strings_Split sep [] = [[]]"
| "strings_Split sep (c # cs) =
     (if c = sep then [] # strings_Split sep cs
      else case strings_Split sep cs of [] \<Rightarrow> [[c]] | part # parts \<Rightarrow> (c # part) # parts)"

definition envAddrs :: "environment \<Rightarrow> string list \<Rightarrow> string list" where
  "envAddrs env target =
     (let raw = env (EnvPrefix @ ''REDIS_ADDRS'')
      in if raw = '''' then target
         else let addrs = filter (\<lambda>a. a \<noteq> '''') (map TrimSpace (strings_Split CHR '','' raw))
              in if addrs = [] then target else addrs)"

definition applyEnv :: "environment \<Rightarrow> AppConfig \<Rightarrow> AppConfig" where
  "applyEnv env c =
     c\<lparr>cfg_Env := envString env ''ENV'' (cfg_Env c),
       cfg_Logger := (cfg_Logger c)\<lparr>lg_Level := envString env ''LOG_LEVEL'' (lg_Level (cfg_Logger c))\<rparr>,
       cfg_Server := (cfg_Server c)
         \<lparr>srv_PublicPort := envInt env ''PUBLIC_PORT'' (srv_PublicPort (cfg_Server c)),
          srv_PrivatePort := envInt env ''PRIVATE_PORT'' (srv_PrivatePort (cfg_Server c))\<rparr>,
       cfg_Redis := (cfg_Redis c)
         \<lparr>rd_Addrs := envAddrs env (rd_Addrs (cfg_Redis c)),
          rd_Username := envString env ''REDIS_USERNAME'' (rd_Username (cfg_Redis c)),
          rd_Password := envString env ''REDIS_PASSWORD'' (rd_Password (cfg_Redis c)),
          rd_Namespace := envString env ''REDIS_NAMESPACE'' (rd_Namespace (cfg_Redis c)),
          rd_DB := envInt env ''REDIS_DB'' (rd_DB (cfg_Redis c))\<rparr>,
       cfg_Worker := (cfg_Worker c)
         \<lparr>wc_Enabled := envBool env ''WORKER_ENABLED'' (wc_Enabled (cfg_Worker c)),
          wc_Concurrency := envInt env ''WORKER_CONCURRENCY'' (wc_Concurrency (cfg_Worker c))\<rparr>,
       cfg_Scheduler := (cfg_Scheduler c)
         \<lparr>ss_Enabled := envBool env ''SCHEDULER_ENABLED'' (ss_Enabled (cfg_Scheduler c))\<rparr>\<rparr>"

section \<open>Validation and loading\<close>

definition Validate :: "AppConfig \<Rightarrow> go_error option" where
  "Validate c =
     (let s = cfg_Server c; w = cfg_Worker c
      in if srv_PublicPort s \<le> 0 \<or> srv_PublicPort s > 65535
         then Some (Invalid ''invalid_config'' ''server.public_port must be between 1 and 65535'')
         else if srv_PrivatePort s \<le> 0 \<or> srv_PrivatePort s > 65535
         then Some (Invalid ''invalid_config'' ''server.private_port must be between 1 and 65535'')
         else if srv_PublicPort s = srv_PrivatePort s
         then Some (Invalid ''invalid_config'' ''server.public_port and server.private_port must differ'')
         else if length (rd_Addrs (cfg_Redis c)) = 0
         then Some (Invalid ''invalid_config'' ''redis.addrs must not be empty'')
         else if wc_Enabled w \<and> wc_Concurrency w \<le> 0
         then Some (Invalid ''invalid_config'' ''worker.concurrency must be greater than 0'')
         else if wc_Enabled w \<and> length (wc_Queues w) = 0
         then Some (Invalid ''invalid_config'' ''worker.queues must not be empty when the worker is enabled'')
         else None)"

definition Load ::
  "(string \<Rightarrow> string result) \<Rightarrow> (string \<Rightarrow> AppConfig \<Rightarrow> AppConfig result) \<Rightarrow> environment \<Rightarrow> string \<Rightarrow> AppConfig result" where
  "Load ReadFile yaml_Unmarshal env path =
     andThen
       (if path \<noteq> ''''
        then (case ReadFile path of
                Inl e \<Rightarrow> Inl (Internal ''config_read_failed'' (''failed to read config file '' @ path) (Some e))
              | Inr raw \<Rightarrow>
                  (case yaml_Unmarshal raw Default of
                     Inl e \<Rightarrow> Inl (Internal ''config_parse_failed'' (''failed to parse config file '' @ path) (Some e))
                   | Inr cfg \<Rightarrow> Inr cfg))
        else Inr Default) (\<lambda>cfg.
     let cfg = applyEnv env cfg
     in case Validate cfg of Some e \<Rightarrow> Inl e | None \<Rightarrow> Inr cfg)"

definition IsProduction :: "AppConfig \<Rightarrow> bool" where
  "IsProduction c \<longleftrightarrow> ToLower (cfg_Env c) \<in> set [''prod'', ''production'', ''stg'', ''staging'']"

section \<open>What each component is given\<close>

record ClientConfig =
  cc_Addrs :: "string list"
  cc_Username :: string
  cc_Password :: string
  cc_DB :: int
  cc_PoolSize :: int
  cc_MinIdleConns :: int
  cc_DialTimeout :: duration
  cc_ReadTimeout :: duration
  cc_WriteTimeout :: duration

definition GetRedisClientConfig :: "AppConfig \<Rightarrow> ClientConfig" where
  "GetRedisClientConfig cfg =
     \<lparr>cc_Addrs = rd_Addrs (cfg_Redis cfg), cc_Username = rd_Username (cfg_Redis cfg),
      cc_Password = rd_Password (cfg_Redis cfg), cc_DB = rd_DB (cfg_Redis cfg),
      cc_PoolSize = rd_PoolSize (cfg_Redis cfg), cc_MinIdleConns = rd_MinIdleConns (cfg_Redis cfg),
      cc_DialTimeout = rd_DialTimeout (cfg_Redis cfg), cc_ReadTimeout = rd_ReadTimeout (cfg_Redis cfg),
      cc_WriteTimeout = rd_WriteTimeout (cfg_Redis cfg)\<rparr>"

definition GetRedisNamespace :: "AppConfig \<Rightarrow> string" where
  "GetRedisNamespace cfg = rd_Namespace (cfg_Redis cfg)"

definition GetLogLevel :: "AppConfig \<Rightarrow> string" where
  "GetLogLevel cfg = lg_Level (cfg_Logger cfg)"

definition GetServerVersion :: "AppConfig \<Rightarrow> string" where
  "GetServerVersion cfg = srv_Version (cfg_Server cfg)"

text \<open>The configurations of the enqueuer and of the processor have one field each, which stands for them.\<close>

definition GetEnqueuerConfig :: "AppConfig \<Rightarrow> duration" where
  "GetEnqueuerConfig cfg = jc_IdempotencyTTL (cfg_Job cfg)"

definition GetProcessorConfig :: "AppConfig \<Rightarrow> duration" where
  "GetProcessorConfig cfg = jc_CompletedRetention (cfg_Job cfg)"

definition GetWorkerPoolConfig :: "AppConfig \<Rightarrow> PoolConfig" where
  "GetWorkerPoolConfig cfg =
     \<lparr>pc_Concurrency = wc_Concurrency (cfg_Worker cfg), pc_Queues = wc_Queues (cfg_Worker cfg),
      pc_PollInterval = wc_PollInterval (cfg_Worker cfg), pc_ShutdownTimeout = wc_ShutdownTimeout (cfg_Worker cfg),
      pc_LeaseDuration = wc_LeaseDuration (cfg_Worker cfg)\<rparr>"

definition GetSchedulerConfig :: "AppConfig \<Rightarrow> SchedulerConfig" where
  "GetSchedulerConfig cfg =
     \<lparr>sc_PromoteInterval = ss_PromoteInterval (cfg_Scheduler cfg),
      sc_ReclaimInterval = ss_ReclaimInterval (cfg_Scheduler cfg),
      sc_JanitorInterval = ss_JanitorInterval (cfg_Scheduler cfg),
      sc_MetricsInterval = ss_MetricsInterval (cfg_Scheduler cfg), sc_BatchLimit = ss_BatchLimit (cfg_Scheduler cfg)\<rparr>"

definition provideKeyBuilder :: "string \<Rightarrow> KeyBuilder" where
  "provideKeyBuilder namespace = NewKeyBuilder namespace"

section \<open>The Redis client\<close>

text \<open>
  \<open>NewUniversalClient\<close>, \<open>Ping\<close> and \<open>Close\<close> belong to the client library: \<open>connect\<close> makes a client of the options,
  \<open>ping\<close> is the error of the first contact, if any. A client that could not be reached is closed and not
  returned.
\<close>

definition NewClient :: "(ClientConfig \<Rightarrow> 'c) \<Rightarrow> ('c \<Rightarrow> go_error option) \<Rightarrow> ClientConfig \<Rightarrow> 'c result" where
  "NewClient connect ping cfg =
     (let cfg = (if length (cc_Addrs cfg) = 0 then cfg\<lparr>cc_Addrs := [''127.0.0.1:6379'']\<rparr> else cfg);
          client = connect cfg
      in case ping client of
           Some err \<Rightarrow> Inl (Wrap KindUnavailable ''redis_unavailable'' ''failed to connect to redis'' (Some err))
         | None \<Rightarrow> Inr client)"

text \<open>Loading the scripts stops at the first that fails; \<open>load\<close> is one \<open>SCRIPT LOAD\<close>.\<close>

fun load_scripts :: "('c, 'x) call list \<Rightarrow> ('c, unit) call" where
  "load_scripts [] c = (c, Inr ())"
| "load_scripts (load # loads) c =
     (case load c of
        (c', Inl e) \<Rightarrow> (c', Inl (Internal ''script_preload_failed'' ''failed to preload lua script'' (Some e)))
      | (c', Inr _) \<Rightarrow> load_scripts loads c')"

definition script_All :: "string list" where
  "script_All = [''enqueue.lua'', ''dequeue.lua'', ''transition.lua'', ''promote.lua'', ''reclaim.lua'',
     ''extend_lease.lua'', ''purge_completed.lua'']"

definition PreloadScripts :: "(string \<Rightarrow> ('c, 'x) call) \<Rightarrow> ('c, unit) call" where
  "PreloadScripts load = load_scripts (map load script_All)"

section \<open>Properties\<close>

lemma Validate_None:
  "Validate c = None \<longleftrightarrow>
     0 < srv_PublicPort (cfg_Server c) \<and> srv_PublicPort (cfg_Server c) \<le> 65535 \<and>
     0 < srv_PrivatePort (cfg_Server c) \<and> srv_PrivatePort (cfg_Server c) \<le> 65535 \<and>
     srv_PublicPort (cfg_Server c) \<noteq> srv_PrivatePort (cfg_Server c) \<and> rd_Addrs (cfg_Redis c) \<noteq> [] \<and>
     (wc_Enabled (cfg_Worker c) \<longrightarrow> 0 < wc_Concurrency (cfg_Worker c) \<and> wc_Queues (cfg_Worker c) \<noteq> [])"
  by (auto simp: Validate_def Let_def)

lemma Load_Inr:
  assumes "Load ReadFile yaml env path = Inr cfg"
  obtains base where "cfg = applyEnv env base" "Validate cfg = None"
    "path = '''' \<and> base = Default \<or> (\<exists>raw. ReadFile path = Inr raw \<and> yaml raw Default = Inr base)"
  using assms by (auto simp: Load_def andThen_eq_Inr Let_def split: if_splits sum.splits option.splits)

lemma pool_config_kept:
  assumes "0 < pc_Concurrency c" "pc_Queues c \<noteq> []"
  shows "pc_Concurrency (PoolConfig_withDefaults c) = pc_Concurrency c" "pc_Queues (PoolConfig_withDefaults c) = pc_Queues c"
  using assms by (simp_all add: PoolConfig_withDefaults_def Let_def)

text \<open>
  C37. What a loaded configuration guarantees to the components. The result of \<open>Load\<close> is the file over the
  defaults with the environment over both, and the components run on the values it shows: the two
  ports are usable and different, the client connects to the configured addresses and not to its
  fallback, and an enabled pool has exactly the configured workers and queues. Its three durations are not
  validated: the poll interval, the shutdown timeout and the lease are the configured ones when these are positive, and
  otherwise the pool replaces them by its own 500 ms, 30 s and 60 s.
\<close>

theorem config_reaches_components:
  assumes "Load ReadFile yaml env path = Inr cfg"
  shows "(\<exists>base. cfg = applyEnv env base \<and>
      (path = '''' \<and> base = Default \<or> (\<exists>raw. ReadFile path = Inr raw \<and> yaml raw Default = Inr base))) \<and>
    {srv_PublicPort (cfg_Server cfg), srv_PrivatePort (cfg_Server cfg)} \<subseteq> {1..65535} \<and>
    srv_PublicPort (cfg_Server cfg) \<noteq> srv_PrivatePort (cfg_Server cfg) \<and>
    (ping (connect (GetRedisClientConfig cfg)) = None \<longrightarrow>
       NewClient connect ping (GetRedisClientConfig cfg) = Inr (connect (GetRedisClientConfig cfg))) \<and>
    (wc_Enabled (cfg_Worker cfg) \<longrightarrow>
       (let pool = PoolConfig_withDefaults (GetWorkerPoolConfig cfg)
        in pc_Concurrency pool = wc_Concurrency (cfg_Worker cfg) \<and> pc_Queues pool = wc_Queues (cfg_Worker cfg) \<and>
          pc_PollInterval pool = (if 0 < wc_PollInterval (cfg_Worker cfg) then wc_PollInterval (cfg_Worker cfg) else 500 * millisecond) \<and>
          pc_ShutdownTimeout pool =
            (if 0 < wc_ShutdownTimeout (cfg_Worker cfg) then wc_ShutdownTimeout (cfg_Worker cfg) else 30 * second) \<and>
          pc_LeaseDuration pool =
            (if 0 < wc_LeaseDuration (cfg_Worker cfg) then wc_LeaseDuration (cfg_Worker cfg) else 60 * second)))"
proof -
  obtain base where b: "cfg = applyEnv env base" "Validate cfg = None"
    "path = '''' \<and> base = Default \<or> (\<exists>raw. ReadFile path = Inr raw \<and> yaml raw Default = Inr base)"
    using Load_Inr [OF assms] .
  note v = b(2) [unfolded Validate_None]
  have "NewClient connect ping (GetRedisClientConfig cfg) = Inr (connect (GetRedisClientConfig cfg))"
    if "ping (connect (GetRedisClientConfig cfg)) = None"
    using that v by (simp add: NewClient_def GetRedisClientConfig_def)
  moreover have "pc_Concurrency (PoolConfig_withDefaults (GetWorkerPoolConfig cfg)) = wc_Concurrency (cfg_Worker cfg)"
    "pc_Queues (PoolConfig_withDefaults (GetWorkerPoolConfig cfg)) = wc_Queues (cfg_Worker cfg)"
    if "wc_Enabled (cfg_Worker cfg)"
    using pool_config_kept [of "GetWorkerPoolConfig cfg"] that v by (simp_all add: GetWorkerPoolConfig_def)
  moreover have "pc_PollInterval (PoolConfig_withDefaults p) = (if 0 < pc_PollInterval p then pc_PollInterval p else 500 * millisecond)"
    "pc_ShutdownTimeout (PoolConfig_withDefaults p) = (if 0 < pc_ShutdownTimeout p then pc_ShutdownTimeout p else 30 * second)"
    "pc_LeaseDuration (PoolConfig_withDefaults p) = (if 0 < pc_LeaseDuration p then pc_LeaseDuration p else 60 * second)" for p
    by (simp_all add: PoolConfig_withDefaults_def Let_def)
  ultimately show ?thesis using b(1,3) v by (auto simp: Let_def GetWorkerPoolConfig_def)
qed

lemma no_environment: "applyEnv (\<lambda>_. '''') c = c"
  by (simp add: applyEnv_def envString_def envInt_def envBool_def envAddrs_def Let_def)

lemma default_loads: "Load ReadFile yaml (\<lambda>_. '''') '''' = Inr Default"
proof -
  have "Validate Default = None" by (simp add: Validate_None Default_def)
  then show ?thesis by (simp add: Load_def no_environment)
qed

theorem config_reaches_components_witness:
  "NewClient cc_Addrs (\<lambda>_. None) (GetRedisClientConfig Default) = Inr [''127.0.0.1:6379''] \<and>
   pc_Concurrency (PoolConfig_withDefaults (GetWorkerPoolConfig Default)) = 10"
  using config_reaches_components [OF default_loads [of "\<lambda>_. Inr []" "\<lambda>_. Inr"], of "\<lambda>_. None" cc_Addrs]
  by (simp add: Let_def Default_def GetRedisClientConfig_def)

text \<open>
  A mistyped variable does not stop the process. A port, a database number, a worker count or a switch that
  cannot be parsed is dropped without a trace: the configuration is the one the file gives, and a
  worker that was to be switched off (with \<open>no\<close>, say) runs.
\<close>

theorem malformed_environment_ignored:
  assumes "\<forall>key \<in> set [''PUBLIC_PORT'', ''PRIVATE_PORT'', ''REDIS_DB'', ''WORKER_CONCURRENCY''].
      strconv_ParseInt (env (EnvPrefix @ key)) = None"
    and "\<forall>key \<in> set [''WORKER_ENABLED'', ''SCHEDULER_ENABLED'']. strconv_ParseBool (env (EnvPrefix @ key)) = None"
    and "\<forall>key \<in> set [''ENV'', ''LOG_LEVEL'', ''REDIS_ADDRS'', ''REDIS_USERNAME'', ''REDIS_PASSWORD'', ''REDIS_NAMESPACE''].
      env (EnvPrefix @ key) = ''''"
  shows "Load ReadFile yaml env path = Load ReadFile yaml (\<lambda>_. '''') path"
proof -
  have "applyEnv env c = c" for c
    using assms by (simp add: applyEnv_def envString_def envInt_def envBool_def envAddrs_def Let_def)
  then show ?thesis by (simp add: Load_def no_environment)
qed

theorem malformed_environment_ignored_witness:
  "Load (\<lambda>_. Inr []) (\<lambda>_. Inr) (\<lambda>k. if k = ''GOQUEUE_WORKER_ENABLED'' then ''no'' else '''') '''' = Inr Default"
proof -
  let ?env = "\<lambda>k. if k = ''GOQUEUE_WORKER_ENABLED'' then ''no'' else ''''"
  have "Load (\<lambda>_. Inr []) (\<lambda>_. Inr) ?env '''' = Load (\<lambda>_. Inr []) (\<lambda>_. Inr) (\<lambda>_. '''') ''''"
    by (rule malformed_environment_ignored) (simp_all add: EnvPrefix_def strconv_ParseInt_def strconv_ParseBool_def)
  then show ?thesis using default_loads [of "\<lambda>_. Inr []" "\<lambda>_. Inr"] by simp
qed

end
