(* ===== verification/Lifecycle.thy ===== *)
theory Lifecycle
  imports Config
begin

text \<open>
  The life of the process (\<open>src/cmd/main.go\<close>, \<open>src/cmd/server/server.go\<close>) and the handlers it registers
  (\<open>src/pkg/tasks/tasks.go\<close>). The components are started and stopped through calls on the state \<open>'p\<close> of the
  process, which are arguments here: \<open>run\<close> fixes which are made, in which order, and what becomes of
  their errors. Waiting for a signal or for a failing listener is the call \<open>wait\<close>. Log output is left out.
\<close>

section \<open>Shutting down\<close>

record 'p stoppable =
  sp_name :: string
  sp_stop :: "('p, unit) call"

text \<open>
  Both loops stop everything there is and keep the first error: \<open>HTTPServer.Stop\<close> over its listeners, and
  \<open>shutdown\<close> over the HTTP server and the running components, the last started first.
\<close>

fun stop_each :: "('p, unit) call list \<Rightarrow> go_error option \<Rightarrow> 'p \<Rightarrow> 'p \<times> go_error option" where
  "stop_each [] firstErr p = (p, firstErr)"
| "stop_each (stop # stops) firstErr p =
     (case stop p of
        (p', Inl err) \<Rightarrow> stop_each stops (if firstErr = None then Some err else firstErr) p'
      | (p', Inr _) \<Rightarrow> stop_each stops firstErr p')"

definition as_error :: "'p \<times> go_error option \<Rightarrow> 'p \<times> unit result" where
  "as_error x = (fst x, case snd x of None \<Rightarrow> Inr () | Some err \<Rightarrow> Inl err)"

definition HTTPServer_Stop :: "('p, unit) call list \<Rightarrow> ('p, unit) call" where
  "HTTPServer_Stop servers p = as_error (stop_each servers None p)"

definition shutdown :: "('p, unit) call \<Rightarrow> 'p stoppable list \<Rightarrow> ('p, unit) call" where
  "shutdown httpStop running p =
     (case httpStop p of
        (p', Inl err) \<Rightarrow> as_error (stop_each (map sp_stop (rev running)) (Some err) p')
      | (p', Inr _) \<Rightarrow> as_error (stop_each (map sp_stop (rev running)) None p'))"

section \<open>Running\<close>

record 'p components =
  cm_connect :: "AppConfig \<Rightarrow> ('p, unit) call"
  cm_close :: "'p \<Rightarrow> 'p"
  cm_preload :: "('p, unit) call"
  cm_register :: "('p, unit) call"
  cm_scheduler_start :: "AppConfig \<Rightarrow> ('p, unit) call"
  cm_scheduler_stop :: "('p, unit) call"
  cm_pool_start :: "AppConfig \<Rightarrow> ('p, unit) call"
  cm_pool_stop :: "('p, unit) call"
  cm_http_start :: "'p \<Rightarrow> 'p"
  cm_wait :: "'p \<Rightarrow> 'p"
  cm_http_stop :: "('p, unit) call"

definition start_component ::
  "bool \<Rightarrow> string \<Rightarrow> ('p, unit) call \<Rightarrow> ('p, unit) call \<Rightarrow> 'p stoppable list \<Rightarrow> ('p, 'p stoppable list) call" where
  "start_component enabled name start stop running =
     (if enabled then andThenS start (\<lambda>_. returnS (running @ [\<lparr>sp_name = name, sp_stop = stop\<rparr>]))
      else returnS running)"

text \<open>The body of \<open>run\<close> once the client is connected; the deferred \<open>Close\<close> follows it on every path.\<close>

definition run_connected :: "'p components \<Rightarrow> AppConfig \<Rightarrow> ('p, unit) call" where
  "run_connected C cfg p =
     andThenS (cm_register C) (\<lambda>_.
     andThenS (start_component (ss_Enabled (cfg_Scheduler cfg)) ''scheduler'' (cm_scheduler_start C cfg)
         (cm_scheduler_stop C) []) (\<lambda>running.
     andThenS (start_component (wc_Enabled (cfg_Worker cfg)) ''worker pool'' (cm_pool_start C cfg)
         (cm_pool_stop C) running) (\<lambda>running p.
       shutdown (cm_http_stop C) running (cm_wait C (cm_http_start C p))))) (fst (cm_preload C p))"

definition run :: "AppConfig result \<Rightarrow> 'p components \<Rightarrow> ('p, unit) call" where
  "run loaded C =
     andThenS (liftS loaded) (\<lambda>cfg.
     andThenS (cm_connect C cfg) (\<lambda>_ p.
       case run_connected C cfg p of (p', r) \<Rightarrow> (cm_close C p', r)))"

section \<open>The registered handlers\<close>

text \<open>
  The bodies of the example handlers only sleep and log; what they return depends on the context and on
  chance. They are arguments, and so is the order in which Go visits the map of handlers.
\<close>

definition TypeEmailSend :: string where "TypeEmailSend = ''email.send''"

definition TypeReportGenerate :: string where "TypeReportGenerate = ''report.generate''"

definition TypeFlaky :: string where "TypeFlaky = ''demo.flaky''"

definition TypeSlow :: string where "TypeSlow = ''demo.slow''"

fun register_each :: "(string \<times> Handler) list \<Rightarrow> (HandlerRegistry, unit) call" where
  "register_each [] registry = (registry, Inr ())"
| "register_each ((rawType, handler) # handlers) registry =
     (case NewTaskType rawType of
        Inl err \<Rightarrow> (registry, Inl err)
      | Inr taskType \<Rightarrow>
          (case Register_handler taskType (Some handler) registry of
             (registry', Inl err) \<Rightarrow> (registry', Inl err)
           | (registry', Inr _) \<Rightarrow> register_each handlers registry'))"

definition task_handlers :: "Handler \<Rightarrow> Handler \<Rightarrow> Handler \<Rightarrow> Handler \<Rightarrow> (string \<times> Handler) list" where
  "task_handlers email report flaky slow =
     [(TypeEmailSend, email), (TypeReportGenerate, report), (TypeFlaky, flaky), (TypeSlow, slow)]"

text \<open>\<open>visit\<close> puts the entries of the map in the order of the iteration.\<close>

definition RegisterAll ::
  "((string \<times> Handler) list \<Rightarrow> (string \<times> Handler) list) \<Rightarrow> Handler \<Rightarrow> Handler \<Rightarrow> Handler \<Rightarrow> Handler \<Rightarrow>
     (HandlerRegistry, unit) call" where
  "RegisterAll visit email report flaky slow = register_each (visit (task_handlers email report flaky slow))"

text \<open>\<open>GET /ready\<close>: the names of the registered types, or an error while there are none.\<close>

definition Ready :: "HandlerRegistry \<Rightarrow> string list result" where
  "Ready registry =
     (let names = RegisteredTypes registry
      in if length names = 0
         then Inl (New KindUnavailable ''no_handlers_registered'' ''no task handlers are registered'')
         else Inr names)"

section \<open>Properties\<close>

text \<open>The calls of a sequence, each made in the state the previous one left, with their errors.\<close>

fun trace :: "('p, unit) call list \<Rightarrow> 'p \<Rightarrow> 'p \<times> go_error list" where
  "trace [] p = (p, [])"
| "trace (f # fs) p =
     (case f p of
        (p', r) \<Rightarrow> (case trace fs p' of
          (p'', errs) \<Rightarrow> (p'', (case r of Inl e \<Rightarrow> [e] | Inr _ \<Rightarrow> []) @ errs)))"

lemma stop_each_trace:
  "stop_each stops firstErr p =
     (case trace stops p of
        (p', errs) \<Rightarrow> (p', case firstErr of Some e \<Rightarrow> Some e | None \<Rightarrow> if errs = [] then None else Some (hd errs)))"
proof (induction stops arbitrary: firstErr p)
  case (Cons stop stops)
  obtain p' r where s: "stop p = (p', r)" by fastforce
  show ?case using Cons [of _ p'] s by (cases r; cases firstErr) (auto split: prod.splits)
qed (auto split: option.split)

lemma shutdown_trace:
  "shutdown httpStop running p =
     (case trace (httpStop # map sp_stop (rev running)) p of
        (p', errs) \<Rightarrow> (p', if errs = [] then Inr () else Inl (hd errs)))"
proof -
  obtain p1 r where h: "httpStop p = (p1, r)" by fastforce
  obtain p2 errs where t: "trace (map sp_stop (rev running)) p1 = (p2, errs)" by fastforce
  show ?thesis using h t by (cases r) (auto simp: shutdown_def as_error_def stop_each_trace)
qed

definition started :: "AppConfig \<Rightarrow> 'p components \<Rightarrow> 'p stoppable list" where
  "started cfg C =
     (if ss_Enabled (cfg_Scheduler cfg) then [\<lparr>sp_name = ''scheduler'', sp_stop = cm_scheduler_stop C\<rparr>] else []) @
     (if wc_Enabled (cfg_Worker cfg) then [\<lparr>sp_name = ''worker pool'', sp_stop = cm_pool_stop C\<rparr>] else [])"

text \<open>The calls that start what the configuration enables.\<close>

definition starts :: "AppConfig \<Rightarrow> 'p components \<Rightarrow> ('p, unit) call list" where
  "starts cfg C =
     (if ss_Enabled (cfg_Scheduler cfg) then [cm_scheduler_start C cfg] else []) @
     (if wc_Enabled (cfg_Worker cfg) then [cm_pool_start C cfg] else [])"

text \<open>
  C36. An orderly life. When the configuration loads, Redis is reached, and registering the handlers and starting the enabled
  components raise no error, the process serves until it is told to stop, and then stops
  everything it started, each once: the listeners first, then the pool, then the scheduler, and at last the
  connection is closed. A component that fails to stop keeps none of the others from being stopped, and
  the first such error is what the process reports. A failure to preload the scripts is of no consequence.
\<close>

theorem run_stops_everything:
  assumes "loaded = Inr cfg" and "cm_connect C cfg p = (p1, Inr ())"
    and "trace (cm_register C # starts cfg C) (fst (cm_preload C p1)) = (p2, [])"
    and "trace (cm_http_stop C # (if wc_Enabled (cfg_Worker cfg) then [cm_pool_stop C] else []) @
        (if ss_Enabled (cfg_Scheduler cfg) then [cm_scheduler_stop C] else [])) (cm_wait C (cm_http_start C p2)) = (p3, errs)"
  shows "run loaded C p = (cm_close C p3, if errs = [] then Inr () else Inl (hd errs))"
proof -
  have stops: "map sp_stop (rev (started cfg C)) = (if wc_Enabled (cfg_Worker cfg) then [cm_pool_stop C] else []) @
      (if ss_Enabled (cfg_Scheduler cfg) then [cm_scheduler_stop C] else [])"
    by (simp add: started_def)
  have "run_connected C cfg p1 = shutdown (cm_http_stop C) (started cfg C) (cm_wait C (cm_http_start C p2))"
    using assms(3)
    by (auto simp: run_connected_def start_component_def starts_def started_def andThenS_def
        split: prod.splits sum.splits if_splits)
  then have "run_connected C cfg p1 = (p3, if errs = [] then Inr () else Inl (hd errs))"
    using assms(4) by (simp only: shutdown_trace stops prod.case)
  then show ?thesis using assms(1,2) by (simp add: run_def andThenS_def)
qed

text \<open>
  A pool that does not start leaves the scheduler running. The error of the pool ends \<open>run\<close> at once: the
  connection to Redis is closed, but the scheduler, which already runs its sweeps on that connection, is not stopped.
\<close>

theorem failed_pool_leaves_scheduler:
  assumes "loaded = Inr cfg" and "ss_Enabled (cfg_Scheduler cfg)" and "wc_Enabled (cfg_Worker cfg)"
    and "cm_connect C cfg p = (p1, Inr ())"
    and "trace [cm_register C, cm_scheduler_start C cfg] (fst (cm_preload C p1)) = (p2, [])"
    and "cm_pool_start C cfg p2 = (p3, Inl err)"
  shows "run loaded C p = (cm_close C p3, Inl err)"
  using assms
  by (auto simp: run_def run_connected_def start_component_def andThenS_def split: prod.splits sum.splits)

text \<open>
  Registration of the tasks. In whatever order the map is visited, all four handlers are registered and
  resolve to themselves, the process reports itself ready, and it names the types in the order of their names.
\<close>

lemma task_names:
  "NewTaskType TypeEmailSend = Inr TypeEmailSend" "NewTaskType TypeReportGenerate = Inr TypeReportGenerate"
  "NewTaskType TypeFlaky = Inr TypeFlaky" "NewTaskType TypeSlow = Inr TypeSlow"
  by (rule pattern_NewTaskType, simp add: taskTypePattern_def matches_name_def task_head_def task_tail_def is_lower_def
      is_upper_def is_digit_def TypeEmailSend_def TypeReportGenerate_def TypeFlaky_def TypeSlow_def)+

lemma register_each_all:
  assumes "distinct (map fst hs)" "\<forall>t \<in> set (map fst hs). NewTaskType t = Inr t \<and> t \<noteq> ''''"
    "set (map fst hs) \<inter> set (map fst registry) = {}"
  shows "register_each hs registry = (registry @ hs, Inr ())"
  using assms
proof (induction hs arbitrary: registry)
  case (Cons th hs)
  obtain t h where th: "th = (t, h)" by (cases th)
  have fresh: "t \<notin> fst ` set registry" using Cons.prems(3) th by auto
  then have "map_of registry t = None" by (simp add: map_of_eq_None_iff)
  moreover have "AList.update t h registry = registry @ [(t, h)]" using fresh by (induction registry) auto
  moreover have "register_each hs (registry @ [(t, h)]) = ((registry @ [(t, h)]) @ hs, Inr ())"
    using Cons.prems th by (intro Cons.IH) auto
  ultimately show ?case using Cons.prems(2) th by (simp add: Register_handler_def)
qed simp

theorem tasks_registered:
  assumes "mset (visit (task_handlers email report flaky slow)) = mset (task_handlers email report flaky slow)"
  shows "\<exists>registry. RegisterAll visit email report flaky slow NewHandlerRegistry = (registry, Inr ()) \<and>
    Ready registry = Inr [TypeFlaky, TypeSlow, TypeEmailSend, TypeReportGenerate] \<and>
    Resolve registry TypeEmailSend = Inr email \<and> Resolve registry TypeReportGenerate = Inr report \<and>
    Resolve registry TypeFlaky = Inr flaky \<and> Resolve registry TypeSlow = Inr slow"
proof -
  let ?t = "task_handlers email report flaky slow"
  note names = TypeEmailSend_def TypeReportGenerate_def TypeFlaky_def TypeSlow_def
  have d: "distinct (map fst ?t)" by (simp add: task_handlers_def names)
  have m: "mset (map fst (visit ?t)) = mset (map fst ?t)" using assms by (metis mset_map)
  have d': "distinct (map fst (visit ?t))" using d mset_eq_imp_distinct_iff [OF m] by blast
  have s: "set (visit ?t) = set ?t" using mset_eq_setD [OF assms] .
  have "\<forall>t \<in> set (map fst (visit ?t)). NewTaskType t = Inr t \<and> t \<noteq> ''''"
    using task_names s by (auto simp: task_handlers_def names)
  then have r: "RegisterAll visit email report flaky slow NewHandlerRegistry = (visit ?t, Inr ())"
    using register_each_all [OF d'] by (simp add: RegisterAll_def NewHandlerRegistry_def)
  have "map_of (visit ?t) = map_of ?t" using d d' s by (simp add: map_of_inject_set)
  then have "Resolve (visit ?t) TypeEmailSend = Inr email" "Resolve (visit ?t) TypeReportGenerate = Inr report"
    "Resolve (visit ?t) TypeFlaky = Inr flaky" "Resolve (visit ?t) TypeSlow = Inr slow"
    by (simp_all add: Resolve_def task_handlers_def names)
  moreover have "RegisteredTypes (visit ?t) = [TypeFlaky, TypeSlow, TypeEmailSend, TypeReportGenerate]"
  proof -
    have "mset [TypeFlaky, TypeSlow, TypeEmailSend, TypeReportGenerate] = mset (map fst (visit ?t))"
      unfolding m by (simp add: task_handlers_def)
    moreover have "sorted [TypeFlaky, TypeSlow, TypeEmailSend, TypeReportGenerate]" by (simp add: names)
    ultimately have "sort (map fst (visit ?t)) = [TypeFlaky, TypeSlow, TypeEmailSend, TypeReportGenerate]"
      by (rule properties_for_sort)
    then show ?thesis by (simp add: RegisteredTypes_def SliceStable_key [where key = "\<lambda>x. x"])
  qed
  ultimately show ?thesis using r by (auto simp: Ready_def)
qed

section \<open>Witnesses\<close>

text \<open>A process that records the calls, and whose pool does not stop in time, or does not start.\<close>

definition logged :: "string \<Rightarrow> go_error option \<Rightarrow> (string list, unit) call" where
  "logged name err p = (p @ [name], case err of None \<Rightarrow> Inr () | Some e \<Rightarrow> Inl e)"

definition sample_components :: "go_error option \<Rightarrow> go_error option \<Rightarrow> string list components" where
  "sample_components pool_err stop_err =
     \<lparr>cm_connect = \<lambda>_. logged ''connect'' None, cm_close = \<lambda>p. p @ [''close''],
      cm_preload = logged ''preload'' (Some (ForeignError ''NOSCRIPT'' None)), cm_register = logged ''register'' None,
      cm_scheduler_start = \<lambda>_. logged ''start scheduler'' None, cm_scheduler_stop = logged ''stop scheduler'' None,
      cm_pool_start = \<lambda>_. logged ''start pool'' pool_err, cm_pool_stop = logged ''stop pool'' stop_err,
      cm_http_start = \<lambda>p. p @ [''serve''], cm_wait = \<lambda>p. p @ [''wait''], cm_http_stop = logged ''stop http'' None\<rparr>"

lemma default_enabled: "ss_Enabled (cfg_Scheduler Default)" "wc_Enabled (cfg_Worker Default)"
  by (simp_all add: Default_def)

theorem run_stops_everything_witness:
  "run (Inr Default) (sample_components None (Some (ForeignError ''deadline'' None))) [] =
     ([''connect'', ''preload'', ''register'', ''start scheduler'', ''start pool'', ''serve'', ''wait'', ''stop http'',
       ''stop pool'', ''stop scheduler'', ''close''], Inl (ForeignError ''deadline'' None))"
  using run_stops_everything [OF refl, of "sample_components None (Some (ForeignError ''deadline'' None))" Default "[]"]
  by (simp add: sample_components_def logged_def starts_def default_enabled)

theorem failed_pool_leaves_scheduler_witness:
  "run (Inr Default) (sample_components (Some (ForeignError ''no redis'' None)) None) [] =
     ([''connect'', ''preload'', ''register'', ''start scheduler'', ''start pool'', ''close''], Inl (ForeignError ''no redis'' None))"
  using failed_pool_leaves_scheduler [OF refl default_enabled, of "sample_components (Some (ForeignError ''no redis'' None)) None" "[]"]
  by (simp add: sample_components_def logged_def)

theorem tasks_registered_witness:
  "\<exists>registry. RegisterAll rev (\<lambda>_. Returned None False) (\<lambda>_. Returned None False) (\<lambda>_. Panicked ''x'') (\<lambda>_. Returned None True)
      NewHandlerRegistry = (registry, Inr ()) \<and> Resolve registry ''demo.flaky'' = Inr (\<lambda>_. Panicked ''x'')"
  using tasks_registered [of rev "\<lambda>_. Returned None False" "\<lambda>_. Returned None False" "\<lambda>_. Panicked ''x''" "\<lambda>_. Returned None True"]
  by (auto simp: TypeFlaky_def)

end
