(* ===== verification/Web_Api.thy ===== *)
theory Web_Api
  imports Redis_Service Inspector Lifecycle
begin

text \<open>
  The HTTP interface: the handlers (\<open>src/pkg/api/handlers\<close>), the middleware around them
  (\<open>src/pkg/api/middleware\<close>) and the route tables (\<open>src/cmd/server\<close>). Binding a request body or a query is
  the work of gin and its validator, and an argument here, with the struct tags it checks as a
  predicate; so is the matching of a path to a route. A handler either writes a response or records an error.
\<close>

section \<open>Responses\<close>

record HealthRes =
  h_Status :: string
  h_Service :: string
  h_Version :: string
  h_Uptime :: string

record ReadyRes =
  rr_Status :: string
  rr_RegisteredTasks :: "string list"

datatype body =
    EnqueueBody EnqueueJobRes | JobBody JobRes | ListBody ListJobsRes | JobActionBody JobActionRes
  | BulkBody BulkActionRes | StatsBody ListQueueStatsRes | QueueActionBody QueueActionRes
  | HealthBody HealthRes | ReadyBody ReadyRes | ErrorBody ErrorRes | NoBody

type_synonym response = "int \<times> body"

text \<open>\<open>ctx.Error(err); return\<close> is an error, \<open>ctx.JSON(status, res)\<close> a response.\<close>

definition respond :: "('s, 'a) call \<Rightarrow> ('a \<Rightarrow> response) \<Rightarrow> ('s, response) call" where
  "respond f reply s =
     (case f s of
        (s', Inl e) \<Rightarrow> (s', Inl e)
      | (s', Inr res) \<Rightarrow> (s', Inr (reply res)))"

definition bindingError :: "go_error \<Rightarrow> go_error" where
  "bindingError err = Invalid ''invalid_request'' (Error_string err)"

definition bound :: "'a result \<Rightarrow> ('a \<Rightarrow> ('s, response) call) \<Rightarrow> ('s, response) call" where
  "bound b h = (case b of Inl err \<Rightarrow> failS (bindingError err) | Inr req \<Rightarrow> h req)"

section \<open>Handlers\<close>

definition EnqueueJob :: "(EnqueueJobReq \<Rightarrow> ('s, EnqueueJobRes) call) \<Rightarrow> EnqueueJobReq result \<Rightarrow> ('s, response) call" where
  "EnqueueJob enqueue binding =
     bound binding (\<lambda>req.
       respond (enqueue req) (\<lambda>res. (if res_Deduplicated res then 200 else 201, EnqueueBody res)))"

definition GetJob_handler :: "(string \<Rightarrow> ('s, JobRes) call) \<Rightarrow> string \<Rightarrow> ('s, response) call" where
  "GetJob_handler get job_id = respond (get job_id) (\<lambda>res. (200, JobBody res))"

definition ListJobs_handler :: "(ListJobsQuery \<Rightarrow> ('s, ListJobsRes) call) \<Rightarrow> ListJobsQuery result \<Rightarrow> ('s, response) call" where
  "ListJobs_handler list binding = bound binding (\<lambda>query. respond (list query) (\<lambda>res. (200, ListBody res)))"

definition RetryJob_handler :: "(string \<Rightarrow> ('s, JobActionRes) call) \<Rightarrow> string \<Rightarrow> ('s, response) call" where
  "RetryJob_handler retry job_id = respond (retry job_id) (\<lambda>res. (200, JobActionBody res))"

definition KillJob_handler :: "(string \<Rightarrow> ('s, JobActionRes) call) \<Rightarrow> string \<Rightarrow> ('s, response) call" where
  "KillJob_handler inspect_kill job_id = respond (inspect_kill job_id) (\<lambda>res. (200, JobActionBody res))"

definition DeleteJob_handler :: "(string \<Rightarrow> ('s, unit) call) \<Rightarrow> string \<Rightarrow> ('s, response) call" where
  "DeleteJob_handler delete job_id = respond (delete job_id) (\<lambda>_. (204, NoBody))"

definition ListQueueStats_handler :: "('s, ListQueueStatsRes) call \<Rightarrow> ('s, response) call" where
  "ListQueueStats_handler stats = respond stats (\<lambda>res. (200, StatsBody res))"

definition SetQueuePaused_handler ::
  "(string \<Rightarrow> bool \<Rightarrow> ('s, QueueActionRes) call) \<Rightarrow> string \<Rightarrow> bool result \<Rightarrow> ('s, response) call" where
  "SetQueuePaused_handler pause queue_name binding =
     bound binding (\<lambda>paused. respond (pause queue_name paused) (\<lambda>res. (200, QueueActionBody res)))"

definition RetryAllDead_handler :: "(string \<Rightarrow> ('s, BulkActionRes) call) \<Rightarrow> string \<Rightarrow> ('s, response) call" where
  "RetryAllDead_handler retryAll queue_name = respond (retryAll queue_name) (\<lambda>res. (200, BulkBody res))"

definition Health_handler :: "string \<Rightarrow> string \<Rightarrow> ('s, response) call" where
  "Health_handler version uptime =
     returnS (200, HealthBody \<lparr>h_Status = ''ok'', h_Service = ''goqueue'', h_Version = version, h_Uptime = uptime\<rparr>)"

definition Ready_handler :: "HandlerRegistry \<Rightarrow> ('s, response) call" where
  "Ready_handler handlers =
     respond (liftS (Ready handlers)) (\<lambda>names. (200, ReadyBody \<lparr>rr_Status = ''ready'', rr_RegisteredTasks = names\<rparr>))"

section \<open>Middleware\<close>

text \<open>
  The chain \<open>Recovery\<close>, \<open>RequestID\<close>, \<open>RequestLogger\<close>, \<open>ErrorHandler\<close> around a handler, and the response it sends.
  A panic of the handler is a \<open>go_panic\<close>; \<open>Recovery\<close> answers it as \<open>ErrorHandler\<close> answers an error of no known
  kind, so both are the one branch here.
\<close>

definition serve :: "('s, response) call \<Rightarrow> 's \<Rightarrow> 's \<times> response" where
  "serve handler s =
     (case handler s of
        (s', Inr r) \<Rightarrow> (s', r)
      | (s', Inl e) \<Rightarrow>
          (s', case ErrorHandler [e] of Some (status, res) \<Rightarrow> (status, ErrorBody res) | None \<Rightarrow> (200, NoBody)))"

definition RequestID :: "string \<Rightarrow> string \<Rightarrow> string" where
  "RequestID header fresh = (if header = '''' then fresh else header)"

section \<open>Routes\<close>

datatype endpoint =
    EP_EnqueueJob | EP_ListJobs | EP_GetJob | EP_RetryJob | EP_KillJob | EP_DeleteJob
  | EP_ListQueueStats | EP_SetQueuePaused | EP_RetryAllDead
  | EP_Health | EP_Ready | EP_Metrics | EP_Dashboard | EP_Redirect

type_synonym routes = "(string \<times> string \<times> endpoint) list"

definition APIBasePath :: string where "APIBasePath = ''/api/v1''"

definition DashboardPath :: string where "DashboardPath = ''/dashboard''"

definition group :: "string \<Rightarrow> routes \<Rightarrow> routes" where
  "group base = map (\<lambda>(m, path, e). (m, base @ path, e))"

definition registerJobRoutes :: "string \<Rightarrow> routes" where
  "registerJobRoutes base = group (base @ ''/jobs'')
     [(''POST'', '''', EP_EnqueueJob), (''GET'', '''', EP_ListJobs), (''GET'', ''/:job_id'', EP_GetJob),
      (''POST'', ''/:job_id/retry'', EP_RetryJob), (''POST'', ''/:job_id/kill'', EP_KillJob),
      (''DELETE'', ''/:job_id'', EP_DeleteJob)]"

definition registerQueueRoutes :: "string \<Rightarrow> routes" where
  "registerQueueRoutes base = group (base @ ''/queues'')
     [(''GET'', '''', EP_ListQueueStats), (''PATCH'', ''/:queue_name/pause'', EP_SetQueuePaused),
      (''POST'', ''/:queue_name/dead/retry'', EP_RetryAllDead)]"

definition registerAPIRoutes :: routes where
  "registerAPIRoutes = registerJobRoutes APIBasePath @ registerQueueRoutes APIBasePath"

definition registerPrivateRoutes :: routes where
  "registerPrivateRoutes =
     [(''GET'', ''/health'', EP_Health), (''GET'', ''/ready'', EP_Ready), (''GET'', ''/metrics'', EP_Metrics),
      (''GET'', DashboardPath, EP_Dashboard), (''GET'', ''/'', EP_Redirect)] @ registerAPIRoutes"

definition registerPublicRoutes :: routes where
  "registerPublicRoutes = (''GET'', ''/health'', EP_Health) # registerAPIRoutes"

section \<open>Requests\<close>

text \<open>
  What the \<open>binding\<close> tags of the request struct ask of the numbers and names in it. The tag on the key, at most 128 runes,
  is left out: \<open>NewIdempotencyKey\<close> asks for at most 128 bytes.
\<close>

definition tags_hold :: "EnqueueJobReq \<Rightarrow> bool" where
  "tags_hold req \<longleftrightarrow>
     rq_TaskType req \<noteq> '''' \<and>
     rq_Priority req \<in> set ['''', ''low'', ''normal'', ''high'', ''critical''] \<and>
     (\<forall>d \<in> set_option (rq_DelaySeconds req). 0 \<le> d) \<and>
     (\<forall>n \<in> set_option (rq_MaxRetries req). n \<le> 100) \<and>
     (\<forall>d \<in> set_option (rq_RetryBaseDelaySeconds req). 0 \<le> d \<and> d \<le> 3600) \<and>
     (\<forall>d \<in> set_option (rq_RetryMaxDelaySeconds req). 0 \<le> d \<and> d \<le> 86400) \<and>
     rq_BackoffStrategy req \<in> set ['''', ''exponential'', ''linear'', ''constant''] \<and>
     (\<forall>d \<in> set_option (rq_TimeoutSeconds req). 1 \<le> d \<and> d \<le> 86400)"

lemma tags_small: "tags_hold req \<Longrightarrow> small_delays req"
  unfolding tags_hold_def small_delays_def by force

section \<open>Properties\<close>

context enqueue_ports
begin

text \<open>An answer marked as deduplicated describes the job that holds the key, and changes nothing.\<close>

lemma enqueue_deduplicated:
  assumes "repo_FindByID repo = find" "inv s"
    and "Enqueue_service repo broker idem ttl newID now req s = (s', Inr res)" "res_Deduplicated res"
  shows "\<exists>job i j. buildJob newID now req = Inr job \<and> held s (j_idempotencyKey job) = Some i \<and>
    docs s i = Some j \<and> res = ToEnqueueJobRes j True \<and> s' = s"
proof -
  obtain job where job: "buildJob newID now req = Inr job"
    using assms(3) by (auto simp: Enqueue_service_def split: sum.splits)
  let ?k = "j_idempotencyKey job"
  have id: "NewJobID (j_id job) = Inr (j_id job)" using NewJobID_idem buildJob_Inr(4) [OF job] by blast
  have new: "persist_or_release broker idem job t \<noteq> (s', Inr res)" for t
    using assms(4) by (auto simp: persist_or_release_def ToEnqueueJobRes_def split: prod.split sum.split)
  have k: "?k \<noteq> ''''" using assms(3) job new [of s] by (auto simp: Enqueue_service_def IsZero_def)
  obtain s1 c where C: "idem_Claim idem ?k (j_id job) (effectiveTTL ttl) s = (s1, c)" by fastforce
  then obtain claimed x where c: "c = Inr (claimed, x)"
    using job assms(3) k by (auto simp: Enqueue_service_def IsZero_def split: sum.splits)
  have n: "\<not> claimed" using new [of s1] assms(3) job k C c by (auto simp: Enqueue_service_def IsZero_def)
  have t: "s1 = s" "x = '''' \<or> held s ?k = Some x" using claim_taken [OF assms(2) k id, of "effectiveTTL ttl" s1 x] C c n by auto
  have R: "resolveDuplicate repo ?k x s = (s', Inr res)" using assms(3) job k C c n t(1) by (auto simp: Enqueue_service_def IsZero_def)
  then have "x \<noteq> ''''" by (auto simp: resolveDuplicate_def IsZero_def)
  with t(2) resolveDuplicate_cases [OF assms(1,2) R] show ?thesis using job by auto
qed

text \<open>
  A request that ends in an error stores nothing but possibly its own job, and not even that when the store
  carries out no write that it reports as failed.
\<close>

lemma persist_or_release_failed:
  assumes "inv s" "fits job" "persist_or_release broker idem job s = (s', Inl e)"
  shows "\<exists>s1. persist broker job s = (s1, Inl e) \<and> docs s' = docs s1 \<and>
    (docs s1 = docs s \<or> docs s1 = (docs s)(j_id job \<mapsto> norm job))"
proof -
  obtain s1 where P: "persist broker job s = (s1, Inl e)"
    and s': "s' = (if IsZero (j_idempotencyKey job) then s1 else fst (idem_Release idem (j_idempotencyKey job) s1))"
    using assms(3) by (auto simp: persist_or_release_def split: prod.splits sum.splits if_splits)
  have w: "inv s1" "docs s1 = docs s \<or> docs s1 = (docs s)(j_id job \<mapsto> norm job)"
    using persist_writes assms(1,2) P unfolding writes_on_def by fastforce+
  obtain s2 r2 where R: "idem_Release idem (j_idempotencyKey job) s1 = (s2, r2)" by fastforce
  have "docs s2 = docs s1" using release_ok [OF w(1)] release_err [OF w(1)] R by (cases r2; auto)
  then show ?thesis using P w(2) s' R by (auto split: if_splits)
qed

lemma enqueue_failed:
  assumes "repo_FindByID repo = find" "inv s" "\<And>job. buildJob newID now req = Inr job \<Longrightarrow> fits job"
    and "Enqueue_service repo broker idem ttl newID now req s = (s', Inl e)"
  shows "case buildJob newID now req of
      Inl e' \<Rightarrow> e' = e \<and> s' = s
    | Inr job \<Rightarrow> (docs s' = docs s \<or> docs s' = (docs s)(j_id job \<mapsto> norm job)) \<and>
        ((\<forall>t t' e'. inv t \<longrightarrow> persist broker job t = (t', Inl e') \<longrightarrow> docs t' = docs t) \<longrightarrow> docs s' = docs s)"
proof (cases "buildJob newID now req")
  case (Inl e')
  then show ?thesis using assms(4) by (simp add: Enqueue_service_def)
next
  case job: (Inr job)
  let ?k = "j_idempotencyKey job"
  have ok: "fits job" using assms(3) [OF job] .
  have id: "NewJobID (j_id job) = Inr (j_id job)" using NewJobID_idem buildJob_Inr(4) [OF job] by blast
  have failed: "?thesis" if "inv t" "docs t = docs s" "persist_or_release broker idem job t = (s', Inl e)" for t
    using persist_or_release_failed [OF that(1) ok that(3)] that(1,2) job by auto
  show ?thesis
  proof (cases "?k = ''''")
    case True
    then show ?thesis using failed [of s] assms(2,4) job by (simp add: Enqueue_service_def IsZero_def)
  next
    case False
    obtain s1 c where C: "idem_Claim idem ?k (j_id job) (effectiveTTL ttl) s = (s1, c)" by fastforce
    consider e1 where "c = Inl e1" | x where "c = Inr (True, x)" | x where "c = Inr (False, x)"
      by (metis (full_types) prod.exhaust sum.exhaust)
    then show ?thesis
    proof cases
      case 1
      with claim_err [OF assms(2) False id C [unfolded 1]] C assms(4) job False show ?thesis
        by (auto simp: Enqueue_service_def IsZero_def)
    next
      case 2
      with claim_free [OF assms(2) False id C [unfolded 2]] C assms(4) job False show ?thesis
        by (intro failed [of s1]) (auto simp: Enqueue_service_def IsZero_def)
    next
      case 3
      note t = claim_taken [OF assms(2) False id C [unfolded 3]]
      have "resolveDuplicate repo ?k x s = (s', Inl e)" using C 3 t assms(4) job False by (simp add: Enqueue_service_def IsZero_def)
      from resolveDuplicate_cases [OF assms(1,2) this] job show ?thesis by simp
    qed
  qed
qed

end

lemma serve_cases:
  "serve h s = (case h s of (s', Inr r) \<Rightarrow> (s', r) | (s', Inl e) \<Rightarrow>
     (s', statusFor (KindOf e), ErrorBody (case errors_As e of
        None \<Rightarrow> \<lparr>er_Code = ''internal_error'', er_Message = ''an unexpected error occurred''\<rparr>
      | Some (k, code, msg) \<Rightarrow> \<lparr>er_Code = code, er_Message = msg\<rparr>)))"
  by (auto simp: serve_def ErrorHandler_def KindOf_def statusFor_def split: prod.split sum.split option.split)

lemma statusFor_error: "statusFor k \<in> {400, 404, 409, 500, 503}"
  by (cases k) (simp_all add: statusFor_def)

text \<open>
  C25. What \<open>POST /api/v1/jobs\<close> answers, from what the service returned. Over any store that keeps its contracts: a body that does not bind is
  answered 400 and changes nothing. When the service creates a job the answer is 201, the body describes that job and exactly that
  job was stored; when it deduplicates, the answer is 200 with the job that holds the key, and nothing has
  changed; when it returns an error, the answer is the error status of that error's kind (400, 404, 409, 500 or 503) with an
  error body. An error does not say that nothing was stored: the store may have carried out a write it reports
  as failed, so that the job of the request may be there, and no other document changes; over a store
  whose failed writes change nothing, an error means that no document changed.
\<close>

theorem api_enqueue_status:
  assumes "enqueue_ports ok docs held norm (repo_FindByID repo) fits broker idem" and "ok s"
    and "\<forall>req job. binding = Inr req \<longrightarrow> buildJob newID now req = Inr job \<longrightarrow> fits job"
    and "serve (EnqueueJob (Enqueue_service repo broker idem ttl newID now) binding) s = (s', status, b)"
  shows "case binding of
      Inl err \<Rightarrow> s' = s \<and> status = 400 \<and> b = ErrorBody \<lparr>er_Code = ''invalid_request'', er_Message = Error_string err\<rparr>
    | Inr req \<Rightarrow>
        (case Enqueue_service repo broker idem ttl newID now req s of
           (s1, Inr res) \<Rightarrow> s' = s1 \<and> b = EnqueueBody res \<and>
             (if res_Deduplicated res
              then status = 200 \<and> s' = s \<and> (\<exists>job i j. buildJob newID now req = Inr job \<and>
                held s (j_idempotencyKey job) = Some i \<and> docs s i = Some j \<and> res = ToEnqueueJobRes j True)
              else status = 201 \<and> (\<exists>job. buildJob newID now req = Inr job \<and>
                docs s' = (docs s)(j_id job \<mapsto> norm job) \<and> res = ToEnqueueJobRes job False))
         | (s1, Inl e) \<Rightarrow> s' = s1 \<and> status = statusFor (KindOf e) \<and> status \<in> {400, 404, 409, 500, 503} \<and>
             (\<exists>body. b = ErrorBody body) \<and>
             (case buildJob newID now req of
                Inl _ \<Rightarrow> s' = s
              | Inr job \<Rightarrow> (docs s' = docs s \<or> docs s' = (docs s)(j_id job \<mapsto> norm job)) \<and>
                  ((\<forall>t t' e'. ok t \<longrightarrow> persist broker job t = (t', Inl e') \<longrightarrow> docs t' = docs t) \<longrightarrow> docs s' = docs s)))"
proof (cases binding)
  case (Inl err)
  then show ?thesis
    using assms(4) by (simp add: serve_cases EnqueueJob_def bound_def bindingError_def statusFor_def KindOf_def
        Invalid_def New_def failS_def)
next
  case (Inr req)
  obtain s1 r where E: "Enqueue_service repo broker idem ttl newID now req s = (s1, r)" by fastforce
  have f: "fits job" if "buildJob newID now req = Inr job" for job using assms(3) Inr that by blast
  show ?thesis
  proof (cases r)
    case e: (Inl e)
    then have "s' = s1" "status = statusFor (KindOf e)" "\<exists>body. b = ErrorBody body"
      using assms(4) Inr E by (auto simp: serve_cases EnqueueJob_def bound_def respond_def)
    then show ?thesis
      using enqueue_ports.enqueue_failed [OF assms(1) refl assms(2) f E [unfolded e]] statusFor_error [of "KindOf e"] Inr E e
      by (simp split: sum.splits)
  next
    case ok: (Inr res)
    then have out: "s' = s1" "b = EnqueueBody res" "status = (if res_Deduplicated res then 200 else 201)"
      using assms(4) Inr E by (auto simp: serve_cases EnqueueJob_def bound_def respond_def)
    show ?thesis
    proof (cases "res_Deduplicated res")
      case True
      with enqueue_ports.enqueue_deduplicated [OF assms(1) refl assms(2) E [unfolded ok]] out Inr E ok show ?thesis by auto
    next
      case False
      with enqueue_ports.enqueue_created [OF assms(1) refl assms(2) f E [unfolded ok]] out Inr E ok show ?thesis by auto
    qed
  qed
qed

theorem api_enqueue_status_witness:
  "\<exists>s'. serve (EnqueueJob (Enqueue_service fakeRepo (fakeBroker 0) fakeIdempotency 0 ''a1'' 1000) (Inr sample_req)) NewStore =
      (s', 201, EnqueueBody (ToEnqueueJobRes sample_built False)) \<and> store_docs s' = [''a1'' \<mapsto> sample_built]"
proof -
  obtain s' where s: "serve (EnqueueJob (Enqueue_service fakeRepo (fakeBroker 0) fakeIdempotency 0 ''a1'' 1000) (Inr sample_req)) NewStore =
      (s', 201, EnqueueBody (ToEnqueueJobRes sample_built False))"
    using sample_enqueued by (simp add: serve_cases EnqueueJob_def bound_def respond_def ToEnqueueJobRes_def)
  have "\<forall>req job. Inr sample_req = (Inr req :: EnqueueJobReq result) \<longrightarrow> buildJob ''a1'' 1000 req = Inr job \<longrightarrow> job_ok job"
    using buildJob_Inr(1) by blast
  from api_enqueue_status [OF fake_ports NewStore_ok this s] show ?thesis
    using s sample_buildJob sample_enqueued by (auto simp: sample_key ToEnqueueJobRes_def) (simp add: NewStore_def)?
qed

context redis_server
begin

lemma get_reference:
  assumes "L (c_redis c) m" "c_net c = []" "typed kb m" "NewJobID i = Inr i"
    "document kb m i = Some h" "toAggregate dt h = Inr job" "h \<noteq> []"
  shows "\<exists>c'. GetJob (redisJobRepo R kb dt t) i c = (c', Inr (ToJobRes job)) \<and> L (c_redis c') m"
proof -
  let ?d = "\<lparr>c_redis = m, c_net = c_net c\<rparr>"
  have rel: "conn_rel L c ?d" using assms(1) by (simp add: conn_rel_def)
  obtain c' r where f: "RJ_FindByID R kb dt i c = (c', r)" by fastforce
  have "RJ_FindByID reference kb dt i ?d = (?d, Inr job)"
    using ref_find [of kb ?d "r_tonumber R" dt i] assms(2,3,5-7) by simp
  then have "r = Inr job" "conn_rel L c' ?d" using simD [OF sim_find_job rel f] by (auto elim!: rel_sum.cases)
  then show ?thesis using f assms(4) by (auto simp: GetJob_def redisJobRepo_def conn_rel_def)
qed

end

text \<open>An enqueue, a read and a repeated enqueue over Redis, on a working connection.\<close>

lemma api_round_trip:
  assumes "redis_server R L" and "L (c_redis c) m" and "c_net c = []" and "typed kb m" and "holders_valid kb m"
    and "tags_hold req" and "buildJob newID now req = Inr job" and "j_idempotencyKey job \<noteq> ''''"
    and "document kb m (j_id job) = None" and "holder kb m (j_idempotencyKey job) = None"
  shows "\<exists>c1 c2 m1.
    serve (EnqueueJob (redis_enqueuer R kb dt fuel ttl newID now) (Inr req)) c =
      (c1, 201, EnqueueBody (ToEnqueueJobRes job False)) \<and> L (c_redis c1) m1 \<and>
    serve (GetJob_handler (GetJob (redisJobRepo R kb dt now)) (j_id job)) c1 = (c2, 200, JobBody (ToJobRes (stored job))) \<and>
    (\<forall>d newID' now' job'. 0 \<le> d \<longrightarrow> buildJob newID' now' req = Inr job' \<longrightarrow>
       (if claim_lasts (effectiveTTL ttl) d
        then \<exists>c3. serve (EnqueueJob (redis_enqueuer R kb dt fuel ttl newID' now') (Inr req)) (elapse R d c1) =
          (c3, 200, EnqueueBody (ToEnqueueJobRes (stored job) True)) \<and> L (c_redis c3) (ref_elapse d m1)
        else document kb (ref_elapse d m1) (j_id job') = None \<longrightarrow>
          (\<exists>c3. serve (EnqueueJob (redis_enqueuer R kb dt fuel ttl newID' now') (Inr req)) (elapse R d c1) =
             (c3, 201, EnqueueBody (ToEnqueueJobRes job' False)))))"
proof -
  note small = tags_small [OF assms(6)]
  obtain c1 m1 where E: "redis_enqueuer R kb dt fuel ttl newID now req c = (c1, Inr (ToEnqueueJobRes job False))"
    "L (c_redis c1) m1" "c_net c1 = []" "typed kb m1" "holders_valid kb m1" "document kb m1 = (document kb m)(j_id job \<mapsto> job_pairs job)"
    and later: "\<And>d. holder kb (ref_elapse d m1) (j_idempotencyKey job) = (if claim_lasts (effectiveTTL ttl) d then Some (j_id job) else None)"
      "\<And>d. document kb (ref_elapse d m1) (j_id job) = Some (job_pairs job)"
    using redis_enqueue_spec [OF assms(1-5,7) small assms(8-10), of dt fuel ttl] by blast
  have st: "storable job" using buildJob_storable [OF assms(7) small] .
  have d: "document kb m1 (j_id job) = Some (job_pairs job)" using E(6) by simp
  have "NewJobID (j_id job) = Inr (j_id job)" using st by (simp add: storable_def)
  from redis_server.get_reference [OF assms(1) E(2,3,4) this d toAggregate_job_pairs [OF st] job_pairs_nonempty, where t = now]
  obtain c2 where g: "GetJob (redisJobRepo R kb dt now) (j_id job) c1 = (c2, Inr (ToJobRes (stored job)))" by blast
  have post: "serve (EnqueueJob (redis_enqueuer R kb dt fuel ttl newID' now') (Inr req)) x = (y, if dd then 200 else 201, EnqueueBody (ToEnqueueJobRes j dd))"
    if "redis_enqueuer R kb dt fuel ttl newID' now' req x = (y, Inr (ToEnqueueJobRes j dd))" for newID' now' x y j dd
    using that by (simp add: serve_cases EnqueueJob_def bound_def respond_def ToEnqueueJobRes_def)
  have again: "if claim_lasts (effectiveTTL ttl) d
        then \<exists>c3. serve (EnqueueJob (redis_enqueuer R kb dt fuel ttl newID' now') (Inr req)) (elapse R d c1) =
          (c3, 200, EnqueueBody (ToEnqueueJobRes (stored job) True)) \<and> L (c_redis c3) (ref_elapse d m1)
        else document kb (ref_elapse d m1) (j_id job') = None \<longrightarrow>
          (\<exists>c3. serve (EnqueueJob (redis_enqueuer R kb dt fuel ttl newID' now') (Inr req)) (elapse R d c1) =
             (c3, 201, EnqueueBody (ToEnqueueJobRes job' False)))"
    if b: "0 \<le> d" "buildJob newID' now' req = Inr job'" for d newID' now' job'
  proof -
    have "j_idempotencyKey job' = j_idempotencyKey job" using buildJob_Inr(5) [OF assms(7)] buildJob_Inr(5) [OF b(2)] by simp
    from redis_enqueue_repeated [OF assms(1) E(2-5) st assms(8) b(1) later b(2) this, of dt fuel] small
    show ?thesis using post [where x = "elapse R d c1" and dd = True] post [where x = "elapse R d c1" and dd = False]
      by (cases "claim_lasts (effectiveTTL ttl) d") (simp_all, blast+)
  qed
  have "serve (GetJob_handler (GetJob (redisJobRepo R kb dt now)) (j_id job)) c1 = (c2, 200, JobBody (ToJobRes (stored job)))"
    using g by (simp add: serve_cases GetJob_handler_def respond_def)
  then show ?thesis using post [OF E(1)] E(2) again by (simp only: if_False) blast
qed

lemma sample_tags: "tags_hold sample_req"
  by (simp add: tags_hold_def sample_req_def)

text \<open>
  The public port serves every operation of the private one that acts on jobs and queues, pausing and killing included;
  what it lacks is readiness, metrics and the dashboard.
\<close>

lemma public_routes:
  "set registerPrivateRoutes = set registerPublicRoutes \<union>
     {(''GET'', ''/ready'', EP_Ready), (''GET'', ''/metrics'', EP_Metrics), (''GET'', DashboardPath, EP_Dashboard),
      (''GET'', ''/'', EP_Redirect)}"
  by (auto simp: registerPrivateRoutes_def registerPublicRoutes_def)

end
