(* ===== verification/Redis_Types.thy ===== *)
theory Redis_Types
  imports Redis_Queues
begin

text \<open>
  The layout of a deployment is typed: a key that stands for a job or for the settings of a queue holds a hash, a
  lifecycle set is a sorted set, the registry a set and a claim a string. Every operation of the
  broker, the repositories and the idempotency store keeps it so, whatever the connection loses or
  repeats. The proofs follow the syntax of the operations: a command keeps the types when its key has the
  right kind, and every construct keeps what its parts keep.
\<close>

section \<open>Calls that keep a property of the store\<close>

definition keeps :: "('s \<Rightarrow> bool) \<Rightarrow> ('s, 'a) call \<Rightarrow> bool" where
  "keeps I f \<longleftrightarrow> (\<forall>s. I s \<longrightarrow> I (fst (f s)))"

named_theorems keeps_intros \<open>the constructs of calls keep what their parts keep\<close>

lemma keeps_pure [keeps_intros]: "keeps I (returnS x)" "keeps I (failS e)" "keeps I (liftS r)"
  by (simp_all add: keeps_def)

lemma keeps_andThenS [keeps_intros]:
  "keeps I f \<Longrightarrow> (\<And>x. keeps I (g x)) \<Longrightarrow> keeps I (andThenS f g)"
  unfolding keeps_def andThenS_def by (fastforce split: prod.split sum.split)

lemma keeps_if [keeps_intros]: "keeps I f \<Longrightarrow> keeps I g \<Longrightarrow> keeps I (if b then f else g)"
  by simp

lemma keeps_option [keeps_intros]:
  "keeps I f \<Longrightarrow> (\<And>x. keeps I (g x)) \<Longrightarrow> keeps I (case v of None \<Rightarrow> f | Some x \<Rightarrow> g x)"
  by (cases v) simp_all

lemma keeps_orInternal [keeps_intros]: "keeps I f \<Longrightarrow> keeps I (orInternal code msg f)"
  unfolding keeps_def orInternal_def by (fastforce split: prod.split sum.split)

lemma keeps_pipeline [keeps_intros]: "list_all (keeps I) fs \<Longrightarrow> keeps I (pipeline fs)"
proof (induction fs)
  case (Cons f fs)
  then have "keeps I f" "keeps I (pipeline fs)" by simp_all
  then show ?case unfolding keeps_def by (fastforce split: prod.split sum.split)
qed (simp add: keeps_def)

abbreviation on_conn :: "('r \<Rightarrow> bool) \<Rightarrow> 'r conn \<Rightarrow> bool" where
  "on_conn I c \<equiv> I (c_redis c)"

text \<open>However often a request is carried out, and whether or not its reply arrives.\<close>

lemma keeps_executed: "keeps I f \<Longrightarrow> I r \<Longrightarrow> I (executed n f r)"
  unfolding keeps_def executed_def by (induction n) auto

lemma keeps_send [keeps_intros]: "keeps I f \<Longrightarrow> keeps (on_conn I) (send f)"
  using keeps_executed [of I f]
  by (auto simp: keeps_def send_def Let_def split: list.split delivery.split)

section \<open>Commands\<close>

text \<open>A command that is given a key of the kind it works on.\<close>

lemma typed_upd:
  assumes "typed kb m"
  shows "e_value e = RHash h \<Longrightarrow> typed kb (m(render kb (KJob i) \<mapsto> e))"
    and "queueNamePattern q \<Longrightarrow> e_value e = RHash h \<Longrightarrow> typed kb (m(render kb (KMeta q) \<mapsto> e))"
    and "queueNamePattern q \<Longrightarrow> e_value e = RZset z \<Longrightarrow> typed kb (m(render kb (KState q st) \<mapsto> e))"
    and "e_value e = RSet xs \<Longrightarrow> typed kb (m(render kb KRegistry \<mapsto> e))"
    and "e_value e = RString v \<Longrightarrow> typed kb (m(render kb (KClaim c) \<mapsto> e))"
  using assms by (auto simp: typed_def hash_at_def zset_at_def set_at_def)

lemma typed_del: "typed kb m \<Longrightarrow> key_valid k \<Longrightarrow> typed kb (m(render kb k := None))"
  by (auto simp: typed_def hash_at_def zset_at_def set_at_def)

definition is_zset :: "redis_key \<Rightarrow> bool" where
  "is_zset k \<longleftrightarrow> key_valid k \<and> (\<exists>q st. k = KState q st)"

definition is_hash :: "redis_key \<Rightarrow> bool" where
  "is_hash k \<longleftrightarrow> key_valid k \<and> ((\<exists>i. k = KJob i) \<or> (\<exists>q. k = KMeta q))"

lemma kinds [simp]:
  "is_zset (KState q st) \<longleftrightarrow> queueNamePattern q" "is_hash (KJob i)" "is_hash (KMeta q) \<longleftrightarrow> queueNamePattern q"
  by (auto simp: is_zset_def is_hash_def)

lemma typed_put_zset: "typed kb m \<Longrightarrow> is_zset k \<Longrightarrow> typed kb (put_zset (render kb k) z m)"
  unfolding is_zset_def put_zset_def put_value_def by (auto intro: typed_upd typed_del)

lemma typed_put_hash: "typed kb m \<Longrightarrow> is_hash k \<Longrightarrow> typed kb (put_value (render kb k) (RHash h) m)"
  unfolding is_hash_def put_value_def by (auto intro: typed_upd)

lemma typed_put_set: "typed kb m \<Longrightarrow> typed kb (put_value (render kb KRegistry) (RSet xs) m)"
  unfolding put_value_def by (auto intro: typed_upd)

lemma typed_reads [keeps_intros]:
  "keeps (typed kb) (ref_EXISTS k)" "keeps (typed kb) (ref_HGET k f)" "keeps (typed kb) (ref_HGETALL k)"
  "keeps (typed kb) (ref_ZSCORE k x)" "keeps (typed kb) (ref_ZRANGEBYSCORE k hi n)" "keeps (typed kb) (ref_GET k)"
  by (auto simp: keeps_def ref_EXISTS_def ref_HGET_def ref_HGETALL_def ref_ZSCORE_def ref_ZRANGEBYSCORE_def ref_GET_def
      on_def split: option.split rvalue.split)

lemma typed_commands [keeps_intros]:
  "is_zset k \<Longrightarrow> keeps (typed kb) (ref_ZADD (render kb k) s x)"
  "is_zset k \<Longrightarrow> keeps (typed kb) (ref_ZREM (render kb k) x)"
  "is_zset k \<Longrightarrow> keeps (typed kb) (ref_ZPOPMIN (render kb k))"
  "is_hash k \<Longrightarrow> keeps (typed kb) (ref_HSET (render kb k) fs)"
  "is_hash k \<Longrightarrow> keeps (typed kb) (ref_HSETNX (render kb k) f v)"
  "keeps (typed kb) (ref_SADD (render kb KRegistry) x)"
  "keeps (typed kb) (ref_SETNX (render kb (KClaim c)) v d)"
  "key_valid k \<Longrightarrow> keeps (typed kb) (ref_DEL (render kb k))"
  by (auto simp: keeps_def ref_ZADD_def ref_ZREM_def ref_ZPOPMIN_def ref_HSET_def ref_HSETNX_def ref_SADD_def ref_SETNX_def
      ref_DEL_def on_def intro: typed_put_zset typed_put_hash typed_put_set typed_upd typed_del
      split: option.split list.split)

lemma typed_ttl [keeps_intros]:
  "keeps (typed kb) (ref_EXPIRE (render kb (KJob i)) secs)" "keeps (typed kb) (ref_PERSIST (render kb (KJob i)))"
  by (auto simp: keeps_def ref_EXPIRE_def ref_PERSIST_def typed_def hash_at_def zset_at_def set_at_def split: option.split)

section \<open>Scripts\<close>

lemma typed_enqueue [keeps_intros]:
  assumes "is_zset k" "queueNamePattern q"
  shows "keeps (typed kb) (enqueue_lua (RefN tn) (render kb (KJob i)) (render kb k) (render kb KRegistry) (render kb (KMeta q)) x s n w fs)"
  unfolding enqueue_lua_def RefN_simps using assms by (intro keeps_intros) simp_all

lemma typed_drain [keeps_intros]:
  assumes "is_zset a" "is_zset b"
  shows "keeps (typed kb) (drain (RefN tn) (render kb a) (render kb b) w e now (JobPrefix kb) fuel)"
proof (induction fuel)
  case (Suc fuel)
  then show ?case
    unfolding drain.simps RefN_simps key_render(2) using assms by (intro keeps_intros) simp_all
qed (simp add: keeps_def)

lemma typed_dequeue [keeps_intros]:
  assumes "list_all queueNamePattern qs"
  shows "keeps (typed kb) (dequeue_lua (RefN tn) (queue_keys kb qs) w e now (JobPrefix kb) fuel)"
  using assms
proof (induction qs)
  case (Cons q qs)
  then have q: "queueNamePattern q" and IH: "keeps (typed kb) (dequeue_lua (RefN tn) (queue_keys kb qs) w e now (JobPrefix kb) fuel)"
    by simp_all
  show ?case
    unfolding list.map dequeue_lua.simps RefN_simps key_render using q IH by (intro keeps_intros) (simp_all add: key_render)
qed (simp add: keeps_def)

lemma typed_transition [keeps_intros]:
  assumes "is_zset a" "is_zset b"
  shows "keeps (typed kb) (transition_lua (RefN tn) (render kb (KJob i)) (render kb a) (render kb b) x s ttl fs)"
  unfolding transition_lua_def RefN_simps using assms by (intro keeps_intros) simp_all

lemma typed_requeue_each:
  assumes "is_zset a" "is_zset b"
  shows "keeps (typed kb) (requeue_each (RefN tn) extra (render kb a) (render kb b) now (JobPrefix kb) band mp ids n)"
proof (induction ids arbitrary: n)
  case (Cons i ids)
  show ?case
    unfolding requeue_each.simps RefN_simps key_render(2) using assms by (intro keeps_intros Cons) simp_all
qed (simp add: keeps_def)

lemma typed_sweeps [keeps_intros]:
  assumes "is_zset a" "is_zset b"
  shows "keeps (typed kb) (promote_lua (RefN tn) (render kb a) (render kb b) now n (JobPrefix kb) band mp)"
    and "keeps (typed kb) (reclaim_lua (RefN tn) (render kb a) (render kb b) now n (JobPrefix kb) band mp)"
  unfolding promote_lua_def reclaim_lua_def RefN_simps by (intro keeps_intros typed_requeue_each assms)+

lemma typed_extend [keeps_intros]:
  assumes "is_zset a"
  shows "keeps (typed kb) (extend_lease_lua (RefN tn) (render kb a) (render kb (KJob i)) x e)"
  unfolding extend_lease_lua_def RefN_simps using assms by (intro keeps_intros) simp_all

lemma typed_purge [keeps_intros]:
  assumes "is_zset a"
  shows "keeps (typed kb) (purge_completed_lua (RefN tn) (render kb a) now n (JobPrefix kb))"
proof -
  have "keeps (typed kb) (purge_each (RefN tn) (render kb a) (JobPrefix kb) ids n)" for ids n
  proof (induction ids arbitrary: n)
    case (Cons i ids)
    show ?case
      unfolding purge_each.simps RefN_simps key_render(2) using assms by (intro keeps_intros Cons) simp_all
  qed (simp add: keeps_def)
  then show ?thesis unfolding purge_completed_lua_def RefN_simps by (intro keeps_intros)
qed

section \<open>Operations\<close>

datatype redis_op =
    Op_Enqueue Job | Op_Schedule Job | Op_Dequeue time "QueueName list" string duration
  | Op_Complete time Job duration | Op_Retry Job time | Op_Kill time Job | Op_Requeue Job
  | Op_PromoteDue QueueName time int | Op_ReclaimExpired QueueName time int | Op_ExtendLease JobID QueueName time
  | Op_Save Job | Op_Delete JobID | Op_PurgeCompleted time QueueName int
  | Op_Register Queue | Op_SetPaused QueueName bool
  | Op_Claim IdempotencyKey JobID duration | Op_Release IdempotencyKey
  | Op_Wait nat

text \<open>
  The state of the connection after an operation, whose result is dropped; or after some milliseconds in which the times to
  live run down.
\<close>

fun perform :: "'r redis \<Rightarrow> KeyBuilder \<Rightarrow> decode_texts \<Rightarrow> nat \<Rightarrow> redis_op \<Rightarrow> 'r conn \<Rightarrow> 'r conn" where
  "perform R kb dt fuel (Op_Enqueue job) c = fst (RB_Enqueue R kb job c)"
| "perform R kb dt fuel (Op_Schedule job) c = fst (RB_Schedule R kb job c)"
| "perform R kb dt fuel (Op_Dequeue now order w d) c = fst (RB_Dequeue R kb dt fuel now order w d c)"
| "perform R kb dt fuel (Op_Complete now job d) c = fst (RB_Complete R kb now job d c)"
| "perform R kb dt fuel (Op_Retry job t) c = fst (RB_Retry R kb job t c)"
| "perform R kb dt fuel (Op_Kill now job) c = fst (RB_Kill R kb now job c)"
| "perform R kb dt fuel (Op_Requeue job) c = fst (RB_Requeue R kb job c)"
| "perform R kb dt fuel (Op_PromoteDue q now n) c = fst (RB_PromoteDue R kb q now n c)"
| "perform R kb dt fuel (Op_ReclaimExpired q now n) c = fst (RB_ReclaimExpired R kb q now n c)"
| "perform R kb dt fuel (Op_ExtendLease i q t) c = fst (RB_ExtendLease R kb i q t c)"
| "perform R kb dt fuel (Op_Save job) c = fst (RJ_Save R kb job c)"
| "perform R kb dt fuel (Op_Delete i) c = fst (RJ_Delete R kb dt i c)"
| "perform R kb dt fuel (Op_PurgeCompleted now q n) c = fst (RJ_PurgeCompleted R kb now q n c)"
| "perform R kb dt fuel (Op_Register queue) c = fst (RQ_Register R kb queue c)"
| "perform R kb dt fuel (Op_SetPaused q p) c = fst (RQ_SetPaused R kb q p c)"
| "perform R kb dt fuel (Op_Claim k i d) c = fst (RI_Claim R kb k i d c)"
| "perform R kb dt fuel (Op_Release k) c = fst (RI_Release R kb k c)"
| "perform R kb dt fuel (Op_Wait d) c = elapse R (int d) c"

text \<open>The queue names that appear in an operation are valid, as the value object guarantees.\<close>

fun op_queues :: "redis_op \<Rightarrow> QueueName list" where
  "op_queues (Op_Enqueue job) = [j_queue job]"
| "op_queues (Op_Schedule job) = [j_queue job]"
| "op_queues (Op_Dequeue now order w d) = order"
| "op_queues (Op_Complete now job d) = [j_queue job]"
| "op_queues (Op_Retry job t) = [j_queue job]"
| "op_queues (Op_Kill now job) = [j_queue job]"
| "op_queues (Op_Requeue job) = [j_queue job]"
| "op_queues (Op_PromoteDue q now n) = [q]"
| "op_queues (Op_ReclaimExpired q now n) = [q]"
| "op_queues (Op_ExtendLease i q t) = [q]"
| "op_queues (Op_PurgeCompleted now q n) = [q]"
| "op_queues (Op_Register queue) = [q_name queue]"
| "op_queues (Op_SetPaused q p) = [q]"
| "op_queues _ = []"

abbreviation keeps_types :: "KeyBuilder \<Rightarrow> (ref_db conn, 'a) call \<Rightarrow> bool" where
  "keeps_types kb \<equiv> keeps (on_conn (typed kb))"

lemma typed_insert [keeps_intros]:
  "queueNamePattern (j_queue job) \<Longrightarrow> keeps_types kb (RB_insert (RefN tn) kb job (render kb (KState (j_queue job) st)) score)"
  unfolding RB_insert_def key_render by (intro keeps_intros) simp_all

lemma typed_move [keeps_intros]:
  "queueNamePattern (j_queue job) \<Longrightarrow>
     keeps_types kb (RB_transition (RefN tn) kb job (render kb (KState (j_queue job) a)) (render kb (KState (j_queue job) b)) score ttl)"
  unfolding RB_transition_def key_render by (intro keeps_intros) simp_all

lemma typed_move_any [keeps_intros]:
  "queueNamePattern (j_queue job) \<Longrightarrow>
     keeps_types kb (RB_transitionFromAny (RefN tn) kb job (render kb (KState (j_queue job) b)) score ttl)"
  unfolding RB_transitionFromAny_def Let_def key_render RefN_simps list.map by (intro keeps_intros) (simp_all add: keeps_intros)

lemma typed_dequeues: "list_all queueNamePattern order \<Longrightarrow> keeps_types kb (RB_Dequeue (RefN tn) kb dt fuel now order w d)"
  unfolding RB_Dequeue_def Let_def by (intro keeps_intros) (simp_all add: dedupe_valid)

lemma typed_insertions:
  assumes "queueNamePattern (j_queue job)"
  shows "keeps_types kb (RB_Enqueue (RefN tn) kb job)" "keeps_types kb (RB_Schedule (RefN tn) kb job)"
  unfolding RB_Enqueue_def RB_Schedule_def key_render by (intro keeps_intros assms)+

lemma typed_outcomes:
  assumes "queueNamePattern (j_queue job)"
  shows "keeps_types kb (RB_Complete (RefN tn) kb now job d)" "keeps_types kb (RB_Retry (RefN tn) kb job t)"
    "keeps_types kb (RB_Kill (RefN tn) kb now job)" "keeps_types kb (RB_Requeue (RefN tn) kb job)"
  unfolding RB_Complete_def RB_Retry_def RB_Kill_def RB_Requeue_def Let_def key_render by (intro keeps_intros assms)+

lemma typed_periodic:
  assumes "queueNamePattern q"
  shows "keeps_types kb (RB_PromoteDue (RefN tn) kb q now n)" "keeps_types kb (RB_ReclaimExpired (RefN tn) kb q now n)"
    "keeps_types kb (RB_ExtendLease (RefN tn) kb i q t)" "keeps_types kb (RJ_PurgeCompleted (RefN tn) kb now q n)"
  unfolding RB_PromoteDue_def RB_ReclaimExpired_def RB_ExtendLease_def RJ_PurgeCompleted_def Let_def key_render
  by (intro keeps_intros; simp add: assms)+

lemma typed_register: "queueNamePattern (q_name queue) \<Longrightarrow> keeps_types kb (RQ_Register (RefN tn) kb queue)"
  unfolding RQ_Register_def key_render RefN_simps by (intro keeps_intros; simp add: keeps_intros)

lemma typed_pause: "queueNamePattern q \<Longrightarrow> keeps_types kb (RQ_SetPaused (RefN tn) kb q p)"
  unfolding RQ_SetPaused_def key_render RefN_simps by (intro keeps_intros; simp)

lemma typed_claims: "keeps_types kb (RI_Claim (RefN tn) kb k i d)" "keeps_types kb (RI_Release (RefN tn) kb k)"
proof -
  have "keeps_types kb (case NewJobID v of Inl _ \<Rightarrow> returnS (False, '''') | Inr x \<Rightarrow> returnS (False, x))" for v
    by (cases "NewJobID v") (simp_all add: keeps_def)
  then show "keeps_types kb (RI_Claim (RefN tn) kb k i d)"
    unfolding RI_Claim_def key_render RefN_simps by (intro keeps_intros)
  show "keeps_types kb (RI_Release (RefN tn) kb k)"
    unfolding RI_Release_def key_render RefN_simps by (intro keeps_intros) simp
qed

lemma typed_save: "keeps_types kb (RJ_Save (RefN tn) kb job)"
  unfolding RJ_Save_def key_render RefN_simps by (intro keeps_intros) simp

lemma keeps_andThenS_result:
  "keeps I f \<Longrightarrow> (\<And>s s' x. f s = (s', Inr x) \<Longrightarrow> keeps I (g x)) \<Longrightarrow> keeps I (andThenS f g)"
  unfolding keeps_def andThenS_def by (fastforce split: prod.split sum.split)

lemma found_queue:
  assumes "RJ_FindByID R kb dt i c = (c', Inr job)"
  shows "queueNamePattern (j_queue job)"
proof -
  obtain h where "toAggregate dt h = Inr job"
    using assms by (auto simp: RJ_FindByID_def andThenS_eq_Inr split: if_splits)
  then obtain raw where "NewQueueName raw = Inr (j_queue job)"
    by (auto simp: toAggregate_def andThen_eq_Inr Let_def Reconstitute_def split: if_splits option.splits)
  then show ?thesis by (rule NewQueueName_pattern)
qed

lemma typed_delete: "keeps_types kb (RJ_Delete (RefN tn) kb dt i)"
  unfolding RJ_Delete_def
proof (rule keeps_andThenS_result)
  show "keeps_types kb (RJ_FindByID (RefN tn) kb dt i)"
    unfolding RJ_FindByID_def key_render RefN_simps by (intro keeps_intros)
next
  fix s s' job assume "RJ_FindByID (RefN tn) kb dt i s = (s', Inr job)"
  then have "queueNamePattern (j_queue job)" by (rule found_queue)
  then show "keeps_types kb (andThenS (orInternal ''job_delete_failed'' ''failed to delete job''
         (send (pipeline
            (r_DEL (RefN tn) (Job_key kb i) #
             map (\<lambda>state. r_ZREM (RefN tn) (StateSet kb (j_queue job) state) i) AllStates @
             (if \<not> IsZero (j_idempotencyKey job) then [r_DEL (RefN tn) (Idempotency kb (j_idempotencyKey job))] else [])))))
       (\<lambda>_. returnS ()))"
    unfolding key_render RefN_simps
    by (intro keeps_intros) (auto simp: list_all_iff intro!: typed_commands)
qed

lemma typed_perform:
  assumes "list_all queueNamePattern (op_queues op)" "typed kb (c_redis c)"
  shows "typed kb (c_redis (perform (RefN tn) kb dt fuel op c))"
proof -
  note all = typed_dequeues typed_insertions typed_outcomes typed_periodic typed_register typed_pause typed_claims typed_save typed_delete
  have go: "keeps_types kb f \<Longrightarrow> typed kb (c_redis (fst (f c)))" for f :: "(ref_db conn, 'a) call"
    using assms(2) by (simp add: keeps_def)
  show ?thesis
    using assms by (cases op) (simp_all add: go all typed_elapse)
qed

context redis_server
begin

lemma conn_rel_step: "sim (conn_rel L) Q f g \<Longrightarrow> conn_rel L c d \<Longrightarrow> conn_rel L (fst (f c)) (fst (g d))"
  by (simp add: sim_def)

lemma sim_perform:
  assumes "conn_rel L c d"
  shows "conn_rel L (perform R kb dt fuel op c) (perform reference kb dt fuel op d)"
proof -
  note go = conn_rel_step [OF _ assms]
  note sims = broker_sims sim_save sim_delete_job sim_purge_jobs sim_register sim_set_paused sim_claim_key sim_release
  note defs = RB_Enqueue_def RB_Schedule_def RB_Complete_def RB_Retry_def RB_Kill_def RB_Requeue_def Let_def
  show ?thesis
    by (cases op) (simp_all add: defs go [OF sims(1)] go [OF sims(2)] go [OF sims(3)] go [OF sims(4)] go [OF sims(5)]
        go [OF sims(6)] go [OF sims(7)] go [OF sim_save] go [OF sim_delete_job] go [OF sim_purge_jobs] go [OF sim_register]
        go [OF sim_set_paused] go [OF sim_claim_key] go [OF sim_release] conn_elapse [OF assms])
qed

lemma sim_performs:
  "conn_rel L c d \<Longrightarrow> conn_rel L (fold (perform R kb dt fuel) ops c) (fold (perform reference kb dt fuel) ops d)"
  by (induction ops arbitrary: c d) (simp_all add: sim_perform)

end

text \<open>
  C9. Every key keeps its kind. Whatever operations of the broker, the repositories and the idempotency store
  are carried out, in whatever order, whatever the connection loses or repeats on the way and however long the
  pauses in which keys expire, each key of the deployment holds the kind of value the program expects there.
\<close>

theorem redis_layout_stays_typed:
  assumes "redis_server R L" and "L (c_redis c) m" and "typed kb m"
    and "\<forall>op \<in> set ops. list_all queueNamePattern (op_queues op)"
  shows "\<exists>m'. L (c_redis (fold (perform R kb dt fuel) ops c)) m' \<and> typed kb m'"
proof -
  let ?d = "\<lparr>c_redis = m, c_net = c_net c\<rparr>" and ?tn = "r_tonumber R"
  have "conn_rel L c ?d" using assms(2) by (simp add: conn_rel_def)
  from redis_server.sim_performs [OF assms(1) this]
  have "L (c_redis (fold (perform R kb dt fuel) ops c)) (c_redis (fold (perform (RefN ?tn) kb dt fuel) ops ?d))"
    by (simp add: conn_rel_def)
  moreover have "typed kb (c_redis (fold (perform (RefN ?tn) kb dt fuel) ops d))"
    if "typed kb (c_redis d)" "\<forall>op \<in> set ops. list_all queueNamePattern (op_queues op)" for d
    using that by (induction ops arbitrary: d) (simp_all add: typed_perform)
  ultimately show ?thesis using assms(3,4) by fastforce
qed

theorem redis_layout_stays_typed_witness:
  "typed sample_kb (c_redis (fold (perform Ref sample_kb sample_texts 5)
     [Op_Claim ''k1'' ''j1'' hour, Op_Enqueue waiting_job, Op_Dequeue 0 [''default''] ''w'' 0, Op_Kill 0 waiting_job]
     \<lparr>c_redis = Map.empty, c_net = [Delivered 1, GaveUp 2 ''timeout'']\<rparr>))"
proof -
  let ?ops = "[Op_Claim ''k1'' ''j1'' hour, Op_Enqueue waiting_job, Op_Dequeue 0 [''default''] ''w'' 0, Op_Kill 0 waiting_job]"
  have "\<forall>op \<in> set ?ops. list_all queueNamePattern (op_queues op)" using default_queue waiting_job_ok by simp
  from redis_layout_stays_typed [OF ref.redis_server_axioms, of "\<lparr>c_redis = Map.empty, c_net = [Delivered 1, GaveUp 2 ''timeout'']\<rparr>",
      OF _ typed_empty this, of sample_kb sample_texts 5]
  show ?thesis by simp
qed

end
