(* ===== verification/Redis_Sweeps.thy ===== *)
theory Redis_Sweeps
  imports Redis_Broker
begin

text \<open>
  The sweeps of \<open>src/pkg/infrastructure/persistence/redis/job_broker.go\<close> together with the other operations: promotion
  of due jobs with \<open>script/promote.lua\<close>, which runs over the scheduled set and then over the retrying set of a queue, and
  what \<open>ReclaimExpired\<close> does to a job that \<open>Dequeue\<close> handed out.
\<close>

text \<open>The priority a document shows.\<close>

definition priority_of :: "hash \<Rightarrow> Priority" where
  "priority_of h = word_of_nat (decimal_val (priority_text h))"

lemma priority_text_kept: "priority_text (hset h (pending_fields now)) = priority_text h"
  by (simp add: priority_text_def pending_fields_def hset_def update_conv')

text \<open>One of the two sweeps of \<open>PromoteDue\<close>.\<close>

lemma ref_promote:
  assumes "typed kb (c_redis c)" "ref_ok (c_redis c)" "c_net c = []" "queueNamePattern q" "a \<noteq> StatePending"
    "priorities_ok kb (c_redis c) priority_of" "\<And>t i. strconv_ParseInt t = Some i \<Longrightarrow> tn t = Some (fl64 i)"
    and "0 < n" "n < 2 ^ 53" "0 \<le> now" "now < 10 ^ 14"
  defines "ids \<equiv> due_ids kb (c_redis c) q a now n"
  defines "m' \<equiv> requeue_all kb q a [] now (\<lambda>h. PendingScore (priority_of h) now) ids (c_redis c)"
  shows "orInternal code msg (send (promote_lua (RefN tn) (StateSet kb q a) (Pending_key kb q) now n (JobPrefix kb)
      priorityBand (int (unat MaxPriority)))) c =
    (c\<lparr>c_redis := m'\<rparr>, Inr (int (length (filter (\<lambda>i. document kb (c_redis c) i \<noteq> None) ids))))"
    and "swept kb q a priority_of now ids (c_redis c) m'" and "typed kb m'" and "priorities_ok kb m' priority_of"
    and "st \<notin> {a, StatePending} \<Longrightarrow> members kb m' q st = members kb (c_redis c) q st"
    and "document kb m' x \<noteq> None \<longleftrightarrow> document kb (c_redis c) x \<noteq> None"
proof -
  note d = due_distinct [OF assms(1,2,4), where st = a and now = now and n = n]
  note V = requeue_all_views [OF assms(1,4,5) d, where extra = "[]" and now = now and score = "\<lambda>h. PendingScore (priority_of h) now"]
  show "orInternal code msg (send (promote_lua (RefN tn) (StateSet kb q a) (Pending_key kb q) now n (JobPrefix kb)
      priorityBand (int (unat MaxPriority)))) c =
    (c\<lparr>c_redis := m'\<rparr>, Inr (int (length (filter (\<lambda>i. document kb (c_redis c) i \<noteq> None) ids))))"
    using sweep_script [OF assms(1,2,4,5,6,7,8-11), where extra = "[]"] assms(3)
    by (simp add: orInternal_def send_def promote_lua_def m'_def ids_def)
  show "swept kb q a priority_of now ids (c_redis c) m'"
    unfolding m'_def ids_def using assms(1,4,5) d by (intro requeue_all_swept) auto
  show "typed kb m'" unfolding m'_def ids_def using V(1) .
  show "document kb m' x \<noteq> None \<longleftrightarrow> document kb (c_redis c) x \<noteq> None" unfolding m'_def ids_def V(2) by simp
  show "st \<notin> {a, StatePending} \<Longrightarrow> members kb m' q st = members kb (c_redis c) q st"
    unfolding m'_def ids_def using V(5) [OF assms(4)] by simp
  have p: "priority_text h = FormatUint (unat (priority_of h)) \<and> NewPriority (priority_of h) = Inr (priority_of h)"
    if "document kb (c_redis c) i = Some h" for i h using assms(6) that unfolding priorities_ok_def by blast
  have k: "priority_of (hset h (pending_fields now)) = priority_of h" for h by (simp add: priority_of_def priority_text_kept)
  show "priorities_ok kb m' priority_of"
    unfolding priorities_ok_def m'_def ids_def V(2) using p by (auto simp: k priority_text_kept split: if_splits)
qed

text \<open>
  C17. Promotion on Redis. Over a working connection \<open>PromoteDue\<close> takes the scheduled jobs and then the retrying jobs whose
  instant has come, each at most the limit and in the order of their instants, and puts every one that
  still has a document into the pending set with the score of its priority and the current instant;
  their documents say pending and keep the attempt trail. The reply counts them, and no other document changes.
\<close>

theorem redis_promote_due:
  assumes "redis_server R L" and "L (c_redis c) m" and "c_net c = []" and "typed kb m"
    and "queueNamePattern q" and "priorities_ok kb m priority_of" and "0 < limit" and "limit < 2 ^ 53"
    and "0 \<le> toMillis now" and "toMillis now < 10 ^ 14"
  defines "ids1 \<equiv> due_ids kb m q StateScheduled (toMillis now) limit"
    and "ids2 \<equiv> due_ids kb m q StateRetrying (toMillis now) limit"
  shows "\<exists>c' m1 m2. RB_PromoteDue R kb q now limit c =
      (c', Inr (int (length (filter (\<lambda>i. document kb m i \<noteq> None) (ids1 @ ids2))))) \<and> L (c_redis c') m2 \<and>
    swept kb q StateScheduled priority_of (toMillis now) ids1 m m1 \<and>
    swept kb q StateRetrying priority_of (toMillis now) ids2 m1 m2"
proof -
  let ?t = "toMillis now" and ?tn = "r_tonumber R"
  let ?d = "\<lparr>c_redis = m, c_net = c_net c\<rparr>"
  let ?live = "\<lambda>ids. int (length (filter (\<lambda>i. document kb m i \<noteq> None) ids))"
  let ?run = "\<lambda>R key. orInternal ''job_promote_failed'' ''failed to promote due jobs''
    (send (promote_lua R key (Pending_key kb q) ?t limit (JobPrefix kb) priorityBand (int (unat MaxPriority))))"
  have tn: "\<And>t i. strconv_ParseInt t = Some i \<Longrightarrow> ?tn t = Some (fl64 i)" using redis_server.tonumber_int [OF assms(1)] .
  have rel: "conn_rel L c ?d" using assms(2) by (simp add: conn_rel_def)
  have d: "typed kb (c_redis ?d)" "ref_ok (c_redis ?d)" "c_net ?d = []" "priorities_ok kb (c_redis ?d) priority_of"
    using assms(3,4,6) redis_server.related_ok [OF assms(1,2)] by simp_all
  have s: "StateScheduled \<noteq> StatePending" "StateRetrying \<noteq> StatePending" by simp_all
  note P1 = ref_promote [OF d(1-3) assms(5) s(1) d(4) tn assms(7-10)]
  define m1 where "m1 = requeue_all kb q StateScheduled [] ?t (\<lambda>h. PendingScore (priority_of h) ?t) ids1 m"
  let ?d1 = "\<lparr>c_redis = m1, c_net = []\<rparr>"
  have e1: "?run (RefN ?tn) (Scheduled_key kb q) ?d = (?d1, Inr (?live ids1))"
    using P1(1) assms(3) by (simp add: StateSet_def m1_def ids1_def)
  have w1: "swept kb q StateScheduled priority_of ?t ids1 m m1" "typed kb m1" "priorities_ok kb m1 priority_of"
    "members kb m1 q StateRetrying = members kb m q StateRetrying" "\<And>x. document kb m1 x \<noteq> None \<longleftrightarrow> document kb m x \<noteq> None"
    using P1(2-4) P1(5) [where st = StateRetrying] P1(6) by (simp_all add: m1_def ids1_def)
  have sim: "sim (conn_rel L) (=) (?run R key) (?run (RefN ?tn) key)" for key
    by (intro sim_orInternal sim_send redis_server.sim_promote [OF assms(1)])
  obtain c1 x1 where c1: "?run R (Scheduled_key kb q) c = (c1, x1)" by fastforce
  have r1: "conn_rel L c1 ?d1" "x1 = Inr (?live ids1)" using simD [OF sim rel c1] e1 by (auto elim!: rel_sum.cases)
  then have ok1: "ref_ok (c_redis ?d1)" using redis_server.related_ok [OF assms(1)] by (auto simp: conn_rel_def)
  have d1: "typed kb (c_redis ?d1)" "c_net ?d1 = []" "priorities_ok kb (c_redis ?d1) priority_of" using w1 by simp_all
  note P2 = ref_promote [OF d1(1) ok1 d1(2) assms(5) s(2) d1(3) tn assms(7-10)]
  have ids2: "due_ids kb m1 q StateRetrying ?t limit = ids2" by (simp add: ids2_def due_ids_def w1(4))
  define m2 where "m2 = requeue_all kb q StateRetrying [] ?t (\<lambda>h. PendingScore (priority_of h) ?t) ids2 m1"
  have e2: "?run (RefN ?tn) (Retrying_key kb q) ?d1 = (\<lparr>c_redis = m2, c_net = []\<rparr>, Inr (?live ids2))"
    using P2(1) w1(5) by (simp add: StateSet_def m2_def ids2)
  obtain c2 x2 where c2: "?run R (Retrying_key kb q) c1 = (c2, x2)" by fastforce
  have r2: "conn_rel L c2 \<lparr>c_redis = m2, c_net = []\<rparr>" "x2 = Inr (?live ids2)"
    using simD [OF sim r1(1) c2] e2 by (auto elim!: rel_sum.cases)
  have len: "?live ids \<le> limit" if "ids = due_ids kb m q st ?t limit" for ids st
    using that assms(7) length_filter_le [of "\<lambda>i. document kb m i \<noteq> None" ids] by (simp add: due_ids_def) linarith
  have "wrap64 (?live ids1 + ?live ids2) = ?live ids1 + ?live ids2"
    using len [OF ids1_def [THEN meta_eq_to_obj_eq]] len [OF ids2_def [THEN meta_eq_to_obj_eq]] assms(8) by (intro wrap64_id) simp_all
  then have "RB_PromoteDue R kb q now limit c = (c2, Inr (?live (ids1 @ ids2)))"
    using c1 c2 r1(2) r2(2) assms(7) by (simp add: RB_PromoteDue_def andThenS_def)
  moreover have "swept kb q StateRetrying priority_of ?t ids2 m1 m2" using P2(2) by (simp add: m2_def ids2)
  ultimately show ?thesis using r2(1) w1(1) by (auto simp: conn_rel_def)
qed

section \<open>Leases on Redis\<close>

lemma RB_Dequeue_net: "c_net c = [] \<Longrightarrow> c_net (fst (RB_Dequeue R kb dt fuel now order w d c)) = []"
  by (simp add: RB_Dequeue_def andThenS_def orInternal_def send_def liftS_def Let_def returnS_def split: prod.split sum.split option.split)

lemma claim_priority: "priority_text (hset h (claim_fields w e now)) = priority_text h"
  by (simp add: priority_text_def claim_fields_def hset_def update_conv')

lemma claims_priorities:
  assumes "claims kb w e now qs m m' q x h" "priorities_ok kb m priority_of"
  shows "priorities_ok kb m' priority_of"
proof -
  have old: "document kb m x = Some h"
    and new: "document kb m' i = (if i = x then Some (hset h (claim_fields w e now)) else document kb m i)" for i
    using assms(1) unfolding claims_def by blast+
  have "priority_of (hset h (claim_fields w e now)) = priority_of h" by (simp add: priority_of_def claim_priority)
  then show ?thesis using assms(2) old unfolding priorities_ok_def new by (auto simp: claim_priority split: if_splits)
qed

lemma zput_due:
  assumes "e \<le> now" "int (length z) < limit"
  shows "x \<in> set (take (nat limit) (map snd (filter (\<lambda>(s, y). s \<le> now) (zput e x z))))"
proof -
  have "length (zput e x z) \<le> Suc (length z)"
    using length_filter_le [of "\<lambda>(s, y). y \<noteq> x" z] by (simp add: zput_def zdel_def)
  then have "length (filter (\<lambda>(s, y). s \<le> now) (zput e x z)) \<le> nat limit"
    using length_filter_le [of "\<lambda>(s, y). s \<le> now" "zput e x z"] assms(2) by linarith
  then show ?thesis using assms(1) by (force simp: zput_def set_insort_key)
qed

text \<open>
  C16. The lease that counts on Redis is the pool's, not the job's. A job that is handed out becomes reclaimable once the lease
  duration of the pool and the grace have passed, whatever its timeout: a sweep that comes then, with room for the active jobs of the queues,
  takes the job from the active set and puts it back among the pending ones, where the next
  poll finds it. The lease the worker holds in the domain lapses at its timeout plus the grace instead; with
  a longer timeout the job is given away while its worker still has a valid lease.
\<close>

theorem redis_lease_ignores_timeout:
  assumes "redis_server R L" and "L (c_redis c) m" and "c_net c = []" and "claimable kb fuel m"
    and "priorities_ok kb m priority_of" and "list_all queueNamePattern order"
    and "RB_Dequeue R kb dt fuel now order w leaseFor c = (c1, Inr (Some j))"
    and "0 \<le> toMillis (now + wrap64 (leaseFor + leaseGrace))"
    and "toMillis (now + wrap64 (leaseFor + leaseGrace)) \<le> toMillis later" and "toMillis later < 10 ^ 14"
    and "\<forall>q \<in> set order. int (length (members kb m q StateActive)) < limit" and "limit < 2 ^ 53"
  shows "\<exists>q \<in> set order. \<exists>c2 n m2. RB_ReclaimExpired R kb q later limit c1 = (c2, Inr n) \<and> 0 < n \<and> L (c_redis c2) m2 \<and>
    (\<forall>t. (t, j_id j) \<notin> set (members kb m2 q StateActive)) \<and> (\<exists>t. (t, j_id j) \<in> set (members kb m2 q StatePending)) \<and>
    (\<exists>h. document kb m2 (j_id j) = Some h \<and> field h fieldState = ''pending'') \<and>
    IsLeaseExpired later j = (later > now + wrap64 (j_timeout j + leaseGrace))"
proof -
  let ?e = "toMillis (now + wrap64 (leaseFor + leaseGrace))" and ?i = "j_id j"
  obtain m1 q h job where D: "L (c_redis c1) m1" "claimable kb fuel m1" "q \<in> set order"
    "claims kb w (fl64 ?e) (fl64 (toMillis now)) (dedupeQueues order) m m1 q ?i h" "Lease w now leaseGrace job = Inr j"
    using redis_dequeue_spec [OF assms(1,2,4,3,6,7)] by auto
  have e: "fl64 ?e \<le> toMillis later" using assms(8-10) by (subst fl64_small) simp_all
  have net: "c_net c1 = []" using RB_Dequeue_net [OF assms(3)] assms(7) by (metis fst_conv)
  have q: "queueNamePattern q" using D(3) assms(6) by (simp add: list_all_iff)
  have lim: "int (length (members kb m q StateActive)) < limit" using assms(11) D(3) by blast
  define ids where "ids = due_ids kb m1 q StateActive (toMillis later) limit"
  have a: "members kb m1 q StateActive = zput (fl64 ?e) ?i (members kb m q StateActive)" using D(4) unfolding claims_def by blast
  have i: "?i \<in> set ids" unfolding ids_def due_ids_def a by (rule zput_due [OF e lim])
  obtain h1 where doc: "document kb m1 ?i = Some h1" using D(4) unfolding claims_def by auto
  have pos: "0 < limit" "0 \<le> toMillis later" using lim assms(8,9) by linarith+
  have "typed kb m1" using D(2) by (simp add: claimable_def)
  from redis_reclaim_spec [OF assms(1) D(1) net this q claims_priorities [OF D(4) assms(5)] pos(1) assms(12) pos(2) assms(10), folded ids_def]
  obtain c2 m2 where c2: "RB_ReclaimExpired R kb q later limit c1 =
      (c2, Inr (int (length (filter (\<lambda>i. document kb m1 i \<noteq> None) ids))))" "L (c_redis c2) m2"
    "swept kb q StateActive priority_of (toMillis later) ids m1 m2" by blast
  have "filter (\<lambda>i. document kb m1 i \<noteq> None) ids \<noteq> []" using i doc by (auto simp: filter_empty_conv)
  then have n: "0 < int (length (filter (\<lambda>i. document kb m1 i \<noteq> None) ids))" by simp
  have sw: "\<forall>t. (t, ?i) \<notin> set (members kb m2 q StateActive)" "\<exists>t. (t, ?i) \<in> set (members kb m2 q StatePending)"
    "\<exists>h. document kb m2 ?i = Some h \<and> field h fieldState = ''pending''"
    using c2(3) i doc unfolding swept_def by blast+
  have "IsLeaseExpired later j = (later > now + wrap64 (j_timeout j + leaseGrace))"
    using D(5) by (auto simp: Lease_def IsLeaseExpired_def andThen_eq_Inr Let_def split: if_splits)
  then show ?thesis using D(3) c2(1,2) n sw by blast
qed

section \<open>Witnesses\<close>

definition scheduled_db :: ref_db where
  "scheduled_db = stored_in sample_kb sample_job StateScheduled 5000 Map.empty"

lemma scheduled_db_ok:
  "typed sample_kb scheduled_db" "ref_ok scheduled_db"
  "members sample_kb scheduled_db ''default'' StateScheduled = [(5000, ''j1'')]"
  "members sample_kb scheduled_db ''default'' StateRetrying = []"
  "document sample_kb scheduled_db i = (if i = ''j1'' then Some (job_pairs sample_job) else None)"
proof -
  note V = insert_job_views [OF typed_empty default_queue, where kb = sample_kb and st = StateScheduled and
      weight = "FormatUint (unat defWeight)" and score = 5000 and i = "''j1''" and h = "job_pairs sample_job"]
  show "typed sample_kb scheduled_db" using V(1) by (simp add: scheduled_db_def sample_job_at)
  show "ref_ok scheduled_db"
    unfolding scheduled_db_def sample_job_at by (rule insert_job_ok [OF typed_empty ref_ok_empty default_queue]) simp_all
  show "members sample_kb scheduled_db ''default'' StateScheduled = [(5000, ''j1'')]"
    "members sample_kb scheduled_db ''default'' StateRetrying = []"
    "document sample_kb scheduled_db i = (if i = ''j1'' then Some (job_pairs sample_job) else None)"
    using V(2) [OF default_queue] V(3) by (simp_all add: scheduled_db_def sample_job_at zput_def zdel_def)
qed

theorem redis_promote_due_witness:
  "\<exists>c' m1. RB_PromoteDue Ref sample_kb ''default'' (1700000200 * second) 10 \<lparr>c_redis = scheduled_db, c_net = []\<rparr> =
      (c', Inr 1) \<and> swept sample_kb ''default'' StateScheduled priority_of 1700000200000 [''j1''] scheduled_db m1"
proof -
  have t: "priority_text (job_pairs sample_job) = FormatUint 8"
    by (simp add: priority_text_def job_pairs_def field_names sample_job_def)
  then have "priority_of (job_pairs sample_job) = 8" using show_nat_digits [of 8] by (simp add: priority_of_def FormatUint_def)
  then have p: "priorities_ok sample_kb scheduled_db priority_of"
    using t by (auto simp: priorities_ok_def scheduled_db_ok NewPriority_def priority_levels split: if_splits)
  have now: "toMillis (1700000200 * second) = 1700000200000" by (simp add: toMillis_def second_def time_IsZero_def zero_time_def)
  have due: "due_ids sample_kb scheduled_db ''default'' StateScheduled 1700000200000 10 = [''j1'']"
    "due_ids sample_kb scheduled_db ''default'' StateRetrying 1700000200000 10 = []"
    by (simp_all add: due_ids_def scheduled_db_ok)
  show ?thesis
    using redis_promote_due [OF ref.redis_server_axioms, of "\<lparr>c_redis = scheduled_db, c_net = []\<rparr>" scheduled_db sample_kb
        "''default''" 10 "1700000200 * second"] p scheduled_db_ok default_queue
    by (auto simp: now due)
qed

lemma waiting_active: "members sample_kb waiting_db ''default'' StateActive = []"
  using insert_job_views(2) [OF typed_empty default_queue default_queue, where kb = sample_kb and st = StatePending and
      weight = "FormatUint (unat defWeight)" and score = waiting_score and i = "''j1''" and h = "job_pairs waiting_job"]
  by (simp add: waiting_db_def waiting_job_ok)

lemma waiting_priorities: "priorities_ok sample_kb waiting_db priority_of"
proof -
  note V = insert_job_views [OF typed_empty default_queue, where kb = sample_kb and st = StatePending and
      weight = "FormatUint (unat defWeight)" and score = waiting_score and i = "''j1''" and h = "job_pairs waiting_job"]
  have t: "priority_text (job_pairs waiting_job) = FormatUint 8"
    by (simp add: priority_text_def job_pairs_def field_names waiting_job_def sample_job_def)
  then have "priority_of (job_pairs waiting_job) = 8" using show_nat_digits [of 8] by (simp add: priority_of_def FormatUint_def)
  then show ?thesis
    using t V(3) by (auto simp: priorities_ok_def waiting_db_def waiting_job_ok NewPriority_def priority_levels split: if_splits)
qed

text \<open>A job handed out for five seconds is given away after forty, whatever its timeout.\<close>

theorem redis_lease_ignores_timeout_witness:
  "\<exists>c1 j c2 n. RB_Dequeue Ref sample_kb sample_texts 5 (1700000200 * second) [''default''] ''w1'' (5 * second)
       \<lparr>c_redis = waiting_db, c_net = []\<rparr> = (c1, Inr (Some j)) \<and>
     RB_ReclaimExpired Ref sample_kb ''default'' (1700000240 * second) 10 c1 = (c2, Inr n) \<and> 0 < n"
proof -
  let ?c = "\<lparr>c_redis = waiting_db, c_net = []\<rparr>" and ?now = "1700000200 * second" and ?later = "1700000240 * second"
  obtain c1 j where r: "RB_Dequeue Ref sample_kb sample_texts 5 ?now [''default''] ''w1'' (5 * second) ?c = (c1, Inr (Some j))"
    using waiting_dequeue by blast
  have "ref_rel (c_redis ?c) waiting_db" using waiting_db_ok(1) by (simp add: claimable_def)
  moreover have "list_all queueNamePattern [''default'']" using default_queue by simp
  moreover have "wrap64 (5 * second + leaseGrace) = 35 * second"
    by (subst wrap64_id) (simp_all add: leaseGrace_def second_def)
  then have "toMillis (?now + wrap64 (5 * second + leaseGrace)) = 1700000235000" "toMillis ?later = 1700000240000"
    by (simp_all add: toMillis_def second_def time_IsZero_def zero_time_def)
  moreover have "int (length (members sample_kb waiting_db ''default'' StateActive)) < 10" by (simp add: waiting_active)
  ultimately show ?thesis
    using redis_lease_ignores_timeout [OF ref.redis_server_axioms, of ?c waiting_db sample_kb 5 "[''default'']" sample_texts ?now
        "''w1''" "5 * second" c1 j ?later 10] r waiting_db_ok(1) waiting_priorities
    by auto
qed

end
