(* ===== verification/Deployment.thy ===== *)
theory Deployment
  imports Web_Api Redis_Types Redis_Sweeps
begin

text \<open>
  The object graph that the process runs (\<open>src/pkg/di/wire_gen.go\<close>, generated from \<open>wire.go\<close>, with the adapters of
  \<open>adapters.go\<close>): the HTTP handlers, the worker pool and the scheduler on the Redis stores, each with its part of the
  configuration. The commands of the server, the texts of decoding errors, the fuel of the dequeue
  script, the instant of a call and the bytes of an identifier stay arguments.
\<close>

section \<open>The graph\<close>

record 'r Handlers =
  hs_EnqueueJob :: "string \<Rightarrow> time \<Rightarrow> EnqueueJobReq result \<Rightarrow> ('r conn, response) call"
  hs_GetJob :: "time \<Rightarrow> string \<Rightarrow> ('r conn, response) call"
  hs_ListJobs :: "time \<Rightarrow> ListJobsQuery result \<Rightarrow> ('r conn, response) call"
  hs_RetryJob :: "time \<Rightarrow> string \<Rightarrow> ('r conn, response) call"
  hs_KillJob :: "time \<Rightarrow> string \<Rightarrow> ('r conn, response) call"
  hs_DeleteJob :: "time \<Rightarrow> string \<Rightarrow> ('r conn, response) call"
  hs_ListQueueStats :: "('r conn, response) call"
  hs_SetQueuePaused :: "string \<Rightarrow> bool result \<Rightarrow> ('r conn, response) call"
  hs_RetryAllDead :: "time \<Rightarrow> string \<Rightarrow> ('r conn, response) call"
  hs_Health :: "string \<Rightarrow> ('r conn, response) call"
  hs_Ready :: "('r conn, response) call"

definition InjectHandlers ::
  "AppConfig \<Rightarrow> 'r redis \<Rightarrow> decode_texts \<Rightarrow> nat \<Rightarrow> HandlerRegistry \<Rightarrow> 'r Handlers" where
  "InjectHandlers cfg R dt fuel handlers =
     (let keyBuilder = provideKeyBuilder (GetRedisNamespace cfg);
          jobBroker = redisBroker R keyBuilder dt fuel;
          idempotencyStore = redisIdempotency R keyBuilder;
          jobRepo = redisJobRepo R keyBuilder dt;
          queueRepo = redisQueueRepo R keyBuilder
      in \<lparr>hs_EnqueueJob = (\<lambda>newID now. EnqueueJob
            (Enqueue_service (jobRepo now) (jobBroker now) idempotencyStore (GetEnqueuerConfig cfg) newID now)),
          hs_GetJob = (\<lambda>now. GetJob_handler (GetJob (jobRepo now))),
          hs_ListJobs = (\<lambda>now. ListJobs_handler (ListJobs (jobRepo now))),
          hs_RetryJob = (\<lambda>now. RetryJob_handler (RetryJob (jobRepo now) (jobBroker now) now)),
          hs_KillJob = (\<lambda>now. KillJob_handler (KillJob (jobRepo now) (jobBroker now) now)),
          hs_DeleteJob = (\<lambda>now. DeleteJob_handler (DeleteJob (jobRepo now))),
          hs_ListQueueStats = ListQueueStats_handler (ListQueueStats queueRepo),
          hs_SetQueuePaused = SetQueuePaused_handler (SetQueuePaused queueRepo),
          hs_RetryAllDead = (\<lambda>now. RetryAllDead_handler (RetryAllDead (jobRepo now) (jobBroker now) now)),
          hs_Health = Health_handler (GetServerVersion cfg),
          hs_Ready = Ready_handler handlers\<rparr>)"

definition InjectWorkerPool ::
  "AppConfig \<Rightarrow> 'r redis \<Rightarrow> decode_texts \<Rightarrow> nat \<Rightarrow> time \<Rightarrow> HandlerRegistry \<Rightarrow> 'r conn PoolPorts \<times> PoolConfig" where
  "InjectWorkerPool cfg R dt fuel now handlers =
     (let keyBuilder = provideKeyBuilder (GetRedisNamespace cfg)
      in (\<lparr>pp_repo = redisJobRepo R keyBuilder dt now, pp_broker = redisBroker R keyBuilder dt fuel,
           pp_queues = redisQueueRepo R keyBuilder, pp_registry = handlers,
           pp_retention = effectiveRetention (GetProcessorConfig cfg)\<rparr>,
          PoolConfig_withDefaults (GetWorkerPoolConfig cfg)))"

definition InjectScheduler ::
  "AppConfig \<Rightarrow> 'r redis \<Rightarrow> decode_texts \<Rightarrow> nat \<Rightarrow> time \<Rightarrow> 'r conn SchedulerPorts \<times> SchedulerConfig" where
  "InjectScheduler cfg R dt fuel now =
     (let keyBuilder = provideKeyBuilder (GetRedisNamespace cfg)
      in (\<lparr>sp_broker = redisBroker R keyBuilder dt fuel now, sp_repo = redisJobRepo R keyBuilder dt now,
           sp_queues = redisQueueRepo R keyBuilder\<rparr>,
          SchedulerConfig_withDefaults (GetSchedulerConfig cfg)))"

section \<open>A job through the interface\<close>

text \<open>
  C23. The deployed interface over Redis, on a working connection. A \<open>POST\<close> whose fields pass the validation of the request
  and whose key is free is answered 201; \<open>GET /api/v1/jobs/:job_id\<close> with the identifier of the answer is
  answered 200 with the job as stored; and repeating the \<open>POST\<close> \<open>d\<close> milliseconds later, whatever identifier and instant the
  process draws for it, is answered 200 with that job and stores nothing while the configured lifetime of idempotency
  claims has not passed, and 201 with a second job afterwards.
\<close>

theorem api_redis_round_trip:
  assumes "redis_server R L" and "L (c_redis c) m" and "c_net c = []"
    and "typed (provideKeyBuilder (GetRedisNamespace cfg)) m" and "holders_valid (provideKeyBuilder (GetRedisNamespace cfg)) m"
    and "tags_hold req" and "buildJob newID now req = Inr job" and "j_idempotencyKey job \<noteq> ''''"
    and "document (provideKeyBuilder (GetRedisNamespace cfg)) m (j_id job) = None"
    and "holder (provideKeyBuilder (GetRedisNamespace cfg)) m (j_idempotencyKey job) = None"
  shows "\<exists>c1 c2 m1.
    serve (hs_EnqueueJob (InjectHandlers cfg R dt fuel handlers) newID now (Inr req)) c =
      (c1, 201, EnqueueBody (ToEnqueueJobRes job False)) \<and> L (c_redis c1) m1 \<and>
    serve (hs_GetJob (InjectHandlers cfg R dt fuel handlers) now (j_id job)) c1 = (c2, 200, JobBody (ToJobRes (stored job))) \<and>
    (\<forall>d newID' now' job'. 0 \<le> d \<longrightarrow> buildJob newID' now' req = Inr job' \<longrightarrow>
       (if claim_lasts (effectiveTTL (GetEnqueuerConfig cfg)) d
        then \<exists>c3. serve (hs_EnqueueJob (InjectHandlers cfg R dt fuel handlers) newID' now' (Inr req)) (elapse R d c1) =
          (c3, 200, EnqueueBody (ToEnqueueJobRes (stored job) True)) \<and> L (c_redis c3) (ref_elapse d m1)
        else document (provideKeyBuilder (GetRedisNamespace cfg)) (ref_elapse d m1) (j_id job') = None \<longrightarrow>
          (\<exists>c3. serve (hs_EnqueueJob (InjectHandlers cfg R dt fuel handlers) newID' now' (Inr req)) (elapse R d c1) =
             (c3, 201, EnqueueBody (ToEnqueueJobRes job' False)))))"
  using api_round_trip [OF assms, of dt fuel "GetEnqueuerConfig cfg"]
  unfolding InjectHandlers_def Let_def Handlers.select_convs .

lemma empty_redis:
  "ref_rel (c_redis \<lparr>c_redis = Map.empty, c_net = []\<rparr>) Map.empty" "j_idempotencyKey sample_built \<noteq> ''''"
  "document kb Map.empty (j_id sample_built) = None" "holder kb Map.empty (j_idempotencyKey sample_built) = None"
  "holders_valid kb Map.empty"
  using empty_holder by (simp_all add: sample_key)

theorem api_redis_round_trip_witness:
  "\<exists>c1 c2. serve (hs_EnqueueJob (InjectHandlers Default Ref sample_texts 5 NewHandlerRegistry) ''a1'' 1000 (Inr sample_req))
       \<lparr>c_redis = Map.empty, c_net = []\<rparr> = (c1, 201, EnqueueBody (ToEnqueueJobRes sample_built False)) \<and>
     serve (hs_GetJob (InjectHandlers Default Ref sample_texts 5 NewHandlerRegistry) 1000 ''a1'') c1 =
       (c2, 200, JobBody (ToJobRes (stored sample_built)))"
proof -
  note T = api_redis_round_trip [where R = Ref and L = ref_rel and c = "\<lparr>c_redis = Map.empty, c_net = []\<rparr>" and m = Map.empty and
      cfg = Default and req = sample_req and newID = "''a1''" and now = 1000 and job = sample_built and dt = sample_texts and
      fuel = 5 and handlers = NewHandlerRegistry,
      OF ref.redis_server_axioms empty_redis(1) conn.select_convs(2) typed_empty empty_redis(5) sample_tags sample_buildJob empty_redis(2-4)]
  then show ?thesis unfolding sample_key(2) by (elim exE conjE) (intro exI conjI)
qed

section \<open>Starting the pool on Redis\<close>

context redis_server
begin

lemma sim_register_loop:
  "sim (conn_rel L) (=) (register_loop (redisQueueRepo R kb) qs acc) (register_loop (redisQueueRepo reference kb) qs acc)"
proof (induction qs arbitrary: acc)
  case (Cons nw qs)
  obtain n w where nw: "nw = (n, w)" by (cases nw)
  have step: "register_loop Q (nw # qs) acc =
      (case NewQueueName n of Inl e \<Rightarrow> failS e | Inr name \<Rightarrow> (case NewWeight w of Inl e \<Rightarrow> failS e
       | Inr weight \<Rightarrow> andThenS (queues_Register Q (NewQueue name weight))
           (\<lambda>_. register_loop Q qs (acc @ [NewQueue name weight]))))" for Q :: "'x conn IQueueRepo"
    by (auto simp: nw fun_eq_iff andThenS_def split: sum.split prod.split)
  have reg: "queues_Register (redisQueueRepo P kb) = RQ_Register P kb" for P :: "'x redis"
    by (simp add: redisQueueRepo_def)
  show ?case
    unfolding step reg using Cons
    by (cases "NewQueueName n"; cases "NewWeight w"; simp only: sum.case) (blast intro: sim_failS sim_andThenS [OF sim_register])+
qed (simp add: sim_def sum.rel_refl)

end

definition entry_ok :: "string \<times> uint8 \<Rightarrow> bool" where
  "entry_ok e \<longleftrightarrow> queueNamePattern (fst e) \<and> 1 \<le> snd e \<and> snd e \<le> 100"

abbreviation configured :: "(string \<times> uint8) list \<Rightarrow> Queue list" where
  "configured \<equiv> map (\<lambda>(n, w). NewQueue n w)"

lemma entry_names: "entry_ok (n, w) \<Longrightarrow> NewQueueName n = Inr n \<and> NewWeight w = Inr w"
  by (auto simp: entry_ok_def pattern_NewQueueName NewWeight_def weight_limits)

lemma ref_register_loop:
  assumes "typed kb (c_redis c)" "c_net c = []" "list_all entry_ok qs"
  shows "\<exists>c'. register_loop (redisQueueRepo (RefN tn) kb) qs acc c = (c', Inr (acc @ configured qs)) \<and>
    typed kb (c_redis c') \<and> c_net c' = [] \<and> document kb (c_redis c') = document kb (c_redis c)"
  using assms
proof (induction qs arbitrary: acc c)
  case (Cons nw qs)
  obtain n w where nw: "nw = (n, w)" by (cases nw)
  have e: "NewQueueName n = Inr n" "NewWeight w = Inr w" using entry_names Cons.prems(3) nw by auto
  have q: "queueNamePattern (q_name (NewQueue n w))" using Cons.prems(3) nw by (simp add: entry_ok_def NewQueue_def)
  obtain c1 r where R: "RQ_Register (RefN tn) kb (NewQueue n w) c = (c1, r)" by fastforce
  note K = ref_Register [OF Cons.prems(1) q R]
  have c1: "r = Inr ()" "c_net c1 = []" using K(3) [OF Cons.prems(2)] Cons.prems(2) by simp_all
  have t: "typed kb (c_redis c1)" "document kb (c_redis c1) = document kb (c_redis c)" using K(1) by (simp_all add: registers_def)
  obtain c' where "register_loop (redisQueueRepo (RefN tn) kb) qs (acc @ [NewQueue n w]) c1 =
      (c', Inr ((acc @ [NewQueue n w]) @ configured qs)) \<and>
      typed kb (c_redis c') \<and> c_net c' = [] \<and> document kb (c_redis c') = document kb (c_redis c1)"
    using Cons.IH [OF t(1) c1(2)] Cons.prems(3) by fastforce
  then show ?case using e R c1(1) t(2) by (auto simp: nw redisQueueRepo_def)
qed simp

lemma registered_on_redis:
  assumes "redis_server R L" "L (c_redis s) m" "c_net s = []" "typed kb m" "list_all entry_ok qs"
    and "register_loop (redisQueueRepo R kb) qs [] s = (s1, r)"
  shows "r = Inr (configured qs) \<and> (\<exists>m'. L (c_redis s1) m' \<and> document kb m' = document kb m)"
proof -
  let ?d = "\<lparr>c_redis = m, c_net = c_net s\<rparr>"
  have rel: "conn_rel L s ?d" using assms(2) by (simp add: conn_rel_def)
  obtain d' where d': "register_loop (redisQueueRepo (RefN (r_tonumber R)) kb) qs [] ?d = (d', Inr ([] @ configured qs))"
    "document kb (c_redis d') = document kb m"
    using ref_register_loop [of kb ?d qs "r_tonumber R" "[]"] assms(3-5) by auto
  from simD [OF redis_server.sim_register_loop [OF assms(1)] rel assms(6)] d' show ?thesis
    by (auto simp: sum.rel_eq conn_rel_def)
qed

lemma active_configured: "active_queues (map Some (configured qs)) = configured qs"
  by (induction qs) (auto simp: NewQueue_def)

text \<open>
  C24. Starting the configured pool on Redis, over a working connection. A valid configuration whose queues have
  different names, each of a queue name's form and with a weight between 1 and 100, starts: the pool has exactly the
  configured number of workers, all at the top of their loops, drains exactly the configured queues, the heaviest first and
  names in order among equals, and no stored job changes.
\<close>

theorem redis_pool_starts:
  assumes "redis_server R L" and "L (c_redis (w_store w)) m" and "c_net (w_store w) = []"
    and "typed (provideKeyBuilder (GetRedisNamespace cfg)) m"
    and "Validate cfg = None" and "wc_Enabled (cfg_Worker cfg)"
    and "list_all entry_ok (wc_Queues (cfg_Worker cfg))" and "distinct (map fst (wc_Queues (cfg_Worker cfg)))"
  shows "\<exists>p m'. case InjectWorkerPool cfg R dt fuel now handlers of (P, pool) \<Rightarrow>
    Start P pool bufs (NewPool w) = (p, Inr ()) \<and> pl_started p \<and>
    int (length (pl_workers p)) = wc_Concurrency (cfg_Worker cfg) \<and> (\<forall>wk \<in> set (pl_workers p). wk_phase wk = Top) \<and>
    Queues p = map q_name (sort_key queue_rank (configured (wc_Queues (cfg_Worker cfg)))) \<and>
    L (c_redis (w_store (pl_world p))) m' \<and>
    document (provideKeyBuilder (GetRedisNamespace cfg)) m' = document (provideKeyBuilder (GetRedisNamespace cfg)) m"
proof -
  let ?kb = "provideKeyBuilder (GetRedisNamespace cfg)" and ?qs = "wc_Queues (cfg_Worker cfg)"
  let ?pool = "PoolConfig_withDefaults (GetWorkerPoolConfig cfg)"
  note v = assms(5) [unfolded Validate_None]
  have pool: "pc_Concurrency ?pool = wc_Concurrency (cfg_Worker cfg)" "pc_Queues ?pool = ?qs"
    using pool_config_kept [of "GetWorkerPoolConfig cfg"] assms(6) v by (simp_all add: GetWorkerPoolConfig_def)
  have ne: "?qs \<noteq> []" and pos: "0 < wc_Concurrency (cfg_Worker cfg)" using v assms(6) by auto
  obtain s1 r where L: "register_loop (redisQueueRepo R ?kb) ?qs [] (w_store w) = (s1, r)" by fastforce
  obtain m' where r: "r = Inr (configured ?qs)" "L (c_redis s1) m'" "document ?kb m' = document ?kb m"
    using registered_on_redis [OF assms(1-4,7) L] by blast
  have "q_weight q \<noteq> 0" if "q \<in> set (configured ?qs)" for q using that by (auto simp: NewQueue_def weight_limits split: if_splits)
  moreover have "map q_name (configured ?qs) = map fst ?qs" by (auto simp: NewQueue_def)
  ultimately have order: "dedupeQueues (BuildDequeueOrder (map Some (configured ?qs))) =
      map q_name (sort_key queue_rank (configured ?qs))"
    using assms(8) by (intro dedupe_BuildDequeueOrder [of "map Some (configured ?qs)", unfolded active_configured]) metis+
  have "BuildDequeueOrder (map Some (configured ?qs)) \<noteq> []" using registered_order [OF ne L [unfolded r(1)]] .
  then show ?thesis
    using L r order [unfolded dedupeQueues_def] pos
    by (simp add: dedupe_def InjectWorkerPool_def Start_def registerQueues_def onStore_def NewPool_def Let_def pool Queues_def)
      blast
qed

theorem redis_pool_starts_witness:
  "\<exists>p. (case InjectWorkerPool Default Ref sample_texts 5 0 NewHandlerRegistry of (P, pool) \<Rightarrow>
     Start P pool (\<lambda>i. replicate 16 0) (NewPool \<lparr>w_store = \<lparr>c_redis = Map.empty, c_net = []\<rparr>, w_metrics = []\<rparr>)) = (p, Inr ()) \<and>
     length (pl_workers p) = 10 \<and> Queues p = [''critical'', ''default'', ''low'']"
proof -
  have "Validate Default = None" "wc_Enabled (cfg_Worker Default)" "list_all entry_ok (wc_Queues (cfg_Worker Default))"
    "distinct (map fst (wc_Queues (cfg_Worker Default)))" "wc_Concurrency (cfg_Worker Default) = 10"
    by (simp_all add: Validate_None Default_def entry_ok_def queueNamePattern_def matches_name_def queue_head_def queue_tail_def is_lower_def is_digit_def)
  moreover have "map q_name (sort_key queue_rank (configured (wc_Queues (cfg_Worker Default)))) = [''critical'', ''default'', ''low'']"
    by (simp add: Default_def NewQueue_def queue_rank_def)
  ultimately show ?thesis
    using redis_pool_starts [OF ref.redis_server_axioms,
        of "\<lparr>w_store = \<lparr>c_redis = Map.empty, c_net = []\<rparr>, w_metrics = []\<rparr>" Map.empty Default
          "\<lambda>i. replicate 16 0" sample_texts 5 0 NewHandlerRegistry]
    by (auto split: prod.splits)
qed

end
