(* ===== verification/Telemetry.thy ===== *)
theory Telemetry
  imports Scheduler
begin

text \<open>
  The Prometheus recorder (\<open>src/pkg/infrastructure/metrics/prometheus/recorder.go\<close>). The client library is not part of
  the sources: its collectors are a record of operations on a registry of any type, and the locale
  \<open>prom_registry\<close> says what an increment, an observation and an assignment do to what a scrape reads. An
  observation is handed over as a duration, which the library receives in seconds.
\<close>

section \<open>Collectors\<close>

record 'r collectors =
  pm_Inc :: "string \<Rightarrow> string list \<Rightarrow> 'r \<Rightarrow> 'r"
  pm_Observe :: "string \<Rightarrow> string list \<Rightarrow> duration \<Rightarrow> 'r \<Rightarrow> 'r"
  pm_Set :: "string \<Rightarrow> string list \<Rightarrow> int \<Rightarrow> 'r \<Rightarrow> 'r"

locale prom_registry =
  fixes C :: "'r collectors"
    and counter :: "string \<Rightarrow> string list \<Rightarrow> 'r \<Rightarrow> nat"
    and histogram :: "string \<Rightarrow> string list \<Rightarrow> 'r \<Rightarrow> duration list"
    and gauge :: "string \<Rightarrow> string list \<Rightarrow> 'r \<Rightarrow> int option"
  assumes Inc_counter: "counter n ls (pm_Inc C n' ls' r) = counter n ls r + (if n = n' \<and> ls = ls' then 1 else 0)"
    and Inc_other: "histogram n ls (pm_Inc C n' ls' r) = histogram n ls r" "gauge n ls (pm_Inc C n' ls' r) = gauge n ls r"
    and Observe_histogram: "histogram n ls (pm_Observe C n' ls' d r) = histogram n ls r @ (if n = n' \<and> ls = ls' then [d] else [])"
    and Observe_other: "counter n ls (pm_Observe C n' ls' d r) = counter n ls r" "gauge n ls (pm_Observe C n' ls' d r) = gauge n ls r"
    and Set_gauge: "gauge n ls (pm_Set C n' ls' v r) = (if n = n' \<and> ls = ls' then Some v else gauge n ls r)"
    and Set_other: "counter n ls (pm_Set C n' ls' v r) = counter n ls r" "histogram n ls (pm_Set C n' ls' v r) = histogram n ls r"

text \<open>The values of a registry that only stores what it is told.\<close>

record registry_state =
  rg_counter :: "string \<Rightarrow> string list \<Rightarrow> nat"
  rg_histogram :: "string \<Rightarrow> string list \<Rightarrow> duration list"
  rg_gauge :: "string \<Rightarrow> string list \<Rightarrow> int option"

definition empty_registry :: registry_state where
  "empty_registry = \<lparr>rg_counter = (\<lambda>_ _. 0), rg_histogram = (\<lambda>_ _. []), rg_gauge = (\<lambda>_ _. None)\<rparr>"

definition memory_collectors :: "registry_state collectors" where
  "memory_collectors =
     \<lparr>pm_Inc = (\<lambda>n ls r. r\<lparr>rg_counter := (rg_counter r)(n := (rg_counter r n)(ls := rg_counter r n ls + 1))\<rparr>),
      pm_Observe = (\<lambda>n ls d r. r\<lparr>rg_histogram := (rg_histogram r)(n := (rg_histogram r n)(ls := rg_histogram r n ls @ [d]))\<rparr>),
      pm_Set = (\<lambda>n ls v r. r\<lparr>rg_gauge := (rg_gauge r)(n := (rg_gauge r n)(ls := Some v))\<rparr>)\<rparr>"

interpretation memory: prom_registry memory_collectors "\<lambda>n ls r. rg_counter r n ls" "\<lambda>n ls r. rg_histogram r n ls"
  "\<lambda>n ls r. rg_gauge r n ls"
  by unfold_locales (auto simp: memory_collectors_def)

section \<open>The recorder\<close>

definition Prom_RecordJobProcessed :: "'r collectors \<Rightarrow> QueueName \<Rightarrow> TaskType \<Rightarrow> Outcome \<Rightarrow> 'r \<Rightarrow> 'r" where
  "Prom_RecordJobProcessed C queue taskType outcome =
     pm_Inc C ''jobs_processed_total'' [queue, taskType, Outcome_String outcome]"

definition Prom_RecordJobDuration :: "'r collectors \<Rightarrow> QueueName \<Rightarrow> TaskType \<Rightarrow> duration \<Rightarrow> 'r \<Rightarrow> 'r" where
  "Prom_RecordJobDuration C queue taskType d = pm_Observe C ''job_processing_duration_seconds'' [queue, taskType] d"

definition Prom_RecordJobRetry :: "'r collectors \<Rightarrow> QueueName \<Rightarrow> TaskType \<Rightarrow> 'r \<Rightarrow> 'r" where
  "Prom_RecordJobRetry C queue taskType = pm_Inc C ''job_retries_total'' [queue, taskType]"

definition failure_label :: "string \<Rightarrow> string" where
  "failure_label reason = (if reason = '''' then ''unknown'' else reason)"

definition Prom_RecordJobFailed :: "'r collectors \<Rightarrow> QueueName \<Rightarrow> TaskType \<Rightarrow> string \<Rightarrow> 'r \<Rightarrow> 'r" where
  "Prom_RecordJobFailed C queue taskType reason =
     pm_Inc C ''jobs_failed_total'' [queue, taskType, failure_label reason]"

definition Prom_SetQueueDepth :: "'r collectors \<Rightarrow> QueueName \<Rightarrow> JobState \<Rightarrow> int \<Rightarrow> 'r \<Rightarrow> 'r" where
  "Prom_SetQueueDepth C queue state depth = pm_Set C ''queue_depth'' [queue, JobState_String state] (fl64 depth)"

definition Prom_SetActiveWorkers :: "'r collectors \<Rightarrow> int \<Rightarrow> 'r \<Rightarrow> 'r" where
  "Prom_SetActiveWorkers C n = pm_Set C ''active_workers'' [] (fl64 n)"

text \<open>The measurements of the port, as the recorder forwards them.\<close>

fun Recorder :: "'r collectors \<Rightarrow> Metric \<Rightarrow> 'r \<Rightarrow> 'r" where
  "Recorder C (RecordJobProcessed queue taskType outcome) = Prom_RecordJobProcessed C queue taskType outcome"
| "Recorder C (RecordJobDuration queue taskType d) = Prom_RecordJobDuration C queue taskType d"
| "Recorder C (RecordJobRetry queue taskType) = Prom_RecordJobRetry C queue taskType"
| "Recorder C (RecordJobFailed queue taskType reason) = Prom_RecordJobFailed C queue taskType reason"
| "Recorder C (SetQueueDepth queue state depth) = Prom_SetQueueDepth C queue state depth"
| "Recorder C (SetActiveWorkers n) = Prom_SetActiveWorkers C n"

lemmas recorder_defs = Prom_RecordJobProcessed_def Prom_RecordJobDuration_def Prom_RecordJobRetry_def
  Prom_RecordJobFailed_def Prom_SetQueueDepth_def Prom_SetActiveWorkers_def

section \<open>What a scrape shows\<close>

lemma Outcome_String_inject: "Outcome_String a = Outcome_String b \<longleftrightarrow> a = b"
  by (cases a; cases b) (simp_all add: Outcome_String_def)

lemma JobState_String_inject: "JobState_String a = JobState_String b \<longleftrightarrow> a = b"
  by (cases a; cases b) (simp_all add: JobState_String_def)

text \<open>The failures of a log with a label, and the last depth it reports.\<close>

definition failures :: "QueueName \<Rightarrow> TaskType \<Rightarrow> string \<Rightarrow> Metric list \<Rightarrow> nat" where
  "failures q t l ms =
     length (filter (\<lambda>m. case m of RecordJobFailed q' t' r \<Rightarrow> q' = q \<and> t' = t \<and> failure_label r = l | _ \<Rightarrow> False) ms)"

definition durations :: "QueueName \<Rightarrow> TaskType \<Rightarrow> Metric list \<Rightarrow> duration list" where
  "durations q t ms = concat (map (\<lambda>m. case m of RecordJobDuration q' t' d \<Rightarrow> if q' = q \<and> t' = t then [d] else [] | _ \<Rightarrow> []) ms)"

fun last_depth :: "QueueName \<Rightarrow> JobState \<Rightarrow> int option \<Rightarrow> Metric list \<Rightarrow> int option" where
  "last_depth q st v [] = v"
| "last_depth q st v (SetQueueDepth q' st' n # ms) = last_depth q st (if q' = q \<and> st' = st then Some (fl64 n) else v) ms"
| "last_depth q st v (m # ms) = last_depth q st v ms"

lemma last_depth_Cons: "last_depth q st v (m # ms) = last_depth q st (last_depth q st v [m]) ms"
  by (cases m) simp_all

context prom_registry
begin

lemma recorder_step:
  "counter ''jobs_processed_total'' [q, t, Outcome_String out] (Recorder C m r) =
     counter ''jobs_processed_total'' [q, t, Outcome_String out] r + count_list [m] (RecordJobProcessed q t out)"
  "counter ''job_retries_total'' [q, t] (Recorder C m r) =
     counter ''job_retries_total'' [q, t] r + count_list [m] (RecordJobRetry q t)"
  "counter ''jobs_failed_total'' [q, t, l] (Recorder C m r) = counter ''jobs_failed_total'' [q, t, l] r + failures q t l [m]"
  "histogram ''job_processing_duration_seconds'' [q, t] (Recorder C m r) =
     histogram ''job_processing_duration_seconds'' [q, t] r @ durations q t [m]"
  "gauge ''queue_depth'' [q, JobState_String st] (Recorder C m r) =
     last_depth q st (gauge ''queue_depth'' [q, JobState_String st] r) [m]"
  by (cases m; auto simp: recorder_defs Inc_counter Inc_other Observe_histogram Observe_other Set_gauge Set_other
      failures_def durations_def Outcome_String_inject JobState_String_inject)+

lemma recorder_log:
  "counter ''jobs_processed_total'' [q, t, Outcome_String out] (fold (Recorder C) ms r) =
     counter ''jobs_processed_total'' [q, t, Outcome_String out] r + count_list ms (RecordJobProcessed q t out)"
  "counter ''job_retries_total'' [q, t] (fold (Recorder C) ms r) =
     counter ''job_retries_total'' [q, t] r + count_list ms (RecordJobRetry q t)"
  "counter ''jobs_failed_total'' [q, t, l] (fold (Recorder C) ms r) = counter ''jobs_failed_total'' [q, t, l] r + failures q t l ms"
  "histogram ''job_processing_duration_seconds'' [q, t] (fold (Recorder C) ms r) =
     histogram ''job_processing_duration_seconds'' [q, t] r @ durations q t ms"
  "gauge ''queue_depth'' [q, JobState_String st] (fold (Recorder C) ms r) =
     last_depth q st (gauge ''queue_depth'' [q, JobState_String st] r) ms"
proof (induction ms arbitrary: r)
  case (Cons m ms)
  { case 1 show ?case using Cons(1) by (simp add: recorder_step(1)) }
  { case 2 show ?case using Cons(2) by (simp add: recorder_step(2)) }
  { case 3 show ?case using Cons(3) by (simp add: recorder_step(3) failures_def) }
  { case 4 show ?case using Cons(4) by (simp add: recorder_step(4) durations_def) }
  { case 5 show ?case using Cons(5) by (simp only: fold_simps recorder_step(5) last_depth_Cons [of q st _ m ms]) }
qed (simp_all add: failures_def durations_def)

end

text \<open>
  What a scrape shows is what the services reported. Whatever the log of measurements, the throughput, retry and failure
  counters of a queue and a task type have grown by exactly the reported events, a failure without a
  reason counted as unknown; the latency histogram has received exactly the reported durations; and the depth of a
  queue and a state is the last one reported.
\<close>

theorem scrape_shows_reports:
  assumes "prom_registry C counter histogram gauge"
  shows "counter ''jobs_processed_total'' [q, t, Outcome_String out] (fold (Recorder C) ms r) =
      counter ''jobs_processed_total'' [q, t, Outcome_String out] r + count_list ms (RecordJobProcessed q t out) \<and>
    counter ''job_retries_total'' [q, t] (fold (Recorder C) ms r) =
      counter ''job_retries_total'' [q, t] r + count_list ms (RecordJobRetry q t) \<and>
    counter ''jobs_failed_total'' [q, t, l] (fold (Recorder C) ms r) =
      counter ''jobs_failed_total'' [q, t, l] r + failures q t l ms \<and>
    histogram ''job_processing_duration_seconds'' [q, t] (fold (Recorder C) ms r) =
      histogram ''job_processing_duration_seconds'' [q, t] r @ durations q t ms \<and>
    gauge ''queue_depth'' [q, JobState_String st] (fold (Recorder C) ms r) =
      last_depth q st (gauge ''queue_depth'' [q, JobState_String st] r) ms"
  using prom_registry.recorder_log [OF assms] by simp

text \<open>
  Depths. After the scheduler has sampled a queue, its six depth gauges show the number of its jobs in each state
  (rounded to a \<open>float64\<close>), whatever they showed before.
\<close>

theorem sampled_depths:
  assumes "prom_registry C counter histogram gauge" and "store_ok (w_store w)"
  shows "\<exists>ms. sampleQueueDepth fakeQueues q w = (w\<lparr>w_metrics := w_metrics w @ ms\<rparr>, Inr ()) \<and>
    gauge ''queue_depth'' [q, JobState_String st] (fold (Recorder C) ms r) = Some (fl64 (jobs_in (w_store w) q st))"
proof -
  let ?ms = "map (\<lambda>st. SetQueueDepth q st (jobs_in (w_store w) q st))
       [StatePending, StateActive, StateScheduled, StateRetrying, StateCompleted, StateDead]"
  have "gauge ''queue_depth'' [q, JobState_String st] (fold (Recorder C) ?ms r) = Some (fl64 (jobs_in (w_store w) q st))"
    unfolding prom_registry.recorder_log(5) [OF assms(1)] by (cases st) simp_all
  then show ?thesis using sampleQueueDepth_counts [OF assms(2), of q] by blast
qed

theorem sampled_depths_witness:
  "\<exists>ms. sampleQueueDepth fakeQueues ''default'' \<lparr>w_store = sample_store, w_metrics = []\<rparr> =
      (\<lparr>w_store = sample_store, w_metrics = ms\<rparr>, Inr ()) \<and>
    rg_gauge (fold (Recorder memory_collectors) ms empty_registry) ''queue_depth'' [''default'', ''pending''] =
      Some (fl64 (jobs_in sample_store ''default'' StatePending))"
  using sampled_depths [OF memory.prom_registry_axioms, where w = "\<lparr>w_store = sample_store, w_metrics = []\<rparr>" and q = "''default''" and
      st = StatePending and r = empty_registry] sample_store_ok by (auto simp: JobState_String_def)

end
