(* ===== verification/Spec2Isabelle.thy ===== *)
theory Spec2Isabelle
  imports Deployment Telemetry
begin

text \<open>
  GoQueue is a job queue: producers enqueue jobs over HTTP, workers lease and execute them, failed jobs are
  retried with backoff until their budget is spent, and a scheduler promotes due jobs, recovers
  lost ones and trims old ones. The program is layered: value objects and aggregates hold the
  rules, persistence ports describe stores, application services combine the two, and the
  infrastructure provides a Redis store, a worker pool, the scheduler and the configuration, and an HTTP server and
  an entry point put them together. This development models all of these layers, one theory or more for each part.

  \<^bold>\<open>Theories and sources\<close> (under \<open>src/\<close>)

  \<^item> \<open>Goq_Prelude\<close>: what the program uses of Go: 64-bit wrap-around (\<open>wrap64\<close>), saturating
    durations, float64 rounding (\<open>fl64\<close>), \<open>strings\<close>, \<open>sort.SliceStable\<close>, maps as association lists, and
    the collections \<open>inv_intros\<close> and others that carry the component proofs.
  \<^item> \<open>App_Errors\<close>: \<open>pkg/common/errors/errors.go\<close> and the status mapping of
    \<open>pkg/api/middleware/error_handler.go\<close>. Every error return of the program is a value
    \<open>Inl e\<close> of the type \<open>'a result\<close>.
  \<^item> \<open>Value_Objects\<close>, \<open>Retry_Policy\<close>, \<open>Job_Aggregate\<close>: \<open>pkg/domain/job_aggregate\<close>. A job is a record with the
    fields of the Go struct; each method is a function from the job to its new version or an error.
  \<^item> \<open>Queue_Aggregate\<close>: \<open>pkg/domain/queue_aggregate\<close> with the weighted polling order.
  \<^item> \<open>Ports\<close>: \<open>pkg/domain/persistence\<close>. An interface is a record of operations over a store of any
    type; what its clients rely on is a locale: \<open>enqueue_ports\<close>, \<open>outcome_ports\<close>, \<open>operator_ports\<close>, \<open>worker_ports\<close>,
    \<open>pool_ports\<close> and \<open>sweep_port\<close>.
  \<^item> \<open>Fake_Store\<close>: \<open>pkg/domain/persistence/fake/fake.go\<close>. Every method is one step under the
    mutex. All locales of \<open>Ports\<close> are interpreted on it.
  \<^item> \<open>Go_Time\<close>, \<open>Hydrator\<close>: RFC 3339 and duration rendering, and \<open>pkg/hydrator\<close> with \<open>pkg/contracts\<close>.
  \<^item> \<open>Enqueuer\<close>, \<open>Processor\<close>, \<open>Inspector\<close>: the services of \<open>pkg/application\<close>; \<open>Metrics\<close> is the
    measurement port, a log of recordings next to the store; \<open>Uid\<close> is \<open>pkg/common/uid\<close>.
  \<^item> \<open>Worker_Pool\<close>: \<open>pkg/infrastructure/worker/pool.go\<close>. The goroutines are entries with the point
    their loop has reached; \<open>run_step\<close> advances one of them by one action on shared state, and \<open>pool_step\<close>
    interleaves them with \<open>Start\<close>, \<open>Stop\<close> and the rest of the system, which may do anything that keeps the store's
    invariant; \<open>pool_run\<close> keeps track of the jobs that the rest of the system takes away from their workers.
  \<^item> \<open>Scheduler\<close>: \<open>pkg/infrastructure/scheduler/scheduler.go\<close>, the four sweeps and their loops.
  \<^item> \<open>Telemetry\<close>: \<open>pkg/infrastructure/metrics/prometheus/recorder.go\<close>, over the collectors of the client library, whose
    effect on a scrape is the locale \<open>prom_registry\<close>.
  \<^item> \<open>Redis_Keys\<close>: \<open>keys.go\<close> and \<open>sort.go\<close> of \<open>pkg/infrastructure/persistence/redis\<close>.
  \<^item> \<open>Go_Text\<close>, \<open>Go_Json\<close>: what the encoding of documents uses of \<open>strconv\<close>, \<open>encoding/base64\<close>, \<open>unicode/utf8\<close>
    and \<open>encoding/json\<close>. \<open>Redis_Model\<close>: \<open>job_model.go\<close>.
  \<^item> \<open>Redis_Server\<close>: the commands of a Redis server as a record, a parameter of everything below; the
    reference server that states their documented behaviour; the locale \<open>redis_server\<close> that says a server
    behaves so; and the connection. \<open>Redis_Scripts\<close>: \<open>script/*.lua\<close>. \<open>Redis_Layout\<close>: what the keys of a
    deployment hold, and the effect of the scripts in these terms.
  \<^item> \<open>Redis_Broker\<close>: \<open>job_broker.go\<close>; \<open>Redis_Repo\<close>: \<open>job_repo.go\<close>; \<open>Redis_Queues\<close>: \<open>queue_repo.go\<close> and
    \<open>idempotency_store.go\<close>. \<open>Redis_Types\<close> and \<open>Redis_Sweeps\<close> hold what concerns several of their operations.
  \<^item> \<open>Redis_Service\<close>: the enqueuer on the Redis stores; the contract \<open>enqueue_ports\<close> is interpreted on them, so
    what is proved of the service in general holds for them.
  \<^item> \<open>Config\<close>: \<open>pkg/infrastructure/config\<close>, \<open>client.go\<close> and \<open>script/scripts.go\<close>. \<open>Lifecycle\<close>: \<open>cmd/main.go\<close>,
    the shutdown of \<open>cmd/server/server.go\<close>, and the registration of \<open>pkg/tasks/tasks.go\<close>.
  \<^item> \<open>Web_Api\<close>: \<open>pkg/api/handlers\<close>, \<open>pkg/api/middleware\<close> and the routes of \<open>cmd/server\<close>. A handler is a call that
    ends in a response or an error; \<open>serve\<close> is the middleware around it.
  \<^item> \<open>Deployment\<close>: the object graph of \<open>pkg/di/wire_gen.go\<close>, and what the assembled parts do on Redis.

  \<^bold>\<open>How code is modelled.\<close> State is passed explicitly. The clock, random numbers and generated
  identifiers are arguments, in the order the code reads them; a handler is a function to what is seen of its
  run. Log output is left out. An \<open>int64\<close> is an \<open>int\<close> with the wrap-around written where
  an operation can overflow; \<open>uint8\<close> and \<open>uint32\<close> are words. Go maps are association
  lists; results that could depend on their iteration order are shown not to (\<open>dequeue_order_independent\<close>).

  \<^bold>\<open>How Redis is modelled.\<close> The server is not part of the sources. A call runs a command, a transaction or
  a script on it without interruption. A property assumes \<open>redis_server R L\<close>: every command of \<open>R\<close> simulates the
  reference command, with \<open>L\<close> relating server states to reference states; the order of \<open>HGETALL\<close> and \<open>SMEMBERS\<close>
  is left open. The proofs move to the reference server by simulation and compute there. The client
  library repeats a request whose reply is lost: a connection carries a list of deliveries, each a number
  of executions without a reply and then either a reply or an error, and properties quantify over that list
  or ask for a connection that works (\<open>c_net c = []\<close>). The interpretation of the locale on the reference
  server, and the witnesses on it, show that the assumption can hold. Time passes between calls, not
  during one: \<open>elapse R d\<close> lets \<open>d\<close> milliseconds pass, in which times to live run down and keys expire
  (\<open>ref_elapse\<close>). What depends on how long an idempotency claim lasts (\<open>claim_lasts\<close>) is stated with such pauses.

  \<^bold>\<open>Other code outside the sources\<close> is an argument too: the YAML decoder, the file system and the environment (\<open>Load\<close>),
  the construction of a client and its first contact (\<open>NewClient\<close>), and the binding of HTTP requests, which hands a
  handler a request or an error. What the validator checks of a request body is the predicate \<open>tags_hold\<close>.

  \<^bold>\<open>What is proved\<close>

  \<^item> \<^emph>\<open>Jobs.\<close> Every job moves along the transition table and stays sound (\<open>job_sound\<close>) under any sequence of methods, and is well
    formed (\<open>job_ok\<close>) when \<open>Promote\<close> is called as documented, which its guard does not enforce; the retry budget is exact; a lease
    excludes other workers and lapses when it should; retry delays stay in their window, rounding included, unless a maximum
    delay above 146 years makes them overflow to zero.
  \<^item> \<^emph>\<open>The store.\<close> \<open>Dequeue\<close> picks the best pending job of the first queue with work and never
    hands out a job twice; the sweeps move exactly what they count; pausing, statistics, listing and
    documents behave as documented, while queue weights turn out to be strict priorities.
  \<^item> \<^emph>\<open>Services\<close>, over every store that keeps the contracts: enqueueing is at most once per idempotency
    key, repeatable, and rolled back on failure; an execution is one transition of the job
    (\<open>process_implements_next_version\<close>, a refinement of \<open>next_version\<close>), safe when the store fails and never
    stopped by a handler; operators' actions touch one job only.
  \<^item> \<^emph>\<open>Concurrency.\<close> In every interleaving a job held by a worker is leased to it and held by no other worker, unless the
    rest of the system took it away; a cancelled pool drains within eight steps
    per worker; over the in-memory store the sweep loops clear any backlog.
  \<^item> \<^emph>\<open>Redis.\<close> Over every server that behaves as documented: every key keeps the type its commands expect under any
    sequence of operations (\<open>redis_layout_stays_typed\<close>); no job is handed out twice, whatever the connection
    loses or repeats; a poll claims the best live entry of the first queue with work; enqueueing is atomic;
    outcomes, kills, promotion, recovery, deletion, retention, registration, pausing and claims have the effect
    the code means them to have, and touch nothing else, recovery leaving the lapsed attempt open in the trail. A listing
    looks at the lowest scores of a large set only, so that its pages miss the newest jobs (\<open>redis_list_page\<close>). The lease that recovery goes by is the pool's and not the
    job's (\<open>redis_lease_ignores_timeout\<close>).
  \<^item> \<^emph>\<open>The service on Redis.\<close> Over a working connection a request with a key is stored once, and repetitions return the
    stored job until the claim's time to live has passed and create a new one afterwards; a lost reply of the claim blocks the key, and one of the enqueue script leads to a second job.
  \<^item> \<^emph>\<open>The process.\<close> A loaded configuration reaches the components, durations of the pool that are not positive being replaced by
    its defaults; a valid one starts the pool on
    Redis; responses have the status their outcome asks for, and a job posted is the job read; what was
    started is stopped in order; a scrape shows what was reported. The public port turns out to serve the operators' actions as well.
  \<^item> \<^emph>\<open>Encodings.\<close> A job document decodes to the job that was stored. Names, states, policies and instants round trip; Redis keys do not
    collide and pending scores order jobs as intended, in floating point.

  \<^bold>\<open>Bounds and termination.\<close> Loops run over lists, and the loop of the worker is a step relation. The one loop
  with fuel is that of \<open>dequeue.lua\<close> (\<open>drain\<close>), which pops entries until one has a document: more fuel than
  the set has entries is enough (\<open>drain_enough\<close>), and \<open>claimable\<close> asks for that. Numeric bounds in theorems are
  those of the code's types: \<open>2 ^ 63\<close> for offsets and counts, \<open>10 ^ 14\<close> milliseconds for scores, \<open>2 ^ 53\<close>
  for numbers that Lua must hold exactly. The delay of a retry is bounded for maximum delays up to \<open>2 ^ 62\<close> nanoseconds, and
  the exponential envelope is stated below \<open>2 ^ 53\<close>, where the subtraction of \<open>float64\<close> values is exact; the API admits a day.

  \<^bold>\<open>Not modelled.\<close> The construction of the metrics registry and its page, log
  output, the system clock, the dashboard page and its assets, the listeners and the matching of paths to routes
  are left out, and the bodies of the example tasks, which sleep and log, are arbitrary handlers. In the
  pool and the scheduler the length of waits is not modelled: a wait may end at any time. A Redis command
  that fails half-way through a non-transactional pipeline is not modelled; the pipelines of the program that
  write are transactions. In \<open>run\<close> the components are calls on the state of the process, whose effects are
  modelled in their own theories; a process is not assembled from them as one interleaving.
\<close>

end
